(* ===== verification/Py_Prelude.thy ===== *)
theory Py_Prelude
  imports Main
begin

text \<open>
  Shared vocabulary of the development.  A Python \<open>str\<close> is a \<open>string\<close> of
  characters, one per code point, for code points below 256 (\<open>of_char\<close> is the code
  point); the string methods the sources call are defined here on that range.
  A function that may raise returns a sum: \<open>Inl\<close> the error, \<open>Inr\<close> the value.
\<close>

named_theorems py_simps \<open>equations of the Python string and list helpers\<close>

type_synonym 'a opt_dict = "(string \<times> 'a) list"

section \<open>Results: errors as values\<close>

definition bind_result :: "'e + 'a \<Rightarrow> ('a \<Rightarrow> 'e + 'b) \<Rightarrow> 'e + 'b" where
  "bind_result r f = (case r of Inl e \<Rightarrow> Inl e | Inr a \<Rightarrow> f a)"

lemma bind_result_simps [simp]:
  "bind_result (Inl e) f = Inl e"
  "bind_result (Inr a) f = f a"
  by (simp_all add: bind_result_def)

lemma bind_result_InrE:
  assumes "bind_result r f = Inr b"
  obtains a where "r = Inr a" "f a = Inr b"
  using assms by (cases r) auto

lemma bind_result_Inr_iff:
  "bind_result r f = Inr b \<longleftrightarrow> (\<exists>a. r = Inr a \<and> f a = Inr b)"
  by (cases r) auto

section \<open>Characters\<close>

definition code :: "char \<Rightarrow> nat" where
  "code c = of_char c"

text \<open>\<open>str.isspace\<close>, \<open>str.isdigit\<close>, \<open>str.isalnum\<close> below U+0100.\<close>

definition py_isspace :: "char \<Rightarrow> bool" where
  "py_isspace c \<longleftrightarrow>
     code c = 32 \<or> (9 \<le> code c \<and> code c \<le> 13) \<or> (28 \<le> code c \<and> code c \<le> 31)
     \<or> code c = 133 \<or> code c = 160"

definition is_ascii :: "char \<Rightarrow> bool" where
  "is_ascii c \<longleftrightarrow> code c < 128"

definition ascii_digit :: "char \<Rightarrow> bool" where
  "ascii_digit c \<longleftrightarrow> 48 \<le> code c \<and> code c \<le> 57"

definition ascii_alpha :: "char \<Rightarrow> bool" where
  "ascii_alpha c \<longleftrightarrow> (65 \<le> code c \<and> code c \<le> 90) \<or> (97 \<le> code c \<and> code c \<le> 122)"

definition py_isdigit :: "char \<Rightarrow> bool" where
  "py_isdigit c \<longleftrightarrow> ascii_digit c \<or> code c = 178 \<or> code c = 179 \<or> code c = 185"

definition latin1_alpha :: "char \<Rightarrow> bool" where
  "latin1_alpha c \<longleftrightarrow> ascii_alpha c \<or> code c = 170 \<or> code c = 181 \<or> code c = 186
     \<or> (192 \<le> code c \<and> code c \<noteq> 215 \<and> code c \<noteq> 247)"

definition py_isalnum :: "char \<Rightarrow> bool" where
  "py_isalnum c \<longleftrightarrow> latin1_alpha c \<or> py_isdigit c \<or> code c = 188 \<or> code c = 189 \<or> code c = 190"

definition lower_char :: "char \<Rightarrow> char" where
  "lower_char c =
     (if (65 \<le> code c \<and> code c \<le> 90) \<or> (192 \<le> code c \<and> code c \<le> 222 \<and> code c \<noteq> 215)
      then char_of (code c + 32) else c)"

definition py_lower :: "string \<Rightarrow> string" where
  "py_lower s = map lower_char s"

text \<open>The characters with a role in the grammars.\<close>

abbreviation bt :: char where "bt \<equiv> CHR 0x60"
abbreviation slash :: char where "slash \<equiv> CHR 0x2F"
abbreviation backslash :: char where "backslash \<equiv> CHR 0x5C"
abbreviation dot :: char where "dot \<equiv> CHR 0x2E"
abbreviation colon :: char where "colon \<equiv> CHR 0x3A"
abbreviation tilde :: char where "tilde \<equiv> CHR 0x7E"

text \<open>
  \<open>str.upper\<close>: sharp s becomes two letters; the two letters whose capital lies past U+00FF
  stay as they are (the sources only compare the result with ASCII words).
\<close>

definition upper_char :: "char \<Rightarrow> string" where
  "upper_char c =
     (if code c = 223 then ''SS''
      else if (97 \<le> code c \<and> code c \<le> 122) \<or> (224 \<le> code c \<and> code c \<le> 254 \<and> code c \<noteq> 247)
      then [char_of (code c - 32)] else [c])"

definition py_upper :: "string \<Rightarrow> string" where
  "py_upper s = concat (map upper_char s)"

section \<open>String methods\<close>

definition lstrip_by :: "('a \<Rightarrow> bool) \<Rightarrow> 'a list \<Rightarrow> 'a list" where
  "lstrip_by p s = dropWhile p s"

definition rstrip_by :: "('a \<Rightarrow> bool) \<Rightarrow> 'a list \<Rightarrow> 'a list" where
  "rstrip_by p s = rev (dropWhile p (rev s))"

definition strip_by :: "('a \<Rightarrow> bool) \<Rightarrow> 'a list \<Rightarrow> 'a list" where
  "strip_by p s = rstrip_by p (lstrip_by p s)"

definition py_strip :: "string \<Rightarrow> string" where
  "py_strip s = strip_by py_isspace s"

fun starts_with :: "'a list \<Rightarrow> 'a list \<Rightarrow> bool" where
  "starts_with s [] = True"
| "starts_with [] (p # ps) = False"
| "starts_with (c # s) (p # ps) = (c = p \<and> starts_with s ps)"

definition starts_with_any :: "'a list \<Rightarrow> 'a list list \<Rightarrow> bool" where
  "starts_with_any s ps = list_ex (starts_with s) ps"

text \<open>\<open>s[1:-1]\<close>.\<close>

definition inner_text :: "'a list \<Rightarrow> 'a list" where
  "inner_text s = butlast (drop 1 s)"

text \<open>\<open>s.replace(cc, c)\<close> for a doubled character: left to right, without overlap.\<close>

fun undouble :: "'a \<Rightarrow> 'a list \<Rightarrow> 'a list" where
  "undouble q (a # b # s) = (if a = q \<and> b = q then q # undouble q s else a # undouble q (b # s))"
| "undouble q s = s"

text \<open>\<open>part.replace(bt, bt + bt)\<close> for the backtick.\<close>

definition double_backticks :: "string \<Rightarrow> string" where
  "double_backticks part = concat (map (\<lambda>c. if c = bt then [bt, bt] else [c]) part)"

text \<open>\<open>sep.join(parts)\<close> for a one-character separator.\<close>

fun join_with :: "'a \<Rightarrow> 'a list list \<Rightarrow> 'a list" where
  "join_with sep [] = []"
| "join_with sep [p] = p"
| "join_with sep (p # q # ps) = p @ sep # join_with sep (q # ps)"

text \<open>\<open>s.split(sep)\<close> for a one-character separator: never empty.\<close>

fun split_on :: "'a \<Rightarrow> 'a list \<Rightarrow> 'a list list" where
  "split_on sep [] = [[]]"
| "split_on sep (c # s) =
     (if c = sep then [] # split_on sep s
      else (case split_on sep s of [] \<Rightarrow> [[c]] | p # ps \<Rightarrow> (c # p) # ps))"

text \<open>\<open>s.partition(sep)\<close>: the text before the first separator, and the text after it.\<close>

definition partition_on :: "'a \<Rightarrow> 'a list \<Rightarrow> 'a list \<times> 'a list" where
  "partition_on sep s = (takeWhile (\<lambda>c. c \<noteq> sep) s, drop 1 (dropWhile (\<lambda>c. c \<noteq> sep) s))"

definition str_or_none :: "string \<Rightarrow> string option" where
  "str_or_none s = (if s = [] then None else Some s)"

section \<open>Lemmas the components share\<close>

lemma dropWhile_id: "(xs = [] \<or> \<not> p (hd xs)) \<Longrightarrow> dropWhile p xs = xs"
  by (cases xs) auto

lemma strip_by_id:
  assumes "s \<noteq> []" "\<not> p (hd s)" "\<not> p (last s)"
  shows "strip_by p s = s"
  using assms by (simp add: strip_by_def rstrip_by_def lstrip_by_def dropWhile_id hd_rev)

lemma strip_by_hd:
  assumes "strip_by p s \<noteq> []"
  shows "\<not> p (last (strip_by p s))"
proof -
  have ne: "dropWhile p (rev (dropWhile p s)) \<noteq> []"
    using assms by (simp add: strip_by_def rstrip_by_def lstrip_by_def)
  show ?thesis
    using hd_dropWhile [OF ne] ne
    by (simp add: strip_by_def rstrip_by_def lstrip_by_def last_rev)
qed

lemma starts_with_iff: "starts_with s p \<longleftrightarrow> (\<exists>t. s = p @ t)"
  by (induction s p rule: starts_with.induct) auto

lemma starts_with_append [simp]: "starts_with (p @ t) p"
  by (auto simp: starts_with_iff)

lemma split_on_nonempty [simp]: "split_on sep s \<noteq> []"
  by (induction s) (auto split: list.splits)

lemma join_with_Cons_hd [simp]: "join_with sep ((c # p) # ps) = c # join_with sep (p # ps)"
  by (cases ps) auto

lemma join_split_on: "join_with sep (split_on sep s) = s"
proof (induction s)
  case (Cons c s)
  then show ?case
    by (cases "split_on sep s") auto
qed simp

lemma join_with_Cons: "ps \<noteq> [] \<Longrightarrow> join_with sep (p # ps) = p @ sep # join_with sep ps"
  by (cases ps) auto

lemma hd_join_with: "p \<noteq> [] \<Longrightarrow> hd (join_with sep (p # ps)) = hd p"
  by (cases ps) auto

lemma join_with_nonempty: "ps \<noteq> [] \<Longrightarrow> last ps \<noteq> [] \<Longrightarrow> join_with sep ps \<noteq> []"
  by (induction sep ps rule: join_with.induct) auto

lemma last_join_with:
  "ps \<noteq> [] \<Longrightarrow> last ps \<noteq> [] \<Longrightarrow> last (join_with sep ps) = last (last ps)"
  by (induction sep ps rule: join_with.induct) (auto simp: join_with_nonempty split: if_splits)

lemma code_lits [simp]:
  "code bt = 96" "code slash = 47" "code backslash = 92" "code dot = 46" "code colon = 58" "code tilde = 126"
  "code (CHR ''_'') = 95"
  by (simp_all add: code_def)

lemma strip_by_none: "(\<forall>x\<in>set xs. \<not> p x) \<Longrightarrow> strip_by p xs = xs"
proof -
  assume a: "\<forall>x\<in>set xs. \<not> p x"
  have "dropWhile p xs = xs" using a by (cases xs) auto
  moreover have "dropWhile p (rev xs) = rev xs" using a by (cases "rev xs") (auto simp: dropWhile_id dest: arg_cong [of _ _ set])
  ultimately show ?thesis by (simp add: strip_by_def lstrip_by_def rstrip_by_def)
qed

lemma lower_char_fixed:
  assumes "code d < 97" "\<not> (65 \<le> code d \<and> code d \<le> 90)"
  shows "lower_char c = d \<longleftrightarrow> c = d"
proof -
  have b: "code c < 256" unfolding code_def by (metis mod_less_divisor of_char_mod_256 zero_less_numeral)
  have "code (lower_char c) = (if (65 \<le> code c \<and> code c \<le> 90) \<or> (192 \<le> code c \<and> code c \<le> 222 \<and> code c \<noteq> 215)
      then code c + 32 else code c)"
    using b by (auto simp: lower_char_def code_def of_char_of)
  then show ?thesis
    using assms by (auto simp: lower_char_def split: if_splits)
qed

lemma lower_char_marks [simp]:
  "lower_char c = bt \<longleftrightarrow> c = bt" "lower_char c = colon \<longleftrightarrow> c = colon" "lower_char c = slash \<longleftrightarrow> c = slash"
  by (simp_all add: lower_char_fixed)

lemma lower_char_lits [simp]: "lower_char bt = bt" "lower_char colon = colon" "lower_char slash = slash"
  by simp_all

lemma split_on_parts: "p \<in> set (split_on sep s) \<Longrightarrow> sep \<notin> set p"
  by (induction s arbitrary: p) (auto split: if_splits list.splits)

lemma partition_on_first:
  "sep \<notin> set ep \<Longrightarrow> partition_on sep (ep @ sep # q) = (ep, q)"
  by (induction ep) (auto simp: partition_on_def)

lemma rstrip_by_id: "s \<noteq> [] \<Longrightarrow> \<not> p (last s) \<Longrightarrow> rstrip_by p s = s"
  by (simp add: rstrip_by_def dropWhile_id hd_rev)

section \<open>Interface: a codec for dotted names\<close>

text \<open>
  What a client of a name syntax relies on: a non-empty list of admissible parts, each
  encoded and joined by the separator, decodes to itself.
\<close>

locale name_codec =
  fixes enc :: "'a \<Rightarrow> 'b list"
    and sep :: 'b
    and dec :: "'b list \<Rightarrow> 'e + 'a list"
    and ok :: "'a \<Rightarrow> bool"
  assumes decode: "ps \<noteq> [] \<Longrightarrow> (\<forall>p\<in>set ps. ok p) \<Longrightarrow> dec (join_with sep (map enc ps)) = Inr ps"
begin

lemma decode_single: "ok p \<Longrightarrow> dec (enc p) = Inr [p]"
  using decode [of "[p]"] by simp

lemma encode_inj:
  assumes "join_with sep (map enc ps) = join_with sep (map enc qs)"
    and "ps \<noteq> []" "qs \<noteq> []" "\<forall>p\<in>set ps. ok p" "\<forall>p\<in>set qs. ok p"
  shows "ps = qs"
proof -
  have "dec (join_with sep (map enc ps)) = Inr ps" by (rule decode) fact+
  moreover have "dec (join_with sep (map enc qs)) = Inr qs" by (rule decode) fact+
  ultimately have "Inr ps = (Inr qs :: 'e + 'a list)" using assms(1) by metis
  then show ?thesis by blast
qed

end

section \<open>Interface: a bounded cache\<close>

text \<open>
  What the callers of a cache rely on: a look-up returns only what was put under that key,
  reordering changes no entry, and the cache never holds more than its bound.
\<close>

locale memo_cache =
  fixes lookup :: "'c \<Rightarrow> 'k \<Rightarrow> 'v option"
    and touch :: "'k \<Rightarrow> 'c \<Rightarrow> 'c"
    and put :: "'k \<Rightarrow> 'v \<Rightarrow> 'c \<Rightarrow> 'c"
    and ok :: "'c \<Rightarrow> bool"
    and empty :: 'c
  assumes ok_empty: "ok empty" and lookup_empty: "lookup empty k = None"
    and ok_touch: "ok c \<Longrightarrow> ok (touch k c)"
    and lookup_touch: "ok c \<Longrightarrow> lookup (touch k c) k' = lookup c k'"
    and ok_put: "ok c \<Longrightarrow> ok (put k v c)"
    and lookup_put: "ok c \<Longrightarrow> lookup (put k v c) k = Some v"
    and lookup_put_other: "ok c \<Longrightarrow> k' \<noteq> k \<Longrightarrow> lookup (put k v c) k' = Some w \<Longrightarrow> lookup c k' = Some w"
begin

lemma touch_agrees:
  assumes "ok c" "\<forall>k v. lookup c k = Some v \<longrightarrow> R k v"
  shows "\<forall>k v. lookup (touch j c) k = Some v \<longrightarrow> R k v"
  using assms lookup_touch by simp

lemma put_agrees:
  assumes "ok c" "\<forall>k v. lookup c k = Some v \<longrightarrow> R k v" "R j w"
  shows "\<forall>k v. lookup (put j w c) k = Some v \<longrightarrow> R k v"
  using assms lookup_put lookup_put_other by (metis option.inject)

end

locale bounded_cache = memo_cache +
  fixes weight :: "'a \<Rightarrow> nat" and bound :: nat
  assumes ok_bounded: "ok c \<Longrightarrow> weight c \<le> bound"
begin

lemma put_bounded: "ok c \<Longrightarrow> weight (put k v c) \<le> bound"
  using ok_bounded ok_put by blast

end

end
