(* ===== verification/Py_Numbers.thy ===== *)
theory Py_Numbers
  imports Complex_Main Py_Prelude
begin

text \<open>
  The Python numbers the sources use: unbounded integers are \<open>int\<close>; a
  \<open>decimal.Decimal\<close> is a sign, a coefficient and an exponent; a \<open>float\<close> is an IEEE
  binary64 value, a finite one given by the rational it denotes (\<open>-0.0\<close> apart).
\<close>

datatype decimal = Dec (dec_neg: bool) (dec_coeff: nat) (dec_exp: int)

datatype pyfloat = FNan | FInf bool | FNegZero | FFin rat

definition rat_pow :: "nat \<Rightarrow> int \<Rightarrow> rat" where
  "rat_pow b e = (if 0 \<le> e then of_nat b ^ nat e else 1 / of_nat b ^ nat (- e))"

definition dec_value :: "decimal \<Rightarrow> rat" where
  "dec_value d = (if dec_neg d then - 1 else 1) * of_nat (dec_coeff d) * rat_pow 10 (dec_exp d)"

definition dec_of_int :: "int \<Rightarrow> decimal" where
  "dec_of_int i = Dec (i < 0) (nat \<bar>i\<bar>) 0"

section \<open>Rounding to binary64: nearest, ties to even, subnormals and overflow\<close>

fun nat_bits :: "nat \<Rightarrow> nat" where
  "nat_bits n = (if n = 0 then 0 else Suc (nat_bits (n div 2)))"

declare nat_bits.simps [simp del]

definition round_half_even :: "rat \<Rightarrow> int" where
  "round_half_even x =
     (let f = \<lfloor>x\<rfloor>; r = x - of_int f in
      if r < 1 / 2 then f else if 1 / 2 < r then f + 1 else if even f then f else f + 1)"

definition binary_exponent :: "rat \<Rightarrow> int" where
  "binary_exponent a =
     (let (n, d) = quotient_of a; e = int (nat_bits (nat n)) - int (nat_bits (nat d)) in
      if rat_pow 2 e \<le> a then e else e - 1)"

definition float_of_rat :: "rat \<Rightarrow> pyfloat" where
  "float_of_rat r =
     (if r = 0 then FFin 0
      else
        let q = max (binary_exponent \<bar>r\<bar> - 52) (- 1074);
            v = of_int (round_half_even (\<bar>r\<bar> / rat_pow 2 q)) * rat_pow 2 q
        in if 2 ^ 1024 \<le> v then FInf (r < 0)
           else if v = 0 then (if r < 0 then FNegZero else FFin 0)
           else FFin (if r < 0 then - v else v))"

definition float_finite :: "pyfloat \<Rightarrow> bool" where
  "float_finite f = (case f of FNan \<Rightarrow> False | FInf _ \<Rightarrow> False | _ \<Rightarrow> True)"

definition float_value :: "pyfloat \<Rightarrow> rat" where
  "float_value f = (case f of FFin r \<Rightarrow> r | _ \<Rightarrow> 0)"

definition float_of_decimal :: "decimal \<Rightarrow> pyfloat" where
  "float_of_decimal d =
     (if dec_coeff d = 0 then (if dec_neg d then FNegZero else FFin 0)
      else float_of_rat (dec_value d))"

definition float_of_int :: "int \<Rightarrow> pyfloat" where
  "float_of_int i = float_of_rat (of_int i)"

section \<open>Reading numerals\<close>

definition digit_val :: "char \<Rightarrow> nat" where
  "digit_val c = code c - 48"

definition digits_val :: "string \<Rightarrow> nat" where
  "digits_val s = foldl (\<lambda>n c. 10 * n + digit_val c) 0 s"

definition sign_split :: "string \<Rightarrow> bool \<times> string" where
  "sign_split s =
     (case s of
        [] \<Rightarrow> (False, [])
      | c # cs \<Rightarrow> if c = CHR ''-'' then (True, cs) else if c = CHR ''+'' then (False, cs) else (False, s))"

text \<open>\<open>int(text)\<close> for a sign and decimal digits.\<close>

definition int_of_text :: "string \<Rightarrow> int" where
  "int_of_text s = (let (neg, ds) = sign_split s in (if neg then - 1 else 1) * int (digits_val ds))"

text \<open>
  \<open>decimal.Decimal(text)\<close> for a numeral with optional sign, fraction and exponent: the
  coefficient is the digits without the point, the exponent counts the digits after it.
\<close>

definition exponent_mark :: "char \<Rightarrow> bool" where
  "exponent_mark c \<longleftrightarrow> c = CHR ''e'' \<or> c = CHR ''E''"

definition decimal_of_text :: "string \<Rightarrow> decimal" where
  "decimal_of_text s =
     (let (neg, u) = sign_split s;
          mant = takeWhile (\<lambda>c. \<not> exponent_mark c) u;
          ex = drop 1 (dropWhile (\<lambda>c. \<not> exponent_mark c) u);
          (whole, frac) = partition_on dot mant
      in Dec neg (digits_val (whole @ frac)) ((if ex = [] then 0 else int_of_text ex) - int (length frac)))"

definition float_of_text :: "string \<Rightarrow> pyfloat" where
  "float_of_text s = float_of_decimal (decimal_of_text s)"

definition long_min :: int where "long_min = - (2 ^ 63)"
definition long_max :: int where "long_max = 2 ^ 63 - 1"

lemma rat_pow_pos [simp]: "0 < b \<Longrightarrow> 0 < rat_pow b e"
  by (simp add: rat_pow_def)

lemma dec_value_of_int [simp]: "dec_value (dec_of_int i) = of_int i"
  by (simp add: dec_value_def dec_of_int_def rat_pow_def)

section \<open>Printing whole numbers\<close>

definition digit_char :: "nat \<Rightarrow> char" where
  "digit_char k = char_of (if k < 10 then 48 + k else 87 + k)"

text \<open>The digits of a number in a base of at least 2.\<close>

function nat_text :: "nat \<Rightarrow> nat \<Rightarrow> string" where
  "nat_text b n =
     (if b < 2 \<or> n < b then [digit_char n] else nat_text b (n div b) @ [digit_char (n mod b)])"
  by pat_completeness auto

termination
  by (relation "measure snd") auto

declare nat_text.simps [simp del]

definition int_text :: "int \<Rightarrow> string" where
  "int_text i = (if i < 0 then CHR ''-'' # nat_text 10 (nat (- i)) else nat_text 10 (nat i))"

lemma digit_char_code: "k < 10 \<Longrightarrow> code (digit_char k) = 48 + k"
  by (simp add: digit_char_def code_def of_char_of)

lemma digit_char_digit: "k < 10 \<Longrightarrow> ascii_digit (digit_char k)"
  by (simp add: ascii_digit_def digit_char_code)

lemma nat_text_digits: "list_all ascii_digit (nat_text 10 n)"
proof (induction n rule: less_induct)
  case (less n)
  show ?case
  proof (cases "n < 10")
    case True
    then show ?thesis by (simp add: nat_text.simps [of 10 n] digit_char_digit)
  next
    case False
    then have "list_all ascii_digit (nat_text 10 (n div 10))" using less by simp
    then show ?thesis using False by (simp add: nat_text.simps [of 10 n] digit_char_digit)
  qed
qed

lemma nat_text_nonempty: "nat_text b n \<noteq> []"
  by (simp add: nat_text.simps [of b n])

lemma digits_val_snoc: "digits_val (s @ [c]) = digits_val s * 10 + digit_val c"
  by (simp add: digits_val_def)

lemma digits_val_nat_text: "digits_val (nat_text 10 n) = n"
proof (induction n rule: less_induct)
  case (less n)
  have d: "digit_val (digit_char k) = k" if "k < 10" for k
    using that by (simp add: digit_val_def digit_char_code)
  show ?case
  proof (cases "n < 10")
    case True
    then show ?thesis using digits_val_snoc [of "[]" "digit_char n"] d
      by (simp add: nat_text.simps [of 10 n] digits_val_def)
  next
    case False
    then have "digits_val (nat_text 10 (n div 10)) = n div 10" using less by simp
    then show ?thesis using False d [of "n mod 10"] by (simp add: nat_text.simps [of 10 n] digits_val_snoc)
  qed
qed

lemma nat_text_inj: "nat_text 10 m = nat_text 10 n \<Longrightarrow> m = n"
  by (metis digits_val_nat_text)

end
