(* ===== verification/Py_Data.thy ===== *)
theory Py_Data
  imports Py_Numbers
begin

text \<open>
  Data the components exchange: dicts in insertion order, the comprehension whose body may
  raise, and JSON values with the accesses the sources make.
\<close>

section \<open>Dicts\<close>

text \<open>A dict built from pairs: a key met again keeps its place and takes the later value.\<close>

fun dict_set :: "'k \<Rightarrow> 'v \<Rightarrow> ('k \<times> 'v) list \<Rightarrow> ('k \<times> 'v) list" where
  "dict_set k v [] = [(k, v)]"
| "dict_set k v ((k', v') # m) = (if k' = k then (k, v) # m else (k', v') # dict_set k v m)"

definition dict_of :: "('k \<times> 'v) list \<Rightarrow> ('k \<times> 'v) list" where
  "dict_of kvs = foldl (\<lambda>m (k, v). dict_set k v m) [] kvs"

lemma dict_set_keys: "fst ` set (dict_set k v m) = insert k (fst ` set m)"
  by (induction k v m rule: dict_set.induct) (auto simp del: insert_iff)

lemma dict_set_distinct: "distinct (map fst m) \<Longrightarrow> distinct (map fst (dict_set k v m))"
proof (induction m)
  case (Cons kv m)
  then show ?case using dict_set_keys [of k v m] by (cases kv) auto
qed simp

lemma map_of_dict_set: "map_of (dict_set k v m) = (map_of m)(k \<mapsto> v)"
  by (induction m) auto

lemma dict_of_snoc [simp]: "dict_of (kvs @ [(k, v)]) = dict_set k v (dict_of kvs)"
  by (simp add: dict_of_def)

lemma dict_of_keys: "set (map fst (dict_of kvs)) = set (map fst kvs)"
proof (induction kvs rule: rev_induct)
  case (snoc kv kvs)
  then show ?case by (cases kv) (auto simp: dict_set_keys)
qed (simp add: dict_of_def)

lemma dict_of_distinct: "distinct (map fst (dict_of kvs))"
proof (induction kvs rule: rev_induct)
  case (snoc kv kvs)
  then show ?case by (cases kv) (simp add: dict_set_distinct)
qed (simp add: dict_of_def)

text \<open>A later pair with the same key replaces an earlier one.\<close>

lemma map_of_dict_of: "map_of (dict_of kvs) = map_of (rev kvs)"
proof (induction kvs rule: rev_induct)
  case (snoc kv kvs)
  then show ?case by (cases kv) (simp add: map_of_dict_set)
qed (simp add: dict_of_def)

section \<open>Comprehensions that may raise\<close>

fun map_result :: "('a \<Rightarrow> 'e + 'b) \<Rightarrow> 'a list \<Rightarrow> 'e + 'b list" where
  "map_result f [] = Inr []"
| "map_result f (x # xs) =
     bind_result (f x) (\<lambda>y. bind_result (map_result f xs) (\<lambda>ys. Inr (y # ys)))"

lemma map_result_all2: "map_result f xs = Inr ys \<Longrightarrow> list_all2 (\<lambda>x y. f x = Inr y) xs ys"
  by (induction xs arbitrary: ys) (auto elim!: bind_result_InrE)

section \<open>JSON values\<close>

text \<open>JSON values; an object is an association list with one entry per key.\<close>

datatype json =
    JNull | JBool bool | JInt int | JReal rat | JStr string
  | JArr "json list" | JObj "(string \<times> json) list"

text \<open>\<open>_first\<close>: the first of \<open>names\<close> that is present and not null.\<close>

fun first_of :: "(string \<times> json) list \<Rightarrow> string list \<Rightarrow> json option" where
  "first_of m [] = None"
| "first_of m (n # ns) =
     (case map_of m n of Some v \<Rightarrow> if v = JNull then first_of m ns else Some v | None \<Rightarrow> first_of m ns)"

fun truthy :: "json \<Rightarrow> bool" where
  "truthy JNull = False" | "truthy (JBool b) = b" | "truthy (JInt i) = (i \<noteq> 0)"
| "truthy (JReal r) = (r \<noteq> 0)" | "truthy (JStr s) = (s \<noteq> [])"
| "truthy (JArr xs) = (xs \<noteq> [])" | "truthy (JObj xs) = (xs \<noteq> [])"

fun equals_zero :: "json \<Rightarrow> bool" where
  "equals_zero (JBool b) = (\<not> b)" | "equals_zero (JInt i) = (i = 0)"
| "equals_zero (JReal r) = (r = 0)" | "equals_zero _ = False"

section \<open>JSON access\<close>

text \<open>\<open>j.get(k)\<close> on an object: absent is \<open>None\<close>, the same as JSON's null.\<close>

fun json_get :: "string \<Rightarrow> json \<Rightarrow> json" where
  "json_get k (JObj m) = (case map_of m k of None \<Rightarrow> JNull | Some v \<Rightarrow> v)"
| "json_get k _ = JNull"

fun is_obj :: "json \<Rightarrow> bool" where
  "is_obj (JObj _) = True"
| "is_obj _ = False"

text \<open>\<open>j or ()\<close>, iterated: \<open>None\<close> where Python raises (a number, or the keys of an object).\<close>

fun iterated :: "json \<Rightarrow> json list option" where
  "iterated (JArr xs) = Some xs"
| "iterated j = (if truthy j then None else Some [])"

lemma size_json_get: "is_obj d \<Longrightarrow> size (json_get k d) < size d"
proof (cases d)
  case (JObj m)
  have "size v \<le> size_list (size_prod (\<lambda>_. 0) size) m" if "map_of m k = Some v" for v
    using map_of_SomeD [OF that] by (induction m) auto
  then show ?thesis using JObj by (auto split: option.splits simp: less_Suc_eq_le)
qed auto

lemma size_iterated: "iterated j = Some xs \<Longrightarrow> size_list size xs \<le> size j"
  by (cases j) (auto split: if_splits)

end
