(* ===== verification/Identity.thy ===== *)
theory Identity
  imports Py_Prelude
begin

text \<open>
  \<open>identity.py\<close>: parsing a table reference into a \<open>TableRef\<close>.  Each raise site is a
  constructor of \<open>ref_error\<close> (all are \<open>InvalidReferenceError\<close> in the source, the
  constructor's arguments are what its message interpolates).  The file system and the
  user database that \<open>_exists_locally\<close> and \<open>os.path.expanduser\<close> consult are the record
  \<open>host\<close>.
\<close>

section \<open>Data\<close>

datatype ref_kind = CATALOG | PATH

record table_ref =
  kind :: ref_kind
  catalog :: "string option"
  schema :: "string option"
  table :: "string option"
  path :: "string option"
  scheme :: "string option"
  endpoint :: "string option"
  raw :: string

datatype ref_error =
    NotACatalogName string
  | UnterminatedBacktick string
  | EmptyPart string
  | EmptyReference
  | DbfsPath string
  | WasbScheme string
  | UnsupportedScheme string string
  | NoBody string
  | DottedNotPath string string
  | MetastoreNoTable string
  | ExpectedDbTable string "string list"
  | GlueSegments string
  | GlueParts string nat
  | UnhandledCatalogScheme string
  | NoDefaultCatalog string
  | NoDefaults string
  | TooManyParts string nat

definition storage_schemes :: "string list" where
  "storage_schemes =
     [''s3'', ''s3a'', ''s3n'', ''gs'', ''gcs'', ''abfs'', ''abfss'', ''az'', ''adl'', ''file'', ''memory'']"

definition catalog_schemes :: "string list" where
  "catalog_schemes = [''uc'', ''unity'', ''hms'', ''hive'', ''glue'', ''deltasharing'']"

definition unreachable_prefixes :: "string list" where
  "unreachable_prefixes = [''dbfs:/'', ''/dbfs/'', ''/mnt/'']"


section \<open>Quoting and splitting identifiers\<close>

definition bare_part :: "string \<Rightarrow> bool" where
  "bare_part part \<longleftrightarrow>
     part \<noteq> [] \<and> list_all is_ascii part \<and> \<not> py_isdigit (hd part)
     \<and> list_all (\<lambda>c. py_isalnum c \<or> c = CHR ''_'') part"

definition quote :: "string \<Rightarrow> string" where
  "quote part = (if bare_part part then part else bt # double_backticks part @ [bt])"

text \<open>
  \<open>split_identifier\<close>: the scan keeps the part read so far as characters tagged with
  whether they came from inside backticks, so that only unquoted space is trimmed.
\<close>

type_synonym tagged = "(char \<times> bool) list"

definition outer_space :: "char \<times> bool \<Rightarrow> bool" where
  "outer_space cq \<longleftrightarrow> \<not> snd cq \<and> py_isspace (fst cq)"

definition finish_part :: "tagged \<Rightarrow> string" where
  "finish_part buf = map fst (strip_by outer_space buf)"

fun split_scan :: "bool \<Rightarrow> tagged \<Rightarrow> string list \<Rightarrow> string \<Rightarrow> (bool \<times> string list)" where
  "split_scan inq buf parts [] = (inq, parts @ [finish_part buf])"
| "split_scan True buf parts (ch # rest) =
     (if ch = bt then
        (case rest of
           c # rest' \<Rightarrow>
             if c = bt then split_scan True (buf @ [(bt, True)]) parts rest'
             else split_scan False buf parts rest
         | [] \<Rightarrow> split_scan False buf parts rest)
      else split_scan True (buf @ [(ch, True)]) parts rest)"
| "split_scan False buf parts (ch # rest) =
     (if ch = bt then split_scan True buf parts rest
      else if ch = dot then split_scan False [] (parts @ [finish_part buf]) rest
      else split_scan False (buf @ [(ch, False)]) parts rest)"

definition split_identifier :: "string \<Rightarrow> ref_error + string list" where
  "split_identifier name =
     (let (inq, parts) = split_scan False [] [] name in
      if inq then Inl (UnterminatedBacktick name)
      else if list_ex (\<lambda>p. p = []) parts then Inl (EmptyPart name)
      else Inr parts)"

text \<open>\<open>TableRef.full_name\<close> and \<open>TableRef.__str__\<close>.\<close>

definition full_name :: "table_ref \<Rightarrow> ref_error + string" where
  "full_name r =
     (if kind r \<noteq> CATALOG then Inl (NotACatalogName (raw r))
      else Inr (join_with dot
        (map (quote \<circ> the) (filter (\<lambda>p. p \<noteq> None) [catalog r, schema r, table r]))))"

definition ref_str :: "table_ref \<Rightarrow> ref_error + string" where
  "ref_str r =
     (if raw r \<noteq> [] then Inr (raw r)
      else if kind r = PATH then Inr (case path r of None \<Rightarrow> [] | Some p \<Rightarrow> p)
      else full_name r)"

section \<open>Text outside backticks\<close>

fun unquoted_from :: "bool \<Rightarrow> string \<Rightarrow> string" where
  "unquoted_from inq [] = []"
| "unquoted_from inq (ch # text) =
     (if ch = bt then unquoted_from (\<not> inq) text
      else if \<not> inq then ch # unquoted_from inq text
      else unquoted_from inq text)"

definition unquoted :: "string \<Rightarrow> string" where
  "unquoted text = unquoted_from False text"

text \<open>
  \<open>_split_unquoted\<close>.  The quote flag is flipped before the separator test, and the
  separators used are never a backtick.
\<close>

fun split_unquoted_from :: "bool \<Rightarrow> string \<Rightarrow> char \<Rightarrow> string \<Rightarrow> string list" where
  "split_unquoted_from inq buf sep [] = [buf]"
| "split_unquoted_from inq buf sep (ch # text) =
     (let inq' = (if ch = bt then \<not> inq else inq) in
      if ch = sep \<and> \<not> inq' then buf # split_unquoted_from inq' [] sep text
      else split_unquoted_from inq' (buf @ [ch]) sep text)"

definition split_unquoted :: "string \<Rightarrow> char \<Rightarrow> string list" where
  "split_unquoted text sep = split_unquoted_from False [] sep text"

section \<open>Schemes and paths\<close>

definition scheme_char :: "char \<Rightarrow> bool" where
  "scheme_char c \<longleftrightarrow> ascii_alpha c \<or> ascii_digit c \<or> c \<in> set ''+.-''"

text \<open>\<open>_SCHEME\<close>: a letter, scheme characters, then \<open>://\<close> (no scheme character is a colon).\<close>

definition scheme_of :: "string \<Rightarrow> string option" where
  "scheme_of ref =
     (case ref of
        [] \<Rightarrow> None
      | c # rest \<Rightarrow>
          if ascii_alpha c \<and> starts_with (dropWhile scheme_char rest) ''://''
          then Some (py_lower (c # takeWhile scheme_char rest)) else None)"

text \<open>\<open>_DRIVE\<close>: a letter and a colon, then a separator or the end (\<open>$\<close> also matches before a final newline).\<close>

fun drive_match :: "string \<Rightarrow> bool" where
  "drive_match (c # d # rest) =
     (ascii_alpha c \<and> d = colon \<and>
      (rest = [] \<or> rest = [CHR 0x0A] \<or> hd rest = backslash \<or> hd rest = slash))"
| "drive_match _ = False"

definition looks_like_path :: "string \<Rightarrow> bool" where
  "looks_like_path ref \<longleftrightarrow>
     ref = ''.'' \<or> ref = ''..''
     \<or> starts_with_any ref [[tilde], [slash], ''./'', ''../'', [backslash]]
     \<or> drive_match ref
     \<or> slash \<in> set (unquoted ref) \<or> backslash \<in> set (unquoted ref)"

subsection \<open>The \<open>os.path\<close> functions used (POSIX)\<close>

record host =
  exists_path :: "string \<Rightarrow> bool"
  home_env :: "string option"
  pw_self :: "string option"
  pw_user :: "string \<Rightarrow> string option"

fun norm_comps :: "bool \<Rightarrow> string list \<Rightarrow> string list \<Rightarrow> string list" where
  "norm_comps rooted acc [] = acc"
| "norm_comps rooted acc (c # cs) =
     (if c = [] \<or> c = ''.'' then norm_comps rooted acc cs
      else if c \<noteq> ''..'' \<or> (\<not> rooted \<and> acc = []) \<or> (acc \<noteq> [] \<and> last acc = ''..'')
      then norm_comps rooted (acc @ [c]) cs
      else norm_comps rooted (butlast acc) cs)"

definition normpath :: "string \<Rightarrow> string" where
  "normpath p =
     (if p = [] then ''.''
      else
        let slashes = (if starts_with p ''//'' \<and> \<not> starts_with p ''///'' then ''//''
                       else if starts_with p ''/'' then ''/'' else []);
            out = slashes @ join_with slash (norm_comps (slashes \<noteq> []) [] (split_on slash p))
        in if out = [] then ''.'' else out)"

definition dirname :: "string \<Rightarrow> string" where
  "dirname p =
     (let head = rev (dropWhile (\<lambda>c. c \<noteq> slash) (rev p)) in
      if list_all (\<lambda>c. c = slash) head then head
      else rstrip_by (\<lambda>c. c = slash) head)"

definition expanduser :: "host \<Rightarrow> string \<Rightarrow> string" where
  "expanduser h p =
     (if \<not> starts_with p [tilde] then p
      else
        let name = takeWhile (\<lambda>c. c \<noteq> slash) (tl p);
            rest = dropWhile (\<lambda>c. c \<noteq> slash) (tl p);
            home = (if name = []
                    then (case home_env h of Some e \<Rightarrow> Some e | None \<Rightarrow> pw_self h)
                    else pw_user h name)
        in case home of
             None \<Rightarrow> p
           | Some d \<Rightarrow>
               (let out = rstrip_by (\<lambda>c. c = slash) d @ rest in
                if out = [] then [slash] else out))"

definition local_path :: "host \<Rightarrow> string \<Rightarrow> string" where
  "local_path h p = (if starts_with p [tilde] then expanduser h p else p)"

text \<open>
  \<open>_exists_locally\<close> climbs from the normalised path with \<open>os.path.dirname\<close>; nothing in the
  loop bounds it (\<open>dirname "//"\<close> is \<open>"//"\<close>), so it is a partial function.
\<close>

partial_function (option) exists_from :: "host \<Rightarrow> string \<Rightarrow> bool option" where
  "exists_from h current =
     (if current = ''/'' \<or> current = ''/mnt'' \<or> current = ''/dbfs'' \<or> current = [] then Some False
      else if exists_path h current then Some True
      else exists_from h (dirname current))"

definition exists_locally :: "host \<Rightarrow> string \<Rightarrow> bool option" where
  "exists_locally h p = exists_from h (normpath p)"

section \<open>Parsing a reference\<close>

definition catalog_ref :: "string \<Rightarrow> string \<Rightarrow> string \<Rightarrow> string \<Rightarrow> string option \<Rightarrow> string \<Rightarrow> table_ref" where
  "catalog_ref c s t sch ep rw =
     \<lparr>kind = CATALOG, catalog = Some c, schema = Some s, table = Some t, path = None,
      scheme = Some sch, endpoint = ep, raw = rw\<rparr>"

definition path_ref :: "string \<Rightarrow> string \<Rightarrow> string \<Rightarrow> table_ref" where
  "path_ref p sch rw =
     \<lparr>kind = PATH, catalog = None, schema = None, table = None, path = Some p,
      scheme = Some sch, endpoint = None, raw = rw\<rparr>"

definition parse_name ::
  "string \<Rightarrow> string option \<Rightarrow> string option \<Rightarrow> string \<Rightarrow> ref_error + table_ref" where
  "parse_name name default_catalog default_schema rw =
     bind_result (split_identifier name) (\<lambda>parts.
       case parts of
         [c, s, t] \<Rightarrow> Inr (catalog_ref c s t ''uc'' None rw)
       | [s, t] \<Rightarrow>
           (case default_catalog of
              None \<Rightarrow> Inl (NoDefaultCatalog rw)
            | Some c \<Rightarrow> Inr (catalog_ref c s t ''uc'' None rw))
       | [t] \<Rightarrow>
           (case (default_catalog, default_schema) of
              (Some c, Some s) \<Rightarrow> Inr (catalog_ref c s t ''uc'' None rw)
            | _ \<Rightarrow> Inl (NoDefaults rw))
       | _ \<Rightarrow> Inl (TooManyParts rw (length parts)))"

text \<open>The concatenation of \<open>split_identifier\<close> over segments, stopping at the first error.\<close>

fun split_segments :: "string list \<Rightarrow> ref_error + string list" where
  "split_segments [] = Inr []"
| "split_segments (seg # segs) =
     bind_result (split_identifier seg) (\<lambda>ps.
       bind_result (split_segments segs) (\<lambda>qs. Inr (ps @ qs)))"

definition parse_hms_uri :: "string \<Rightarrow> string \<Rightarrow> ref_error + table_ref" where
  "parse_hms_uri ref body0 =
     (let body = (if starts_with (py_lower body0) ''thrift://'' then drop 9 body0 else body0);
          (ep, rest0) = partition_on slash body;
          rest = rstrip_by (\<lambda>c. c = slash) rest0
      in if rest = [] then Inl (MetastoreNoTable ref)
         else bind_result (split_segments (split_unquoted rest slash)) (\<lambda>parts.
           case parts of
             [db, t] \<Rightarrow> Inr (catalog_ref ''hive_metastore'' db t ''hms'' (str_or_none ep) ref)
           | _ \<Rightarrow> Inl (ExpectedDbTable ref parts)))"

definition parse_glue_uri :: "string \<Rightarrow> string \<Rightarrow> ref_error + table_ref" where
  "parse_glue_uri ref body =
     (let segments = split_unquoted (rstrip_by (\<lambda>c. c = slash) body) slash in
      if 2 < length segments then Inl (GlueSegments ref)
      else
        let catalog_id = (if length segments = 2 then str_or_none (py_strip (hd segments)) else None)
        in bind_result (split_identifier (last segments)) (\<lambda>parts.
          case parts of
            [db, t] \<Rightarrow>
              Inr (catalog_ref (case catalog_id of Some c \<Rightarrow> c | None \<Rightarrow> ''glue'') db t
                     ''glue'' catalog_id ref)
          | _ \<Rightarrow> Inl (GlueParts ref (length parts))))"

definition parse_catalog_uri ::
  "string \<Rightarrow> string \<Rightarrow> string option \<Rightarrow> string option \<Rightarrow> ref_error + table_ref" where
  "parse_catalog_uri ref sch default_catalog default_schema =
     (let body = drop (length sch + 3) ref in
      if body = [] then Inl (NoBody ref)
      else if sch \<in> set [''uc'', ''unity'', ''deltasharing''] then
        (if slash \<in> set (unquoted body) then Inl (DottedNotPath ref sch)
         else bind_result (parse_name body default_catalog default_schema ref)
           (\<lambda>parsed. Inr \<lparr>kind = CATALOG, catalog = catalog parsed, schema = schema parsed,
              table = table parsed, path = None, scheme = Some sch, endpoint = None, raw = ref\<rparr>))
      else if sch \<in> set [''hms'', ''hive''] then parse_hms_uri ref body
      else if sch = ''glue'' then parse_glue_uri ref body
      else Inl (UnhandledCatalogScheme sch))"

text \<open>The argument of \<open>parse_ref\<close>: a string, a \<open>pathlib.Path\<close> (its text), or something else.\<close>

datatype ref_arg = RefStr string | RefPath string | RefOther

definition unreachable_form :: "string \<Rightarrow> bool" where
  "unreachable_form ref \<longleftrightarrow> starts_with_any (py_lower ref) unreachable_prefixes"

text \<open>Whether the DBFS refusal applies; \<open>None\<close> when the climb does not return.\<close>

definition dbfs_refused :: "host \<Rightarrow> string \<Rightarrow> bool option" where
  "dbfs_refused h ref =
     (if \<not> unreachable_form ref then Some False
      else if \<not> starts_with ref [slash] then Some True
      else map_option Not (exists_locally h ref))"

definition parse_stripped ::
  "host \<Rightarrow> bool \<Rightarrow> string option \<Rightarrow> string option \<Rightarrow> string \<Rightarrow> ref_error + table_ref" where
  "parse_stripped h force_path default_catalog default_schema ref =
     (let lowered = py_lower ref in
      if starts_with lowered ''file:'' \<and> \<not> starts_with lowered ''file://'' then
        Inr (path_ref (''file:///'' @ lstrip_by (\<lambda>c. c = slash) (drop 5 ref)) ''file'' ref)
      else case scheme_of ref of
        Some sch \<Rightarrow>
          if sch \<in> set catalog_schemes
          then parse_catalog_uri ref sch default_catalog default_schema
          else if sch = ''wasb'' \<or> sch = ''wasbs'' then Inl (WasbScheme ref)
          else if sch \<in> set storage_schemes then Inr (path_ref ref sch ref)
          else Inl (UnsupportedScheme sch ref)
      | None \<Rightarrow>
          if force_path \<or> looks_like_path ref then Inr (path_ref (local_path h ref) ''file'' ref)
          else parse_name ref default_catalog default_schema ref)"

definition parse_ref ::
  "host \<Rightarrow> ref_arg \<Rightarrow> string option \<Rightarrow> string option \<Rightarrow> (ref_error + table_ref) option" where
  "parse_ref h arg default_catalog default_schema =
     (let (text, force_path) =
        (case arg of RefStr s \<Rightarrow> (s, False) | RefPath s \<Rightarrow> (s, True) | RefOther \<Rightarrow> ([], False))
      in if py_strip text = [] then Some (Inl EmptyReference)
         else
           let ref = py_strip text in
           case dbfs_refused h ref of
             None \<Rightarrow> None
           | Some True \<Rightarrow> Some (Inl (DbfsPath ref))
           | Some False \<Rightarrow> Some (parse_stripped h force_path default_catalog default_schema ref))"

section \<open>Lemmas: a dotted name is read back\<close>

definition ident_char :: "char \<Rightarrow> bool" where
  "ident_char c \<longleftrightarrow> is_ascii c \<and> (py_isalnum c \<or> c = CHR ''_'')"

lemma ident_char_plain:
  assumes "ident_char c"
  shows "c \<noteq> bt" "c \<noteq> dot" "c \<noteq> slash" "c \<noteq> backslash" "c \<noteq> colon" "c \<noteq> tilde" "\<not> py_isspace c"
  using assms
  by (auto simp: ident_char_def is_ascii_def py_isalnum_def latin1_alpha_def py_isdigit_def
      ascii_digit_def ascii_alpha_def py_isspace_def)

lemma bare_part_chars: "bare_part p \<Longrightarrow> c \<in> set p \<Longrightarrow> ident_char c"
  by (auto simp: bare_part_def ident_char_def list_all_iff)

lemma finish_part_quoted: "finish_part (map (\<lambda>c. (c, True)) p) = p"
  by (simp add: finish_part_def strip_by_none outer_space_def o_def)

lemma finish_part_plain: "(\<forall>c\<in>set p. \<not> py_isspace c) \<Longrightarrow> finish_part (map (\<lambda>c. (c, False)) p) = p"
  by (simp add: finish_part_def strip_by_none outer_space_def o_def)

lemma split_scan_plain:
  "(\<forall>c\<in>set p. c \<noteq> bt \<and> c \<noteq> dot) \<Longrightarrow>
   split_scan False buf parts (p @ rest) = split_scan False (buf @ map (\<lambda>c. (c, False)) p) parts rest"
  by (induction p arbitrary: buf) auto

lemma split_scan_quoted:
  "(rest = [] \<or> hd rest \<noteq> bt) \<Longrightarrow>
   split_scan True buf parts (double_backticks p @ bt # rest) =
   split_scan False (buf @ map (\<lambda>c. (c, True)) p) parts rest"
  by (induction p arbitrary: buf) (auto simp: double_backticks_def split: list.splits)

definition part_end :: "string \<Rightarrow> bool" where
  "part_end rest \<longleftrightarrow> rest = [] \<or> hd rest = dot"

lemma split_scan_quote:
  assumes "part_end rest"
  shows "\<exists>buf. finish_part buf = p \<and> split_scan False [] parts (quote p @ rest) = split_scan False buf parts rest"
proof (cases "bare_part p")
  case True
  have "\<forall>c\<in>set p. c \<noteq> bt \<and> c \<noteq> dot \<and> \<not> py_isspace c"
    using bare_part_chars [OF True] ident_char_plain by blast
  then show ?thesis
    using True by (intro exI [of _ "map (\<lambda>c. (c, False)) p"])
      (simp add: quote_def split_scan_plain finish_part_plain)
next
  case False
  then show ?thesis
    using assms by (intro exI [of _ "map (\<lambda>c. (c, True)) p"])
      (auto simp: quote_def split_scan_quoted finish_part_quoted part_end_def)
qed

lemma split_scan_names:
  "ps \<noteq> [] \<Longrightarrow> split_scan False [] parts (join_with dot (map quote ps)) = (False, parts @ ps)"
proof (induction ps arbitrary: parts)
  case (Cons p ps)
  let ?rest = "if ps = [] then [] else dot # join_with dot (map quote ps)"
  have "part_end ?rest" by (simp add: part_end_def)
  then obtain buf where buf: "finish_part buf = p"
    "split_scan False [] parts (quote p @ ?rest) = split_scan False buf parts ?rest"
    using split_scan_quote by blast
  have "join_with dot (map quote (p # ps)) = quote p @ ?rest"
    by (simp add: join_with_Cons)
  then show ?case
    using buf Cons.IH [of "parts @ [p]"] by (auto split: if_splits)
qed simp

lemma split_names:
  "ps \<noteq> [] \<Longrightarrow> [] \<notin> set ps \<Longrightarrow> split_identifier (join_with dot (map quote ps)) = Inr ps"
  by (auto simp: split_identifier_def split_scan_names list_ex_iff)


lemma ident_char_lits [simp]:
  "\<not> ident_char bt" "\<not> ident_char dot" "\<not> ident_char slash" "\<not> ident_char backslash"
  "\<not> ident_char colon" "\<not> ident_char tilde"
  using ident_char_plain by blast+

abbreviation dotted :: "string list \<Rightarrow> string" where
  "dotted ps \<equiv> join_with dot (map quote ps)"

lemma quote_shape: "bare_part p \<and> quote p = p \<or> \<not> bare_part p \<and> (\<exists>m. quote p = bt # m @ [bt])"
  by (simp add: quote_def)

lemma quote_nonempty [simp]: "quote p \<noteq> []"
  by (auto simp: quote_def bare_part_def)

lemma dotted_hd:
  assumes "ps \<noteq> []"
  shows "hd (dotted ps) = bt \<or> ident_char (hd (dotted ps))"
proof -
  obtain p qs where ps: "ps = p # qs" using assms by (cases ps) auto
  have "hd (dotted ps) = hd (quote p)" using ps by (simp add: hd_join_with)
  moreover have "hd (quote p) = bt \<or> ident_char (hd (quote p))"
    using bare_part_chars [of p] by (auto simp: quote_def bare_part_def)
  ultimately show ?thesis by simp
qed

lemma dotted_last:
  assumes "ps \<noteq> []"
  shows "last (dotted ps) = bt \<or> ident_char (last (dotted ps))"
proof -
  have "last (dotted ps) = last (quote (last ps))"
    using assms by (simp add: last_join_with last_map)
  moreover have "last (quote p) = bt \<or> ident_char (last (quote p))" for p
    using bare_part_chars [of p] by (auto simp: quote_def bare_part_def)
  ultimately show ?thesis by simp
qed

lemma dotted_nonempty [simp]: "ps \<noteq> [] \<Longrightarrow> dotted ps \<noteq> []"
  by (simp add: join_with_nonempty last_map)

lemma mark_not_space: "c = bt \<or> ident_char c \<Longrightarrow> \<not> py_isspace c"
  using ident_char_plain by (auto simp: py_isspace_def)

lemma py_strip_dotted: "ps \<noteq> [] \<Longrightarrow> py_strip (dotted ps) = dotted ps"
  using dotted_hd [of ps] dotted_last [of ps] mark_not_space
  by (simp add: py_strip_def strip_by_id)

text \<open>Before the first backtick a dotted name holds only identifier characters and dots.\<close>

lemma dotted_Cons: "dotted (p # ps) = quote p @ (if ps = [] then [] else dot # dotted ps)"
  by (simp add: join_with_Cons)

lemma takeWhile_quote:
  "takeWhile (\<lambda>c. c \<noteq> bt) (quote p @ rest) =
   (if bare_part p then p @ takeWhile (\<lambda>c. c \<noteq> bt) rest else [])"
proof (cases "bare_part p")
  case True
  then have "\<forall>c\<in>set p. c \<noteq> bt" using bare_part_chars ident_char_lits(1) by blast
  with True show ?thesis by (simp add: quote_def)
qed (simp add: quote_def)

lemma dotted_prefix:
  "c \<in> set (takeWhile (\<lambda>c. c \<noteq> bt) (dotted ps)) \<Longrightarrow> ident_char c \<or> c = dot"
proof (induction ps)
  case (Cons p ps)
  then show ?case
    unfolding dotted_Cons takeWhile_quote
    using bare_part_chars [of p c] by (auto split: if_splits)
qed simp

lemma no_colon_before_backtick: "colon \<notin> set (takeWhile (\<lambda>c. c \<noteq> bt) (dotted ps))"
  using dotted_prefix [of colon ps] by auto

lemma colon_in_prefix:
  assumes "starts_with (py_lower s) (pre @ colon # z)" "bt \<notin> set pre"
  shows "colon \<in> set (takeWhile (\<lambda>c. c \<noteq> bt) s)"
  using assms
proof (induction pre arbitrary: s)
  case Nil then show ?case by (cases s) (auto simp: py_lower_def)
next
  case (Cons a pre) then show ?case by (cases s) (auto simp: py_lower_def)
qed

lemma scheme_of_dotted: "scheme_of (dotted ps) = None"
proof -
  have p: "colon \<in> set (takeWhile (\<lambda>c. c \<noteq> bt) s)"
    if "starts_with (dropWhile scheme_char s) ''://''" for s
    using that
    by (induction s) (auto simp: scheme_char_def ascii_alpha_def ascii_digit_def split: if_splits)
  show ?thesis
    using no_colon_before_backtick [of ps] p
    by (auto simp: scheme_of_def ascii_alpha_def split: list.splits if_splits)
qed

lemma unquoted_from_quoted: "unquoted_from True (double_backticks p @ bt # rest) = unquoted_from False rest"
  by (induction p) (auto simp: double_backticks_def)

lemma unquoted_from_bare: "bt \<notin> set p \<Longrightarrow> unquoted_from False (p @ rest) = p @ unquoted_from False rest"
  by (induction p) auto

lemma unquoted_quote:
  "unquoted_from False (quote p @ rest) = (if bare_part p then p else []) @ unquoted_from False rest"
  using bare_part_chars [of p bt] ident_char_lits(1)
  by (auto simp: quote_def unquoted_from_quoted) (metis unquoted_from_bare)

lemma unquoted_dotted: "c \<in> set (unquoted (dotted ps)) \<Longrightarrow> ident_char c \<or> c = dot"
  unfolding unquoted_def
proof (induction ps)
  case (Cons p ps)
  have "dotted (p # ps) = quote p @ (if ps = [] then [] else dot # dotted ps)"
    by (simp add: join_with_Cons)
  then show ?case
    using Cons bare_part_chars [of p]
    by (auto simp: unquoted_quote split: if_splits)
qed simp

lemma dotted_not_path: "ps \<noteq> [] \<Longrightarrow> \<not> looks_like_path (dotted ps)"
proof -
  assume ne: "ps \<noteq> []"
  have hd: "hd (dotted ps) = bt \<or> ident_char (hd (dotted ps))" using ne by (rule dotted_hd)
  have nd: "\<not> drive_match (dotted ps)"
    using no_colon_before_backtick [of ps]
    by (cases "dotted ps" rule: drive_match.cases) (auto simp: ascii_alpha_def split: if_splits)
  have nl: "slash \<notin> set (unquoted (dotted ps))" "backslash \<notin> set (unquoted (dotted ps))"
    using unquoted_dotted ident_char_plain by fastforce+
  obtain c s where d: "dotted ps = c # s" using dotted_nonempty [OF ne] by (cases "dotted ps") auto
  then have "c \<noteq> dot" "c \<noteq> tilde" "c \<noteq> slash" "c \<noteq> backslash"
    using hd ident_char_plain by auto
  then show ?thesis using nd nl d by (simp add: looks_like_path_def starts_with_any_def)
qed

lemma dotted_not_dbfs: "ps \<noteq> [] \<Longrightarrow> \<not> unreachable_form (dotted ps)"
proof -
  assume ne: "ps \<noteq> []"
  have "\<not> starts_with (py_lower (dotted ps)) (''dbfs'' @ colon # [slash])"
    using colon_in_prefix [of "dotted ps" "''dbfs''" "[slash]"] no_colon_before_backtick by auto
  moreover obtain c s where "dotted ps = c # s" "c \<noteq> slash"
    using dotted_hd [OF ne] dotted_nonempty [OF ne] ident_char_plain by (cases "dotted ps") auto
  ultimately show ?thesis
    by (auto simp: unreachable_form_def unreachable_prefixes_def starts_with_any_def py_lower_def)
qed

lemma dotted_not_file: "\<not> starts_with (py_lower (dotted ps)) ''file:''"
  using colon_in_prefix [of "dotted ps" "''file''" "[]"] no_colon_before_backtick by auto

interpretation names: name_codec quote dot split_identifier "\<lambda>p. p \<noteq> []"
proof unfold_locales
  fix ps :: "string list"
  assume "ps \<noteq> []" "\<forall>p\<in>set ps. p \<noteq> []"
  then show "split_identifier (dotted ps) = Inr ps" by (intro split_names) auto
qed

lemma parse_stripped_dotted:
  assumes "ps \<noteq> []"
  shows "parse_stripped h False dc ds (dotted ps) = parse_name (dotted ps) dc ds (dotted ps)"
  using assms dotted_not_file [of ps]
  by (simp add: parse_stripped_def Let_def scheme_of_dotted dotted_not_path)

lemma parse_ref_dotted:
  assumes "ps \<noteq> []"
  shows "parse_ref h (RefStr (dotted ps)) dc ds = Some (parse_name (dotted ps) dc ds (dotted ps))"
  using assms
  by (simp add: parse_ref_def py_strip_dotted dbfs_refused_def dotted_not_dbfs parse_stripped_dotted)

text \<open>
  C22: printing a catalog reference and parsing it back gives the same catalog, schema and
  table, whatever characters the (non-empty) parts hold and whatever defaults the connection
  has: \<open>full_name\<close> quotes enough that \<open>parse_ref\<close> never takes the text for a URI, a path
  or a DBFS location.
\<close>

theorem parse_full_name:
  assumes "kind r = CATALOG" "catalog r = Some c" "schema r = Some s" "table r = Some t"
    and "c \<noteq> []" "s \<noteq> []" "t \<noteq> []"
  shows "\<exists>n. full_name r = Inr n \<and>
             parse_ref h (RefStr n) dc ds = Some (Inr (catalog_ref c s t ''uc'' None n))"
proof -
  have "full_name r = Inr (dotted [c, s, t])"
    using assms by (simp add: full_name_def)
  moreover have "parse_name (dotted [c, s, t]) dc ds (dotted [c, s, t]) =
      Inr (catalog_ref c s t ''uc'' None (dotted [c, s, t]))"
    using names.decode [of "[c, s, t]"] assms by (simp add: parse_name_def)
  ultimately show ?thesis using parse_ref_dotted [of "[c, s, t]"] by auto
qed

definition no_host :: host where
  "no_host = \<lparr>exists_path = (\<lambda>_. False), home_env = None, pw_self = None, pw_user = (\<lambda>_. None)\<rparr>"

lemma parse_full_name_witness:
  "full_name (catalog_ref ''main'' ''my.schema'' ''a`b'' ''uc'' None []) = Inr ''main.`my.schema`.`a``b`''
   \<and> parse_ref no_host (RefStr ''main.`my.schema`.`a``b`'') None None
       = Some (Inr (catalog_ref ''main'' ''my.schema'' ''a`b'' ''uc'' None ''main.`my.schema`.`a``b`''))"
proof -
  have n: "full_name (catalog_ref ''main'' ''my.schema'' ''a`b'' ''uc'' None []) = Inr ''main.`my.schema`.`a``b`''"
    by code_simp
  show ?thesis
    using n parse_full_name [of "catalog_ref ''main'' ''my.schema'' ''a`b'' ''uc'' None []"
        "''main''" "''my.schema''" "''a`b''" no_host None None]
    by (simp add: catalog_ref_def)
qed

section \<open>Lemmas: the fields a reference populates\<close>

definition ref_well_formed :: "table_ref \<Rightarrow> bool" where
  "ref_well_formed r =
     (case kind r of
        CATALOG \<Rightarrow> catalog r \<noteq> None \<and> schema r \<noteq> None
          \<and> (\<exists>t. table r = Some t \<and> t \<noteq> []) \<and> path r = None
      | PATH \<Rightarrow> catalog r = None \<and> schema r = None \<and> table r = None \<and> path r \<noteq> None
          \<and> endpoint r = None)"

lemma wf_refs [simp]:
  "t \<noteq> [] \<Longrightarrow> ref_well_formed (catalog_ref c s t sch ep rw)"
  "ref_well_formed (path_ref p sch rw)"
  "raw (catalog_ref c s t sch ep rw) = rw" "raw (path_ref p sch rw) = rw"
  by (simp_all add: ref_well_formed_def catalog_ref_def path_ref_def)

lemma split_identifier_parts: "split_identifier name = Inr parts \<Longrightarrow> \<forall>p\<in>set parts. p \<noteq> []"
  by (auto simp: split_identifier_def list_ex_iff split: prod.splits if_splits)

lemma split_segments_parts: "split_segments segs = Inr parts \<Longrightarrow> \<forall>p\<in>set parts. p \<noteq> []"
  by (induction segs arbitrary: parts)
    (fastforce simp: bind_result_Inr_iff dest: split_identifier_parts)+

lemma parse_name_shape:
  assumes "parse_name n dc ds rw = Inr r"
  shows "\<exists>c s t. r = catalog_ref c s t ''uc'' None rw \<and> t \<noteq> []"
  using assms
  by (auto simp: parse_name_def elim!: bind_result_InrE split: list.splits option.splits
      dest!: split_identifier_parts) blast+

lemma parse_name_wf:
  "parse_name n dc ds rw = Inr r \<Longrightarrow> ref_well_formed r \<and> raw r = rw"
  by (auto dest!: parse_name_shape)

lemma parse_uc_wf:
  assumes "bind_result (parse_name body dc ds ref)
     (\<lambda>parsed. Inr \<lparr>kind = CATALOG, catalog = catalog parsed, schema = schema parsed,
        table = table parsed, path = None, scheme = Some sch, endpoint = None, raw = ref\<rparr>) = Inr r"
  shows "ref_well_formed r \<and> raw r = ref"
  using assms
  by (auto simp: ref_well_formed_def catalog_ref_def elim!: bind_result_InrE dest!: parse_name_shape)

lemma parse_hms_uri_wf: "parse_hms_uri ref body = Inr r \<Longrightarrow> ref_well_formed r \<and> raw r = ref"
  by (auto simp: parse_hms_uri_def Let_def
      elim!: bind_result_InrE split: list.splits option.splits prod.splits if_splits dest!: split_segments_parts)

lemma parse_glue_uri_wf: "parse_glue_uri ref body = Inr r \<Longrightarrow> ref_well_formed r \<and> raw r = ref"
  by (auto simp: parse_glue_uri_def Let_def
      elim!: bind_result_InrE split: list.splits option.splits prod.splits if_splits dest!: split_identifier_parts)

lemma parse_catalog_uri_wf:
  assumes "parse_catalog_uri ref sch dc ds = Inr r"
  shows "ref_well_formed r \<and> raw r = ref"
  using assms parse_uc_wf [of "drop (length sch + 3) ref" dc ds ref sch r]
    parse_hms_uri_wf [of ref "drop (length sch + 3) ref" r]
    parse_glue_uri_wf [of ref "drop (length sch + 3) ref" r]
  unfolding parse_catalog_uri_def Let_def by (simp split: if_splits)

lemma parse_stripped_wf:
  "parse_stripped h fp dc ds ref = Inr r \<Longrightarrow> ref_well_formed r \<and> raw r = ref"
  by (auto simp: parse_stripped_def Let_def split: if_splits option.splits
      dest!: parse_name_wf parse_catalog_uri_wf)

text \<open>
  Every reference \<open>parse_ref\<close> returns populates exactly the fields of its kind: a catalog
  reference has a catalog, a schema and a non-empty table and no path; a path reference has
  only a path.  Its \<open>raw\<close> text is never empty.
\<close>

theorem parse_ref_well_formed:
  assumes "parse_ref h arg dc ds = Some (Inr r)"
  shows "ref_well_formed r \<and> raw r \<noteq> []"
  using assms
  by (auto simp: parse_ref_def Let_def split: prod.splits if_splits option.splits bool.splits
      dest!: parse_stripped_wf)

lemma parse_ref_well_formed_witness:
  "\<exists>r. parse_ref no_host (RefStr '' sales . orders '') (Some ''main'') None = Some (Inr r)
     \<and> ref_well_formed r \<and> raw r \<noteq> []"
proof -
  have "parse_ref no_host (RefStr '' sales . orders '') (Some ''main'') None
      = Some (Inr (catalog_ref ''main'' ''sales'' ''orders'' ''uc'' None ''sales . orders''))"
    by code_simp
  then show ?thesis using parse_ref_well_formed by blast
qed

section \<open>Lemmas: the climb to an existing directory returns\<close>

lemma dirname_cases: "dirname p \<in> {[], [slash]} \<or> length (dirname p) < length p \<and> (\<exists>z. p = dirname p @ z)"
  if "\<not> starts_with p ''//''"
proof -
  define head where "head = rev (dropWhile (\<lambda>c. c \<noteq> slash) (rev p))"
  have "p = head @ rev (takeWhile (\<lambda>c. c \<noteq> slash) (rev p))"
    unfolding head_def by (metis rev_append rev_rev_ident takeWhile_dropWhile_id)
  then obtain z where z: "p = head @ z" by blast
  show ?thesis
  proof (cases "list_all (\<lambda>c. c = slash) head")
    case True
    have "dirname p = head" using True by (simp add: dirname_def head_def)
    moreover have "head \<in> {[], [slash]}"
    proof (cases head)
      case (Cons a as)
      then show ?thesis using True that z by (cases as) auto
    qed simp
    ultimately show ?thesis by simp
  next
    case False
    let ?r = "rstrip_by (\<lambda>c. c = slash) head"
    have d: "dirname p = ?r" using False by (simp add: dirname_def head_def)
    define y where "y = rev (takeWhile (\<lambda>c. c = slash) (rev head))"
    have y: "head = ?r @ y"
      unfolding rstrip_by_def y_def by (metis rev_append rev_rev_ident takeWhile_dropWhile_id)
    have ne: "dropWhile (\<lambda>c. c \<noteq> slash) (rev p) \<noteq> []" 
    proof
      assume "dropWhile (\<lambda>c. c \<noteq> slash) (rev p) = []"
      then have "head = []" by (simp only: head_def rev.simps)
      with False show False by simp
    qed
    have "hd (dropWhile (\<lambda>c. c \<noteq> slash) (rev p)) = slash" using hd_dropWhile [OF ne] by simp
    with ne have "y \<noteq> []"
      by (cases "dropWhile (\<lambda>c. c \<noteq> slash) (rev p)") (simp_all add: y_def head_def)
    have p: "p = ?r @ (y @ z)" using z y by (metis append.assoc)
    have "length p = length ?r + length y + length z"
      using z y by (metis length_append)
    with \<open>y \<noteq> []\<close> have "length ?r < length p" by (cases y) simp_all
    with p show ?thesis unfolding d by blast
  qed
qed

lemma exists_from_returns: "\<not> starts_with cur ''//'' \<Longrightarrow> \<exists>b. exists_from h cur = Some b"
proof (induction "length cur" arbitrary: cur rule: less_induct)
  case less
  have "\<exists>b. exists_from h (dirname cur) = Some b"
  proof (cases "dirname cur \<in> {[], [slash]}")
    case True then show ?thesis by (subst exists_from.simps) auto
  next
    case False
    then obtain z where "length (dirname cur) < length cur" "cur = dirname cur @ z"
      using dirname_cases [OF less.prems] by auto
    moreover from this have "\<not> starts_with (dirname cur) ''//''"
      using less.prems by (auto simp: starts_with_iff)
    ultimately show ?thesis using less.hyps by blast
  qed
  then show ?case by (subst exists_from.simps) auto
qed

lemma norm_comps_parts:
  "c \<in> set (norm_comps r acc cs) \<Longrightarrow> c \<in> set acc \<or> (c \<in> set cs \<and> c \<noteq> [])"
  by (induction r acc cs rule: norm_comps.induct) (auto split: if_splits dest: in_set_butlastD)

lemma normpath_single_root:
  assumes "starts_with p [slash]" "\<not> starts_with p ''//''"
  shows "\<not> starts_with (normpath p) ''//''"
proof -
  let ?cs = "norm_comps True [] (split_on slash p)"
  have "\<not> starts_with (join_with slash ?cs) [slash]"
  proof (cases ?cs)
    case (Cons c cs)
    then have "c \<noteq> []" "slash \<notin> set c"
      using norm_comps_parts [of c True "[]" "split_on slash p"] split_on_parts by fastforce+
    then show ?thesis using Cons by (cases c) auto
  qed simp
  then show ?thesis using assms by (auto simp: normpath_def Let_def)
qed

lemma unreachable_single_root:
  "unreachable_form ref \<Longrightarrow> starts_with ref [slash] \<Longrightarrow> \<not> starts_with ref ''//''"
  by (cases ref; cases "tl ref")
    (auto simp: unreachable_form_def unreachable_prefixes_def starts_with_any_def py_lower_def)

text \<open>
  C39: \<open>parse_ref\<close> always returns, a reference or an error: the climb of \<open>_exists_locally\<close>
  through \<open>dirname\<close>, which would not end at a path such as \<open>//\<close>, is only reached with a
  path under \<open>/dbfs/\<close> or \<open>/mnt/\<close>, whose normal form keeps a single leading slash.
\<close>

theorem parse_ref_returns: "\<exists>res. parse_ref h arg dc ds = Some res"
proof -
  have "\<exists>b. dbfs_refused h ref = Some b" for ref
    using exists_from_returns normpath_single_root unreachable_single_root
    by (auto simp: dbfs_refused_def exists_locally_def)
  then show ?thesis
    by (auto simp: parse_ref_def Let_def split: prod.splits option.splits bool.splits)
      (metis not_None_eq)
qed

section \<open>Lemmas: metastore locators with quoted names\<close>

lemma split_unquoted_quoted:
  "sep \<noteq> bt \<Longrightarrow> split_unquoted_from True buf sep (double_backticks p @ bt # rest) =
   split_unquoted_from False (buf @ double_backticks p @ [bt]) sep rest"
  by (induction p arbitrary: buf) (auto simp: double_backticks_def Let_def)

lemma split_unquoted_plain:
  "(\<forall>c\<in>set p. c \<noteq> bt \<and> c \<noteq> sep) \<Longrightarrow>
   split_unquoted_from False buf sep (p @ rest) = split_unquoted_from False (buf @ p) sep rest"
  by (induction p arbitrary: buf) (auto simp: Let_def)

lemma split_unquoted_quote:
  "split_unquoted_from False buf slash (quote p @ rest) = split_unquoted_from False (buf @ quote p) slash rest"
proof (cases "bare_part p")
  case True
  then have "\<forall>c\<in>set p. c \<noteq> bt \<and> c \<noteq> slash" using bare_part_chars ident_char_plain by blast
  with True show ?thesis by (simp add: quote_def split_unquoted_plain)
next
  case False
  then show ?thesis by (simp add: quote_def split_unquoted_quoted Let_def)
qed

lemma last_quote: "last (quote p) = bt \<or> ident_char (last (quote p))"
  using dotted_last [of "[p]"] by simp

lemma starts_with_two_slashes:
  assumes "starts_with (py_lower (ep @ slash # q)) (pre @ [slash, slash])" "slash \<notin> set ep" "slash \<notin> set pre"
  shows "q \<noteq> [] \<and> hd q = slash"
  using assms
proof (induction pre arbitrary: ep)
  case Nil then show ?case by (cases ep; cases q) (auto simp: py_lower_def)
next
  case (Cons a pre) then show ?case by (cases ep) (auto simp: py_lower_def)
qed

text \<open>
  A metastore locator finds its database and table whether they are separated by a slash
  or a dot, and even when a quoted name itself contains slashes or dots; the text before the
  first slash is the endpoint.
\<close>

theorem parse_hms_name:
  assumes "db \<noteq> []" "t \<noteq> []" "slash \<notin> set ep"
    and "sep = slash \<or> sep = dot"
  shows "parse_hms_uri ref (ep @ slash # quote db @ sep # quote t) =
         Inr (catalog_ref ''hive_metastore'' db t ''hms'' (str_or_none ep) ref)"
proof -
  let ?rest = "quote db @ sep # quote t"
  have nt: "\<not> starts_with (py_lower (ep @ slash # ?rest)) ''thrift://''"
    using starts_with_two_slashes [of ep ?rest "''thrift:''"] assms(3) dotted_hd [of "[db]"] by auto
  have "partition_on slash (ep @ slash # ?rest) = (ep, ?rest)"
    using assms(3) by (rule partition_on_first)
  moreover have "rstrip_by (\<lambda>c. c = slash) ?rest = ?rest"
    using last_quote [of t] by (intro rstrip_by_id) auto
  moreover have "split_segments (split_unquoted ?rest slash) = Inr [db, t]"
    using assms names.decode_single [of db] names.decode_single [of t] names.decode [of "[db, t]"]
      split_unquoted_quote [of "[]" db] split_unquoted_quote [of _ t "[]"]
    by (auto simp: split_unquoted_def split_unquoted_quote Let_def)
  ultimately show ?thesis using nt by (simp add: parse_hms_uri_def Let_def)
qed

lemma parse_hms_name_witness:
  "parse_hms_uri ''hms://h:9083/`a/b`/t'' ''h:9083/`a/b`/t''
   = Inr (catalog_ref ''hive_metastore'' ''a/b'' ''t'' ''hms'' (Some ''h:9083'') ''hms://h:9083/`a/b`/t'')"
proof -
  have "''h:9083/`a/b`/t'' = ''h:9083'' @ slash # quote ''a/b'' @ slash # quote ''t''" by code_simp
  then show ?thesis
    using parse_hms_name [of "''a/b''" "''t''" "''h:9083''" slash "''hms://h:9083/`a/b`/t''"]
    by (simp add: str_or_none_def)
qed

end
