(* ===== verification/Meta_Schema.thy ===== *)
theory Meta_Schema
  imports Py_Data Identity "HOL-Library.Char_ord"
begin

text \<open>
  \<open>engine/metadata.py\<close>: walking and naming the columns of a Delta schema.  A schema is the typed
  form of the log's \<open>schemaString\<close>: a primitive type is its name, a column carries the metadata
  dict the protocol requires of it.  A column is found and replaced by its path, where the
  source mutates the parsed JSON in place.
\<close>

section \<open>Schemas\<close>

datatype delta_type =
    Prim string | Struct "column list" | ArrayOf delta_type bool | MapOf delta_type delta_type bool
and column = Column (col_name: string) (col_type: delta_type) (col_nullable: bool)
  (col_meta: "(string \<times> json) list")

lemma size_col_type [termination_simp]: "size (col_type f) < size f"
  by (cases f) simp

lemma size_col_member [termination_simp]: "f \<in> set fs \<Longrightarrow> size (col_type f) < Suc (size_list size fs)"
  using size_list_estimation [of f fs "size (col_type f)" size] size_col_type [of f] by linarith

text \<open>\<open>_walk\<close>: every field nested anywhere inside a type, a field before its own.\<close>

fun walk :: "delta_type \<Rightarrow> column list" where
  "walk (Prim k) = []"
| "walk (Struct fs) = concat (map (\<lambda>f. f # walk (col_type f)) fs)"
| "walk (ArrayOf e c) = walk e"
| "walk (MapOf k v c) = walk k @ walk v"

abbreviation walk_fields :: "column list \<Rightarrow> column list" where
  "walk_fields fs \<equiv> walk (Struct fs)"

text \<open>\<open>_structs_in\<close>: the structs a type holds directly, through arrays and maps.\<close>

fun structs_in :: "delta_type \<Rightarrow> column list list" where
  "structs_in (Prim k) = []"
| "structs_in (Struct fs) = [fs]"
| "structs_in (ArrayOf e c) = structs_in e"
| "structs_in (MapOf k v c) = structs_in k @ structs_in v"

definition set_name :: "string \<Rightarrow> column \<Rightarrow> column" where
  "set_name n f = Column n (col_type f) (col_nullable f) (col_meta f)"

definition set_type :: "delta_type \<Rightarrow> column \<Rightarrow> column" where
  "set_type t f = Column (col_name f) t (col_nullable f) (col_meta f)"

definition set_nullable :: "bool \<Rightarrow> column \<Rightarrow> column" where
  "set_nullable b f = Column (col_name f) (col_type f) b (col_meta f)"

definition set_meta :: "(string \<times> json) list \<Rightarrow> column \<Rightarrow> column" where
  "set_meta m f = Column (col_name f) (col_type f) (col_nullable f) m"

lemma set_parts [simp]:
  "col_name (set_name n f) = n" "col_type (set_name n f) = col_type f"
  "col_nullable (set_name n f) = col_nullable f" "col_meta (set_name n f) = col_meta f"
  "col_name (set_type t f) = col_name f" "col_type (set_type t f) = t"
  "col_nullable (set_type t f) = col_nullable f" "col_meta (set_type t f) = col_meta f"
  "col_name (set_nullable b f) = col_name f" "col_type (set_nullable b f) = col_type f"
  "col_nullable (set_nullable b f) = b" "col_meta (set_nullable b f) = col_meta f"
  "col_name (set_meta m f) = col_name f" "col_type (set_meta m f) = col_type f"
  "col_nullable (set_meta m f) = col_nullable f" "col_meta (set_meta m f) = m"
  by (simp_all add: set_name_def set_type_def set_nullable_def set_meta_def)

section \<open>Finding a column\<close>

datatype find_error = NoColumn "string list" | NotStruct "string list" | EmptyPath

definition same_name :: "string \<Rightarrow> string \<Rightarrow> bool" where
  "same_name a b \<longleftrightarrow> py_lower a = py_lower b"

text \<open>The index of the first field of that name, ignoring case.\<close>

fun index_of :: "string \<Rightarrow> column list \<Rightarrow> nat option" where
  "index_of n [] = None"
| "index_of n (f # fs) = (if same_name (col_name f) n then Some 0 else map_option Suc (index_of n fs))"

text \<open>\<open>_find\<close>: the field list that holds the column, and the column's index in it.\<close>

fun find_column :: "column list \<Rightarrow> string list \<Rightarrow> find_error + column list \<times> nat" where
  "find_column fs [] = Inl EmptyPath"
| "find_column fs (n # pth) =
     (case index_of n fs of
        None \<Rightarrow> Inl (NoColumn (n # pth))
      | Some i \<Rightarrow>
          if pth = [] then Inr (fs, i)
          else case col_type (fs ! i) of
                 Struct gs \<Rightarrow> find_column gs pth
               | _ \<Rightarrow> Inl (NotStruct (n # pth)))"

text \<open>The schema with the field list that holds the column changed, as the source changes it in
  place; the path is one that \<open>find_column\<close> found.\<close>

fun edit_container :: "(column list \<Rightarrow> nat \<Rightarrow> column list) \<Rightarrow> column list \<Rightarrow> string list \<Rightarrow> column list" where
  "edit_container g fs [] = fs"
| "edit_container g fs (n # pth) =
     (case index_of n fs of
        None \<Rightarrow> fs
      | Some i \<Rightarrow>
          if pth = [] then g fs i
          else case col_type (fs ! i) of
                 Struct gs \<Rightarrow> fs[i := set_type (Struct (edit_container g gs pth)) (fs ! i)]
               | _ \<Rightarrow> fs)"

definition edit_column :: "(column \<Rightarrow> column) \<Rightarrow> column list \<Rightarrow> string list \<Rightarrow> column list" where
  "edit_column g = edit_container (\<lambda>fs i. fs[i := g (fs ! i)])"

definition remove_column :: "column list \<Rightarrow> string list \<Rightarrow> column list" where
  "remove_column = edit_container (\<lambda>fs i. take i fs @ drop (Suc i) fs)"

section \<open>Column mapping\<close>

definition cm_id :: string where "cm_id = ''delta.columnMapping.id''"
definition cm_physical :: string where "cm_physical = ''delta.columnMapping.physicalName''"
definition cm_max :: string where "cm_max = ''delta.columnMapping.maxColumnId''"
definition cm_mode :: string where "cm_mode = ''delta.columnMapping.mode''"

definition json_text :: "json \<Rightarrow> string" where
  "json_text j = (case j of JStr s \<Rightarrow> s | JInt i \<Rightarrow> int_text i | _ \<Rightarrow> [])"

definition physical_of :: "column \<Rightarrow> string" where
  "physical_of f = (case map_of (col_meta f) cm_physical of None \<Rightarrow> col_name f | Some j \<Rightarrow> json_text j)"

text \<open>\<open>int(value)\<close> of text: white space around, a sign, digits with single underscores.\<close>

definition py_int :: "string \<Rightarrow> int option" where
  "py_int s =
     (let (neg, body) = sign_split (py_strip s); groups = split_on (CHR ''_'') body
      in if list_all (\<lambda>g. g \<noteq> [] \<and> list_all ascii_digit g) groups
         then Some ((if neg then - 1 else 1) * int (digits_val (concat groups)))
         else None)"

definition column_id :: "column \<Rightarrow> int option" where
  "column_id f =
     (case map_of (col_meta f) cm_id of
        Some (JInt i) \<Rightarrow> Some i | Some (JStr s) \<Rightarrow> py_int s | _ \<Rightarrow> None)"

text \<open>\<open>_physical_path\<close> of a path that \<open>find_column\<close> found.\<close>

fun physical_path :: "column list \<Rightarrow> string list \<Rightarrow> string list" where
  "physical_path fs [] = []"
| "physical_path fs (n # pth) =
     (case index_of n fs of
        None \<Rightarrow> []
      | Some i \<Rightarrow> physical_of (fs ! i) #
          (case col_type (fs ! i) of Struct gs \<Rightarrow> physical_path gs pth | _ \<Rightarrow> []))"

text \<open>\<open>_logical_path\<close>: the names along a physical path, or \<open>None\<close> if the column is gone.\<close>

fun logical_path :: "column list \<Rightarrow> string list \<Rightarrow> string list option" where
  "logical_path fs [] = Some []"
| "logical_path fs (p # pth) =
     (case List.find (\<lambda>f. physical_of f = p) fs of
        None \<Rightarrow> None
      | Some f \<Rightarrow>
          if pth = [] then Some [col_name f]
          else case col_type f of
                 Struct gs \<Rightarrow> map_option (\<lambda>r. col_name f # r) (logical_path gs pth)
               | _ \<Rightarrow> None)"

text \<open>\<open>_assign_ids\<close>: ids from \<open>n\<close> on, a field before the fields inside it; the next free id.\<close>

fun assign_type :: "(int \<Rightarrow> column \<Rightarrow> string) \<Rightarrow> int \<Rightarrow> delta_type \<Rightarrow> delta_type \<times> int"
  and assign_ids :: "(int \<Rightarrow> column \<Rightarrow> string) \<Rightarrow> int \<Rightarrow> column list \<Rightarrow> column list \<times> int" where
  "assign_type phys n (Prim k) = (Prim k, n)"
| "assign_type phys n (Struct fs) = (let r = assign_ids phys n fs in (Struct (fst r), snd r))"
| "assign_type phys n (ArrayOf e c) = (let r = assign_type phys n e in (ArrayOf (fst r) c, snd r))"
| "assign_type phys n (MapOf k v c) =
     (let r = assign_type phys n k; q = assign_type phys (snd r) v in (MapOf (fst r) (fst q) c, snd q))"
| "assign_ids phys n [] = ([], n)"
| "assign_ids phys n (f # fs) =
     (let meta = dict_set cm_physical (JStr (phys n f)) (dict_set cm_id (JInt n) (col_meta f));
          r = assign_type phys (n + 1) (col_type f);
          q = assign_ids phys (snd r) fs
      in (Column (col_name f) (fst r) (col_nullable f) meta # fst q, snd q))"

section \<open>Paths and edits\<close>

lemma walk_fields_Cons: "walk_fields (f # fs) = f # walk (col_type f) @ walk_fields fs"
  by simp

lemma walk_fields_append: "walk_fields (fs @ gs) = walk_fields fs @ walk_fields gs"
  by simp

lemma index_of_Some:
  "index_of n fs = Some i \<Longrightarrow> i < length fs \<and> same_name (col_name (fs ! i)) n"
  by (induction fs arbitrary: i) (auto split: if_splits)

lemma index_of_split:
  assumes "index_of n fs = Some i"
  shows "fs = take i fs @ fs ! i # drop (Suc i) fs"
  using index_of_Some [OF assms] by (simp add: id_take_nth_drop)

lemma find_column_index: "find_column fs pth = Inr (c, i) \<Longrightarrow> i < length c"
proof (induction fs pth rule: find_column.induct)
  case (2 fs n pth)
  then show ?case
    using index_of_Some [of n fs] by (auto split: option.splits if_splits delta_type.splits)
qed simp

text \<open>A step down the path: the field found and, below it, the field list of its struct.\<close>

lemma find_column_cases:
  assumes "find_column fs (n # pth) = Inr (c, j)"
  obtains (here) i where "pth = []" "index_of n fs = Some i" "c = fs" "j = i"
  | (below) i gs where "pth \<noteq> []" "index_of n fs = Some i" "col_type (fs ! i) = Struct gs"
      "find_column gs pth = Inr (c, j)"
  using assms by (auto split: option.splits if_splits delta_type.splits)

lemma edit_container_here: "index_of n fs = Some i \<Longrightarrow> edit_container g fs [n] = g fs i"
  by simp

lemma edit_container_below:
  "pth \<noteq> [] \<Longrightarrow> index_of n fs = Some i \<Longrightarrow> col_type (fs ! i) = Struct gs \<Longrightarrow>
     edit_container g fs (n # pth) = fs[i := set_type (Struct (edit_container g gs pth)) (fs ! i)]"
  by simp

text \<open>What identifies a column in the data files: its mapping id and its physical name.\<close>

definition field_key :: "column \<Rightarrow> json option \<times> json option" where
  "field_key f = (map_of (col_meta f) cm_id, map_of (col_meta f) cm_physical)"

abbreviation keys_of :: "column list \<Rightarrow> (json option \<times> json option) list" where
  "keys_of fs \<equiv> map field_key (walk_fields fs)"

lemma field_key_set [simp]:
  "field_key (set_name n f) = field_key f" "field_key (set_type t f) = field_key f"
  "field_key (set_nullable b f) = field_key f"
  by (simp_all add: field_key_def)

lemma keys_of_update:
  assumes "i < length fs"
  shows "keys_of (fs[i := f]) =
    keys_of (take i fs) @ field_key f # map field_key (walk (col_type f)) @ keys_of (drop (Suc i) fs)"
  using assms by (simp add: upd_conv_take_nth_drop)

lemma keys_of_split:
  assumes "i < length fs"
  shows "keys_of fs = keys_of (take i fs) @ field_key (fs ! i) # map field_key (walk (col_type (fs ! i)))
    @ keys_of (drop (Suc i) fs)"
  using keys_of_update [OF assms, of "fs ! i"] by simp

text \<open>Editing the field list a path leads to leaves the columns around it as they were.\<close>

lemma edit_container_keys:
  assumes "find_column fs pth = Inr (c, i)"
  shows "\<exists>A B. keys_of fs = A @ keys_of c @ B \<and> keys_of (edit_container g fs pth) = A @ keys_of (g c i) @ B"
  using assms
proof (induction fs pth rule: find_column.induct)
  case (2 fs n pth)
  from "2.prems" show ?case
  proof (cases rule: find_column_cases)
    case (here i)
    then have "keys_of fs = [] @ keys_of c @ []"
      "keys_of (edit_container g fs (n # pth)) = [] @ keys_of (g c j) @ []" if "j = i" for j
      using that by simp_all
    with here show ?thesis by blast
  next
    case (below k gs)
    from "2.IH" [OF below(2,1,3,4)] obtain A B where
      ab: "keys_of gs = A @ keys_of c @ B" "keys_of (edit_container g gs pth) = A @ keys_of (g c i) @ B"
      by blast
    have k: "k < length fs" using index_of_Some [OF below(2)] by simp
    let ?A = "keys_of (take k fs) @ field_key (fs ! k) # A" and ?B = "B @ keys_of (drop (Suc k) fs)"
    have "keys_of fs = ?A @ keys_of c @ ?B"
      using keys_of_split [OF k] ab(1) below(3) by (simp del: walk.simps)
    moreover have "keys_of (edit_container g fs (n # pth)) = ?A @ keys_of (g c i) @ ?B"
      unfolding edit_container_below [OF below(1-3)] keys_of_update [OF k] using ab(2)
      by (simp del: walk.simps)
    ultimately show ?thesis by blast
  qed
qed simp

lemma edit_column_keys:
  assumes "find_column fs pth = Inr (c, i)" "field_key (g (c ! i)) = field_key (c ! i)"
    and "map field_key (walk (col_type (g (c ! i)))) = map field_key (walk (col_type (c ! i)))"
  shows "keys_of (edit_column g fs pth) = keys_of fs"
proof -
  have "keys_of (c[i := g (c ! i)]) = keys_of c"
    using keys_of_update [OF find_column_index [OF assms(1)]] keys_of_split [OF find_column_index [OF assms(1)]]
      assms(2,3) by simp
  then show ?thesis
    using edit_container_keys [OF assms(1), of "\<lambda>c i. c[i := g (c ! i)]"] by (auto simp: edit_column_def)
qed

lemma remove_column_keys:
  assumes "find_column fs pth = Inr (c, i)"
  shows "\<exists>A D B. keys_of fs = A @ D @ B \<and> keys_of (remove_column fs pth) = A @ B"
proof -
  obtain A B where ab: "keys_of fs = A @ keys_of c @ B"
    "keys_of (remove_column fs pth) = A @ keys_of (take i c @ drop (Suc i) c) @ B"
    using edit_container_keys [OF assms, of "\<lambda>c i. take i c @ drop (Suc i) c"] by (auto simp: remove_column_def)
  note k = keys_of_split [OF find_column_index [OF assms]]
  have "keys_of fs = (A @ keys_of (take i c)) @ (field_key (c ! i) # map field_key (walk (col_type (c ! i))))
      @ (keys_of (drop (Suc i) c) @ B)"
    unfolding ab(1) k by (simp del: walk.simps)
  moreover have "keys_of (remove_column fs pth) = (A @ keys_of (take i c)) @ (keys_of (drop (Suc i) c) @ B)"
    unfolding ab(2) by simp
  ultimately show ?thesis by blast
qed

section \<open>Names of siblings\<close>

text \<open>In every struct of the schema the fields differ in \<open>k\<close>.\<close>

fun siblings_differ :: "(column \<Rightarrow> 'k) \<Rightarrow> delta_type \<Rightarrow> bool" where
  "siblings_differ k (Prim p) = True"
| "siblings_differ k (Struct fs) = (distinct (map k fs) \<and> list_all (\<lambda>f. siblings_differ k (col_type f)) fs)"
| "siblings_differ k (ArrayOf e c) = siblings_differ k e"
| "siblings_differ k (MapOf a b c) = (siblings_differ k a \<and> siblings_differ k b)"

lemma siblings_find:
  assumes "find_column fs pth = Inr (c, i)" "siblings_differ k (Struct fs)"
  shows "siblings_differ k (Struct c)"
  using assms
proof (induction fs pth rule: find_column.induct)
  case (2 fs n pth)
  from "2.prems"(1) show ?case
  proof (cases rule: find_column_cases)
    case (below j gs)
    then have "siblings_differ k (Struct gs)"
      using "2.prems"(2) below(3) index_of_Some [OF below(2)] by (metis list_all_length siblings_differ.simps(2))
    then show ?thesis using "2.IH" [OF below(2,1,3,4)] by blast
  qed (use "2.prems" in simp)
qed simp

lemma siblings_edit:
  assumes "find_column fs pth = Inr (c, i)" "siblings_differ k (Struct fs)" "siblings_differ k (Struct (g c i))"
    and "\<And>t f. k (set_type t f) = k f"
  shows "siblings_differ k (Struct (edit_container g fs pth))"
  using assms(1-3)
proof (induction fs pth rule: find_column.induct)
  case (2 fs n pth)
  from "2.prems"(1) show ?case
  proof (cases rule: find_column_cases)
    case (below j gs)
    have j: "j < length fs" using index_of_Some [OF below(2)] by simp
    have gs: "siblings_differ k (Struct gs)"
      using "2.prems"(2) below(3) j by (metis list_all_length siblings_differ.simps(2))
    have e: "siblings_differ k (Struct (edit_container g gs pth))"
      using "2.IH" [OF below(2,1,3,4) gs "2.prems"(3)] .
    have "map k (fs[j := set_type (Struct (edit_container g gs pth)) (fs ! j)]) = map k fs"
      using j by (simp add: map_update assms(4)) (metis length_map list_update_id nth_map)
    then show ?thesis
      unfolding edit_container_below [OF below(1-3)] using "2.prems"(2) e
      by (auto simp: list_all_iff simp del: map_update dest!: set_update_subset_insert [THEN subsetD])
  qed (use "2.prems" in simp)
qed simp

section \<open>Fresh ids\<close>

fun numbered :: "(int \<Rightarrow> column \<Rightarrow> string) \<Rightarrow> int \<Rightarrow> column list \<Rightarrow> (json option \<times> json option) list" where
  "numbered phys n [] = []"
| "numbered phys n (f # fs) = (Some (JInt n), Some (JStr (phys n f))) # numbered phys (n + 1) fs"

lemma numbered_append: "numbered phys n (fs @ gs) = numbered phys n fs @ numbered phys (n + int (length fs)) gs"
  by (induction fs arbitrary: n) (simp_all add: algebra_simps)

lemma cm_keys_differ: "cm_physical \<noteq> cm_id" "cm_id \<noteq> cm_physical"
  by (simp_all add: cm_physical_def cm_id_def)

lemma assign_numbered:
  "map field_key (walk (fst (assign_type phys n t))) = numbered phys n (walk t)
     \<and> snd (assign_type phys n t) = n + int (length (walk t))"
  "keys_of (fst (assign_ids phys n fs)) = numbered phys n (walk_fields fs)
     \<and> snd (assign_ids phys n fs) = n + int (length (walk_fields fs))"
  by (induction phys n t and phys n fs rule: assign_type_assign_ids.induct)
    (simp_all add: Let_def numbered_append field_key_def map_of_dict_set cm_keys_differ algebra_simps)

lemma assign_names:
  "map col_name (fst (assign_ids phys n fs)) = map col_name fs"
  by (induction fs arbitrary: n) (simp_all add: Let_def)

lemma assign_names_map:
  "map (\<lambda>f. h (col_name f)) (fst (assign_ids phys n fs)) = map (\<lambda>f. h (col_name f)) fs"
  using arg_cong [OF assign_names [of phys n fs], of "map h"] by (simp add: comp_def)

lemma assign_siblings:
  "siblings_differ (\<lambda>f. h (col_name f)) (fst (assign_type phys n t)) = siblings_differ (\<lambda>f. h (col_name f)) t"
  "list_all (\<lambda>f. siblings_differ (\<lambda>f. h (col_name f)) (col_type f)) (fst (assign_ids phys n fs))
     = list_all (\<lambda>f. siblings_differ (\<lambda>f. h (col_name f)) (col_type f)) fs"
  by (induction phys n t and phys n fs rule: assign_type_assign_ids.induct)
    (simp_all add: Let_def assign_names_map)

lemma numbered_set:
  "x \<in> set (numbered phys n fs) \<Longrightarrow> \<exists>i f. n \<le> i \<and> i < n + int (length fs) \<and> f \<in> set fs
     \<and> x = (Some (JInt i), Some (JStr (phys i f)))"
proof (induction fs arbitrary: n)
  case (Cons f fs)
  then consider "x = (Some (JInt n), Some (JStr (phys n f)))" | "x \<in> set (numbered phys (n + 1) fs)" by auto
  then show ?case
  proof cases
    case 2
    from Cons.IH [OF this] obtain i g where "n + 1 \<le> i" "i < n + 1 + int (length fs)" "g \<in> set fs"
      "x = (Some (JInt i), Some (JStr (phys i g)))" by blast
    then show ?thesis by (intro exI [of _ i] exI [of _ g]) auto
  qed auto
qed simp

lemma numbered_distinct: "distinct (map fst (numbered phys n fs))"
proof (induction fs arbitrary: n)
  case (Cons f fs)
  have "Some (JInt n) \<notin> set (map fst (numbered phys (n + 1) fs))"
    by (auto dest!: numbered_set)
  with Cons show ?case by simp
qed simp

section \<open>Physical paths\<close>

lemma find_same:
  assumes "distinct (map k fs)" "i < length fs"
  shows "List.find (\<lambda>f. k f = k (fs ! i)) fs = Some (fs ! i)"
proof -
  have "k (fs ! j) \<noteq> k (fs ! i)" if "j < i" for j
  proof -
    have "j < length fs" using that assms(2) by simp
    then show ?thesis
      using assms that nth_eq_iff_index_eq [of "map k fs" j i] by simp
  qed
  then show ?thesis unfolding find_Some_iff by (intro exI [of _ i]) (use assms(2) in simp)
qed

text \<open>The physical path of a column the logical path finds leads back to that column.\<close>

lemma logical_of_physical:
  assumes "find_column fs pth = Inr (c, i)" "siblings_differ physical_of (Struct fs)"
  shows "\<exists>ns. logical_path fs (physical_path fs pth) = Some ns \<and> list_all2 same_name ns pth
    \<and> last ns = col_name (c ! i) \<and> ns \<noteq> []"
  using assms
proof (induction fs pth rule: find_column.induct)
  case (2 fs n pth)
  from "2.prems"(1) show ?case
  proof (cases rule: find_column_cases)
    case (here j)
    then show ?thesis
      using find_same [of physical_of fs j] index_of_Some [of n fs j] "2.prems"(2)
      by (cases "col_type (fs ! j)") auto
  next
    case (below j gs)
    have j: "j < length fs" and n: "same_name (col_name (fs ! j)) n" using index_of_Some [OF below(2)] by auto
    have f: "List.find (\<lambda>f. physical_of f = physical_of (fs ! j)) fs = Some (fs ! j)"
      using find_same [of physical_of fs j] j "2.prems"(2) by simp
    have gs: "siblings_differ physical_of (Struct gs)"
      using "2.prems"(2) below(3) j by (metis list_all_length siblings_differ.simps(2))
    from "2.IH" [OF below(2,1,3,4) gs] obtain ns where
      ns: "logical_path gs (physical_path gs pth) = Some ns" "list_all2 same_name ns pth"
        "last ns = col_name (c ! i)" "ns \<noteq> []" by blast
    have "physical_path gs pth \<noteq> []"
      using below(1,4) by (cases pth) (auto split: option.splits)
    then have "logical_path fs (physical_path fs (n # pth)) = Some (col_name (fs ! j) # ns)"
      using below f ns(1) by simp
    then show ?thesis using ns n by auto
  qed
qed simp

end
