(* ===== verification/Meta_Types.thy ===== *)
theory Meta_Types
  imports Meta_Schema
begin

text \<open>
  \<open>engine/metadata.py\<close>: the types a Delta schema may carry, the features they need, and the
  widenings that rewrite no data.  A type a caller passes is JSON; what \<open>_valid_type\<close> makes of
  it is a typed schema.
\<close>

section \<open>Primitive types\<close>

definition primitive_types :: "string list" where
  "primitive_types =
    [''string'', ''long'', ''integer'', ''short'', ''byte'', ''float'', ''double'', ''boolean'',
     ''binary'', ''date'', ''timestamp'', ''timestamp_ntz'', ''variant'']"

definition span_digits :: "string \<Rightarrow> string \<times> string" where
  "span_digits s = (takeWhile ascii_digit s, dropWhile ascii_digit s)"

text \<open>\<open>_DECIMAL.fullmatch\<close>: precision and scale.\<close>

definition match_decimal :: "string \<Rightarrow> (nat \<times> nat) option" where
  "match_decimal s =
     (if \<not> starts_with s ''decimal('' then None
      else let (p, r) = span_digits (drop 8 s) in
           if p = [] \<or> \<not> starts_with r '','' then None
           else let (q, e) = span_digits (dropWhile py_isspace (tl r)) in
                if q = [] \<or> e \<noteq> '')'' then None else Some (digits_val p, digits_val q))"

definition decimal_text :: "nat \<Rightarrow> nat \<Rightarrow> string" where
  "decimal_text p s = ''decimal('' @ nat_text 10 p @ '','' @ nat_text 10 s @ '')''"

section \<open>Checking a type\<close>

datatype type_error =
    NotAType | DecimalRange | NoFields | NoElementType | NoKeyOrValue | NotAField | BadNullable | BadMetadata

definition valid_name :: "string \<Rightarrow> type_error + string" where
  "valid_name s =
     (if s \<in> set primitive_types then Inr s
      else case match_decimal s of
             None \<Rightarrow> Inl NotAType
           | Some (p, q) \<Rightarrow>
               if 1 \<le> p \<and> p \<le> 38 \<and> q \<le> p then Inr (decimal_text p q) else Inl DecimalRange)"

text \<open>\<open>bool(d.get(k, True))\<close>, and \<open>f.get("nullable", True)\<close>, which must be a boolean.\<close>

definition flag :: "(string \<times> json) list \<Rightarrow> string \<Rightarrow> bool" where
  "flag m k = (case map_of m k of None \<Rightarrow> True | Some v \<Rightarrow> truthy v)"

definition nullable_flag :: "(string \<times> json) list \<Rightarrow> bool option" where
  "nullable_flag m = (case map_of m ''nullable'' of None \<Rightarrow> Some True | Some (JBool b) \<Rightarrow> Some b | _ \<Rightarrow> None)"

definition metadata_dict :: "(string \<times> json) list \<Rightarrow> (string \<times> json) list option" where
  "metadata_dict m =
     (case map_of m ''metadata'' of
        Some (JObj d) \<Rightarrow> Some d
      | Some v \<Rightarrow> if truthy v then None else Some []
      | None \<Rightarrow> Some [])"

definition field_parts :: "json \<Rightarrow> (string \<times> json \<times> (string \<times> json) list) option" where
  "field_parts f =
     (case f of
        JObj m \<Rightarrow> (case (map_of m ''name'', map_of m ''type'') of
                     (Some (JStr n), Some t) \<Rightarrow> Some (n, t, m) | _ \<Rightarrow> None)
      | _ \<Rightarrow> None)"

lemma size_map_of: "map_of m k = Some v \<Longrightarrow> size v \<le> size_list (size_prod (\<lambda>_. 0) size) m"
  by (induction m) (auto split: if_splits)

lemma size_pairs: "size_list (size_prod (\<lambda>_. 0) size) m = size_list (\<lambda>x. Suc (size (snd x))) m"
  for m :: "('a \<times> json) list"
  by (induction m) auto

lemma size_field_type [termination_simp]: "field_parts f = Some (n, t, m) \<Longrightarrow> size t < size f"
  by (auto simp: field_parts_def less_Suc_eq_le size_map_of split: json.splits option.splits)

lemma size_key [termination_simp]:
  "map_of m k = Some v \<Longrightarrow> size v < Suc (size_list (\<lambda>x. Suc (size (snd x))) m)"
  "Some v = map_of m k \<Longrightarrow> size v < Suc (size_list (\<lambda>x. Suc (size (snd x))) m)"
  for v :: json
  using size_map_of [of m k v] by (auto simp: size_pairs)

lemma size_keyed_list [termination_simp]:
  "map_of m k = Some (JArr (x # xs)) \<Longrightarrow> size x + size_list size xs < size_list (\<lambda>x. Suc (size (snd x))) m"
  using size_map_of [of m k "JArr (x # xs)"] by (simp add: size_pairs)

function valid_type :: "json \<Rightarrow> type_error + delta_type"
  and valid_fields :: "json list \<Rightarrow> type_error + column list" where
  "valid_type (JStr s) = bind_result (valid_name s) (\<lambda>n. Inr (Prim n))"
| "valid_type (JObj m) =
     (case map_of m ''type'' of
        Some (JStr k) \<Rightarrow>
          if k = ''struct'' then
            (case map_of m ''fields'' of
               Some (JArr (f # fs)) \<Rightarrow> bind_result (valid_fields (f # fs)) (\<lambda>cs. Inr (Struct cs))
             | _ \<Rightarrow> Inl NoFields)
          else if k = ''array'' then
            (case map_of m ''elementType'' of
               None \<Rightarrow> Inl NoElementType
             | Some e \<Rightarrow> bind_result (valid_type e) (\<lambda>t. Inr (ArrayOf t (flag m ''containsNull''))))
          else if k = ''map'' then
            (case (map_of m ''keyType'', map_of m ''valueType'') of
               (Some a, Some b) \<Rightarrow> bind_result (valid_type a) (\<lambda>t. bind_result (valid_type b) (\<lambda>u.
                 Inr (MapOf t u (flag m ''valueContainsNull''))))
             | _ \<Rightarrow> Inl NoKeyOrValue)
          else Inl NotAType
      | _ \<Rightarrow> Inl NotAType)"
| "valid_type JNull = Inl NotAType"
| "valid_type (JBool b) = Inl NotAType"
| "valid_type (JInt i) = Inl NotAType"
| "valid_type (JReal r) = Inl NotAType"
| "valid_type (JArr xs) = Inl NotAType"
| "valid_fields [] = Inr []"
| "valid_fields (f # fs) =
     (case field_parts f of
        None \<Rightarrow> Inl NotAField
      | Some (n, d, m) \<Rightarrow>
          bind_result (valid_type d) (\<lambda>t.
            case (nullable_flag m, metadata_dict m) of
              (None, _) \<Rightarrow> Inl BadNullable
            | (_, None) \<Rightarrow> Inl BadMetadata
            | (Some b, Some meta) \<Rightarrow> bind_result (valid_fields fs) (\<lambda>cs. Inr (Column n t b meta # cs))))"
  by pat_completeness auto

termination valid_type
  by (relation "measure (case_sum size (size_list size))") (auto simp: termination_simp less_SucI)

text \<open>The form a type has in the log.\<close>

fun type_json :: "delta_type \<Rightarrow> json" and field_json :: "column \<Rightarrow> json" where
  "type_json (Prim k) = JStr k"
| "type_json (Struct fs) = JObj [(''type'', JStr ''struct''), (''fields'', JArr (map field_json fs))]"
| "type_json (ArrayOf e c) =
     JObj [(''type'', JStr ''array''), (''elementType'', type_json e), (''containsNull'', JBool c)]"
| "type_json (MapOf k v c) =
     JObj [(''type'', JStr ''map''), (''keyType'', type_json k), (''valueType'', type_json v),
           (''valueContainsNull'', JBool c)]"
| "field_json (Column n t b meta) =
     JObj [(''name'', JStr n), (''type'', type_json t), (''nullable'', JBool b), (''metadata'', JObj meta)]"

text \<open>A type of the protocol: known primitives, decimals in range, no empty struct.\<close>

fun protocol_type :: "delta_type \<Rightarrow> bool" where
  "protocol_type (Prim k) \<longleftrightarrow>
     k \<in> set primitive_types
     \<or> (case match_decimal k of None \<Rightarrow> False
        | Some (p, q) \<Rightarrow> 1 \<le> p \<and> p \<le> 38 \<and> q \<le> p \<and> k = decimal_text p q)"
| "protocol_type (Struct fs) \<longleftrightarrow> fs \<noteq> [] \<and> list_all (\<lambda>f. protocol_type (col_type f)) fs"
| "protocol_type (ArrayOf e c) \<longleftrightarrow> protocol_type e"
| "protocol_type (MapOf k v c) \<longleftrightarrow> protocol_type k \<and> protocol_type v"

section \<open>Decimals read back\<close>

lemma span_digits_text:
  assumes "list_all ascii_digit d" "r = [] \<or> \<not> ascii_digit (hd r)"
  shows "span_digits (d @ r) = (d, r)"
proof -
  have "takeWhile ascii_digit (d @ r) = d"
    using assms by (cases r) (auto simp: takeWhile_append list_all_iff)
  moreover have "dropWhile ascii_digit (d @ r) = r"
    using assms by (cases r) (auto simp: dropWhile_append list_all_iff)
  ultimately show ?thesis by (simp add: span_digits_def)
qed

lemma decimal_marks [simp]: "\<not> ascii_digit (CHR '','')" "\<not> ascii_digit (CHR '')'')"
  by (simp_all add: ascii_digit_def code_def)

lemma digit_not_space: "ascii_digit c \<Longrightarrow> \<not> py_isspace c"
  by (simp add: ascii_digit_def py_isspace_def)

lemma match_decimal_text [simp]: "match_decimal (decimal_text p q) = Some (p, q)"
proof -
  have a: "span_digits (nat_text 10 p @ CHR '','' # nat_text 10 q @ '')'') = (nat_text 10 p, CHR '','' # nat_text 10 q @ '')'')"
    by (rule span_digits_text) (simp_all add: nat_text_digits)
  have "hd (nat_text 10 q) \<in> set (nat_text 10 q)" by (simp add: nat_text_nonempty)
  then have "\<not> py_isspace (hd (nat_text 10 q))"
    using nat_text_digits [of q] digit_not_space by (auto simp: list_all_iff)
  then have b: "dropWhile py_isspace (nat_text 10 q @ '')'') = nat_text 10 q @ '')''"
    using nat_text_nonempty [of 10 q] by (cases "nat_text 10 q") auto
  have c: "span_digits (nat_text 10 q @ '')'') = (nat_text 10 q, '')'')"
    by (rule span_digits_text) (simp_all add: nat_text_digits)
  show ?thesis
    by (simp add: match_decimal_def decimal_text_def a b c nat_text_nonempty digits_val_nat_text)
qed

lemma valid_name_protocol: "valid_name s = Inr n \<Longrightarrow> protocol_type (Prim n)"
  by (auto simp: valid_name_def split: if_splits option.splits)

lemma protocol_name_valid: "protocol_type (Prim n) \<Longrightarrow> valid_name n = Inr n"
  by (auto simp: valid_name_def split: option.splits)

text \<open>What is accepted is a type of the protocol.\<close>

lemma valid_type_objE:
  assumes "valid_type (JObj m) = Inr t"
  obtains (struct) f fs cs where "map_of m ''type'' = Some (JStr ''struct'')"
      "map_of m ''fields'' = Some (JArr (f # fs))" "valid_fields (f # fs) = Inr cs" "t = Struct cs"
  | (array) e u where "map_of m ''type'' = Some (JStr ''array'')" "map_of m ''elementType'' = Some e"
      "valid_type e = Inr u" "t = ArrayOf u (flag m ''containsNull'')"
  | (map) a b u v where "map_of m ''type'' = Some (JStr ''map'')" "map_of m ''keyType'' = Some a"
      "map_of m ''valueType'' = Some b" "valid_type a = Inr u" "valid_type b = Inr v"
      "t = MapOf u v (flag m ''valueContainsNull'')"
  using assms by (auto elim!: bind_result_InrE split: option.splits json.splits if_splits list.splits
      simp del: valid_type.simps(2) simp: valid_type.simps(2) [of m])

lemma valid_type_protocol:
  "valid_type j = Inr t \<Longrightarrow> protocol_type t"
  "valid_fields js = Inr fs \<Longrightarrow> list_all (\<lambda>f. protocol_type (col_type f)) fs \<and> length fs = length js"
proof (induction j and js arbitrary: t and fs rule: valid_type_valid_fields.induct)
  case (1 s)
  then show ?case by (auto elim!: bind_result_InrE dest: valid_name_protocol)
next
  case (2 m)
  from "2.prems" show ?case
  proof (cases rule: valid_type_objE)
    case (struct f fs cs)
    then show ?thesis using "2.IH"(1) [of _ "''struct''"] by fastforce
  next
    case (array e u)
    then show ?thesis using "2.IH"(2) [of _ "''array''" e u] by simp
  next
    case (map a b u v)
    then show ?thesis using "2.IH"(3) [of _ "''map''"] "2.IH"(4) [of _ "''map''"] by simp
  qed
next
  case (9 f fs')
  then obtain n d m u b meta cs where "field_parts f = Some (n, d, m)" "valid_type d = Inr u"
    "valid_fields fs' = Inr cs" "fs = Column n u b meta # cs" "nullable_flag m = Some b" "metadata_dict m = Some meta"
    by (auto elim!: bind_result_InrE split: option.splits)
  then show ?case using "9.IH" by fastforce
qed auto

lemma type_json_valid:
  "protocol_type t \<Longrightarrow> valid_type (type_json t) = Inr t"
  "protocol_type (col_type f) \<Longrightarrow> field_parts (field_json f) = Some (col_name f, type_json (col_type f),
      [(''name'', JStr (col_name f)), (''type'', type_json (col_type f)), (''nullable'', JBool (col_nullable f)),
       (''metadata'', JObj (col_meta f))])
    \<and> valid_type (type_json (col_type f)) = Inr (col_type f)"
proof (induction t and f)
  case (Struct fs)
  have "valid_fields (map field_json gs) = Inr gs" if "set gs \<subseteq> set fs" for gs
    using that
  proof (induction gs)
    case (Cons g gs)
    then have "field_parts (field_json g) = Some (col_name g, type_json (col_type g),
        [(''name'', JStr (col_name g)), (''type'', type_json (col_type g)), (''nullable'', JBool (col_nullable g)),
         (''metadata'', JObj (col_meta g))]) \<and> valid_type (type_json (col_type g)) = Inr (col_type g)"
      using Struct by (auto simp: list_all_iff)
    then show ?case using Cons by (simp add: nullable_flag_def metadata_dict_def)
  qed simp
  from this [of fs] show ?case using Struct.prems by (cases fs) auto
next
  case (Prim k)
  then show ?case using protocol_name_valid by simp
qed (auto simp: flag_def field_parts_def)

section \<open>Names\<close>

datatype name_error = EmptyName | NamedTwice string | ParquetName string

definition invalid_name_chars :: "char set" where
  "invalid_name_chars = set '' ,;{}()='' \<union> {CHR 0x0A, CHR 0x09}"

lemma size_structs_in: "size_list (size_list size) (structs_in t) \<le> size t"
  by (induction t rule: structs_in.induct) auto

definition lower_column :: "column \<Rightarrow> string" where
  "lower_column f = py_lower (col_name f)"

text \<open>\<open>_check_names\<close>: the first column refused, if any; \<open>seen\<close> holds the names met in this struct.\<close>

function names_from :: "bool \<Rightarrow> string set \<Rightarrow> column list \<Rightarrow> name_error option"
  and nested_from :: "bool \<Rightarrow> column list list \<Rightarrow> name_error option" where
  "names_from cm seen [] = None"
| "names_from cm seen (f # fs) =
     (if col_name f = [] then Some EmptyName
      else if lower_column f \<in> seen then Some (NamedTwice (col_name f))
      else if \<not> cm \<and> invalid_name_chars \<inter> set (col_name f) \<noteq> {} then Some (ParquetName (col_name f))
      else case nested_from cm (structs_in (col_type f)) of
             Some e \<Rightarrow> Some e
           | None \<Rightarrow> names_from cm (insert (lower_column f) seen) fs)"
| "nested_from cm [] = None"
| "nested_from cm (gs # rest) =
     (case names_from cm {} gs of Some e \<Rightarrow> Some e | None \<Rightarrow> nested_from cm rest)"
  by pat_completeness auto

lemma size_nested: "size_list (size_list size) (structs_in (col_type f)) < Suc (size f + n)"
  using size_structs_in [of "col_type f"] size_col_type [of f] by linarith

termination names_from
  by (relation "measure (case_sum (\<lambda>(c, s, fs). size_list size fs) (\<lambda>(c, gs). size_list (size_list size) gs))")
    (auto simp: size_nested)

definition check_names :: "bool \<Rightarrow> column list \<Rightarrow> name_error option" where
  "check_names cm fs = names_from cm {} fs"

lemma siblings_structs:
  "siblings_differ k t \<longleftrightarrow> list_all (\<lambda>fs. siblings_differ k (Struct fs)) (structs_in t)"
  by (induction t rule: structs_in.induct) auto

lemma check_names_sound:
  "names_from cm seen fs = None \<Longrightarrow>
     siblings_differ lower_column (Struct fs) \<and> lower_column ` set fs \<inter> seen = {}
     \<and> list_all (\<lambda>f. col_name f \<noteq> []) fs"
  "nested_from cm gss = None \<Longrightarrow> list_all (\<lambda>fs. siblings_differ lower_column (Struct fs)) gss"
proof (induction cm seen fs and cm gss rule: names_from_nested_from.induct)
  case (2 cm seen f fs)
  then have n: "nested_from cm (structs_in (col_type f)) = None"
    and r: "names_from cm (insert (lower_column f) seen) fs = None"
    and c: "col_name f \<noteq> []" "lower_column f \<notin> seen" "cm \<or> invalid_name_chars \<inter> set (col_name f) = {}"
    by (auto split: if_splits option.splits)
  have "siblings_differ lower_column (col_type f)"
    using "2.IH"(1) [OF c(1,2) _ n] c(3) unfolding siblings_structs [of _ "col_type f"] by blast
  moreover have "siblings_differ lower_column (Struct fs) \<and> lower_column ` set fs \<inter> insert (lower_column f) seen = {}
      \<and> list_all (\<lambda>f. col_name f \<noteq> []) fs"
    using "2.IH"(2) [OF c(1,2) _ n r] c(3) by blast
  ultimately show ?case using c by auto
qed (auto split: option.splits)

section \<open>Features of types and columns\<close>

definition type_feature :: "string \<Rightarrow> string option" where
  "type_feature = map_of [(''timestamp_ntz'', ''timestampNtz''), (''variant'', ''variantType'')]"

fun type_features :: "delta_type \<Rightarrow> string list" where
  "type_features (Prim k) = (case type_feature (py_lower k) of None \<Rightarrow> [] | Some f \<Rightarrow> [f])"
| "type_features (Struct fs) = concat (map (\<lambda>f. type_features (col_type f)) fs)"
| "type_features (ArrayOf e c) = type_features e"
| "type_features (MapOf k v c) = type_features k @ type_features v"

definition generation :: string where "generation = ''delta.generationExpression''"

definition marker_feature :: "string \<Rightarrow> string list" where
  "marker_feature k =
     (if k = generation then [''generatedColumns'']
      else if starts_with k ''delta.identity.'' then [''identityColumns'']
      else if k = ''CURRENT_DEFAULT'' then [''allowColumnDefaults'']
      else if k = ''delta.invariants'' then [''invariants'']
      else [])"

definition column_features :: "column list \<Rightarrow> string list" where
  "column_features fs = concat (map (\<lambda>f. concat (map (marker_feature \<circ> fst) (col_meta f))) (walk_fields fs))"

section \<open>Widening\<close>

definition integral_types :: "(string \<times> nat) list" where
  "integral_types = [(''byte'', 0), (''short'', 1), (''integer'', 2), (''long'', 3)]"

definition integral_digits :: "string \<Rightarrow> int" where
  "integral_digits k = (if k = ''long'' then 20 else 10)"

definition without_blanks :: "string \<Rightarrow> string" where
  "without_blanks s = filter (\<lambda>c. c \<noteq> CHR '' '') s"

definition decimal_widening :: "string \<Rightarrow> nat \<times> nat \<Rightarrow> bool" where
  "decimal_widening old ps =
     (case ps of (p, s) \<Rightarrow>
        if p = 0 \<or> 38 < p \<or> p < s then False
        else case match_decimal (without_blanks old) of
               Some (p0, s0) \<Rightarrow> p0 \<le> p \<and> s0 \<le> s \<and> int p0 - int s0 \<le> int p - int s
             | None \<Rightarrow> (case map_of integral_types old of
                          None \<Rightarrow> False | Some r \<Rightarrow> integral_digits old \<le> int p - int s))"

definition widening_allowed :: "string \<Rightarrow> string \<Rightarrow> bool" where
  "widening_allowed old new =
     (if old = new then False
      else case (map_of integral_types old, map_of integral_types new) of
        (Some i, Some j) \<Rightarrow> i < j
      | _ \<Rightarrow>
          if old = ''float'' \<and> new = ''double'' then True
          else if old \<in> {''byte'', ''short'', ''integer''} \<and> new = ''double'' then True
          else if old = ''date'' \<and> new = ''timestamp_ntz'' then True
          else case match_decimal new of None \<Rightarrow> False | Some ps \<Rightarrow> decimal_widening old ps)"

text \<open>The numbers a type holds.\<close>

definition bits_of :: "string \<Rightarrow> nat option" where
  "bits_of = map_of [(''byte'', 8), (''short'', 16), (''integer'', 32), (''long'', 64)]"

definition binary_value :: "nat \<Rightarrow> int \<Rightarrow> int \<Rightarrow> rat \<Rightarrow> bool" where
  "binary_value bits low high x \<longleftrightarrow>
     (\<exists>m e. \<bar>m\<bar> < 2 ^ bits \<and> low \<le> e \<and> e \<le> high \<and> x = of_int m * rat_pow 2 e)"

definition decimal_value :: "nat \<Rightarrow> nat \<Rightarrow> rat \<Rightarrow> bool" where
  "decimal_value p s x \<longleftrightarrow> (\<exists>u::int. \<bar>u\<bar> < 10 ^ p \<and> x * 10 ^ s = of_int u)"

definition holds_number :: "string \<Rightarrow> rat \<Rightarrow> bool" where
  "holds_number k x \<longleftrightarrow>
     (case bits_of k of
        Some w \<Rightarrow> (\<exists>i::int. x = of_int i \<and> - (2 ^ (w - 1)) \<le> i \<and> i < 2 ^ (w - 1))
      | None \<Rightarrow>
          if k = ''float'' then binary_value 24 (- 149) 104 x
          else if k = ''double'' then binary_value 53 (- 1074) 971 x
          else case match_decimal k of None \<Rightarrow> False | Some (p, s) \<Rightarrow> decimal_value p s x)"

lemma binary_value_int:
  assumes "\<bar>i\<bar> < 2 ^ bits" "low \<le> 0" "0 \<le> high"
  shows "binary_value bits low high (of_int i)"
  unfolding binary_value_def by (rule exI [of _ i], rule exI [of _ 0]) (use assms in \<open>simp add: rat_pow_def\<close>)

lemma binary_value_mono:
  assumes "binary_value b l h x" "b \<le> b'" "l' \<le> l" "h \<le> h'"
  shows "binary_value b' l' h' x"
proof -
  obtain m e where m: "\<bar>m\<bar> < (2::int) ^ b" "l \<le> e" "e \<le> h" "x = of_int m * rat_pow 2 e"
    using assms(1) by (auto simp: binary_value_def)
  have "(2::int) ^ b \<le> 2 ^ b'" using assms(2) by (simp add: power_increasing)
  with m(1) have "\<bar>m\<bar> < 2 ^ b'" by linarith
  with m(2-4) assms(3,4) show ?thesis unfolding binary_value_def by (intro exI [of _ m] exI [of _ e]) auto
qed

lemma decimal_value_mono:
  assumes "decimal_value p0 s0 x" "s0 \<le> s" "int p0 - int s0 \<le> int p - int s"
  shows "decimal_value p s x"
proof -
  obtain u :: int where u: "\<bar>u\<bar> < 10 ^ p0" "x * 10 ^ s0 = of_int u"
    using assms(1) by (auto simp: decimal_value_def)
  let ?v = "u * 10 ^ (s - s0)"
  have "\<bar>?v\<bar> < 10 ^ p0 * 10 ^ (s - s0)" using u(1) by (simp add: abs_mult)
  also have "\<dots> = 10 ^ (p0 + (s - s0))" by (simp add: power_add)
  also have "\<dots> \<le> (10::int) ^ p" using assms(2,3) by (intro power_increasing) auto
  finally have "\<bar>?v\<bar> < 10 ^ p" .
  moreover have "x * 10 ^ s = of_int ?v"
  proof -
    have "(10::rat) ^ s = 10 ^ s0 * 10 ^ (s - s0)" using assms(2) by (simp add: power_add [symmetric])
    then show ?thesis using u(2) by (simp add: mult.assoc [symmetric])
  qed
  ultimately show ?thesis unfolding decimal_value_def by blast
qed

lemma decimal_value_int:
  assumes "\<bar>i\<bar> < 10 ^ d" "int d \<le> int p - int s"
  shows "decimal_value p s (of_int i)"
proof -
  have "decimal_value d 0 (of_int i)" using assms(1) by (auto simp: decimal_value_def)
  then show ?thesis by (rule decimal_value_mono) (use assms(2) in auto)
qed

lemma integral_names:
  "map_of integral_types k = Some r \<longleftrightarrow>
     (k, r) \<in> {(''byte'', 0), (''short'', 1), (''integer'', 2), (''long'', 3)}"
  by (auto simp: integral_types_def)

lemma names_not_decimal:
  "list_all (\<lambda>k. match_decimal k = None) [''byte'', ''short'', ''integer'', ''long'', ''float'', ''double'']"
  by code_simp

lemma bits_of_names: "bits_of k \<noteq> None \<longleftrightarrow> k \<in> {''byte'', ''short'', ''integer'', ''long''}"
  by (simp add: bits_of_def)

lemma decimal_not_named:
  assumes "match_decimal k = Some ps"
  shows "bits_of k = None \<and> k \<noteq> ''float'' \<and> k \<noteq> ''double''"
proof -
  have "k \<notin> set [''byte'', ''short'', ''integer'', ''long'', ''float'', ''double'']"
    using names_not_decimal assms unfolding list_all_iff by fastforce
  then show ?thesis using bits_of_names [of k] by auto
qed

lemma holds_decimal: "match_decimal k = Some (p, s) \<Longrightarrow> holds_number k x \<longleftrightarrow> decimal_value p s x"
  using decimal_not_named [of k "(p, s)"] by (simp add: holds_number_def)

lemma no_blanks: "list_all (\<lambda>c. c \<noteq> CHR '' '') s \<Longrightarrow> without_blanks s = s"
  by (simp add: without_blanks_def list_all_iff)

lemma holds_integral:
  assumes "map_of integral_types k = Some r" "holds_number k x"
  shows "\<exists>i::int. x = of_int i \<and> \<bar>i\<bar> < 10 ^ nat (integral_digits k) \<and> (k \<noteq> ''long'' \<longrightarrow> \<bar>i\<bar> < 2 ^ 53)"
proof -
  obtain w where w: "bits_of k = Some w" "w \<le> 64" "k \<noteq> ''long'' \<longrightarrow> w \<le> 32"
    using assms(1) unfolding integral_names by (auto simp: bits_of_def)
  then obtain i :: int where i: "x = of_int i" "- (2 ^ (w - 1)) \<le> i" "i < 2 ^ (w - 1)"
    using assms(2) by (auto simp: holds_number_def)
  have m: "\<bar>i\<bar> \<le> 2 ^ (w - 1)" using i by linarith
  have "(2::int) ^ (w - 1) \<le> 2 ^ 63" by (rule power_increasing) (use w(2) in auto)
  moreover have "k \<noteq> ''long'' \<longrightarrow> (2::int) ^ (w - 1) \<le> 2 ^ 31"
    using w(3) by (intro impI power_increasing) auto
  ultimately show ?thesis using i(1) m by (auto simp: integral_digits_def)
qed

lemma primitives_no_blanks: "list_all (\<lambda>k. without_blanks k = k) primitive_types"
  by code_simp

lemma protocol_no_blanks: "protocol_type (Prim k) \<Longrightarrow> without_blanks k = k"
proof -
  have "c \<noteq> CHR '' ''" if "c \<in> set (nat_text 10 n)" for c n
    using nat_text_digits [of n] that by (auto simp: list_all_iff ascii_digit_def code_def)
  then have "without_blanks (decimal_text p q) = decimal_text p q" for p q
    by (intro no_blanks) (auto simp: decimal_text_def list_all_iff)
  then show "protocol_type (Prim k) \<Longrightarrow> without_blanks k = k"
    using primitives_no_blanks by (auto simp: list_all_iff split: option.splits)
qed

lemma decimal_widening_keeps:
  assumes "decimal_widening old (p, s)" "without_blanks old = old" "holds_number old x"
  shows "decimal_value p s x"
proof (cases "match_decimal old")
  case None
  then obtain r where r: "map_of integral_types old = Some r" "integral_digits old \<le> int p - int s"
    using assms(1,2) by (auto simp: decimal_widening_def split: if_splits option.splits)
  from holds_integral [OF r(1) assms(3)] obtain i :: int where
    i: "x = of_int i" "\<bar>i\<bar> < 10 ^ nat (integral_digits old)" by blast
  have "decimal_value p s (of_int i)"
    by (rule decimal_value_int [OF i(2)]) (use r(2) in \<open>auto simp: integral_digits_def split: if_splits\<close>)
  then show ?thesis using i(1) by simp
next
  case (Some ps)
  obtain p0 s0 where ps: "ps = (p0, s0)" by fastforce
  have "s0 \<le> s" "int p0 - int s0 \<le> int p - int s"
    using assms(1,2) Some ps by (auto simp: decimal_widening_def split: if_splits)
  moreover have "decimal_value p0 s0 x" using assms(3) Some ps by (simp add: holds_decimal)
  ultimately show ?thesis by (rule decimal_value_mono [rotated])
qed

lemma integral_widening_keeps:
  assumes "map_of integral_types old = Some i" "map_of integral_types new = Some j" "i < j" "holds_number old x"
  shows "holds_number new x"
proof -
  obtain w v where w: "bits_of old = Some w" "bits_of new = Some v" "w \<le> v"
    using assms(1-3) unfolding integral_names by (auto simp: bits_of_def)
  obtain i :: int where i: "x = of_int i" "- (2 ^ (w - 1)) \<le> i" "i < 2 ^ (w - 1)"
    using assms(4) w(1) by (auto simp: holds_number_def)
  have "(2::int) ^ (w - 1) \<le> 2 ^ (v - 1)" by (rule power_increasing) (use w(3) in auto)
  then have "- (2 ^ (v - 1)) \<le> i \<and> i < 2 ^ (v - 1)" using i by linarith
  then show ?thesis using i(1) w(2) by (auto simp: holds_number_def)
qed

lemma widening_cases:
  assumes "widening_allowed old new"
  obtains (integral) i j where "map_of integral_types old = Some i" "map_of integral_types new = Some j" "i < j"
  | (float) "old = ''float''" "new = ''double''"
  | (small) "old \<in> {''byte'', ''short'', ''integer''}" "new = ''double''"
  | (date) "old = ''date''"
  | (decimal) p s where "match_decimal new = Some (p, s)" "decimal_widening old (p, s)"
proof -
  consider "\<exists>i j. map_of integral_types old = Some i \<and> map_of integral_types new = Some j \<and> i < j"
    | "old = ''float'' \<and> new = ''double''" | "old \<in> {''byte'', ''short'', ''integer''} \<and> new = ''double''"
    | "old = ''date''" | "\<exists>p s. match_decimal new = Some (p, s) \<and> decimal_widening old (p, s)"
    using assms unfolding widening_allowed_def
    by (cases "match_decimal new") (fastforce split: if_splits option.splits)+
  then show ?thesis
    by cases (use that in \<open>blast+\<close>)
qed

lemma no_dates: "\<not> holds_number ''date'' x"
proof -
  have "bits_of ''date'' = None" "match_decimal ''date'' = None" by code_simp+
  then show ?thesis by (simp add: holds_number_def)
qed

lemma holds_binary:
  "holds_number ''float'' x \<longleftrightarrow> binary_value 24 (- 149) 104 x"
  "holds_number ''double'' x \<longleftrightarrow> binary_value 53 (- 1074) 971 x"
  by (simp_all add: holds_number_def bits_of_def)

text \<open>C10: a widening that rewrites no data keeps every value: each number the old type holds is one of
  the new type's, as an integer, a binary float or a decimal.\<close>

theorem widening_keeps_values:
  assumes "widening_allowed old new" "protocol_type (Prim old)" "holds_number old x"
  shows "holds_number new x"
  using assms(1)
proof (cases rule: widening_cases)
  case (integral i j)
  then show ?thesis using integral_widening_keeps assms(3) by blast
next
  case float
  then show ?thesis using assms(3) binary_value_mono [of 24 "- 149" 104 x 53 "- 1074" 971] by (simp add: holds_binary)
next
  case small
  then obtain r where "map_of integral_types old = Some r" "old \<noteq> ''long''" by (auto simp: integral_types_def)
  then obtain i :: int where "x = of_int i" "\<bar>i\<bar> < 2 ^ 53" using holds_integral assms(3) by blast
  then show ?thesis using binary_value_int [of i 53 "- 1074" 971] small by (simp add: holds_binary)
next
  case date
  then show ?thesis using assms(3) no_dates by simp
next
  case (decimal p s)
  then show ?thesis
    using decimal_widening_keeps [OF _ protocol_no_blanks [OF assms(2)] assms(3)] by (simp add: holds_decimal)
qed

theorem widening_keeps_values_witness:
  "holds_number ''integer'' 2147483647 \<and> holds_number (decimal_text 12 2) 2147483647"
proof -
  have w: "widening_allowed ''integer'' (decimal_text 12 2)" by code_simp
  have h: "holds_number ''integer'' 2147483647"
    by (auto simp: holds_number_def bits_of_def intro!: exI [of _ 2147483647])
  show ?thesis using widening_keeps_values [OF w _ h] h by (simp add: primitive_types_def)
qed

text \<open>C11: a type written in a schema is one of the protocol's, and the form it is written in reads
  back as that type.\<close>

theorem accepted_types_valid:
  assumes "valid_type j = Inr t"
  shows "protocol_type t \<and> valid_type (type_json t) = Inr t"
  using valid_type_protocol(1) [OF assms] type_json_valid(1) by blast

theorem accepted_types_valid_witness:
  "valid_type (JObj [(''type'', JStr ''array''), (''elementType'', JStr ''decimal(10, 2)'')])
     = Inr (ArrayOf (Prim ''decimal(10,2)'') True)
   \<and> protocol_type (ArrayOf (Prim ''decimal(10,2)'') True)"
proof -
  have v: "valid_type (JObj [(''type'', JStr ''array''), (''elementType'', JStr ''decimal(10, 2)'')])
     = Inr (ArrayOf (Prim ''decimal(10,2)'') True)" by code_simp
  show ?thesis using accepted_types_valid [OF v] v by blast
qed

end
