(* ===== verification/Capability.thy ===== *)
theory Capability
  imports Py_Prelude
begin

text \<open>
  \<open>capability.py\<close>: the conformance matrix.  Every row of its tables is here, in the source's
  order; the explanatory texts of the rows (\<open>note\<close>, \<open>issue\<close>, \<open>rationale\<close>) are left out.
  Table features are known by their wire names (\<open>feature_name\<close>), which are what a table's
  protocol lists.
\<close>

section \<open>The enumerations\<close>

datatype engine_kind = Kernel | Deltars | Sql | Sharing | Iceberg

fun engine_name :: "engine_kind \<Rightarrow> string" where
  "engine_name Kernel = ''kernel''" | "engine_name Deltars = ''deltars''"
| "engine_name Sql = ''sql''" | "engine_name Sharing = ''sharing''"
| "engine_name Iceberg = ''iceberg''"

datatype support = Yes | No | Partial

datatype feature_kind = ReaderFeature | WriterFeature | ReaderWriterFeature

datatype operation =
    OpScan | OpTimeTravel | OpCdf | OpIncremental | OpHistory | OpDetail | OpFiles | OpAppend |
    OpOverwrite | OpReplaceWhere | OpCreate | OpMergeSchema | OpDelete | OpUpdate | OpMerge |
    OpAddColumn | OpDropColumn | OpRenameColumn | OpSetProperties | OpAddFeature |
    OpDropFeature | OpAddConstraint | OpDropConstraint | OpUnsetProperties | OpSetComment |
    OpSetColumnComment | OpAlterColumnType | OpSetNotNull | OpDropNotNull | OpClusterBy |
    OpOptimize | OpZorder | OpVacuum | OpRestore | OpRepair | OpCheckpoint | OpLogCompaction |
    OpPublish | OpReorg | OpClone | OpConvert | OpGenerate | OpCleanupMetadata | OpAnalyze |
    OpSyncIceberg | OpRefresh

definition all_operations :: "operation list" where
  "all_operations =
    [OpScan, OpTimeTravel, OpCdf, OpIncremental, OpHistory, OpDetail, OpFiles, OpAppend,
     OpOverwrite, OpReplaceWhere, OpCreate, OpMergeSchema, OpDelete, OpUpdate, OpMerge,
     OpAddColumn, OpDropColumn, OpRenameColumn, OpSetProperties, OpAddFeature, OpDropFeature,
     OpAddConstraint, OpDropConstraint, OpUnsetProperties, OpSetComment, OpSetColumnComment,
     OpAlterColumnType, OpSetNotNull, OpDropNotNull, OpClusterBy, OpOptimize, OpZorder,
     OpVacuum, OpRestore, OpRepair, OpCheckpoint, OpLogCompaction, OpPublish, OpReorg, OpClone,
     OpConvert, OpGenerate, OpCleanupMetadata, OpAnalyze, OpSyncIceberg, OpRefresh]"

fun op_name :: "operation \<Rightarrow> string" where
  "op_name OpScan = ''scan''"
| "op_name OpTimeTravel = ''time_travel''"
| "op_name OpCdf = ''cdf''"
| "op_name OpIncremental = ''incremental''"
| "op_name OpHistory = ''history''"
| "op_name OpDetail = ''detail''"
| "op_name OpFiles = ''files''"
| "op_name OpAppend = ''append''"
| "op_name OpOverwrite = ''overwrite''"
| "op_name OpReplaceWhere = ''replace_where''"
| "op_name OpCreate = ''create''"
| "op_name OpMergeSchema = ''merge_schema''"
| "op_name OpDelete = ''delete''"
| "op_name OpUpdate = ''update''"
| "op_name OpMerge = ''merge''"
| "op_name OpAddColumn = ''add_column''"
| "op_name OpDropColumn = ''drop_column''"
| "op_name OpRenameColumn = ''rename_column''"
| "op_name OpSetProperties = ''set_properties''"
| "op_name OpAddFeature = ''add_feature''"
| "op_name OpDropFeature = ''drop_feature''"
| "op_name OpAddConstraint = ''add_constraint''"
| "op_name OpDropConstraint = ''drop_constraint''"
| "op_name OpUnsetProperties = ''unset_properties''"
| "op_name OpSetComment = ''set_comment''"
| "op_name OpSetColumnComment = ''set_column_comment''"
| "op_name OpAlterColumnType = ''alter_column_type''"
| "op_name OpSetNotNull = ''set_not_null''"
| "op_name OpDropNotNull = ''drop_not_null''"
| "op_name OpClusterBy = ''cluster_by''"
| "op_name OpOptimize = ''optimize''"
| "op_name OpZorder = ''zorder''"
| "op_name OpVacuum = ''vacuum''"
| "op_name OpRestore = ''restore''"
| "op_name OpRepair = ''repair''"
| "op_name OpCheckpoint = ''checkpoint''"
| "op_name OpLogCompaction = ''log_compaction''"
| "op_name OpPublish = ''publish''"
| "op_name OpReorg = ''reorg''"
| "op_name OpClone = ''clone''"
| "op_name OpConvert = ''convert''"
| "op_name OpGenerate = ''generate''"
| "op_name OpCleanupMetadata = ''cleanup_metadata''"
| "op_name OpAnalyze = ''analyze''"
| "op_name OpSyncIceberg = ''sync_iceberg''"
| "op_name OpRefresh = ''refresh''"

datatype table_feature =
    FAppendOnly | FInvariants | FCheckConstraints | FChangeDataFeed | FGeneratedColumns |
    FIdentityColumns | FInCommitTimestamp | FRowTracking | FDomainMetadata | FIcebergCompatV1 |
    FIcebergCompatV2 | FIcebergCompatV3 | FIcebergWriterCompatV1 | FIcebergWriterCompatV3 |
    FClustering | FMaterializePartitionColumns | FAllowColumnDefaults | FCatalogManaged |
    FCatalogOwnedPreview | FColumnMapping | FDeletionVectors | FTimestampNtz | FTypeWidening |
    FTypeWideningPreview | FV2Checkpoint | FVacuumProtocolCheck | FVariantType |
    FVariantTypePreview | FVariantShredding | FVariantShreddingPreview |
    FAdaptiveMetadataPreview | FGeospatial | FCollations | FCollationsPreview |
    FCheckpointProtection | FTimestampNanos

definition all_features :: "table_feature list" where
  "all_features =
    [FAppendOnly, FInvariants, FCheckConstraints, FChangeDataFeed, FGeneratedColumns,
     FIdentityColumns, FInCommitTimestamp, FRowTracking, FDomainMetadata, FIcebergCompatV1,
     FIcebergCompatV2, FIcebergCompatV3, FIcebergWriterCompatV1, FIcebergWriterCompatV3,
     FClustering, FMaterializePartitionColumns, FAllowColumnDefaults, FCatalogManaged,
     FCatalogOwnedPreview, FColumnMapping, FDeletionVectors, FTimestampNtz, FTypeWidening,
     FTypeWideningPreview, FV2Checkpoint, FVacuumProtocolCheck, FVariantType,
     FVariantTypePreview, FVariantShredding, FVariantShreddingPreview,
     FAdaptiveMetadataPreview, FGeospatial, FCollations, FCollationsPreview,
     FCheckpointProtection, FTimestampNanos]"

fun feature_name :: "table_feature \<Rightarrow> string" where
  "feature_name FAppendOnly = ''appendOnly''"
| "feature_name FInvariants = ''invariants''"
| "feature_name FCheckConstraints = ''checkConstraints''"
| "feature_name FChangeDataFeed = ''changeDataFeed''"
| "feature_name FGeneratedColumns = ''generatedColumns''"
| "feature_name FIdentityColumns = ''identityColumns''"
| "feature_name FInCommitTimestamp = ''inCommitTimestamp''"
| "feature_name FRowTracking = ''rowTracking''"
| "feature_name FDomainMetadata = ''domainMetadata''"
| "feature_name FIcebergCompatV1 = ''icebergCompatV1''"
| "feature_name FIcebergCompatV2 = ''icebergCompatV2''"
| "feature_name FIcebergCompatV3 = ''icebergCompatV3''"
| "feature_name FIcebergWriterCompatV1 = ''icebergWriterCompatV1''"
| "feature_name FIcebergWriterCompatV3 = ''icebergWriterCompatV3''"
| "feature_name FClustering = ''clustering''"
| "feature_name FMaterializePartitionColumns = ''materializePartitionColumns''"
| "feature_name FAllowColumnDefaults = ''allowColumnDefaults''"
| "feature_name FCatalogManaged = ''catalogManaged''"
| "feature_name FCatalogOwnedPreview = ''catalogOwned-preview''"
| "feature_name FColumnMapping = ''columnMapping''"
| "feature_name FDeletionVectors = ''deletionVectors''"
| "feature_name FTimestampNtz = ''timestampNtz''"
| "feature_name FTypeWidening = ''typeWidening''"
| "feature_name FTypeWideningPreview = ''typeWidening-preview''"
| "feature_name FV2Checkpoint = ''v2Checkpoint''"
| "feature_name FVacuumProtocolCheck = ''vacuumProtocolCheck''"
| "feature_name FVariantType = ''variantType''"
| "feature_name FVariantTypePreview = ''variantType-preview''"
| "feature_name FVariantShredding = ''variantShredding''"
| "feature_name FVariantShreddingPreview = ''variantShredding-preview''"
| "feature_name FAdaptiveMetadataPreview = ''adaptiveMetadata-preview''"
| "feature_name FGeospatial = ''geospatial''"
| "feature_name FCollations = ''collations''"
| "feature_name FCollationsPreview = ''collations-preview''"
| "feature_name FCheckpointProtection = ''checkpointProtection''"
| "feature_name FTimestampNanos = ''timestampNanos''"

section \<open>Legacy protocols\<close>

definition legacy_reader_features :: "int \<Rightarrow> table_feature set option" where
  "legacy_reader_features v = map_of
    [(1, {}),
     (2, {FColumnMapping})] v"

definition legacy_writer_features :: "int \<Rightarrow> table_feature set option" where
  "legacy_writer_features v = map_of
    [(1, {}),
     (2, {FAppendOnly, FInvariants}),
     (3, {FAppendOnly, FInvariants, FCheckConstraints}),
     (4, {FAppendOnly, FInvariants, FCheckConstraints, FChangeDataFeed, FGeneratedColumns}),
     (5, {FAppendOnly, FInvariants, FCheckConstraints, FChangeDataFeed, FGeneratedColumns,
       FColumnMapping}),
     (6, {FAppendOnly, FInvariants, FCheckConstraints, FChangeDataFeed, FGeneratedColumns,
       FColumnMapping, FIdentityColumns})] v"

text \<open>
  \<open>implied_features\<close>: what a legacy protocol version implies.  A version below the
  feature-based ones with no row takes the highest row there is.
\<close>

definition implied_from :: "(int \<Rightarrow> table_feature set option) \<Rightarrow> int \<Rightarrow> int \<Rightarrow> int option \<Rightarrow> table_feature set" where
  "implied_from rows highest feature_based v =
     (case v of
        None \<Rightarrow> {}
      | Some n \<Rightarrow>
          if n < feature_based then
            (case rows n of Some fs \<Rightarrow> fs | None \<Rightarrow> (case rows highest of Some fs \<Rightarrow> fs | None \<Rightarrow> {}))
          else {})"

definition implied_features :: "int option \<Rightarrow> int option \<Rightarrow> string set \<times> string set" where
  "implied_features min_reader min_writer =
     (feature_name ` implied_from legacy_reader_features 2 3 min_reader,
      feature_name ` implied_from legacy_writer_features 6 7 min_writer)"

section \<open>The feature matrix\<close>

record support_row =
  feature_kind :: feature_kind
  kernel_read :: support
  kernel_write :: support
  deltars_read :: support
  deltars_write :: support

definition feature_row :: "table_feature \<Rightarrow> feature_kind \<Rightarrow> support \<Rightarrow> support \<Rightarrow> support \<Rightarrow> support
    \<Rightarrow> table_feature \<times> support_row" where
  "feature_row f k kr kw dr dw =
     (f, \<lparr>feature_kind = k, kernel_read = kr, kernel_write = kw, deltars_read = dr, deltars_write = dw\<rparr>)"

definition writer_feature_rows :: "(table_feature \<times> support_row) list" where
  "writer_feature_rows =
    [feature_row FAppendOnly WriterFeature Yes Yes Yes Yes,
     feature_row FInvariants WriterFeature Yes Partial Yes Yes,
     feature_row FCheckConstraints WriterFeature Yes Partial Yes Yes,
     feature_row FChangeDataFeed WriterFeature Yes Yes Yes Yes,
     feature_row FGeneratedColumns WriterFeature Yes Partial Yes Yes,
     feature_row FIdentityColumns WriterFeature Yes Partial Yes No,
     feature_row FInCommitTimestamp WriterFeature Yes Yes Yes No,
     feature_row FRowTracking WriterFeature Yes Partial Yes No,
     feature_row FDomainMetadata WriterFeature Yes Yes Yes No,
     feature_row FIcebergCompatV1 WriterFeature Yes No Yes No,
     feature_row FIcebergCompatV2 WriterFeature Yes No Yes No,
     feature_row FIcebergWriterCompatV1 WriterFeature Yes No Yes No,
     feature_row FIcebergWriterCompatV3 WriterFeature Yes No Yes No,
     feature_row FIcebergCompatV3 WriterFeature Yes Yes Yes No,
     feature_row FClustering WriterFeature Yes Yes Yes No,
     feature_row FMaterializePartitionColumns WriterFeature Yes Yes Yes No,
     feature_row FAllowColumnDefaults WriterFeature Yes Yes Yes No]"

definition reader_writer_feature_rows :: "(table_feature \<times> support_row) list" where
  "reader_writer_feature_rows =
    [feature_row FCatalogManaged ReaderWriterFeature Yes Yes No No,
     feature_row FCatalogOwnedPreview ReaderWriterFeature Yes Yes No No,
     feature_row FColumnMapping ReaderWriterFeature Yes Yes Yes Yes,
     feature_row FDeletionVectors ReaderWriterFeature Yes Yes Yes Partial,
     feature_row FTimestampNtz ReaderWriterFeature Yes Yes Yes Yes,
     feature_row FTypeWidening ReaderWriterFeature Yes Yes No No,
     feature_row FTypeWideningPreview ReaderWriterFeature Yes Yes No No,
     feature_row FV2Checkpoint ReaderWriterFeature Yes Yes Yes Yes,
     feature_row FVacuumProtocolCheck ReaderWriterFeature Yes Yes No No,
     feature_row FVariantType ReaderWriterFeature Yes Yes Yes Yes,
     feature_row FVariantTypePreview ReaderWriterFeature Yes Yes Yes Yes,
     feature_row FVariantShredding ReaderWriterFeature Partial Yes No No,
     feature_row FVariantShreddingPreview ReaderWriterFeature Partial Yes No No,
     feature_row FAdaptiveMetadataPreview ReaderWriterFeature No No No No,
     feature_row FGeospatial ReaderWriterFeature No No No No]"

definition unknown_feature_rows :: "(table_feature \<times> support_row) list" where
  "unknown_feature_rows =
    [feature_row FCollations WriterFeature Partial No Partial No,
     feature_row FCollationsPreview WriterFeature Partial No Partial No,
     feature_row FCheckpointProtection WriterFeature Yes Partial Yes No,
     feature_row FTimestampNanos ReaderWriterFeature No No Yes Yes]"

definition feature_support_rows :: "(table_feature \<times> support_row) list" where
  "feature_support_rows = writer_feature_rows @ reader_writer_feature_rows @ unknown_feature_rows"

text \<open>
  \<open>FEATURE_SUPPORT[f]\<close>.  Every feature has a row; the default
  stands for the \<open>KeyError\<close> of one that has none.
\<close>

definition feature_support :: "table_feature \<Rightarrow> support_row" where
  "feature_support f =
     (case map_of feature_support_rows f of
        Some row \<Rightarrow> row
      | None \<Rightarrow> snd (feature_row f ReaderWriterFeature No No No No))"

definition feature_dependencies :: "table_feature \<Rightarrow> table_feature list option" where
  "feature_dependencies f = map_of
    [(FRowTracking, [FDomainMetadata]),
     (FClustering, [FDomainMetadata]),
     (FCatalogManaged, [FInCommitTimestamp]),
     (FCatalogOwnedPreview, [FInCommitTimestamp]),
     (FVariantShredding, [FVariantType]),
     (FIcebergCompatV1, [FColumnMapping]),
     (FIcebergCompatV2, [FColumnMapping]),
     (FIcebergCompatV3, [FColumnMapping, FRowTracking]),
     (FAdaptiveMetadataPreview, [FColumnMapping, FRowTracking, FDomainMetadata, FDeletionVectors, FInCommitTimestamp])] f"

text \<open>
  \<open>feature_from_wire\<close>: the feature of a wire name, an older writer's spelling of
  \<open>timestampNtz\<close> included; \<open>None\<close> is a name this release does not know.
\<close>

definition wire_aliases :: "(string \<times> table_feature) list" where
  "wire_aliases = [(''timestampWithoutTimezone'', FTimestampNtz)]"

definition feature_from_wire :: "string \<Rightarrow> table_feature option" where
  "feature_from_wire name =
     (case find (\<lambda>f. feature_name f = name) all_features of
        Some f \<Rightarrow> Some f
      | None \<Rightarrow> map_of wire_aliases name)"

section \<open>Operation routing\<close>

definition read_routes :: "(operation \<times> engine_kind list) list" where
  "read_routes =
    [(OpScan, [Kernel, Deltars, Sharing, Iceberg, Sql]),
     (OpTimeTravel, [Kernel, Deltars, Sharing, Iceberg, Sql]),
     (OpCdf, [Kernel, Deltars, Sharing, Sql]),
     (OpIncremental, []),
     (OpHistory, [Deltars, Iceberg, Sql]),
     (OpDetail, [Kernel, Deltars, Sharing, Iceberg, Sql]),
     (OpFiles, [Deltars, Kernel])]"

definition write_routes :: "(operation \<times> engine_kind list) list" where
  "write_routes =
    [(OpAppend, [Deltars, Kernel, Iceberg, Sql]),
     (OpCreate, [Deltars, Kernel]),
     (OpOverwrite, [Deltars, Kernel, Iceberg, Sql]),
     (OpReplaceWhere, [Deltars, Iceberg, Sql, Kernel]),
     (OpMergeSchema, [Deltars, Kernel, Sql])]"

definition dml_routes :: "(operation \<times> engine_kind list) list" where
  "dml_routes =
    [(OpDelete, [Deltars, Sql, Kernel]),
     (OpUpdate, [Deltars, Sql, Kernel]),
     (OpMerge, [Deltars, Sql, Kernel])]"

definition ddl_routes :: "(operation \<times> engine_kind list) list" where
  "ddl_routes =
    [(OpAddColumn, [Deltars, Kernel, Sql]),
     (OpSetProperties, [Deltars, Kernel, Sql]),
     (OpUnsetProperties, [Kernel, Sql]),
     (OpAddFeature, [Deltars, Kernel, Sql]),
     (OpAddConstraint, [Deltars, Kernel, Sql]),
     (OpDropConstraint, [Deltars, Kernel, Sql]),
     (OpSetComment, [Deltars, Kernel, Sql]),
     (OpSetColumnComment, [Deltars, Kernel, Sql]),
     (OpAlterColumnType, [Kernel, Sql]),
     (OpSetNotNull, [Kernel, Sql]),
     (OpDropNotNull, [Deltars, Kernel, Sql]),
     (OpClusterBy, [Kernel, Sql]),
     (OpDropColumn, [Kernel, Sql]),
     (OpRenameColumn, [Kernel, Sql]),
     (OpDropFeature, [Sql])]"

definition maintenance_routes :: "(operation \<times> engine_kind list) list" where
  "maintenance_routes =
    [(OpOptimize, [Kernel, Deltars, Sql]),
     (OpZorder, [Kernel, Deltars, Sql]),
     (OpVacuum, [Deltars, Kernel, Sql]),
     (OpRestore, [Deltars, Kernel, Sql]),
     (OpRepair, [Deltars, Kernel, Sql]),
     (OpConvert, [Deltars]),
     (OpGenerate, [Deltars, Kernel]),
     (OpCheckpoint, [Deltars, Kernel]),
     (OpLogCompaction, [Deltars]),
     (OpCleanupMetadata, [Kernel, Deltars]),
     (OpPublish, [Kernel]),
     (OpReorg, [Sql]),
     (OpClone, [Kernel, Sql]),
     (OpAnalyze, [Sql]),
     (OpSyncIceberg, [Sql]),
     (OpRefresh, [Sql])]"

definition operation_routes :: "(operation \<times> engine_kind list) list" where
  "operation_routes = read_routes @ write_routes @ dml_routes @ ddl_routes @ maintenance_routes"

definition operation_engines :: "operation \<Rightarrow> engine_kind list option" where
  "operation_engines op = map_of operation_routes op"

definition databricks_only :: "operation \<Rightarrow> bool" where
  "databricks_only op \<longleftrightarrow> operation_engines op = Some [Sql]"

fun engine_method :: "operation \<Rightarrow> string" where
  "engine_method OpScan = ''scan''"
| "engine_method OpTimeTravel = ''scan''"
| "engine_method OpCdf = ''cdf''"
| "engine_method OpIncremental = ''incremental''"
| "engine_method OpHistory = ''history''"
| "engine_method OpDetail = ''detail''"
| "engine_method OpFiles = ''files''"
| "engine_method OpAppend = ''append''"
| "engine_method OpOverwrite = ''overwrite''"
| "engine_method OpReplaceWhere = ''overwrite''"
| "engine_method OpCreate = ''create''"
| "engine_method OpMergeSchema = ''append''"
| "engine_method OpDelete = ''delete''"
| "engine_method OpUpdate = ''update''"
| "engine_method OpMerge = ''merge''"
| "engine_method OpAddColumn = ''add_columns''"
| "engine_method OpDropColumn = ''drop_column''"
| "engine_method OpRenameColumn = ''rename_column''"
| "engine_method OpSetProperties = ''set_properties''"
| "engine_method OpUnsetProperties = ''unset_properties''"
| "engine_method OpAddFeature = ''add_feature''"
| "engine_method OpDropFeature = ''drop_feature''"
| "engine_method OpAddConstraint = ''add_constraint''"
| "engine_method OpDropConstraint = ''drop_constraint''"
| "engine_method OpSetComment = ''set_comment''"
| "engine_method OpSetColumnComment = ''set_column_comment''"
| "engine_method OpAlterColumnType = ''alter_column_type''"
| "engine_method OpSetNotNull = ''set_not_null''"
| "engine_method OpDropNotNull = ''drop_not_null''"
| "engine_method OpClusterBy = ''cluster_by''"
| "engine_method OpOptimize = ''optimize''"
| "engine_method OpZorder = ''zorder''"
| "engine_method OpVacuum = ''vacuum''"
| "engine_method OpRestore = ''restore''"
| "engine_method OpRepair = ''repair''"
| "engine_method OpCheckpoint = ''checkpoint''"
| "engine_method OpLogCompaction = ''compact_logs''"
| "engine_method OpCleanupMetadata = ''cleanup_metadata''"
| "engine_method OpPublish = ''publish''"
| "engine_method OpReorg = ''reorg''"
| "engine_method OpClone = ''clone''"
| "engine_method OpConvert = ''convert''"
| "engine_method OpGenerate = ''generate''"
| "engine_method OpAnalyze = ''analyze''"
| "engine_method OpSyncIceberg = ''sync_iceberg_metadata''"
| "engine_method OpRefresh = ''refresh''"

definition operation_feature_blockers :: "engine_kind \<Rightarrow> operation \<Rightarrow> table_feature set" where
  "operation_feature_blockers k op = (case map_of
    [((Deltars, OpOptimize), {FColumnMapping}),
     ((Deltars, OpZorder), {FColumnMapping}),
     ((Deltars, OpAddColumn), {FColumnMapping}),
     ((Deltars, OpGenerate), {FDeletionVectors, FColumnMapping}),
     ((Kernel, OpGenerate), {FDeletionVectors, FColumnMapping})] (k, op) of None \<Rightarrow> {} | Some fs \<Rightarrow> fs)"

definition append_only_forbidden :: "operation set" where
  "append_only_forbidden =
    {OpOverwrite, OpReplaceWhere, OpDelete, OpUpdate, OpRestore}"

definition column_mapping_required :: "operation set" where
  "column_mapping_required =
    {OpRenameColumn, OpDropColumn}"

definition uniform_stale_writes :: "operation set" where
  "uniform_stale_writes =
    {OpAppend, OpOverwrite, OpReplaceWhere, OpDelete, OpUpdate, OpMerge, OpMergeSchema}"

definition kernel_log_write_operations :: "operation set" where
  "kernel_log_write_operations =
    {OpCheckpoint}"

definition value_constraint_features :: "table_feature set" where
  "value_constraint_features =
    {FCheckConstraints, FGeneratedColumns, FIdentityColumns, FInvariants}"

definition log_only_exempt :: "table_feature set" where
  "log_only_exempt =
    {FDomainMetadata, FClustering, FRowTracking, FTypeWidening, FTypeWideningPreview,
     FVariantShredding, FVariantShreddingPreview, FIdentityColumns, FGeneratedColumns,
     FCheckConstraints, FInvariants, FAllowColumnDefaults, FMaterializePartitionColumns}"

definition deltars_operation_exemptions :: "operation \<Rightarrow> table_feature set" where
  "deltars_operation_exemptions op = (case map_of
    [(OpHistory, {FTypeWidening, FTypeWideningPreview, FVacuumProtocolCheck, FVariantShredding,
      FVariantShreddingPreview}),
     (OpCleanupMetadata, log_only_exempt),
     (OpLogCompaction, log_only_exempt \<union> {FInCommitTimestamp})] op of None \<Rightarrow> {} | Some fs \<Rightarrow> fs)"

definition deltars_dry_run_operations :: "operation set" where
  "deltars_dry_run_operations = {OpVacuum, OpRepair}"

definition deltars_vacuum_dry_run_exempt :: "table_feature set" where
  "deltars_vacuum_dry_run_exempt = log_only_exempt \<union> {FInCommitTimestamp, FVacuumProtocolCheck}"

definition read_operations :: "operation set" where
  "read_operations =
    {OpScan, OpTimeTravel, OpCdf, OpIncremental, OpHistory, OpDetail, OpFiles}"

definition metadata_operations :: "operation set" where
  "metadata_operations =
    {OpAddColumn, OpDropColumn, OpRenameColumn, OpSetProperties, OpUnsetProperties,
     OpAddFeature, OpAddConstraint, OpDropConstraint, OpSetComment, OpSetColumnComment,
     OpAlterColumnType, OpSetNotNull, OpDropNotNull, OpClusterBy}"

section \<open>Lemmas\<close>

lemma all_features_complete [simp]: "f \<in> set all_features"
  by (cases f) (simp_all add: all_features_def)

lemma all_operations_complete [simp]: "op \<in> set all_operations"
  by (cases op) (simp_all add: all_operations_def)

lemma all_features_iff: "(\<forall>f. P f) \<longleftrightarrow> list_all P all_features"
  by (auto simp: list_all_iff)

lemma all_operations_iff: "(\<forall>op. P op) \<longleftrightarrow> list_all P all_operations"
  by (auto simp: list_all_iff)

lemma feature_names_distinct: "distinct (map feature_name all_features)"
  by code_simp

lemma feature_name_inj: "feature_name f = feature_name g \<longleftrightarrow> f = g"
  using feature_names_distinct all_features_complete [of f] all_features_complete [of g]
  by (auto simp: distinct_map inj_on_def)

lemma find_feature_name [simp]: "find (\<lambda>g. feature_name g = feature_name f) all_features = Some f"
proof -
  have "find (\<lambda>g. g = f) all_features = Some f" by (cases f) (simp_all add: all_features_def)
  then show ?thesis by (simp add: feature_name_inj)
qed

lemma feature_from_wire_name [simp]: "feature_from_wire (feature_name f) = Some f"
  by (simp add: feature_from_wire_def)

end
