(* ===== verification/Catalog.thy ===== *)
theory Catalog
  imports Capability Identity Py_Data
begin

text \<open>
  \<open>catalog/base.py\<close>: what a catalog says of a table (\<open>ResolvedTable\<close> and the properties the
  router reads off it), and the commit tail of a catalog-managed table
  (\<open>parse_commit_tail\<close>).  The credential provider and the callable \<open>commit_tail\<close> are not
  modelled.
\<close>

section \<open>Tables\<close>

datatype table_type =
    Managed | External | View | MaterializedView | StreamingTable
  | ManagedShallowClone | ExternalShallowClone | Foreign | MetricView

text \<open>\<open>needle in s\<close>, on strings.\<close>

fun contains :: "string \<Rightarrow> string \<Rightarrow> bool" where
  "contains needle [] \<longleftrightarrow> needle = []"
| "contains needle (c # s) \<longleftrightarrow> starts_with (c # s) needle \<or> contains needle s"

record resolved_table =
  t_ref :: table_ref
  t_location :: "string option"
  t_type :: "table_type option"
  t_format :: "string option"
  t_securable :: "string option"
  t_id :: "string option"
  t_min_reader :: "int option"
  t_min_writer :: "int option"
  t_reader_features :: "string set"
  t_writer_features :: "string set"
  t_properties :: "string \<rightharpoonup> string"
  t_partition_columns :: "string list"
  t_has_invariants :: bool
  t_has_check_constraints :: bool
  t_has_generated_columns :: bool
  t_has_binary_partitions :: bool
  t_has_datetime_columns :: bool
  t_open_error :: "string option"
  t_uuid :: "string option"
  t_etag :: "string option"
  t_external_read :: "bool option"
  t_external_write :: "bool option"
  t_access_policy :: "string option"
  t_max_catalog_version :: "int option"
  t_iceberg_rest_uri :: "string option"
  t_sharing_profile :: "string option"

text \<open>A string that is neither \<open>None\<close> nor empty: its truth value.\<close>

definition present :: "string option \<Rightarrow> bool" where
  "present v \<longleftrightarrow> v \<noteq> None \<and> v \<noteq> Some []"

definition or_empty :: "string option \<Rightarrow> string" where
  "or_empty v = (case v of None \<Rightarrow> [] | Some s \<Rightarrow> s)"

text \<open>\<open>properties.get(key, default)\<close>, and the test for \<open>true\<close> the sources repeat.\<close>

definition property :: "resolved_table \<Rightarrow> string \<Rightarrow> string \<Rightarrow> string" where
  "property t key otherwise = (case t_properties t key of None \<Rightarrow> otherwise | Some v \<Rightarrow> v)"

definition property_true :: "resolved_table \<Rightarrow> string \<Rightarrow> bool" where
  "property_true t key \<longleftrightarrow> py_lower (py_strip (property t key [])) = ''true''"

definition features :: "resolved_table \<Rightarrow> string set" where
  "features t = t_reader_features t \<union> t_writer_features t"

definition effective_reader_features :: "resolved_table \<Rightarrow> string set" where
  "effective_reader_features t =
     t_reader_features t \<union> fst (implied_features (t_min_reader t) (t_min_writer t))"

definition effective_writer_features :: "resolved_table \<Rightarrow> string set" where
  "effective_writer_features t =
     t_writer_features t \<union> snd (implied_features (t_min_reader t) (t_min_writer t))"

definition known_features :: "resolved_table \<Rightarrow> table_feature set" where
  "known_features t = (\<Union>n\<in>features t. set_option (feature_from_wire n))"

definition unknown_features :: "resolved_table \<Rightarrow> string set" where
  "unknown_features t = {n \<in> features t. feature_from_wire n = None}"

definition is_catalog_managed :: "resolved_table \<Rightarrow> bool" where
  "is_catalog_managed t \<longleftrightarrow>
     feature_name FCatalogManaged \<in> features t
     \<or> feature_name FCatalogOwnedPreview \<in> features t
     \<or> list_ex (\<lambda>f. py_lower (property t (''delta.feature.'' @ feature_name f) []) \<in> {''supported'', ''enabled''})
         [FCatalogManaged, FCatalogOwnedPreview]"

definition is_shallow_clone :: "resolved_table \<Rightarrow> bool" where
  "is_shallow_clone t \<longleftrightarrow>
     t_type t \<in> {Some ManagedShallowClone, Some ExternalShallowClone}
     \<or> (case t_securable t of None \<Rightarrow> False | Some s \<Rightarrow> contains ''SHALLOW_CLONE'' s)"

definition table_format :: "resolved_table \<Rightarrow> string" where
  "table_format t = py_upper (or_empty (t_format t))"

definition is_delta :: "resolved_table \<Rightarrow> bool" where
  "is_delta t \<longleftrightarrow> table_format t \<in> {[], ''DELTA'', ''DELTA_UNIFORM_ICEBERG'', ''DELTA_UNIFORM_HUDI''}"

definition is_shared :: "resolved_table \<Rightarrow> bool" where
  "is_shared t \<longleftrightarrow> t_sharing_profile t \<noteq> None"

definition is_iceberg :: "resolved_table \<Rightarrow> bool" where
  "is_iceberg t \<longleftrightarrow> table_format t = ''ICEBERG''"

definition is_managed_iceberg :: "resolved_table \<Rightarrow> bool" where
  "is_managed_iceberg t \<longleftrightarrow>
     is_iceberg t
     \<or> is_catalog_managed t
       \<and> list_ex (property_true t)
           [''delta.enableIcebergWriterCompatV1'', ''delta.enableIcebergWriterCompatV3'']"

definition is_view_like :: "resolved_table \<Rightarrow> bool" where
  "is_view_like t \<longleftrightarrow>
     t_type t \<in> {Some View, Some MaterializedView, Some MetricView, Some StreamingTable}"

definition has_iceberg_compat :: "resolved_table \<Rightarrow> bool" where
  "has_iceberg_compat t \<longleftrightarrow>
     list_ex (\<lambda>f. feature_name f \<in> features t) [FIcebergCompatV1, FIcebergCompatV2, FIcebergCompatV3]
     \<or> contains ''iceberg'' (py_lower (property t ''delta.universalFormat.enabledFormats'' []))
     \<or> list_ex (\<lambda>n. py_lower (property t (''delta.enableIcebergCompatV'' @ n) []) = ''true'') [''1'', ''2'', ''3'']"

definition compatibility_mode_location :: "resolved_table \<Rightarrow> string option" where
  "compatibility_mode_location t =
     (if contains ''compatibility'' (property t ''delta.universalFormat.enabledFormats'' [])
      then t_properties t ''delta.universalFormat.compatibility.location'' else None)"

section \<open>The commit tail\<close>

definition names_something :: "json option \<Rightarrow> bool" where
  "names_something v =
     (case v of
        None \<Rightarrow> False
      | Some j \<Rightarrow> equals_zero j \<or> (case j of JStr s \<Rightarrow> py_strip s \<noteq> [] | _ \<Rightarrow> truthy j))"

datatype catalog_error = NoVersionOrFile "string list" | BadInteger json

text \<open>\<open>int(text)\<close>: spaces around it, a sign, and single underscores between digits.\<close>

fun underscored :: "string \<Rightarrow> string option" where
  "underscored [c] = (if ascii_digit c then Some [c] else None)"
| "underscored (c # d # s) =
     (if \<not> ascii_digit c then None
      else if d = CHR ''_'' then map_option (Cons c) (underscored s)
      else map_option (Cons c) (underscored (d # s)))"
| "underscored [] = None"

fun int_of_json :: "json \<Rightarrow> catalog_error + int" where
  "int_of_json (JInt i) = Inr i"
| "int_of_json (JBool b) = Inr (if b then 1 else 0)"
| "int_of_json (JReal r) = Inr (if r < 0 then \<lceil>r\<rceil> else \<lfloor>r\<rfloor>)"
| "int_of_json (JStr s) =
     (let (neg, ds) = sign_split (py_strip s) in
      case underscored ds of
        None \<Rightarrow> Inl (BadInteger (JStr s))
      | Some digits \<Rightarrow> Inr ((if neg then - 1 else 1) * int (digits_val digits)))"
| "int_of_json j = Inl (BadInteger j)"

record log_tail_entry =
  entry_version :: int
  entry_path :: json
  entry_size :: int
  entry_timestamp :: "int option"

definition version_names :: "string list" where
  "version_names = [''version'', ''commit-version'', ''commitVersion'']"

definition file_names :: "string list" where
  "file_names = [''file-name'', ''file_name'', ''fileName'']"

type_synonym commit = "(string \<times> json) list"

definition missing_parts :: "commit \<Rightarrow> string list" where
  "missing_parts c =
     (if names_something (first_of c version_names) then [] else [''version''])
     @ (if names_something (first_of c file_names) then [] else [''file name''])"

fun objects_of :: "json list \<Rightarrow> commit list" where
  "objects_of [] = []"
| "objects_of (j # js) = (case j of JObj m \<Rightarrow> m # objects_of js | _ \<Rightarrow> objects_of js)"

definition check_commit :: "commit \<Rightarrow> catalog_error + unit" where
  "check_commit c = (if missing_parts c = [] then Inr () else Inl (NoVersionOrFile (missing_parts c)))"

definition or_else :: "json option \<Rightarrow> json \<Rightarrow> json" where
  "or_else v d = (case v of None \<Rightarrow> d | Some j \<Rightarrow> if truthy j then j else d)"

definition commit_version :: "commit \<Rightarrow> catalog_error + int" where
  "commit_version c = int_of_json (case first_of c version_names of None \<Rightarrow> JNull | Some j \<Rightarrow> j)"

definition tail_entry :: "int \<times> commit \<Rightarrow> catalog_error + log_tail_entry" where
  "tail_entry vc =
     (case vc of (v, c) \<Rightarrow>
        bind_result (int_of_json (or_else (first_of c [''file-size'', ''file_size'', ''fileSize'']) (JInt 0))) (\<lambda>size.
        bind_result
          (case first_of c [''file-modification-timestamp'', ''timestamp'', ''file_modification_timestamp''] of
             None \<Rightarrow> Inr None
           | Some ts \<Rightarrow> bind_result (int_of_json ts) (\<lambda>i. Inr (Some i))) (\<lambda>ts.
        Inr \<lparr>entry_version = v, entry_path = or_else (first_of c file_names) (JStr []),
             entry_size = size, entry_timestamp = ts\<rparr>)))"

definition latest_names :: "string list" where
  "latest_names = [''latest-table-version'', ''latest_table_version'', ''latestTableVersion'']"

definition latest_version :: "commit \<Rightarrow> log_tail_entry list \<Rightarrow> catalog_error + int option" where
  "latest_version body entries =
     (case first_of body latest_names of
        Some j \<Rightarrow> bind_result (int_of_json j) (\<lambda>i. Inr (Some i))
      | None \<Rightarrow> Inr (if entries = [] then None else Some (entry_version (last entries))))"

definition tail_location :: "commit \<Rightarrow> json option \<Rightarrow> json option" where
  "tail_location body fallback =
     (case map_of body ''location'' of
        Some j \<Rightarrow> if truthy j then Some j else
          (case map_of body ''metadata'' of
             Some (JObj m) \<Rightarrow> (case map_of m ''location'' of
                Some l \<Rightarrow> if truthy l then Some l else fallback | None \<Rightarrow> fallback)
           | _ \<Rightarrow> fallback)
      | None \<Rightarrow>
          (case map_of body ''metadata'' of
             Some (JObj m) \<Rightarrow> (case map_of m ''location'' of
                Some l \<Rightarrow> if truthy l then Some l else fallback | None \<Rightarrow> fallback)
           | _ \<Rightarrow> fallback))"

text \<open>
  The response's \<open>commits\<close> is an array and its \<open>metadata\<close> an object, or absent; of any other
  type they raise in Python, and read here as absent.
\<close>

definition parse_commit_tail ::
    "commit \<Rightarrow> json option \<Rightarrow> catalog_error + log_tail_entry list \<times> int option \<times> json option" where
  "parse_commit_tail body fallback =
     (let commits = objects_of (case map_of body ''commits'' of Some (JArr cs) \<Rightarrow> cs | _ \<Rightarrow> []) in
      bind_result (map_result check_commit commits) (\<lambda>_.
      bind_result (map_result (\<lambda>c. bind_result (commit_version c) (\<lambda>v. Inr (v, c))) commits) (\<lambda>keyed.
      bind_result (map_result tail_entry (sort_key fst (dict_of keyed))) (\<lambda>entries.
      bind_result (latest_version body entries) (\<lambda>latest.
      Inr (entries, latest, tail_location body fallback))))))"

section \<open>Properties of the tail\<close>

lemma keyed_versions:
  "map_result (\<lambda>c. bind_result (f c) (\<lambda>v. Inr (v, c))) cs = Inr ks
    \<Longrightarrow> fst ` set ks = {v. \<exists>c\<in>set cs. f c = Inr v}"
proof (induction cs arbitrary: ks)
  case (Cons c cs)
  then obtain v ks' where "f c = Inr v" "ks = (v, c) # ks'"
    "map_result (\<lambda>c. bind_result (f c) (\<lambda>v. Inr (v, c))) cs = Inr ks'"
    by (auto elim!: bind_result_InrE)
  then show ?case using Cons.IH by auto
qed simp

lemma tail_entry_version: "tail_entry vc = Inr e \<Longrightarrow> entry_version e = fst vc"
  by (cases vc) (auto simp: tail_entry_def elim!: bind_result_InrE)

lemma tail_entries_versions:
  "map_result tail_entry vcs = Inr es \<Longrightarrow> map entry_version es = map fst vcs"
  using map_result_all2 [of tail_entry vcs es]
  by (auto simp: list_all2_conv_all_nth list_eq_iff_nth_eq dest: tail_entry_version)

lemma Max_last:
  assumes "sorted_wrt (<) (xs :: int list)" "xs \<noteq> []"
  shows "Max (set xs) = last xs"
proof (rule Max_eqI)
  fix y
  assume "y \<in> set xs"
  then show "y \<le> last xs"
    using assms by (cases xs rule: rev_cases) (auto simp: sorted_wrt_append intro: less_imp_le)
qed (use assms in auto)

lemma sorted_distinct_strict: "sorted xs \<Longrightarrow> distinct xs \<Longrightarrow> sorted_wrt (<) xs"
  by (induction xs) (auto simp: order_less_le)

definition commit_versions :: "commit \<Rightarrow> int set" where
  "commit_versions body =
     {v. \<exists>c\<in>set (objects_of (case map_of body ''commits'' of Some (JArr cs) \<Rightarrow> cs | _ \<Rightarrow> [])).
         commit_version c = Inr v}"

text \<open>
  C38: The log tail handed to the kernel is strictly ascending in version whatever order the
  catalog lists its commits in, names each listed version once, and without a reported
  latest version the newest listed one is taken, so a non-empty tail always has a maximum.
\<close>

theorem commit_tail_ascending:
  assumes "parse_commit_tail body fallback = Inr (entries, latest, loc)"
  shows "sorted_wrt (<) (map entry_version entries)
    \<and> set (map entry_version entries) = commit_versions body
    \<and> (first_of body latest_names = None \<longrightarrow>
         latest = (if entries = [] then None else Some (Max (commit_versions body))))"
proof -
  define commits where "commits = objects_of (case map_of body ''commits'' of Some (JArr cs) \<Rightarrow> cs | _ \<Rightarrow> [])"
  obtain keyed where keyed: "map_result (\<lambda>c. bind_result (commit_version c) (\<lambda>v. Inr (v, c))) commits = Inr keyed"
    and entries: "map_result tail_entry (sort_key fst (dict_of keyed)) = Inr entries"
    and latest: "latest_version body entries = Inr latest"
    using assms by (auto simp: parse_commit_tail_def Let_def commits_def elim!: bind_result_InrE)
  note versions = tail_entries_versions [OF entries]
  have sorted: "sorted_wrt (<) (map entry_version entries)"
    unfolding versions by (intro sorted_distinct_strict) (use dict_of_distinct [of keyed] in \<open>auto simp: distinct_map\<close>)
  have "fst ` set keyed = commit_versions body"
    using keyed_versions [OF keyed] by (simp add: commit_versions_def commits_def)
  then have set: "set (map entry_version entries) = commit_versions body"
    using dict_of_keys [of keyed] by (simp add: versions)
  have "latest = Some (Max (commit_versions body))" if "first_of body latest_names = None" "entries \<noteq> []"
  proof -
    have "entry_version (last entries) = Max (set (map entry_version entries))"
      using Max_last [OF sorted] that(2) by (simp add: last_map del: set_map)
    then show ?thesis using latest that set by (simp add: latest_version_def)
  qed
  moreover have "latest = None" if "first_of body latest_names = None" "entries = []"
    using latest that by (simp add: latest_version_def)
  ultimately show ?thesis using sorted set by auto
qed

theorem commit_tail_ascending_witness:
  "\<exists>entries latest loc. parse_commit_tail [(''commits'', JArr
        [JObj [(''version'', JInt 3), (''file-name'', JStr ''c.json'')],
         JObj [(''commit-version'', JStr ''1''), (''file_name'', JStr ''a.json''), (''file-size'', JInt 9)],
         JObj [(''version'', JInt 3), (''fileName'', JStr ''d.json'')]])] None = Inr (entries, latest, loc)
     \<and> sorted_wrt (<) (map entry_version entries) \<and> latest = Some 3"
proof -
  let ?body = "[(''commits'', JArr
        [JObj [(''version'', JInt 3), (''file-name'', JStr ''c.json'')],
         JObj [(''commit-version'', JStr ''1''), (''file_name'', JStr ''a.json''), (''file-size'', JInt 9)],
         JObj [(''version'', JInt 3), (''fileName'', JStr ''d.json'')]])]"
  have e: "parse_commit_tail ?body None = Inr
    ([\<lparr>entry_version = 1, entry_path = JStr ''a.json'', entry_size = 9, entry_timestamp = None\<rparr>,
      \<lparr>entry_version = 3, entry_path = JStr ''d.json'', entry_size = 0, entry_timestamp = None\<rparr>], Some 3, None)"
    by code_simp
  show ?thesis using commit_tail_ascending [OF e] e by blast
qed

end
