(* ===== verification/Router_Rules.thy ===== *)
theory Router_Rules
  imports Catalog
begin

text \<open>
  \<open>router.py\<close>, the rules it judges a table by: which operation no engine or no direct
  engine may run on it, the features a metadata change turns on and whether it would
  strand the table, and the order in which the engines are asked.  The texts of
  the refusals are the constructors of \<open>reason\<close> and \<open>remedy\<close>, one per message.
\<close>

section \<open>Refusals, remedies and capabilities\<close>

datatype reason =
    Text string
  | By engine_kind reason
  \<comment> \<open>the request\<close>
  | IdentityInsert | IdentityUpdate | AppendOnlyMerge | ShareLacks "string set" | UnknownOperation
  \<comment> \<open>an engine that is not asked\<close>
  | AlreadyTried | NotConfigured | NotWorkspaceCatalog | NoUnityName | FallbackDisabled
  | LacksNeeds "string set" | CollatedColumns | ShreddedVariants
  \<comment> \<open>the table, for every direct engine\<close>
  | NotDelta | ViewWithoutFiles | ForeignTable | HiveMetastore | CatalogManagedAlter
  | LogUnreadable string | NoExternalRead | PolicyNoVending string | NoExternalWrite
  | StrandsLegacy int "string set" "string set" | StrandsFeatures "string set" "string set" "string set"
  \<comment> \<open>the operation on this table\<close>
  | AppendOnly | ManagedIcebergWrite | UniformStale | NeedsColumnMapping | NeedsTypeWidening
  | FeatureBlocks "string set" | LegacyWriterLog int | UnwritableLog "string set" | InvariantsPresent
  | CalendarUnchecked string | CalendarShifted bool | FooterUnchecked string | FooterShifts
  \<comment> \<open>the catalog\<close>
  | SharingMissing | IcebergUnavailable bool | WrongFormat string | QueryDefined table_type
  | NoFileSurface bool | AppendOnlyForbids | PolicyForbids string
  | DatabricksElsewhere | DatabricksNoName | DatabricksOnly | GeospatialColumn
  | NoEngine

datatype remedy =
    NoRemedy | EnableFallback | ConnectCanQuery | ConnectWouldRoute | RegisterTable
  | InstallSharing | InstallIceberg | LeaveOutIdentity | DropIdentity | InsertOnly
  | WriteSources bool | UnsetAppendOnly | FixAuthentication | CheckLog | RText string

record capability =
  c_operation :: operation
  c_ok :: bool
  c_engine :: "engine_kind option"
  c_reasons :: "reason list"
  c_remedy :: remedy

definition refuse :: "operation \<Rightarrow> reason list \<Rightarrow> remedy \<Rightarrow> capability" where
  "refuse op rs m = \<lparr>c_operation = op, c_ok = False, c_engine = None, c_reasons = rs, c_remedy = m\<rparr>"

text \<open>\<open>"fallback is disabled" in reason\<close>, and \<open>"allow_sql_fallback" in remedy\<close>.\<close>

abbreviation disabled_text :: string where "disabled_text \<equiv> ''fallback is disabled''"

fun says_disabled :: "reason \<Rightarrow> bool" where
  "says_disabled (Text s) = contains disabled_text s"
| "says_disabled (By k r) = says_disabled r"
| "says_disabled FallbackDisabled = True"
| "says_disabled (LogUnreadable e) = contains disabled_text e"
| "says_disabled (PolicyNoVending p) = contains disabled_text p"
| "says_disabled (PolicyForbids p) = contains disabled_text p"
| "says_disabled (CalendarUnchecked e) = contains disabled_text (take 160 e)"
| "says_disabled (FooterUnchecked e) = contains disabled_text (take 160 e)"
| "says_disabled (WrongFormat f) = contains disabled_text f"
| "says_disabled (ShareLacks ns) = (\<exists>n\<in>ns. contains disabled_text n)"
| "says_disabled (LacksNeeds ns) = (\<exists>n\<in>ns. contains disabled_text n)"
| "says_disabled (UnwritableLog ns) = (\<exists>n\<in>ns. contains disabled_text n)"
| "says_disabled (StrandsLegacy v ns ks) = (\<exists>n\<in>ns \<union> ks. contains disabled_text n)"
| "says_disabled (StrandsFeatures a ks ds) = (\<exists>n\<in>a \<union> ks \<union> ds. contains disabled_text n)"
| "says_disabled _ = False"

fun names_fallback :: "remedy \<Rightarrow> bool" where
  "names_fallback EnableFallback = True"
| "names_fallback ConnectCanQuery = True"
| "names_fallback ConnectWouldRoute = True"
| "names_fallback RegisterTable = True"
| "names_fallback (RText s) = contains ''allow_sql_fallback'' s"
| "names_fallback _ = False"

section \<open>Naming, opening, features\<close>

definition catalog_managed_alter_ops :: "operation set" where
  "catalog_managed_alter_ops = metadata_operations \<union> {OpDropFeature, OpAddConstraint, OpMergeSchema}"

definition query_defined :: "table_type option \<Rightarrow> bool" where
  "query_defined ty \<longleftrightarrow> ty \<in> {Some View, Some MaterializedView, Some MetricView}"

definition data_writes :: "operation set" where
  "data_writes =
     {OpAppend, OpOverwrite, OpReplaceWhere, OpDelete, OpUpdate, OpMerge, OpMergeSchema, OpRestore}"

definition is_uc_hive_metastore :: "resolved_table \<Rightarrow> bool" where
  "is_uc_hive_metastore t \<longleftrightarrow>
     py_lower (or_empty (catalog (t_ref t))) = ''hive_metastore'' \<and> scheme (t_ref t) \<noteq> Some ''hms''"

definition warehouse_can_name :: "resolved_table \<Rightarrow> bool" where
  "warehouse_can_name t \<longleftrightarrow>
     kind (t_ref t) = CATALOG
     \<and> py_lower (or_empty (scheme (t_ref t))) \<notin> {''hms'', ''hive'', ''glue''}"

definition unfixable_open_errors :: "string list" where
  "unfixable_open_errors =
     [''tablenotfound'', ''not a delta table'', ''no such file or directory'', ''does not exist'',
      ''no files in log segment'', ''corrupt'', ''invalid json'', ''failed to parse'',
      ''has no such version'', ''expected contiguous commit files'', ''no table metadata found'',
      ''no protocol found'', ''invalid protocol action'', ''unmasked nulls'']"

definition auth_open_errors :: "string list" where
  "auth_open_errors =
     [''could not configure databricks authentication'',
      ''the databricks credentials were rejected'', ''cannot reach the databricks host'']"

definition geospatial :: "resolved_table \<Rightarrow> bool" where
  "geospatial t \<longleftrightarrow>
     ''geospatial'' \<in> features t
     \<or> t_properties t ''delta.feature.geospatial'' \<noteq> None
     \<or> list_ex (\<lambda>g. contains (''type: '' @ [CHR 0x27] @ g @ ''('') (or_empty (t_open_error t)))
         [''geometry'', ''geography'']"

definition open_error_remedy :: "resolved_table \<Rightarrow> bool \<Rightarrow> remedy" where
  "open_error_remedy t warehouse =
     (let error = py_lower (or_empty (t_open_error t)) in
      if list_ex (\<lambda>m. contains m error) auth_open_errors then FixAuthentication
      else if list_ex (\<lambda>m. contains m error) unfixable_open_errors then CheckLog
      else if warehouse \<and> warehouse_can_name t then EnableFallback
      else NoRemedy)"

definition column_mapping_mode :: "resolved_table \<Rightarrow> string" where
  "column_mapping_mode t = py_lower (py_strip (property t ''delta.columnMapping.mode'' ''none''))"

definition active_features :: "resolved_table \<Rightarrow> table_feature set" where
  "active_features t =
     (let mapped = (if column_mapping_mode t \<in> {''name'', ''id''}
                    then insert FColumnMapping (known_features t)
                    else known_features t - {FColumnMapping})
      in if property_true t ''delta.rowTrackingSuspended'' then mapped - {FRowTracking} else mapped)"

section \<open>Metadata changes\<close>

text \<open>The arguments of a call the router looks at.\<close>

record shape =
  sh_features :: "string list"
  sh_properties :: "(string \<times> string) list"
  sh_dry_run :: bool
  sh_version :: "int option"
  sh_timestamp :: "string option"

definition enabling_properties :: "(string \<times> string) list" where
  "enabling_properties =
     [(''delta.enablechangedatafeed'', ''changeDataFeed''),
      (''delta.enabledeletionvectors'', ''deletionVectors''),
      (''delta.enabletypewidening'', ''typeWidening''),
      (''delta.enableincommittimestamps'', ''inCommitTimestamp''),
      (''delta.enablerowtracking'', ''rowTracking'')]"

definition property_feature :: "string \<Rightarrow> string \<Rightarrow> string option" where
  "property_feature key v =
     (let lowered = py_lower key; on = py_lower v in
      if starts_with lowered ''delta.feature.'' \<and> on \<in> {''supported'', ''enabled''}
      then Some (drop (length ''delta.feature.'') key)
      else if map_of enabling_properties lowered \<noteq> None \<and> on = ''true''
      then map_of enabling_properties lowered
      else if lowered = ''delta.checkpointpolicy'' \<and> on = ''v2'' then Some ''v2Checkpoint''
      else if lowered = ''delta.columnmapping.mode'' \<and> on \<in> {''name'', ''id''} then Some ''columnMapping''
      else None)"

definition features_named :: "operation \<Rightarrow> shape \<Rightarrow> string list" where
  "features_named op sh =
     (if op = OpClusterBy then [''clustering'']
      else if op = OpAddConstraint then [''checkConstraints'']
      else if op = OpAddFeature then sh_features sh
      else if op = OpSetProperties
      then List.map_filter (\<lambda>(k, v). property_feature k v) (sh_properties sh)
      else [])"

definition dependency_names :: "string \<Rightarrow> string list" where
  "dependency_names name =
     (case feature_from_wire name of
        None \<Rightarrow> []
      | Some f \<Rightarrow> (case feature_dependencies f of None \<Rightarrow> [] | Some ds \<Rightarrow> map feature_name ds))"

fun add_missing :: "string list \<Rightarrow> string set \<Rightarrow> string list \<Rightarrow> string set \<times> string list" where
  "add_missing [] names pending = (names, pending)"
| "add_missing (d # ds) names pending =
     (if d \<in> names then add_missing ds names pending
      else add_missing ds (insert d names) (d # pending))"

text \<open>
  The worklist of \<open>_features_added\<close>, its end first (\<open>pop\<close> and \<open>append\<close> work at the
  end).  It ends because a name is pushed at most once.
\<close>

definition dependency_universe :: "string set" where
  "dependency_universe = set (map feature_name all_features)"

lemma finite_universe [simp]: "finite dependency_universe"
  by (simp add: dependency_universe_def)

lemma dependency_names_universe: "set (dependency_names n) \<subseteq> dependency_universe"
  by (auto simp: dependency_names_def dependency_universe_def split: option.splits)

lemma add_missing_measure:
  assumes "add_missing ds names pending = (names', pending')" "set ds \<subseteq> dependency_universe"
  shows "card (dependency_universe - names') < card (dependency_universe - names)
    \<or> names' = names \<and> pending' = pending"
  using assms
proof (induction ds names pending rule: add_missing.induct)
  case (2 d ds names pending)
  show ?case
  proof (cases "d \<in> names")
    case False
    have "card (dependency_universe - insert d names) < card (dependency_universe - names)"
      using 2 False by (intro psubset_card_mono) auto
    moreover have "card (dependency_universe - names') \<le> card (dependency_universe - insert d names)"
      using "2.IH"(2) [OF False] "2.prems" False by auto
    ultimately show ?thesis by simp
  qed (use 2 in simp)
qed simp

function expand_features :: "string set \<Rightarrow> string list \<Rightarrow> string set" where
  "expand_features names [] = names"
| "expand_features names (n # pending) =
     (let (names', pending') = add_missing (dependency_names n) names pending
      in expand_features names' pending')"
  by pat_completeness auto

termination
proof (relation "measures [\<lambda>(names, p). card (dependency_universe - names), \<lambda>(names, p). length p]")
  fix names :: "string set" and n pending x names' pending'
  assume "x = add_missing (dependency_names n) names pending" "(names', pending') = x"
  then have eq: "add_missing (dependency_names n) names pending = (names', pending')" by simp
  from add_missing_measure [OF eq dependency_names_universe]
  show "((names', pending'), (names, n # pending))
    \<in> measures [\<lambda>(names, p). card (dependency_universe - names), \<lambda>(names, p). length p]"
    by auto
qed simp

definition features_added :: "operation \<Rightarrow> shape \<Rightarrow> string set" where
  "features_added op sh =
     (let names = features_named op sh in expand_features (set names) (rev (remdups names)))"

text \<open>\<open>metadata._LEGACY_WRITER\<close>.\<close>

definition metadata_legacy_writer :: "int \<Rightarrow> string list" where
  "metadata_legacy_writer v = (case map_of
    [(1, []),
     (2, [''appendOnly'', ''invariants'']),
     (3, [''appendOnly'', ''invariants'', ''checkConstraints'']),
     (4, [''appendOnly'', ''invariants'', ''checkConstraints'', ''changeDataFeed'', ''generatedColumns'']),
     (5, [''appendOnly'', ''invariants'', ''checkConstraints'', ''changeDataFeed'', ''generatedColumns'',
          ''columnMapping'']),
     (6, [''appendOnly'', ''invariants'', ''checkConstraints'', ''changeDataFeed'', ''generatedColumns'',
          ''columnMapping'', ''identityColumns''])] v of None \<Rightarrow> [] | Some fs \<Rightarrow> fs)"

text \<open>
  \<open>_writes\<close>.  \<open>native\<close> is whether the compiled extension advertises a feature
  (\<open>_native_has\<close>); \<open>t\<close> is the table argument, given for the kernel only.
\<close>

definition writable_name :: "(support_row \<Rightarrow> support) \<Rightarrow> string \<Rightarrow> bool" where
  "writable_name column n =
     (case feature_from_wire n of None \<Rightarrow> False | Some f \<Rightarrow> column (feature_support f) \<noteq> No)"

definition kernel_writes :: "(string \<Rightarrow> bool) \<Rightarrow> string set \<Rightarrow> resolved_table \<Rightarrow> bool" where
  "kernel_writes native fs t =
     (let unused = (if \<not> t_has_generated_columns t \<and> native ''check_constraints''
                    then {''generatedColumns''} else {})
      in \<forall>n\<in>fs - unused. writable_name kernel_write n)"

definition deltars_writes :: "string set \<Rightarrow> bool" where
  "deltars_writes fs = (\<forall>n\<in>fs. writable_name deltars_write n)"

definition strands_feature_table :: "(string \<Rightarrow> bool) \<Rightarrow> operation \<Rightarrow> resolved_table \<Rightarrow> shape \<Rightarrow> reason option" where
  "strands_feature_table native op t sh =
     (let current = effective_writer_features t;
          added = features_added op sh - current;
          after = current \<union> added in
      if added = {} then None
      else if \<not> (kernel_writes native current t \<or> deltars_writes current) then None
      else if kernel_writes native after t \<or> deltars_writes after then None
      else Some (StrandsFeatures added {n \<in> after. \<not> kernel_writes native {n} t}
                   {n \<in> after. \<not> deltars_writes {n}}))"

definition strands_legacy_table :: "(string \<Rightarrow> bool) \<Rightarrow> operation \<Rightarrow> resolved_table \<Rightarrow> shape \<Rightarrow> reason option" where
  "strands_legacy_table native op t sh =
     (if op \<notin> metadata_operations then None
      else
        let writer = (case t_min_writer t of None \<Rightarrow> 0 | Some v \<Rightarrow> v) in
        if 7 \<le> writer then strands_feature_table native op t sh
        else if \<not> (3 \<le> writer \<and> writer \<le> 6) then None
        else
          let implied = set (metadata_legacy_writer writer);
              added = features_added op sh - implied;
              unwritable = {n \<in> added. \<not> writable_name deltars_write n} in
          if added \<noteq> {} \<and> kernel_writes native (implied \<union> added) t then None
          else if unwritable = {} then None
          else Some (StrandsLegacy writer unwritable {n \<in> implied. \<not> kernel_writes native {n} t}))"

section \<open>What the direct engines judge\<close>

definition direct_engine :: "engine_kind \<Rightarrow> bool" where
  "direct_engine k \<longleftrightarrow> k = Kernel \<or> k = Deltars"

definition with_features_hidden :: "string set \<Rightarrow> resolved_table \<Rightarrow> resolved_table" where
  "with_features_hidden names t =
     t\<lparr>t_reader_features := t_reader_features t - names, t_writer_features := t_writer_features t - names\<rparr>"

definition exempted :: "engine_kind \<Rightarrow> operation \<Rightarrow> resolved_table \<Rightarrow> shape \<Rightarrow> resolved_table" where
  "exempted k op t sh =
     (if k \<noteq> Deltars then t
      else
        let exempt = deltars_operation_exemptions op
              \<union> (if op \<in> deltars_dry_run_operations \<and> sh_dry_run sh then deltars_vacuum_dry_run_exempt else {});
            names = feature_name ` exempt in
        if exempt = {} then t
        else if features t \<inter> names = {} then t
        else with_features_hidden names t)"

definition collations :: "string set" where
  "collations = {''collations'', ''collations-preview''}"

definition router_hints :: "string set" where
  "router_hints =
     {''collation_free'', ''variant_free'', ''removes_rows'', ''conditional_insert_with_feed'',
      ''early_datetimes'', ''duckdb_sql''}"

definition no_log_yet :: "operation set" where "no_log_yet = {OpCreate, OpConvert}"

definition data_reads :: "operation set" where
  "data_reads = {OpScan, OpTimeTravel, OpCdf, OpIncremental}"

definition append_only :: "resolved_table \<Rightarrow> bool" where
  "append_only t \<longleftrightarrow> property_true t ''delta.appendOnly''"

definition shreds_variants :: "resolved_table \<Rightarrow> bool" where
  "shreds_variants t \<longleftrightarrow> py_lower (property t ''delta.enableVariantShredding'' []) = ''true''"

definition append_only_forbids :: "operation set" where
  "append_only_forbids = {OpDelete, OpUpdate, OpOverwrite, OpReplaceWhere}"

definition access_policy_forbids :: "operation set" where
  "access_policy_forbids = {OpTimeTravel, OpCdf, OpRestore}"

definition file_rewrites :: "operation set" where
  "file_rewrites = {OpDelete, OpUpdate, OpMerge, OpReplaceWhere, OpOptimize, OpZorder}"

definition calendar_bound :: "operation set" where "calendar_bound = file_rewrites \<union> data_reads"
definition dv_dml :: "operation set" where "dv_dml = {OpDelete, OpUpdate, OpReplaceWhere, OpMerge}"
definition duckdb_dml :: "operation set" where "duckdb_dml = {OpDelete, OpUpdate, OpReplaceWhere}"
definition stats_writes :: "operation set" where "stats_writes = {OpAppend, OpOverwrite}"

definition deletion_vectors_writable :: "resolved_table \<Rightarrow> bool" where
  "deletion_vectors_writable t \<longleftrightarrow>
     ''deletionVectors'' \<in> t_reader_features t \<and> ''deletionVectors'' \<in> t_writer_features t
     \<and> py_lower (property t ''delta.enableDeletionVectors'' ''false'') = ''true''"

definition deltars_drops_stats :: "resolved_table \<Rightarrow> bool" where
  "deltars_drops_stats t \<longleftrightarrow> present (t_properties t ''delta.dataSkippingStatsColumns'')"

definition kernel_first :: "engine_kind list \<Rightarrow> engine_kind list" where
  "kernel_first ks = Kernel # filter (\<lambda>k. k \<noteq> Kernel) ks"

definition preference :: "operation \<Rightarrow> resolved_table \<Rightarrow> engine_kind list \<Rightarrow> engine_kind list" where
  "preference op t ks =
     (if op \<in> dv_dml \<and> Kernel \<in> set ks \<and> deletion_vectors_writable t then kernel_first ks
      else if op = OpVacuum \<and> Kernel \<in> set ks
           \<and> (''deletionVectors'' \<in> effective_reader_features t
              \<or> \<not> deltars_writes (effective_reader_features t \<union> effective_writer_features t))
      then kernel_first ks
      else if op = OpRestore \<and> Kernel \<in> set ks
           \<and> py_lower (property t ''delta.columnMapping.mode'' ''none'') \<notin> {[], ''none''}
      then kernel_first ks
      else if op \<in> stats_writes \<and> Kernel \<in> set ks \<and> deltars_drops_stats t then kernel_first ks
      else ks)"

end
