(* ===== verification/Router_Features.thy ===== *)
theory Router_Features
  imports Router_Rules "HOL-Library.Multiset"
begin

text \<open>
  The rules of \<open>Router_Rules\<close> on their own: the features a metadata change turns on are a
  closure, the tables of legacy versions agree, a change never strands a table (and where
  the check has a gap), the matrix is consistent, and the preference is a reordering.
\<close>

section \<open>The closure of a feature set\<close>

inductive_set depends :: "string set \<Rightarrow> string set" for names where
  base: "n \<in> names \<Longrightarrow> n \<in> depends names"
| step: "n \<in> depends names \<Longrightarrow> d \<in> set (dependency_names n) \<Longrightarrow> d \<in> depends names"

lemma add_missing_eq:
  "add_missing ds names pending = (names', pending') \<Longrightarrow>
     names' = names \<union> set ds \<and> set pending' = set pending \<union> (set ds - names)"
  by (induction ds names pending rule: add_missing.induct) (auto split: if_splits)

text \<open>
  The worklist's invariant: every name is in the closure of the first ones, and one whose
  dependencies may be missing is still pending.
\<close>

lemma expand_features_closure:
  assumes "set pending \<subseteq> names" "names \<subseteq> depends base"
    and "\<forall>n\<in>names - set pending. set (dependency_names n) \<subseteq> names" "base \<subseteq> names"
  shows "expand_features names pending = depends base"
  using assms
proof (induction names pending rule: expand_features.induct)
  case (1 names)
  have "n \<in> names" if "n \<in> depends base" for n
    using that by induction (use 1 in auto)
  with 1 show ?case by auto
next
  case (2 names n pending)
  obtain names' pending' where add: "add_missing (dependency_names n) names pending = (names', pending')"
    by fastforce
  note eq = add_missing_eq [OF add]
  have "expand_features names' pending' = depends base"
  proof (rule "2.IH" [OF add [symmetric] refl])
    show "set pending' \<subseteq> names'" "base \<subseteq> names'" using eq "2.prems" by auto
    have "n \<in> depends base" using "2.prems" by auto
    then show "names' \<subseteq> depends base" using eq "2.prems" by (auto intro: depends.step)
    show "\<forall>m\<in>names' - set pending'. set (dependency_names m) \<subseteq> names'"
    proof
      fix m assume m: "m \<in> names' - set pending'"
      then have "m = n \<or> m \<in> names - set (n # pending)" using eq by auto
      then show "set (dependency_names m) \<subseteq> names'" using eq "2.prems"(3) by auto
    qed
  qed
  then show ?case by (simp add: add)
qed

text \<open>
  The features a metadata change turns on are exactly those it names and, transitively,
  their dependencies: the worklist of \<open>_features_added\<close> ends with the least set that is closed.
\<close>

theorem features_added_closure:
  "features_added op sh = depends (set (features_named op sh))"
  unfolding features_added_def Let_def
  by (rule expand_features_closure) (auto intro: depends.base)

section \<open>Legacy protocols\<close>

definition legacy_versions :: "int list" where "legacy_versions = [1, 2, 3, 4, 5, 6]"

lemma legacy_tables_agree:
  "list_all (\<lambda>v. snd (implied_features None (Some v)) = set (metadata_legacy_writer v)) legacy_versions"
  by code_simp

lemma legacy_tables_cumulative:
  "list_all (\<lambda>v. list_all (\<lambda>w. v \<le> w \<longrightarrow> snd (implied_features None (Some v)) \<subseteq> snd (implied_features None (Some w)))
     legacy_versions) legacy_versions"
  by code_simp

lemma legacy_version_mem: "1 \<le> v \<Longrightarrow> v \<le> 6 \<Longrightarrow> v \<in> set legacy_versions"
  by (simp add: legacy_versions_def) presburger

lemma implied_writer_reader: "snd (implied_features r w) = snd (implied_features r' w)"
  by (simp add: implied_features_def)

text \<open>
  The two modules that spell out what a legacy writer version implies agree
  (\<open>capability.LEGACY_WRITER_FEATURES\<close> and \<open>metadata._LEGACY_WRITER\<close>), and each version implies
  all that the versions below it do.
\<close>

theorem legacy_writer_tables_agree:
  assumes "1 \<le> v" "v \<le> w" "w \<le> 6"
  shows "snd (implied_features r (Some v)) = set (metadata_legacy_writer v)
    \<and> snd (implied_features r (Some v)) \<subseteq> snd (implied_features r (Some w))"
proof -
  have "v \<in> set legacy_versions" "w \<in> set legacy_versions" using assms by (simp_all add: legacy_version_mem)
  then show ?thesis
    using legacy_tables_agree legacy_tables_cumulative assms(2) implied_writer_reader [of r _ None]
    by (auto simp: list_all_iff)
qed

theorem legacy_writer_tables_agree_witness:
  "snd (implied_features (Some 1) (Some 3)) = {''appendOnly'', ''invariants'', ''checkConstraints''}
    \<and> snd (implied_features (Some 1) (Some 3)) \<subseteq> snd (implied_features (Some 1) (Some 5))"
proof -
  have m: "set (metadata_legacy_writer 3) = {''appendOnly'', ''invariants'', ''checkConstraints''}" by code_simp
  have "(1::int) \<le> 3" "(3::int) \<le> 5" "(5::int) \<le> 6" by simp_all
  from legacy_writer_tables_agree [OF this, of "Some 1"] show ?thesis unfolding m .
qed

section \<open>Stranding\<close>

text \<open>A local engine writes a table that lists these features.\<close>

definition writable_locally :: "(string \<Rightarrow> bool) \<Rightarrow> resolved_table \<Rightarrow> string set \<Rightarrow> bool" where
  "writable_locally native t fs \<longleftrightarrow> kernel_writes native fs t \<or> deltars_writes fs"

lemma deltars_writes_Un: "deltars_writes (a \<union> b) \<longleftrightarrow> deltars_writes a \<and> deltars_writes b"
  by (auto simp: deltars_writes_def)

lemma legacy_3_5_deltars: "list_all (\<lambda>v. deltars_writes (set (metadata_legacy_writer v))) [3, 4, 5]"
  by code_simp

text \<open>
  C27: A metadata change the check lets through never strands a table on table features (writer
  version 7) or on a legacy writer version from 3 to 5: where a local engine could write it
  before, some local engine can write it with the features the change turns on.  Versions
  below 3 are left out, and at version 6 it does not hold (\<open>writer_6_stranded\<close>).
\<close>

theorem change_never_strands:
  assumes "strands_legacy_table native op t sh = None" "op \<in> metadata_operations"
    and "t_min_writer t = Some w" "7 \<le> w \<or> 3 \<le> w \<and> w \<le> 5 \<and> t_writer_features t = {}"
    and "writable_locally native t (effective_writer_features t)"
  shows "writable_locally native t (effective_writer_features t \<union> features_added op sh)"
proof (cases "7 \<le> w")
  case True
  then have "strands_feature_table native op t sh = None"
    using assms(1-3) by (simp add: strands_legacy_table_def)
  moreover have "effective_writer_features t \<union> (features_added op sh - effective_writer_features t)
      = effective_writer_features t \<union> features_added op sh" by blast
  ultimately show ?thesis using assms(5)
    by (cases "features_added op sh - effective_writer_features t = {}")
      (auto simp: strands_feature_table_def writable_locally_def Let_def Un_absorb2 split: if_splits)
next
  case False
  then have w: "3 \<le> w" "w \<le> 5" "t_writer_features t = {}" using assms(4) by auto
  define implied where "implied = set (metadata_legacy_writer w)"
  have "w \<in> set legacy_versions" using w by (simp add: legacy_version_mem)
  then have eff: "effective_writer_features t = implied"
    using legacy_tables_agree w(3) assms(3) implied_writer_reader [of "t_min_reader t" _ None]
    by (auto simp: effective_writer_features_def list_all_iff implied_def)
  have "w \<in> set [3, 4, 5]" using w by simp presburger
  then have deltars: "deltars_writes implied" using legacy_3_5_deltars unfolding list_all_iff implied_def by blast
  define added where "added = features_added op sh - implied"
  have un: "implied \<union> added = implied \<union> features_added op sh" by (auto simp: added_def)
  have "added \<noteq> {} \<and> kernel_writes native (implied \<union> added) t
      \<or> {n \<in> added. \<not> writable_name deltars_write n} = {}"
    using assms(1-3) w
    by (auto simp: strands_legacy_table_def Let_def implied_def added_def split: if_splits)
  then have "writable_locally native t (implied \<union> added)"
    using deltars by (auto simp: writable_locally_def deltars_writes_Un) (auto simp: deltars_writes_def)
  then show ?thesis by (simp add: eff un)
qed

definition legacy_table :: "int \<Rightarrow> resolved_table" where
  "legacy_table v = \<lparr>t_ref = \<lparr>kind = PATH, catalog = None, schema = None, table = None,
       path = Some ''/t'', scheme = Some ''file'', endpoint = None, raw = ''/t''\<rparr>,
     t_location = Some ''/t'', t_type = None, t_format = None, t_securable = None, t_id = None,
     t_min_reader = Some 1, t_min_writer = Some v, t_reader_features = {}, t_writer_features = {},
     t_properties = Map.empty, t_partition_columns = [],
     t_has_invariants = False, t_has_check_constraints = False, t_has_generated_columns = False,
     t_has_binary_partitions = False, t_has_datetime_columns = False, t_open_error = None,
     t_uuid = None, t_etag = None, t_external_read = None, t_external_write = None,
     t_access_policy = None, t_max_catalog_version = None, t_iceberg_rest_uri = None,
     t_sharing_profile = None\<rparr>"

definition turning_on :: "string list \<Rightarrow> shape" where
  "turning_on fs = \<lparr>sh_features = fs, sh_properties = [], sh_dry_run = False, sh_version = None, sh_timestamp = None\<rparr>"

theorem change_never_strands_witness:
  "writable_locally (\<lambda>_. True) (legacy_table 4)
     (effective_writer_features (legacy_table 4) \<union> features_added OpAddFeature (turning_on [''clustering'']))"
proof (rule change_never_strands [where w = 4])
  show "strands_legacy_table (\<lambda>_. True) OpAddFeature (legacy_table 4) (turning_on [''clustering'']) = None"
    "OpAddFeature \<in> metadata_operations"
    "writable_locally (\<lambda>_. True) (legacy_table 4) (effective_writer_features (legacy_table 4))"
    by code_simp+
qed (simp_all add: legacy_table_def)

text \<open>
  At writer version 6 the check asks only whether delta-rs writes what is added, and not
  whether it writes what the version implies: with \<open>timestampNanos\<close>, which only delta-rs writes,
  beside \<open>identityColumns\<close>, which it does not, the change goes through and strands the table.
\<close>

lemma writer_6_stranded:
  "strands_legacy_table (\<lambda>_. True) OpAddFeature (legacy_table 6) (turning_on [''timestampNanos'']) = None
    \<and> writable_locally (\<lambda>_. True) (legacy_table 6) (effective_writer_features (legacy_table 6))
    \<and> \<not> writable_locally (\<lambda>_. True) (legacy_table 6)
         (effective_writer_features (legacy_table 6) \<union> features_added OpAddFeature (turning_on [''timestampNanos'']))"
  by code_simp

section \<open>The matrix\<close>

definition feature_row_ok :: "table_feature \<Rightarrow> bool" where
  "feature_row_ok f \<longleftrightarrow>
     map_of feature_support_rows f \<noteq> None
     \<and> (kernel_read (feature_support f) = No \<longrightarrow> kernel_write (feature_support f) = No)
     \<and> (deltars_read (feature_support f) = No \<longrightarrow> deltars_write (feature_support f) = No)
     \<and> (kernel_write (feature_support f) \<noteq> No \<longrightarrow>
          list_all (\<lambda>d. kernel_write (feature_support d) \<noteq> No)
            (case feature_dependencies f of None \<Rightarrow> [] | Some ds \<Rightarrow> ds))"

definition route_ok :: "operation \<Rightarrow> bool" where
  "route_ok op \<longleftrightarrow>
     (case operation_engines op of
        None \<Rightarrow> False
      | Some ks \<Rightarrow> distinct ks \<and> (op \<in> metadata_operations \<longrightarrow> Kernel \<in> set ks)
          \<and> (deltars_operation_exemptions op \<noteq> {} \<longrightarrow> Deltars \<in> set ks)
          \<and> (op \<in> kernel_log_write_operations \<longrightarrow> Kernel \<in> set ks))"

text \<open>
  The matrix is consistent with itself: every feature has one row; an engine that cannot
  read a feature is never said to write it; the kernel writes a feature only if it
  writes what the feature depends on; every operation has one route, without repetition;
  every metadata operation and log write has the kernel on its route; and delta-rs is on the route of
  every operation that exempts features for it.
\<close>

theorem matrix_consistent:
  "(\<forall>f. feature_row_ok f) \<and> (\<forall>op. route_ok op) \<and> distinct (map fst feature_support_rows)
    \<and> distinct (map fst operation_routes)"
proof -
  have "list_all feature_row_ok all_features" by code_simp
  moreover have "list_all route_ok all_operations" by code_simp
  moreover have "distinct (map fst feature_support_rows)" "distinct (map fst operation_routes)" by code_simp+
  ultimately show ?thesis by (simp only: all_features_iff all_operations_iff simp_thms)
qed

section \<open>The order of the engines\<close>

lemma routes_distinct: "list_all (\<lambda>(op, ks). distinct ks) operation_routes"
  by code_simp

lemma operation_engines_distinct: "operation_engines op = Some ks \<Longrightarrow> distinct ks"
  using routes_distinct by (auto simp: operation_engines_def list_all_iff dest!: map_of_SomeD)

lemma mset_kernel_first:
  assumes "distinct ks" "Kernel \<in> set ks"
  shows "mset (kernel_first ks) = mset ks"
proof -
  have "distinct (kernel_first ks)" "set (kernel_first ks) = set ks"
    using assms by (auto simp: kernel_first_def)
  then show ?thesis using assms set_eq_iff_mset_eq_distinct by metis
qed

lemma preference_cases:
  "preference op t ks = ks \<or> Kernel \<in> set ks \<and> preference op t ks = kernel_first ks"
  by (auto simp: preference_def)

text \<open>
  The table's preference only moves the kernel: it asks the engines of the operation's
  route, each once, and the others keep their order.
\<close>

theorem preference_reorders:
  assumes "operation_engines op = Some ks"
  shows "mset (preference op t ks) = mset ks
    \<and> filter (\<lambda>k. k \<noteq> Kernel) (preference op t ks) = filter (\<lambda>k. k \<noteq> Kernel) ks"
  using preference_cases [of op t ks] mset_kernel_first [OF operation_engines_distinct [OF assms]]
  by (auto simp: kernel_first_def)

theorem preference_reorders_witness:
  "mset (preference OpAppend (legacy_table 2) [Deltars, Kernel, Iceberg, Sql]) = mset [Deltars, Kernel, Iceberg, Sql]"
proof -
  have "operation_engines OpAppend = Some [Deltars, Kernel, Iceberg, Sql]" by code_simp
  from preference_reorders [OF this] show ?thesis by blast
qed

end
