(* ===== verification/Meta_Protocol.thy ===== *)
theory Meta_Protocol
  imports Router_Features "HOL-Library.List_Lexorder" "HOL-Library.Char_ord"
begin

text \<open>
  \<open>engine/metadata.py\<close>: the protocol of a table and its upgrade to support more features.  A
  protocol action is a record; \<open>sorted\<close> of a set of names is \<open>sorted_list_of_set\<close>.
\<close>

record protocol =
  pr_reader :: int
  pr_writer :: int
  pr_reader_features :: "string list option"
  pr_writer_features :: "string list option"

definition metadata_legacy_reader :: "int \<Rightarrow> string list" where
  "metadata_legacy_reader v =
     (case map_of [(1, []), (2, [''columnMapping''])] v of None \<Rightarrow> [] | Some fs \<Rightarrow> fs)"

definition preview_of :: "string \<Rightarrow> string option" where
  "preview_of = map_of
    [(''typeWidening'', ''typeWidening-preview''), (''variantType'', ''variantType-preview''),
     (''variantShredding'', ''variantShredding-preview''), (''collations'', ''collations-preview'')]"

definition listed :: "string list option \<Rightarrow> string list" where
  "listed fs = (case fs of None \<Rightarrow> [] | Some xs \<Rightarrow> xs)"

definition supported_features :: "protocol \<Rightarrow> string set" where
  "supported_features p =
     (if 7 \<le> pr_writer p then set (listed (pr_writer_features p))
      else set (metadata_legacy_writer (pr_writer p)))"

text \<open>The worklist of \<open>with_features\<close>, its end first (\<open>pop\<close> and \<open>extend\<close> work at the end).\<close>

function wanted_from :: "string set \<Rightarrow> string list \<Rightarrow> string set" where
  "wanted_from wanted [] = wanted"
| "wanted_from wanted (n # pending) =
     (if n \<in> wanted then wanted_from wanted pending
      else wanted_from (insert n wanted) (rev (dependency_names n) @ pending))"
  by pat_completeness auto

termination wanted_from
proof (relation "measures [\<lambda>(w, p). card ((dependency_universe \<union> set p) - w), \<lambda>(w, p). length p]")
  fix wanted n pending
  assume "n \<notin> (wanted :: string set)"
  then have "card (dependency_universe \<union> set (rev (dependency_names n) @ pending) - insert n wanted)
      < card (dependency_universe \<union> set (n # pending) - wanted)"
    using dependency_names_universe [of n] by (intro psubset_card_mono) auto
  then show "((insert n wanted, rev (dependency_names n) @ pending), wanted, n # pending)
    \<in> measures [\<lambda>(w, p). card ((dependency_universe \<union> set p) - w), \<lambda>(w, p). length p]"
    by simp
next
  fix wanted n pending
  assume "n \<in> (wanted :: string set)"
  then have "dependency_universe \<union> set (n # pending) - wanted = dependency_universe \<union> set pending - wanted"
    by auto
  then show "((wanted, pending), wanted, n # pending)
    \<in> measures [\<lambda>(w, p). card ((dependency_universe \<union> set p) - w), \<lambda>(w, p). length p]"
    by simp
qed simp

definition reader_writer :: "string \<Rightarrow> bool" where
  "reader_writer n =
     (case feature_from_wire n of None \<Rightarrow> False
      | Some f \<Rightarrow> feature_kind (feature_support f) = ReaderWriterFeature)"

definition previewed :: "string set \<Rightarrow> string \<Rightarrow> bool" where
  "previewed have n = (case preview_of n of None \<Rightarrow> False | Some m \<Rightarrow> m \<in> have)"

definition missing_features :: "protocol \<Rightarrow> string list \<Rightarrow> string set" where
  "missing_features p names = Set.filter (\<lambda>n. \<not> previewed (supported_features p) n) (wanted_from {} names)"

text \<open>\<open>with_features\<close>: \<open>None\<close> where the protocol supports the names already.\<close>

definition with_features :: "protocol \<Rightarrow> string list \<Rightarrow> protocol option" where
  "with_features p names =
     (let have = supported_features p;
          wanted = missing_features p names
      in if wanted \<subseteq> have then None
         else let writer = have \<union> wanted;
                  needs = Set.filter reader_writer writer;
                  fresh = needs \<inter> wanted
              in Some (if 3 \<le> pr_reader p
                   then \<lparr>pr_reader = pr_reader p, pr_writer = 7,
                         pr_reader_features = Some (sorted_list_of_set (set (listed (pr_reader_features p)) \<union> needs)),
                         pr_writer_features = Some (sorted_list_of_set writer)\<rparr>
                   else if fresh - set (metadata_legacy_reader (pr_reader p)) \<noteq> {}
                   then \<lparr>pr_reader = 3, pr_writer = 7,
                         pr_reader_features = Some (sorted_list_of_set needs),
                         pr_writer_features = Some (sorted_list_of_set writer)\<rparr>
                   else \<lparr>pr_reader = pr_reader p, pr_writer = 7, pr_reader_features = None,
                         pr_writer_features = Some (sorted_list_of_set writer)\<rparr>))"

section \<open>The closure\<close>

lemma wanted_from_closure:
  assumes "wanted \<union> set pending \<subseteq> depends base" "base \<subseteq> wanted \<union> set pending"
    and "\<forall>n\<in>wanted. set (dependency_names n) \<subseteq> wanted \<union> set pending"
  shows "wanted_from wanted pending = depends base"
  using assms
proof (induction wanted pending rule: wanted_from.induct)
  case (1 wanted)
  have "n \<in> wanted" if "n \<in> depends base" for n
    using that by induction (use 1 in auto)
  with 1 show ?case by auto
next
  case (2 wanted n pending)
  show ?case
  proof (cases "n \<in> wanted")
    case False
    have "set (dependency_names n) \<subseteq> depends base"
      using "2.prems"(1) by (auto intro: depends.step)
    then have "wanted_from (insert n wanted) (rev (dependency_names n) @ pending) = depends base"
      using "2.prems" by (intro "2.IH"(2) [OF False]) auto
    then show ?thesis using False by simp
  qed (use 2 in \<open>auto simp: insert_absorb\<close>)
qed

lemma wanted_features: "wanted_from {} names = depends (set names)"
  by (rule wanted_from_closure) (auto intro: depends.base)

lemma finite_wanted: "finite wanted \<Longrightarrow> finite (wanted_from wanted pending)"
  by (induction wanted pending rule: wanted_from.induct) auto

lemma finite_supported [simp]: "finite (supported_features p)"
  by (simp add: supported_features_def)

lemma finite_missing [simp]: "finite (missing_features p names)"
  by (simp add: missing_features_def finite_wanted)

lemma mem_missing:
  "n \<in> missing_features p names \<longleftrightarrow> n \<in> depends (set names) \<and> \<not> previewed (supported_features p) n"
  by (auto simp: missing_features_def wanted_features)

lemma supported_with_features:
  "with_features p names = Some q \<Longrightarrow>
     supported_features q = supported_features p \<union> missing_features p names"
  by (auto simp: with_features_def Let_def supported_features_def [of q] listed_def split: if_splits)

lemma with_features_None: "with_features p names = None \<longleftrightarrow> missing_features p names \<subseteq> supported_features p"
  by (simp add: with_features_def Let_def)

text \<open>What a protocol must list: a reader-writer feature stands in both lists, or the reader version
  implies it.\<close>

definition protocol_ok :: "protocol \<Rightarrow> bool" where
  "protocol_ok p \<longleftrightarrow>
     (\<forall>n\<in>supported_features p. reader_writer n \<longrightarrow>
        (if 3 \<le> pr_reader p then n \<in> set (listed (pr_reader_features p))
         else n \<in> set (metadata_legacy_reader (pr_reader p))))
     \<and> (3 \<le> pr_reader p \<longrightarrow> set (listed (pr_reader_features p)) \<subseteq> supported_features p)"

lemma with_features_readers:
  assumes "with_features p names = Some q"
  defines "needs \<equiv> {n \<in> supported_features q. reader_writer n}"
  shows "if 3 \<le> pr_reader p
    then pr_reader q = pr_reader p
      \<and> set (listed (pr_reader_features q)) = set (listed (pr_reader_features p)) \<union> needs
    else pr_reader q = 3 \<and> set (listed (pr_reader_features q)) = needs
      \<or> pr_reader q = pr_reader p
        \<and> needs \<inter> missing_features p names \<subseteq> set (metadata_legacy_reader (pr_reader p))"
proof -
  have f: "finite needs" by (simp add: needs_def)
  have n: "Set.filter reader_writer (supported_features p \<union> missing_features p names) = needs"
    using supported_with_features [OF assms(1)] by (auto simp: needs_def)
  note w = assms(1) [unfolded with_features_def Let_def n]
  show ?thesis
  proof (cases "3 \<le> pr_reader p")
    case True
    with w f show ?thesis by (auto simp: listed_def [of "Some _"] split: if_splits)
  next
    case False
    with w f show ?thesis by (auto simp: listed_def [of "Some _"] split: if_splits)
  qed
qed

lemma with_features_ok:
  assumes "protocol_ok p" "with_features p names = Some q"
  shows "protocol_ok q"
  using assms(1) with_features_readers [OF assms(2)] supported_with_features [OF assms(2)]
  by (cases "3 \<le> pr_reader p") (auto simp: protocol_ok_def)

lemma with_features_versions:
  assumes "with_features p names = Some q"
  shows "pr_writer q = 7 \<and> pr_reader p \<le> pr_reader q"
  using assms by (auto simp: with_features_def Let_def split: if_splits)

lemma previewed_mono: "previewed have n \<Longrightarrow> have \<subseteq> have' \<Longrightarrow> previewed have' n"
  by (auto simp: previewed_def split: option.splits)

lemma with_features_enough:
  assumes "n \<in> set names"
  shows "(let have = (case with_features p names of None \<Rightarrow> supported_features p | Some q \<Rightarrow> supported_features q)
          in n \<in> have \<or> previewed have n)"
proof -
  have n: "n \<in> missing_features p names \<or> previewed (supported_features p) n"
    using assms depends.base [of n "set names"] by (auto simp: mem_missing)
  show ?thesis
  proof (cases "with_features p names")
    case None
    then have "missing_features p names \<subseteq> supported_features p" by (simp only: with_features_None)
    with n show ?thesis unfolding None by auto
  next
    case (Some q)
    then show ?thesis
      using n supported_with_features [OF Some] previewed_mono [of "supported_features p" n "supported_features q"]
      by (auto simp: Let_def)
  qed
qed

lemma with_features_idem: "with_features p names = Some q \<Longrightarrow> with_features q names = None"
  using previewed_mono [of "supported_features p" _ "supported_features q"]
  by (auto simp: with_features_None mem_missing supported_with_features)

section \<open>Upgrades\<close>

text \<open>C13: upgrading a protocol keeps every feature the table supported, also those its legacy
  version only implied, and adds exactly the named features and, transitively, what they depend
  on, save one whose preview the table has; every reader-writer feature stays listed for
  readers, no version goes down, and a second upgrade for the same names finds nothing to do.\<close>

theorem protocol_upgrade_exact:
  assumes "with_features p names = Some q" "protocol_ok p"
  shows "supported_features q =
      supported_features p \<union> {n \<in> depends (set names). \<not> previewed (supported_features p) n}
    \<and> protocol_ok q \<and> pr_reader p \<le> pr_reader q \<and> pr_writer q = 7 \<and> with_features q names = None"
  using supported_with_features [OF assms(1)] with_features_ok [OF assms(2,1)]
    with_features_versions [OF assms(1)] with_features_idem [OF assms(1)]
  by (auto simp: mem_missing)

definition sample_protocol :: protocol where
  "sample_protocol = \<lparr>pr_reader = 1, pr_writer = 2, pr_reader_features = None, pr_writer_features = None\<rparr>"

theorem protocol_upgrade_exact_witness:
  "\<exists>q. with_features sample_protocol [''clustering''] = Some q
     \<and> supported_features q = {''appendOnly'', ''invariants'', ''clustering'', ''domainMetadata''}
     \<and> pr_writer q = 7"
proof -
  have w: "depends (set [''clustering'']) = {''clustering'', ''domainMetadata''}"
    unfolding wanted_features [symmetric] by code_simp
  have h: "supported_features sample_protocol = {''appendOnly'', ''invariants''}" by code_simp
  have p: "\<not> previewed {''appendOnly'', ''invariants''} ''clustering''"
    "\<not> previewed {''appendOnly'', ''invariants''} ''domainMetadata''" by code_simp+
  have ok: "protocol_ok sample_protocol"
    unfolding protocol_ok_def h by code_simp
  have "with_features sample_protocol [''clustering''] \<noteq> None"
    using p unfolding with_features_None by (auto simp: mem_missing w [simplified] h)
  then obtain q where q: "with_features sample_protocol [''clustering''] = Some q" by blast
  show ?thesis
    using protocol_upgrade_exact [OF q ok] q p unfolding w h by auto
qed

end
