(* ===== verification/Meta_Ops.thy ===== *)
theory Meta_Ops
  imports Meta_Types Meta_Protocol
begin

text \<open>
  \<open>engine/metadata.py\<close>: the changes of a table's columns and constraints, each a function of the
  table's protocol and metadata.  A raise site is a constructor; the UUIDs of new physical names
  are an argument, one per column id.
\<close>

section \<open>The state and a change\<close>

record table_meta =
  md_schema :: "column list"
  md_partitions :: "string list"
  md_configuration :: "(string \<times> string) list"
  md_description :: "string option"
  md_other :: "(string \<times> json) list"

record table_state =
  ts_version :: int
  ts_protocol :: protocol
  ts_meta :: table_meta
  ts_timestamp :: "int option"
  ts_clustering :: "string list list option"

datatype parameter = PText string | PNames "string list"

record change =
  ch_operation :: string
  ch_parameters :: "(string \<times> parameter) list"
  ch_protocol :: "protocol option"
  ch_meta :: "table_meta option"
  ch_clustering :: "string list list option"

datatype dependent = OnConstraint string | OnStatsColumns | OnGenerated string

datatype refusal =
    NotAFieldDict | NestedNotNull | AlreadyExists string | MustBeNullable string | FeedReserves "string list"
  | DeclaredAtCreate string | DefaultNeedsFeature string | BadColumnId
  | NoColumnMapping | MappingUnsupported | PartitionColumn | LastColumn | LastDataColumn
  | ClusteringColumn | ReferencedBy "dependent list"
  | LeavesItsStruct | EmptyNewName | NameTaken string | CaseOnly
  | WideningOff | NotAWidening string | PartitionValues
  | EmptyConstraintName | ConstraintExists string | NoSuchConstraint string
  | IsPartitioned | TooManyKeys | KeyNotFound string | KeyNotStruct string | KeyNotPrimitive | KeyNoStats
  | KeyTwice string | KeyUncollected string
  | NotSetDirectly string | ThroughConstraints | OnlySupported string | NotAddable string | Unaddable string
  | NeedsBackfill | UniformRefused | UnknownProperty string | NoValue string | BadValue string string
  | BadMappingMode string | MappingChange string string
  | KeepsProtocol string | KeepsTimestamps string | KeepsRowIds string | NoSuchProperty string
  | CatalogManaged

datatype meta_error =
    BadPath ref_error | BadColumn find_error | BadType type_error | BadNames name_error | Refused refusal

definition split_path :: "string \<Rightarrow> meta_error + string list" where
  "split_path column = (case split_identifier column of Inl e \<Rightarrow> Inl (BadPath e) | Inr p \<Rightarrow> Inr p)"

definition found :: "column list \<Rightarrow> string list \<Rightarrow> meta_error + column list \<times> nat" where
  "found fs pth = (case find_column fs pth of Inl e \<Rightarrow> Inl (BadColumn e) | Inr r \<Rightarrow> Inr r)"

definition checked_type :: "json \<Rightarrow> meta_error + delta_type" where
  "checked_type j = (case valid_type j of Inl e \<Rightarrow> Inl (BadType e) | Inr t \<Rightarrow> Inr t)"

abbreviation schema_cols :: "table_state \<Rightarrow> column list" where
  "schema_cols st \<equiv> md_schema (ts_meta st)"

abbreviation conf_of :: "table_state \<Rightarrow> (string \<times> string) list" where
  "conf_of st \<equiv> md_configuration (ts_meta st)"

definition conf_get :: "(string \<times> string) list \<Rightarrow> string \<Rightarrow> string \<Rightarrow> string" where
  "conf_get conf k d = (case map_of conf k of None \<Rightarrow> d | Some v \<Rightarrow> v)"

definition table_mapping_mode :: "(string \<times> string) list \<Rightarrow> string" where
  "table_mapping_mode conf = py_lower (conf_get conf cm_mode ''none'')"

definition maps_columns :: "(string \<times> string) list \<Rightarrow> bool" where
  "maps_columns conf \<longleftrightarrow> table_mapping_mode conf \<in> {''name'', ''id''}"

definition is_true :: "(string \<times> string) list \<Rightarrow> string \<Rightarrow> bool" where
  "is_true conf k \<longleftrightarrow> py_lower (conf_get conf k ''false'') = ''true''"

definition feed_enabled :: "(string \<times> string) list \<Rightarrow> bool" where
  "feed_enabled conf = is_true conf ''delta.enableChangeDataFeed''"

definition feed_reserved :: "string list" where
  "feed_reserved = [''_change_type'', ''_commit_version'', ''_commit_timestamp'']"

text \<open>A change that replaces the metadata, or \<open>None\<close> where it says what the current one does; the
  operations keep the order of dicts, so equality of the records is equality of the actions.\<close>

definition if_changed :: "table_state \<Rightarrow> table_meta \<Rightarrow> table_meta option" where
  "if_changed st md = (if md = ts_meta st then None else Some md)"

definition no_change :: "string \<Rightarrow> (string \<times> parameter) list \<Rightarrow> change" where
  "no_change op ps = \<lparr>ch_operation = op, ch_parameters = ps, ch_protocol = None, ch_meta = None, ch_clustering = None\<rparr>"

abbreviation with_schema :: "column list \<Rightarrow> table_meta \<Rightarrow> table_meta" where
  "with_schema fs md \<equiv> md\<lparr>md_schema := fs\<rparr>"

section \<open>What mentions a column\<close>

definition name_char :: "char \<Rightarrow> bool" where
  "name_char c \<longleftrightarrow> ascii_alpha c \<or> ascii_digit c \<or> c = CHR ''_''"

text \<open>The name, in any case, with no word character after it; the optional closing backtick of the
  pattern is no word character, so it decides nothing.\<close>

definition name_at :: "string \<Rightarrow> string \<Rightarrow> bool" where
  "name_at s name \<longleftrightarrow>
     starts_with (py_lower s) (py_lower name)
     \<and> (case drop (length name) s of [] \<Rightarrow> True | c # r \<Rightarrow> \<not> name_char c)"

definition mention_at :: "char option \<Rightarrow> string \<Rightarrow> string \<Rightarrow> bool" where
  "mention_at prev s name \<longleftrightarrow>
     (case prev of None \<Rightarrow> True | Some c \<Rightarrow> \<not> name_char c \<and> c \<noteq> bt)
     \<and> (name_at s name \<or> (case s of [] \<Rightarrow> False | c # r \<Rightarrow> c = bt \<and> name_at r name))"

fun references_from :: "char option \<Rightarrow> string \<Rightarrow> string \<Rightarrow> bool" where
  "references_from prev [] name = mention_at prev [] name"
| "references_from prev (c # r) name = (mention_at prev (c # r) name \<or> references_from (Some c) r name)"

definition references :: "string \<Rightarrow> string \<Rightarrow> bool" where
  "references expression name = references_from None expression name"

definition constraint_prefix :: string where "constraint_prefix = ''delta.constraints.''"
definition stats_columns :: string where "stats_columns = ''delta.dataSkippingStatsColumns''"

definition conf_dependents :: "string \<Rightarrow> string \<times> string \<Rightarrow> dependent list" where
  "conf_dependents name kv =
     (case kv of (k, v) \<Rightarrow>
        (if starts_with k constraint_prefix \<and> references v name
         then [OnConstraint (drop (length constraint_prefix) k)] else [])
        @ (if k = stats_columns \<and> references v name then [OnStatsColumns] else []))"

definition column_dependents :: "string \<Rightarrow> column \<Rightarrow> dependent list" where
  "column_dependents name f =
     (case map_of (col_meta f) generation of
        Some (JStr e) \<Rightarrow> if references e name then [OnGenerated (col_name f)] else []
      | _ \<Rightarrow> [])"

definition dependents :: "table_state \<Rightarrow> string \<Rightarrow> dependent list" where
  "dependents st name =
     concat (map (conf_dependents name) (conf_of st))
     @ concat (map (column_dependents name) (walk_fields (schema_cols st)))"

section \<open>Comments and nullability\<close>

definition set_comment :: "table_state \<Rightarrow> string option \<Rightarrow> change" where
  "set_comment st comment =
     (let c = (case comment of None \<Rightarrow> [] | Some t \<Rightarrow> t)
      in (no_change ''SET TBLPROPERTIES'' [(''comment'', PText c)])
         \<lparr>ch_meta := if_changed st ((ts_meta st)\<lparr>md_description := str_or_none c\<rparr>)\<rparr>)"

definition dict_drop :: "string \<Rightarrow> (string \<times> 'v) list \<Rightarrow> (string \<times> 'v) list" where
  "dict_drop k m = filter (\<lambda>e. fst e \<noteq> k) m"

definition comment_column :: "string \<Rightarrow> column \<Rightarrow> column" where
  "comment_column c f =
     set_meta (if c = [] then dict_drop ''comment'' (col_meta f)
               else dict_set ''comment'' (JStr c) (col_meta f)) f"

definition set_column_comment :: "table_state \<Rightarrow> string \<Rightarrow> string option \<Rightarrow> meta_error + change" where
  "set_column_comment st column comment =
     (let c = (case comment of None \<Rightarrow> [] | Some t \<Rightarrow> t) in
      bind_result (split_path column) (\<lambda>pth.
      bind_result (found (schema_cols st) pth) (\<lambda>r.
        Inr ((no_change ''CHANGE COLUMN'' [(''column'', PText column), (''comment'', PText c)])
          \<lparr>ch_meta := if_changed st
             (with_schema (edit_column (comment_column c) (schema_cols st) pth) (ts_meta st))\<rparr>))))"

definition set_nullability :: "table_state \<Rightarrow> string \<Rightarrow> bool \<Rightarrow> meta_error + change" where
  "set_nullability st column nullable =
     bind_result (split_path column) (\<lambda>pth.
     bind_result (found (schema_cols st) pth) (\<lambda>r.
       if \<not> nullable \<and> 1 < length pth then Inl (Refused NestedNotNull)
       else Inr ((no_change ''CHANGE COLUMN''
                   [(''column'', PText column), (''nullable'', PText (if nullable then ''true'' else ''false''))])
          \<lparr>ch_meta := if_changed st
             (with_schema (edit_column (set_nullable nullable) (schema_cols st) pth) (ts_meta st))\<rparr>)))"

section \<open>Adding columns\<close>

text \<open>The first loop: each new field against the columns there are and those before it.\<close>

fun addable :: "(string \<times> string) list \<Rightarrow> string set \<Rightarrow> json list \<Rightarrow> refusal option" where
  "addable conf existing [] = None"
| "addable conf existing (f # fs) =
     (case field_parts f of
        None \<Rightarrow> Some NotAFieldDict
      | Some (n, d, m) \<Rightarrow>
          if py_lower n \<in> existing then Some (AlreadyExists n)
          else if \<not> flag m ''nullable'' then Some (MustBeNullable n)
          else if feed_enabled conf \<and> py_lower n \<in> set feed_reserved then Some (FeedReserves [n])
          else addable conf (insert (py_lower n) existing) fs)"

definition mapping_key :: "string \<Rightarrow> bool" where
  "mapping_key k = starts_with k ''delta.columnMapping.''"

text \<open>The second loop: the type checked, the metadata without another table's ids.\<close>

definition added_column :: "protocol \<Rightarrow> json \<Rightarrow> meta_error + column" where
  "added_column p f =
     (case field_parts f of
        None \<Rightarrow> Inl (Refused NotAFieldDict)
      | Some (n, d, m) \<Rightarrow>
          bind_result (checked_type d) (\<lambda>t.
            case metadata_dict m of
              None \<Rightarrow> Inl (BadType BadMetadata)
            | Some meta \<Rightarrow>
                if list_ex (\<lambda>(k, v). k = generation \<or> starts_with k ''delta.identity.'') meta
                then Inl (Refused (DeclaredAtCreate n))
                else if list_ex (\<lambda>(k, v). k = ''CURRENT_DEFAULT'') meta
                        \<and> ''allowColumnDefaults'' \<notin> supported_features p
                then Inl (Refused (DefaultNeedsFeature n))
                else Inr (Column n t True (filter (\<lambda>(k, v). \<not> mapping_key k) meta))))"

text \<open>\<open>_max_column_id\<close>; \<open>None\<close> where an id is no number.\<close>

fun ids_in :: "column list \<Rightarrow> int list option" where
  "ids_in [] = Some []"
| "ids_in (f # fs) =
     (case map_of (col_meta f) cm_id of
        None \<Rightarrow> ids_in fs
      | Some JNull \<Rightarrow> ids_in fs
      | Some j \<Rightarrow> (case (column_id f, ids_in fs) of (Some i, Some is) \<Rightarrow> Some (i # is) | _ \<Rightarrow> None))"

definition recorded_max :: "(string \<times> string) list \<Rightarrow> int option" where
  "recorded_max conf =
     (case map_of conf cm_max of None \<Rightarrow> Some 0 | Some t \<Rightarrow> if t = [] then Some 0 else py_int t)"

definition max_column_id :: "table_meta \<Rightarrow> int option" where
  "max_column_id md =
     (case (recorded_max (md_configuration md), ids_in (walk_fields (md_schema md))) of
        (Some r, Some is) \<Rightarrow> Some (foldl max r is) | _ \<Rightarrow> None)"

definition with_ids :: "(int \<Rightarrow> string) \<Rightarrow> table_meta \<Rightarrow> column list \<Rightarrow> meta_error + column list \<times> (string \<times> string) list" where
  "with_ids uuid md added =
     (if \<not> maps_columns (md_configuration md) then Inr (added, md_configuration md)
      else case max_column_id md of
             None \<Rightarrow> Inl (Refused BadColumnId)
           | Some m \<Rightarrow>
               let r = assign_ids (\<lambda>i f. ''col-'' @ uuid i) (m + 1) added
               in Inr (fst r, dict_set cm_max (int_text (snd r - 1)) (md_configuration md)))"

definition features_protocol :: "protocol \<Rightarrow> string list \<Rightarrow> protocol option" where
  "features_protocol p fs = (if fs = [] then None else with_features p fs)"

definition add_columns :: "(int \<Rightarrow> string) \<Rightarrow> table_state \<Rightarrow> json list \<Rightarrow> meta_error + change" where
  "add_columns uuid st new_fields =
     (let md = ts_meta st; conf = conf_of st in
      case addable conf (lower_column ` set (schema_cols st)) new_fields of
        Some r \<Rightarrow> Inl (Refused r)
      | None \<Rightarrow>
          if new_fields = [] then Inr (no_change ''ADD COLUMNS'' [(''columns'', PNames [])])
          else bind_result (map_result (added_column (ts_protocol st)) new_fields) (\<lambda>added.
            case check_names (maps_columns conf) added of
              Some e \<Rightarrow> Inl (BadNames e)
            | None \<Rightarrow> bind_result (with_ids uuid md added) (\<lambda>(cols, conf').
                Inr ((no_change ''ADD COLUMNS'' [(''columns'', PNames (map col_name added))])
                  \<lparr>ch_protocol := features_protocol (ts_protocol st)
                       (concat (map (\<lambda>f. type_features (col_type f)) added)),
                   ch_meta := Some (md\<lparr>md_schema := md_schema md @ cols, md_configuration := conf'\<rparr>)\<rparr>))))"

section \<open>Dropping and renaming\<close>

definition require_mapping :: "table_state \<Rightarrow> refusal option" where
  "require_mapping st =
     (if \<not> maps_columns (conf_of st) then Some NoColumnMapping
      else if ''columnMapping'' \<notin> supported_features (ts_protocol st) then Some MappingUnsupported
      else None)"

definition is_partition :: "table_meta \<Rightarrow> string \<Rightarrow> bool" where
  "is_partition md n \<longleftrightarrow> list_ex (same_name n) (md_partitions md)"

definition clustering_keys :: "table_state \<Rightarrow> string list list" where
  "clustering_keys st = (case ts_clustering st of None \<Rightarrow> [] | Some ks \<Rightarrow> ks)"

definition drop_refusal :: "table_state \<Rightarrow> string list \<Rightarrow> column list \<Rightarrow> nat \<Rightarrow> refusal option" where
  "drop_refusal st pth c i =
     (let md = ts_meta st; name = col_name (c ! i); physical = physical_path (md_schema md) pth in
      if length pth = 1 \<and> is_partition md name then Some PartitionColumn
      else if length c = 1 then Some LastColumn
      else if length pth = 1 \<and> md_partitions md \<noteq> []
              \<and> list_all (\<lambda>f. is_partition md (col_name f)) (take i c @ drop (Suc i) c) then Some LastDataColumn
      else if list_ex (\<lambda>k. take (length physical) k = physical) (clustering_keys st) then Some ClusteringColumn
      else if dependents st name \<noteq> [] then Some (ReferencedBy (dependents st name))
      else None)"

definition drop_column :: "table_state \<Rightarrow> string \<Rightarrow> meta_error + change" where
  "drop_column st column =
     (case require_mapping st of
        Some r \<Rightarrow> Inl (Refused r)
      | None \<Rightarrow>
          bind_result (split_path column) (\<lambda>pth.
          bind_result (found (schema_cols st) pth) (\<lambda>(c, i).
            case drop_refusal st pth c i of
              Some r \<Rightarrow> Inl (Refused r)
            | None \<Rightarrow> Inr ((no_change ''DROP COLUMNS'' [(''columns'', PNames [column])])
                \<lparr>ch_meta := Some (with_schema (remove_column (schema_cols st) pth) (ts_meta st))\<rparr>))))"

text \<open>The new name's path: it may repeat the path of the struct, and only its last part is new.\<close>

definition new_path :: "string \<Rightarrow> meta_error + string list" where
  "new_path new = (if bt \<in> set new \<or> dot \<in> set new then split_path new else Inr [new])"

definition leaves_struct :: "string list \<Rightarrow> string list \<Rightarrow> bool" where
  "leaves_struct new pth \<longleftrightarrow>
     1 < length new \<and> (length new \<noteq> length pth \<or> map py_lower (butlast new) \<noteq> map py_lower (butlast pth))"

definition rename_refusal :: "table_state \<Rightarrow> string list \<Rightarrow> column list \<Rightarrow> nat \<Rightarrow> string \<Rightarrow> refusal option" where
  "rename_refusal st pth c i leaf =
     (if leaf = [] then Some EmptyNewName
      else if list_ex (\<lambda>f. same_name (col_name f) leaf) (take i c @ drop (Suc i) c) then Some (NameTaken leaf)
      else if length pth = 1 \<and> feed_enabled (conf_of st) \<and> py_lower leaf \<in> set feed_reserved
      then Some (FeedReserves [leaf])
      else None)"

definition renamed_meta :: "table_meta \<Rightarrow> string list \<Rightarrow> string \<Rightarrow> string \<Rightarrow> table_meta" where
  "renamed_meta md pth current leaf =
     (let md' = with_schema (edit_column (set_name leaf) (md_schema md) pth) md in
      if length pth = 1
      then md'\<lparr>md_partitions := map (\<lambda>p. if same_name p current then leaf else p) (md_partitions md)\<rparr>
      else md')"

definition rename_column :: "table_state \<Rightarrow> string \<Rightarrow> string \<Rightarrow> meta_error + change" where
  "rename_column st old new =
     (let ps = [(''oldColumnPath'', PText old), (''newColumnPath'', PText new)] in
      case require_mapping st of
        Some r \<Rightarrow> Inl (Refused r)
      | None \<Rightarrow>
          bind_result (split_path old) (\<lambda>pth.
          bind_result (found (schema_cols st) pth) (\<lambda>(c, i).
          bind_result (new_path new) (\<lambda>np.
            let current = col_name (c ! i); leaf = last np in
            if leaves_struct np pth then Inl (Refused LeavesItsStruct)
            else case rename_refusal st pth c i leaf of
              Some r \<Rightarrow> Inl (Refused r)
            | None \<Rightarrow>
                if leaf = current then Inr (no_change ''RENAME COLUMN'' ps)
                else if same_name leaf current then Inl (Refused CaseOnly)
                else if dependents st current \<noteq> [] then Inl (Refused (ReferencedBy (dependents st current)))
                else Inr ((no_change ''RENAME COLUMN'' ps)
                       \<lparr>ch_meta := Some (renamed_meta (ts_meta st) pth current leaf)\<rparr>)))))"

section \<open>Widening a column\<close>

definition type_aliases :: "(string \<times> string) list" where
  "type_aliases =
    [(''int'', ''integer''), (''bigint'', ''long''), (''smallint'', ''short''), (''tinyint'', ''byte''),
     (''real'', ''float''), (''numeric'', ''decimal''), (''dec'', ''decimal'')]"

definition alias_type :: "string \<Rightarrow> string" where
  "alias_type h = (case map_of type_aliases h of None \<Rightarrow> h | Some t \<Rightarrow> t)"

definition open_paren :: char where "open_paren = CHR ''(''"

definition normalise_type :: "string \<Rightarrow> string" where
  "normalise_type name =
     (let t = without_blanks (py_lower (py_strip name));
          h = alias_type (takeWhile (\<lambda>c. c \<noteq> open_paren) t);
          paren = (open_paren \<in> set t);
          tail = drop 1 (dropWhile (\<lambda>c. c \<noteq> open_paren) t);
          (d, e) = span_digits tail
      in if h = ''decimal'' \<and> \<not> paren then ''decimal(10,0)''
         else if h = ''decimal'' \<and> d \<noteq> [] \<and> e = '')'' then ''decimal('' @ butlast tail @ '',0)''
         else h @ (if paren then open_paren # tail else []))"

definition partition_widens :: "string \<Rightarrow> string \<Rightarrow> bool" where
  "partition_widens old new =
     (let old_scale = (case match_decimal old of None \<Rightarrow> 0 | Some (p, s) \<Rightarrow> s)
      in \<not> (old = ''date'' \<or> (case match_decimal new of None \<Rightarrow> False | Some (p, s) \<Rightarrow> s \<noteq> old_scale)))"

definition type_changes :: string where "type_changes = ''delta.typeChanges''"

definition history_of :: "column \<Rightarrow> json list" where
  "history_of f = (case map_of (col_meta f) type_changes of Some (JArr xs) \<Rightarrow> xs | _ \<Rightarrow> [])"

definition widen_column :: "string \<Rightarrow> string \<Rightarrow> column \<Rightarrow> column" where
  "widen_column old new f =
     set_meta (dict_set type_changes
         (JArr (history_of f @ [JObj [(''fromType'', JStr old), (''toType'', JStr new)]])) (col_meta f))
       (set_type (Prim new) f)"

definition type_dependents :: "table_state \<Rightarrow> string \<Rightarrow> dependent list" where
  "type_dependents st name = filter (\<lambda>d. d \<noteq> OnStatsColumns) (dependents st name)"

definition alter_refusal :: "table_state \<Rightarrow> string list \<Rightarrow> string \<Rightarrow> string \<Rightarrow> string \<Rightarrow> refusal option" where
  "alter_refusal st pth name old new =
     (if \<not> widening_allowed old new then Some (NotAWidening old)
      else if length pth = 1 \<and> is_partition (ts_meta st) name \<and> \<not> partition_widens old new
      then Some PartitionValues
      else if type_dependents st name \<noteq> [] then Some (ReferencedBy (type_dependents st name))
      else None)"

definition alter_column_type :: "table_state \<Rightarrow> string \<Rightarrow> string \<Rightarrow> meta_error + change" where
  "alter_column_type st column new_type =
     (let new = normalise_type new_type;
          ps = [(''column'', PText column), (''type'', PText new)] in
      bind_result (split_path column) (\<lambda>pth.
      bind_result (found (schema_cols st) pth) (\<lambda>(c, i).
        if col_type (c ! i) = Prim new then Inr (no_change ''CHANGE COLUMN'' ps)
        else if \<not> is_true (conf_of st) ''delta.enableTypeWidening'' then Inl (Refused WideningOff)
        else case col_type (c ! i) of
          Prim old \<Rightarrow>
            (case alter_refusal st pth (col_name (c ! i)) old new of
               Some r \<Rightarrow> Inl (Refused r)
             | None \<Rightarrow> Inr ((no_change ''CHANGE COLUMN'' ps)
                 \<lparr>ch_protocol := with_features (ts_protocol st) (''typeWidening'' # type_features (Prim new)),
                  ch_meta := Some (with_schema (edit_column (widen_column old new) (schema_cols st) pth) (ts_meta st))\<rparr>))
        | _ \<Rightarrow> Inl (Refused (NotAWidening []))))) "

section \<open>Constraints\<close>

text \<open>The constraints to add, under their keys; a name is looked up in lower case.\<close>

fun constraint_entries :: "string set \<Rightarrow> (string \<times> string) list \<Rightarrow> (string \<times> string) list
    \<Rightarrow> refusal + (string \<times> string) list" where
  "constraint_entries existing added [] = Inr added"
| "constraint_entries existing added ((n, e) # cs) =
     (let k = constraint_prefix @ py_lower n in
      if py_strip n = [] then Inl EmptyConstraintName
      else if k \<in> existing \<or> map_of added k \<noteq> None then Inl (ConstraintExists n)
      else constraint_entries existing (added @ [(k, e)]) cs)"

definition constraint_protocol :: "protocol \<Rightarrow> protocol option" where
  "constraint_protocol p =
     (if 7 \<le> pr_writer p then with_features p [''checkConstraints'']
      else if pr_writer p < 3 then Some (p\<lparr>pr_writer := 3\<rparr>)
      else None)"

definition update_conf :: "(string \<times> string) list \<Rightarrow> (string \<times> string) list \<Rightarrow> (string \<times> string) list" where
  "update_conf conf added = foldl (\<lambda>m (k, v). dict_set k v m) conf added"

definition add_constraints :: "table_state \<Rightarrow> (string \<times> string) list \<Rightarrow> meta_error + change" where
  "add_constraints st constraints =
     (case constraint_entries (py_lower ` fst ` set (conf_of st)) [] constraints of
        Inl r \<Rightarrow> Inl (Refused r)
      | Inr added \<Rightarrow>
          if added = [] then Inr (no_change ''ADD CONSTRAINT'' [])
          else Inr ((no_change ''ADD CONSTRAINT''
                 (case constraints of [(n, e)] \<Rightarrow> [(''name'', PText n), (''expr'', PText e)] | _ \<Rightarrow> []))
               \<lparr>ch_protocol := constraint_protocol (ts_protocol st),
                ch_meta := Some ((ts_meta st)\<lparr>md_configuration := update_conf (conf_of st) added\<rparr>)\<rparr>))"

definition drop_constraint :: "table_state \<Rightarrow> string \<Rightarrow> bool \<Rightarrow> meta_error + change" where
  "drop_constraint st name if_exists =
     (case List.find (\<lambda>(k, v). py_lower k = constraint_prefix @ py_lower name) (conf_of st) of
        None \<Rightarrow> if if_exists then Inr (no_change ''DROP CONSTRAINT'' [(''name'', PText name)])
                else Inl (Refused (NoSuchConstraint name))
      | Some (k, v) \<Rightarrow> Inr ((no_change ''DROP CONSTRAINT'' [(''name'', PText name)])
          \<lparr>ch_meta := Some ((ts_meta st)\<lparr>md_configuration := dict_drop k (conf_of st)\<rparr>)\<rparr>))"

end
