(* ===== verification/Meta_Properties.thy ===== *)
theory Meta_Properties
  imports Meta_Ops
begin

text \<open>
  \<open>engine/metadata.py\<close>: clustering keys, table properties and the features they turn on, and the
  commit a change becomes.
\<close>

section \<open>Statistics and clustering keys\<close>

definition clusterable :: "string \<Rightarrow> bool" where
  "clusterable k \<longleftrightarrow>
     k \<in> {''byte'', ''short'', ''integer'', ''long'', ''float'', ''double'', ''date'', ''timestamp'',
           ''timestamp_ntz'', ''string''}
     \<or> match_decimal k \<noteq> None"

text \<open>\<open>_leaf_paths\<close>: the leaves in schema order, as statistics count them.\<close>

fun type_leaves :: "delta_type \<Rightarrow> string list \<Rightarrow> string list list" where
  "type_leaves (Struct fs) prefix = concat (map (\<lambda>f. type_leaves (col_type f) (prefix @ [lower_column f])) fs)"
| "type_leaves t prefix = [prefix]"

abbreviation leaf_paths :: "column list \<Rightarrow> string list list" where
  "leaf_paths fs \<equiv> type_leaves (Struct fs) []"

text \<open>The entries of \<open>delta.dataSkippingStatsColumns\<close>: does one of them cover the path?\<close>

fun listed_covers :: "string list \<Rightarrow> string list \<Rightarrow> meta_error + bool" where
  "listed_covers wanted [] = Inr False"
| "listed_covers wanted (e # es) =
     (let t = py_strip e in
      if t = [] then listed_covers wanted es
      else bind_result (split_path t) (\<lambda>p.
             if take (length p) wanted = map py_lower p then Inr True else listed_covers wanted es))"

definition indexed_columns :: string where "indexed_columns = ''delta.dataSkippingNumIndexedCols''"

definition comma :: char where "comma = CHR '',''"

definition has_stats :: "(string \<times> string) list \<Rightarrow> column list \<Rightarrow> string list \<Rightarrow> meta_error + bool" where
  "has_stats conf fs pth =
     (let wanted = map py_lower pth; names = conf_get conf stats_columns [] in
      if names \<noteq> [] then listed_covers wanted (split_on comma names)
      else case py_int (conf_get conf indexed_columns ''32'') of
             None \<Rightarrow> Inr True
           | Some limit \<Rightarrow> Inr (limit < 0 \<or> wanted \<in> set (take (nat limit) (leaf_paths fs))))"

text \<open>A clustering key's physical path: a primitive column with statistics to use.\<close>

fun key_path :: "column list \<Rightarrow> string list \<Rightarrow> refusal + string list" where
  "key_path fs [] = Inr []"
| "key_path fs (n # pth) =
     (case index_of n fs of
        None \<Rightarrow> Inl (KeyNotFound n)
      | Some i \<Rightarrow>
          if pth = [] then
            (case col_type (fs ! i) of
               Prim k \<Rightarrow> if clusterable k then Inr [physical_of (fs ! i)] else Inl KeyNoStats
             | _ \<Rightarrow> Inl KeyNotPrimitive)
          else case col_type (fs ! i) of
                 Struct gs \<Rightarrow> bind_result (key_path gs pth) (\<lambda>r. Inr (physical_of (fs ! i) # r))
               | _ \<Rightarrow> Inl (KeyNotStruct n))"

fun key_paths :: "table_state \<Rightarrow> string list set \<Rightarrow> string list \<Rightarrow> meta_error + string list list" where
  "key_paths st seen [] = Inr []"
| "key_paths st seen (c # cs) =
     bind_result (split_path c) (\<lambda>pth.
       case key_path (schema_cols st) pth of
         Inl r \<Rightarrow> Inl (Refused r)
       | Inr names \<Rightarrow>
           let k = map py_lower names in
           if k \<in> seen then Inl (Refused (KeyTwice c))
           else bind_result (has_stats (conf_of st) (schema_cols st) pth) (\<lambda>b.
             if \<not> b then Inl (Refused (KeyUncollected c))
             else bind_result (key_paths st (insert k seen) cs) (\<lambda>ks. Inr (names # ks))))"

definition join_names :: "string list \<Rightarrow> string" where
  "join_names cs = join_with comma cs"

definition cluster_by :: "table_state \<Rightarrow> string list \<Rightarrow> meta_error + change" where
  "cluster_by st columns =
     (if md_partitions (ts_meta st) \<noteq> [] then Inl (Refused IsPartitioned)
      else if 4 < length columns then Inl (Refused TooManyKeys)
      else bind_result (key_paths st {} columns) (\<lambda>physical.
        if ts_clustering st = None \<and> physical = []
        then Inr (no_change ''CLUSTER BY'' [(''newClusteringColumns'', PText [])])
        else if ts_clustering st = Some physical
        then Inr (no_change ''CLUSTER BY'' [(''newClusteringColumns'', PText (join_names columns))])
        else Inr ((no_change ''CLUSTER BY'' [(''newClusteringColumns'', PText (join_names columns))])
               \<lparr>ch_protocol := with_features (ts_protocol st) [''clustering'', ''domainMetadata''],
                ch_clustering := Some physical\<rparr>)))"

text \<open>\<open>_check_clustering_stats\<close>: no key may lose its statistics.\<close>

fun keys_collected :: "(string \<times> string) list \<Rightarrow> column list \<Rightarrow> string list list \<Rightarrow> meta_error + unit" where
  "keys_collected conf fs [] = Inr ()"
| "keys_collected conf fs (k # ks) =
     (case logical_path fs k of
        None \<Rightarrow> keys_collected conf fs ks
      | Some l \<Rightarrow> bind_result (has_stats conf fs l) (\<lambda>b.
          if b then keys_collected conf fs ks else Inl (Refused (KeyUncollected (join_with dot l)))))"

definition check_clustering_stats :: "table_state \<Rightarrow> (string \<times> string) list \<Rightarrow> meta_error + unit" where
  "check_clustering_stats st conf =
     (if clustering_keys st = []
         \<or> list_all (\<lambda>k. map_of (conf_of st) k = map_of conf k) [indexed_columns, stats_columns]
      then Inr () else keys_collected conf (schema_cols st) (clustering_keys st))"

section \<open>Keys and values of properties\<close>

definition known_keys :: "string list" where
  "known_keys =
    [''delta.appendOnly'', ''delta.autoOptimize.autoCompact'', ''delta.autoOptimize.optimizeWrite'',
     ''delta.checkpoint.writeStatsAsJson'', ''delta.checkpoint.writeStatsAsStruct'',
     ''delta.checkpointInterval'', ''delta.checkpointPolicy'', ''delta.checkpointRetentionDuration'',
     ''delta.columnMapping.mode'', ''delta.compatibility.symlinkFormatManifest.enabled'',
     ''delta.dataSkippingNumIndexedCols'', ''delta.dataSkippingStatsColumns'',
     ''delta.deletedFileRetentionDuration'', ''delta.enableChangeDataFeed'',
     ''delta.enableDeletionVectors'', ''delta.enableExpiredLogCleanup'',
     ''delta.enableInCommitTimestamps'', ''delta.enableTypeWidening'', ''delta.isolationLevel'',
     ''delta.logRetentionDuration'', ''delta.parquet.compression.codec'', ''delta.randomPrefixLength'',
     ''delta.randomizeFilePrefixes'', ''delta.setTransactionRetentionDuration'',
     ''delta.targetFileSize'', ''delta.tuneFileSizesForRewrites'']"

definition row_tracking_key :: string where "row_tracking_key = ''delta.enableRowTracking''"

definition boolean_keys :: "string list" where
  "boolean_keys =
    [''delta.appendOnly'', ''delta.autoOptimize.autoCompact'', ''delta.autoOptimize.optimizeWrite'',
     ''delta.checkpoint.writeStatsAsJson'', ''delta.checkpoint.writeStatsAsStruct'',
     ''delta.compatibility.symlinkFormatManifest.enabled'', ''delta.enableChangeDataFeed'',
     ''delta.enableDeletionVectors'', ''delta.enableExpiredLogCleanup'',
     ''delta.enableInCommitTimestamps'', ''delta.enableTypeWidening'',
     ''delta.randomizeFilePrefixes'', ''delta.tuneFileSizesForRewrites'', ''delta.enableRowTracking'']"

definition integer_keys :: "(string \<times> int) list" where
  "integer_keys =
    [(''delta.checkpointInterval'', 1), (''delta.dataSkippingNumIndexedCols'', - 1), (''delta.randomPrefixLength'', 1)]"

definition duration_keys :: "string list" where
  "duration_keys =
    [''delta.checkpointRetentionDuration'', ''delta.deletedFileRetentionDuration'',
     ''delta.logRetentionDuration'', ''delta.setTransactionRetentionDuration'']"

definition canonical_keys :: "string list" where
  "canonical_keys = known_keys @
    [row_tracking_key, ''delta.minReaderVersion'', ''delta.minWriterVersion'',
     ''delta.columnMapping.maxColumnId'', ''delta.inCommitTimestampEnablementVersion'',
     ''delta.inCommitTimestampEnablementTimestamp'']"

definition feature_prefix :: string where "feature_prefix = ''delta.feature.''"

text \<open>\<open>_canonical_key\<close>: the spelling readers look a key up by.\<close>

definition canonical_property :: "string \<Rightarrow> string" where
  "canonical_property k =
     (let l = py_lower k in
      case List.find (\<lambda>c. py_lower c = l) canonical_keys of
        Some c \<Rightarrow> c
      | None \<Rightarrow>
          if starts_with l feature_prefix then feature_prefix @ drop (length feature_prefix) k
          else if starts_with l constraint_prefix then constraint_prefix @ drop (length constraint_prefix) k
          else k)"

definition canonical_feature :: "string \<Rightarrow> string" where
  "canonical_feature n =
     (case List.find (\<lambda>f. py_lower (feature_name f) = py_lower n) all_features of
        Some f \<Rightarrow> feature_name f | None \<Rightarrow> n)"

definition time_units :: "string list" where
  "time_units = [''nanosecond'', ''microsecond'', ''millisecond'', ''second'', ''minute'', ''hour'', ''day'', ''week'']"

text \<open>\<open>_INTERVAL.fullmatch\<close> on stripped text, with its number and its unit.\<close>

definition match_interval :: "string \<Rightarrow> (nat \<times> string) option" where
  "match_interval s =
     (let l = py_lower s;
          body = (if starts_with l ''interval'' \<and> drop 8 l \<noteq> [] \<and> py_isspace (l ! 8)
                  then dropWhile py_isspace (drop 8 l) else l);
          (d, r) = span_digits body; u = dropWhile py_isspace r
      in if d \<noteq> [] \<and> (u \<in> set time_units \<or> (u \<noteq> [] \<and> last u = CHR ''s'' \<and> butlast u \<in> set time_units))
         then Some (digits_val d, u) else None)"

definition is_file_size :: "string \<Rightarrow> bool" where
  "is_file_size s =
     (let (d, r) = span_digits (py_lower s)
      in d \<noteq> [] \<and> dropWhile py_isspace r \<in> {[], ''b'', ''k'', ''kb'', ''m'', ''mb'', ''g'', ''gb''})"

definition codecs :: "string list" where
  "codecs = [''uncompressed'', ''none'', ''snappy'', ''gzip'', ''lzo'', ''brotli'', ''lz4'', ''lz4_raw'', ''zstd'']"

definition isolation_levels :: "(string \<times> string) list" where
  "isolation_levels = [(''serializable'', ''Serializable''), (''writeserializable'', ''WriteSerializable'')]"

datatype prop_value = VNone | VBool bool | VText string

definition str_of :: "prop_value \<Rightarrow> string" where
  "str_of v = (case v of VNone \<Rightarrow> ''None'' | VBool b \<Rightarrow> (if b then ''True'' else ''False'') | VText s \<Rightarrow> s)"

definition value_text :: "prop_value \<Rightarrow> string" where
  "value_text v = (case v of VBool b \<Rightarrow> (if b then ''true'' else ''false'') | _ \<Rightarrow> str_of v)"

text \<open>Every entry of a list of columns names a column of the table.\<close>

fun entries_found :: "column list \<Rightarrow> string list \<Rightarrow> meta_error + unit" where
  "entries_found fs [] = Inr ()"
| "entries_found fs (e # es) =
     (if py_strip e = [] then entries_found fs es
      else bind_result (split_path (py_strip e)) (\<lambda>p. bind_result (found fs p) (\<lambda>r. entries_found fs es)))"

definition valid_choice :: "string \<Rightarrow> string \<Rightarrow> bool \<Rightarrow> string \<Rightarrow> meta_error + string" where
  "valid_choice k v ok result = (if ok then Inr result else Inl (Refused (BadValue k v)))"

definition normalise_value :: "column list \<Rightarrow> string \<Rightarrow> prop_value \<Rightarrow> meta_error + string" where
  "normalise_value fs k given =
     (if given = VNone then Inl (Refused (NoValue k))
      else let v = value_text given; s = py_strip v; l = py_lower s in
        if k \<in> set boolean_keys then valid_choice k v (l \<in> {''true'', ''false''}) l
        else if map_of integer_keys k \<noteq> None then
          (case py_int s of
             None \<Rightarrow> Inl (Refused (BadValue k v))
           | Some i \<Rightarrow> valid_choice k v (the (map_of integer_keys k) \<le> i) (int_text i))
        else if k \<in> set duration_keys then
          (case match_interval s of
             None \<Rightarrow> Inl (Refused (BadValue k v))
           | Some (n, u) \<Rightarrow> Inr (''interval '' @ nat_text 10 n @ '' '' @ u))
        else if k = ''delta.targetFileSize'' then valid_choice k v (is_file_size s) s
        else if k = ''delta.isolationLevel'' then
          (case map_of isolation_levels l of None \<Rightarrow> Inl (Refused (BadValue k v)) | Some t \<Rightarrow> Inr t)
        else if k = ''delta.parquet.compression.codec'' then valid_choice k v (l \<in> set codecs) l
        else if k = ''delta.checkpointPolicy'' then valid_choice k v (l \<in> {''classic'', ''v2''}) l
        else if k = cm_mode then Inr l
        else if k = stats_columns then bind_result (entries_found fs (split_on comma s)) (\<lambda>u. Inr s)
        else Inr v)"

section \<open>Setting properties\<close>

definition addable_features :: "string list" where
  "addable_features =
    [''appendOnly'', ''invariants'', ''checkConstraints'', ''changeDataFeed'', ''deletionVectors'',
     ''domainMetadata'', ''timestampNtz'', ''typeWidening'', ''v2Checkpoint'', ''vacuumProtocolCheck'',
     ''variantType'', ''inCommitTimestamp'', ''allowColumnDefaults'']"

definition not_addable :: "string list" where
  "not_addable =
    [''rowTracking'', ''catalogManaged'', ''clustering'', ''icebergCompatV1'', ''icebergCompatV2'',
     ''icebergCompatV3'', ''identityColumns'', ''generatedColumns'']"

definition enabling :: "(string \<times> string) list" where
  "enabling =
    [(''delta.appendOnly'', ''appendOnly''), (''delta.enableChangeDataFeed'', ''changeDataFeed''),
     (''delta.enableDeletionVectors'', ''deletionVectors''), (''delta.enableTypeWidening'', ''typeWidening''),
     (''delta.enableInCommitTimestamps'', ''inCommitTimestamp'')]"

definition ict_key :: string where "ict_key = ''delta.enableInCommitTimestamps''"
definition ict_version_key :: string where "ict_version_key = ''delta.inCommitTimestampEnablementVersion''"
definition ict_timestamp_key :: string where "ict_timestamp_key = ''delta.inCommitTimestampEnablementTimestamp''"
definition ict_mark :: string where "ict_mark = ''__ICT__''"

record settings =
  se_conf :: "(string \<times> string) list"
  se_features :: "string list"
  se_schema :: "column list option"

text \<open>A \<open>delta.feature.<name>\<close> key: the feature it adds.\<close>

definition feature_signal :: "string \<Rightarrow> prop_value \<Rightarrow> refusal + string" where
  "feature_signal k given =
     (let n = canonical_feature (drop (length feature_prefix) k) in
      if given = VNone \<or> py_lower (str_of given) \<notin> {''supported'', ''enabled''} then Inl (OnlySupported k)
      else if n \<in> set not_addable then Inl (NotAddable n)
      else if n \<notin> set addable_features then Inl (Unaddable n)
      else Inr n)"

definition key_refusal :: "string \<Rightarrow> prop_value \<Rightarrow> refusal option" where
  "key_refusal k given =
     (if k = row_tracking_key \<and> py_lower (str_of given) = ''true'' then Some NeedsBackfill
      else if starts_with_any (py_lower k) [''delta.enableicebergcompat'', ''delta.universalformat'']
      then Some UniformRefused
      else if starts_with k ''delta.'' \<and> k \<notin> set known_keys \<and> k \<noteq> row_tracking_key
      then Some (UnknownProperty k)
      else None)"

definition enable_column_mapping ::
  "table_state \<Rightarrow> string \<Rightarrow> (string \<times> string) list \<Rightarrow> refusal + column list option \<times> (string \<times> string) list" where
  "enable_column_mapping st mode conf =
     (let current = table_mapping_mode (conf_of st) in
      if mode = current then Inr (None, conf)
      else if mode \<notin> {''none'', ''name'', ''id''} then Inl (BadMappingMode mode)
      else if current \<noteq> ''none'' \<or> mode \<noteq> ''name'' then Inl (MappingChange current mode)
      else let r = assign_ids (\<lambda>i f. col_name f) 1 (schema_cols st)
           in Inr (Some (fst r), dict_set cm_max (int_text (snd r - 1)) conf))"

definition value_features :: "string \<Rightarrow> string \<Rightarrow> string list" where
  "value_features k l =
     (case map_of enabling k of None \<Rightarrow> [] | Some f \<Rightarrow> if l = ''true'' then [f] else [])
     @ (if k = ''delta.checkpointPolicy'' \<and> l = ''v2'' then [''v2Checkpoint''] else [])
     @ (if k = cm_mode \<and> l \<noteq> ''none'' then [''columnMapping''] else [])"

definition feed_clash :: "column list \<Rightarrow> string list" where
  "feed_clash fs = filter (\<lambda>n. py_lower n \<in> set feed_reserved) (map col_name fs)"

definition enablement :: "table_state \<Rightarrow> string \<Rightarrow> string \<Rightarrow> (string \<times> string) list \<Rightarrow> (string \<times> string) list" where
  "enablement st k l conf =
     (if k = ict_key \<and> l = ''true'' \<and> \<not> is_true (conf_of st) k
      then dict_set ict_timestamp_key ict_mark (dict_set ict_version_key (int_text (ts_version st + 1)) conf)
      else conf)"

definition set_value :: "table_state \<Rightarrow> string \<Rightarrow> string \<Rightarrow> settings \<Rightarrow> refusal + settings" where
  "set_value st k v s =
     (let l = py_lower v; clash = feed_clash (schema_cols st) in
      if k = ''delta.enableChangeDataFeed'' \<and> l = ''true'' \<and> clash \<noteq> [] then Inl (FeedReserves clash)
      else bind_result (if k = cm_mode then enable_column_mapping st l (se_conf s)
                        else Inr (se_schema s, se_conf s)) (\<lambda>(fs, conf).
             Inr \<lparr>se_conf = dict_set k v (enablement st k l conf),
                  se_features = se_features s @ value_features k l, se_schema = fs\<rparr>))"

definition refused :: "refusal + 'a \<Rightarrow> meta_error + 'a" where
  "refused r = (case r of Inl e \<Rightarrow> Inl (Refused e) | Inr a \<Rightarrow> Inr a)"

definition set_property :: "table_state \<Rightarrow> string \<times> prop_value \<Rightarrow> settings \<Rightarrow> meta_error + settings" where
  "set_property st kv s =
     (case kv of (rk, given) \<Rightarrow>
        let k = canonical_property rk in
        if k \<in> {''delta.minReaderVersion'', ''delta.minWriterVersion''} then Inl (Refused (NotSetDirectly k))
        else if starts_with k constraint_prefix then Inl (Refused ThroughConstraints)
        else if starts_with k feature_prefix
        then bind_result (refused (feature_signal k given)) (\<lambda>n. Inr (s\<lparr>se_features := se_features s @ [n]\<rparr>))
        else case key_refusal k given of
               Some r \<Rightarrow> Inl (Refused r)
             | None \<Rightarrow> bind_result (normalise_value (schema_cols st) k given) (\<lambda>v. refused (set_value st k v s)))"

fun set_all :: "table_state \<Rightarrow> (string \<times> prop_value) list \<Rightarrow> settings \<Rightarrow> meta_error + settings" where
  "set_all st [] s = Inr s"
| "set_all st (kv # kvs) s = bind_result (set_property st kv s) (set_all st kvs)"

definition set_properties :: "table_state \<Rightarrow> (string \<times> prop_value) list \<Rightarrow> meta_error + change" where
  "set_properties st properties =
     bind_result (set_all st properties \<lparr>se_conf = conf_of st, se_features = [], se_schema = None\<rparr>) (\<lambda>s.
     bind_result (check_clustering_stats st (se_conf s)) (\<lambda>u.
       let md = (ts_meta st)\<lparr>md_configuration := se_conf s,
                  md_schema := (case se_schema s of None \<Rightarrow> schema_cols st | Some fs \<Rightarrow> fs)\<rparr>
       in Inr ((no_change ''SET TBLPROPERTIES'' (map (\<lambda>(k, v). (k, PText (str_of v))) properties))
            \<lparr>ch_protocol := features_protocol (ts_protocol st) (se_features s), ch_meta := if_changed st md\<rparr>)))"

definition add_feature :: "table_state \<Rightarrow> string \<Rightarrow> meta_error + change" where
  "add_feature st name = set_properties st [(feature_prefix @ name, VText ''supported'')]"

section \<open>Unsetting\<close>

definition unset_refusal :: "string \<Rightarrow> refusal option" where
  "unset_refusal k =
     (if starts_with k feature_prefix \<or> k = cm_mode \<or> k = cm_max then Some (KeepsProtocol k)
      else if starts_with k ''delta.inCommitTimestampEnablement'' then Some (KeepsTimestamps k)
      else if starts_with (py_lower k) ''delta.rowtracking.'' then Some (KeepsRowIds k)
      else None)"

text \<open>The configuration left, and the keys that were there.\<close>

fun unset_all :: "bool \<Rightarrow> (string \<times> string) list \<Rightarrow> string list \<Rightarrow> string list
    \<Rightarrow> refusal + (string \<times> string) list \<times> string list" where
  "unset_all if_exists conf removed [] = Inr (conf, removed)"
| "unset_all if_exists conf removed (rk # ks) =
     (let k = canonical_property rk in
      case unset_refusal k of
        Some r \<Rightarrow> Inl r
      | None \<Rightarrow>
          if map_of conf k = None
          then (if if_exists then unset_all if_exists conf removed ks else Inl (NoSuchProperty k))
          else unset_all if_exists (dict_drop k conf) (removed @ [k]) ks)"

definition unset_properties :: "table_state \<Rightarrow> string list \<Rightarrow> bool \<Rightarrow> meta_error + change" where
  "unset_properties st keys if_exists =
     bind_result (refused (unset_all if_exists (conf_of st) [] keys)) (\<lambda>(conf, removed).
       let c = no_change ''UNSET TBLPROPERTIES'' [(''properties'', PNames (sort keys))] in
       if removed = [] then Inr c
       else bind_result (check_clustering_stats st conf) (\<lambda>u.
              Inr (c\<lparr>ch_meta := Some ((ts_meta st)\<lparr>md_configuration := conf\<rparr>)\<rparr>)))"

section \<open>The commit\<close>

record table_commit =
  co_ict :: "int option"
  co_timestamp :: int
  co_protocol :: "protocol option"
  co_meta :: "table_meta option"
  co_clustering :: "string list list option"

definition catalog_features :: "string list" where
  "catalog_features = [''catalogManaged'', ''catalogOwned-preview'']"

definition fill_enablement :: "int \<Rightarrow> table_meta \<Rightarrow> table_meta" where
  "fill_enablement t md =
     (if map_of (md_configuration md) ict_timestamp_key = Some ict_mark
      then md\<lparr>md_configuration := dict_set ict_timestamp_key (int_text t) (md_configuration md)\<rparr> else md)"

text \<open>\<open>build_actions\<close> at the time \<open>now\<close>, in milliseconds.\<close>

definition build_actions :: "table_state \<Rightarrow> change \<Rightarrow> int \<Rightarrow> meta_error + table_commit" where
  "build_actions st c now =
     (let p = ts_protocol st in
      if list_ex (\<lambda>f. f \<in> set (listed (pr_reader_features p)) \<union> set (listed (pr_writer_features p))) catalog_features
      then Inl (Refused CatalogManaged)
      else let md = (case ch_meta c of None \<Rightarrow> ts_meta st | Some m \<Rightarrow> m);
               before = (case ts_timestamp st of None \<Rightarrow> 0 | Some t \<Rightarrow> t);
               ict = (if is_true (md_configuration md) ict_key then Some (max now (before + 1)) else None);
               t = (case ict of None \<Rightarrow> now | Some i \<Rightarrow> i)
           in Inr \<lparr>co_ict = ict, co_timestamp = t, co_protocol = ch_protocol c,
                   co_meta = map_option (fill_enablement t) (ch_meta c), co_clustering = ch_clustering c\<rparr>)"

text \<open>The state the next change is computed against, once the commit is written.\<close>

definition committed :: "table_state \<Rightarrow> table_commit \<Rightarrow> table_state" where
  "committed st co =
     \<lparr>ts_version = ts_version st + 1,
      ts_protocol = (case co_protocol co of None \<Rightarrow> ts_protocol st | Some p \<Rightarrow> p),
      ts_meta = (case co_meta co of None \<Rightarrow> ts_meta st | Some m \<Rightarrow> m),
      ts_timestamp = Some (co_timestamp co),
      ts_clustering = (case co_clustering co of None \<Rightarrow> ts_clustering st | Some ks \<Rightarrow> Some ks)\<rparr>"

end
