(* ===== verification/Meta_Columns.thy ===== *)
theory Meta_Columns
  imports Meta_Properties
begin

text \<open>
  What the changes of a schema keep: the data files know a column by its physical path, so an
  edit is judged by the tree of physical names it leaves (\<open>shape\<close>), by the names of siblings and
  by the mapping ids.
\<close>

section \<open>The tree of physical names\<close>

datatype shape = Leaf | Node "(string \<times> shape) list"

fun shape_of :: "delta_type \<Rightarrow> shape" where
  "shape_of (Struct fs) = Node (map (\<lambda>f. (physical_of f, shape_of (col_type f))) fs)"
| "shape_of t = Leaf"

fun reaches :: "shape \<Rightarrow> string list \<Rightarrow> bool" where
  "reaches s [] = True"
| "reaches Leaf (p # pth) = False"
| "reaches (Node es) (p # pth) =
     (case map_of es p of None \<Rightarrow> False | Some s \<Rightarrow> pth = [] \<or> reaches s pth)"

lemma physical_of_set [simp]:
  "physical_of (set_type t f) = physical_of f" "physical_of (set_nullable b f) = physical_of f"
  by (simp_all add: physical_of_def split: option.splits)

lemma map_update_same: "j < length xs \<Longrightarrow> f y = f (xs ! j) \<Longrightarrow> map f (xs[j := y]) = map f xs"
  by (simp add: map_update list_update_same_conv)

lemma find_append: "List.find P (xs @ ys) = (case List.find P xs of None \<Rightarrow> List.find P ys | r \<Rightarrow> r)"
  by (induction xs) auto

lemma map_of_find:
  "map_of (map (\<lambda>f. (k f, v f)) fs) p = map_option v (List.find (\<lambda>f. k f = p) fs)"
  by (induction fs) auto

lemma logical_path_reaches: "logical_path fs k \<noteq> None \<longleftrightarrow> reaches (shape_of (Struct fs)) k"
proof (induction fs k rule: logical_path.induct)
  case (2 fs p pth)
  show ?case
  proof (cases "List.find (\<lambda>f. physical_of f = p) fs")
    case (Some f)
    note lookup = map_of_find [of physical_of "\<lambda>f. shape_of (col_type f)" fs p]
    show ?thesis
    proof (cases "pth = []")
      case False
      then obtain q r where q: "pth = q # r" by (cases pth) auto
      show ?thesis
        using "2.IH" [OF Some False] Some lookup q
        by (cases "col_type f") (auto simp del: shape_of.simps(1) simp: shape_of.simps(1) [of fs])
    qed (use Some lookup in auto)
  qed (simp add: map_of_find)
qed simp

text \<open>An edit that keeps a column's physical name and shape keeps the tree.\<close>

lemma edit_column_shape:
  assumes "find_column fs pth = Inr (c, i)" "physical_of (g (c ! i)) = physical_of (c ! i)"
    and "shape_of (col_type (g (c ! i))) = shape_of (col_type (c ! i))"
  shows "shape_of (Struct (edit_column g fs pth)) = shape_of (Struct fs)"
  using assms(1)
proof (induction fs pth rule: find_column.induct)
  case (2 fs n pth)
  let ?s = "\<lambda>f. (physical_of f, shape_of (col_type f))"
  from "2.prems" show ?case
  proof (cases rule: find_column_cases)
    case (here j)
    then show ?thesis
      using assms(2,3) map_update_same [of j fs ?s "g (fs ! j)"] index_of_Some [OF here(2)]
      by (simp add: edit_column_def)
  next
    case (below j gs)
    let ?f = "set_type (Struct (edit_column g gs pth)) (fs ! j)"
    have "shape_of (Struct (edit_column g gs pth)) = shape_of (col_type (fs ! j))"
      using "2.IH" [OF below(2,1,3,4)] below(3) by simp
    then have "?s ?f = ?s (fs ! j)" by (simp del: shape_of.simps)
    then have "map ?s (fs[j := ?f]) = map ?s fs"
      by (rule map_update_same [rotated]) (use index_of_Some [OF below(2)] in simp)
    moreover have "edit_column g fs (n # pth) = fs[j := ?f]"
      unfolding edit_column_def edit_container_below [OF below(1-3)] ..
    ultimately show ?thesis by simp
  qed
qed simp

lemma reaches_append: "reaches (Node es) k \<Longrightarrow> reaches (Node (es @ es')) k"
  by (cases k) (auto simp: map_add_def split: option.splits)

lemma find_removed:
  assumes "i < length xs" "\<not> P (xs ! i)"
  shows "List.find P (take i xs @ drop (Suc i) xs) = List.find P xs"
proof -
  have "List.find P xs = List.find P (take i xs @ xs ! i # drop (Suc i) xs)"
    using assms(1) by (simp add: id_take_nth_drop [symmetric])
  then show ?thesis using assms(2) by (simp add: find_append split: option.splits)
qed

lemma find_updated:
  assumes "i < length xs" "\<not> P (xs ! i)" "\<not> P y"
  shows "List.find P (xs[i := y]) = List.find P xs"
proof -
  have "List.find P xs = List.find P (take i xs @ xs ! i # drop (Suc i) xs)"
    using assms(1) by (simp add: id_take_nth_drop [symmetric])
  then show ?thesis using assms by (simp add: upd_conv_take_nth_drop find_append split: option.splits)
qed

text \<open>Removing a column leaves every physical path that does not run through it.\<close>

lemma remove_column_path:
  assumes "find_column fs pth = Inr (c, i)" "siblings_differ physical_of (Struct fs)"
    and "take (length (physical_path fs pth)) k \<noteq> physical_path fs pth" "logical_path fs k \<noteq> None"
  shows "logical_path (remove_column fs pth) k \<noteq> None"
  using assms
proof (induction fs pth arbitrary: k rule: find_column.induct)
  case (2 fs n pth)
  show ?case
  proof (cases k)
    case (Cons p k')
    note k = this
    from "2.prems"(1) show ?thesis
  proof (cases rule: find_column_cases)
    case (here j)
    have p: "p \<noteq> physical_of (fs ! j)" using "2.prems"(3) here k by (cases "col_type (fs ! j)") auto
    have "List.find (\<lambda>f. physical_of f = p) (take j fs @ drop (Suc j) fs) = List.find (\<lambda>f. physical_of f = p) fs"
      by (rule find_removed) (use index_of_Some [OF here(2)] p in auto)
    then show ?thesis using "2.prems"(4) here k by (simp add: remove_column_def)
  next
    case (below j gs)
    have j: "j < length fs" using index_of_Some [OF below(2)] by simp
    let ?f = "set_type (Struct (remove_column gs pth)) (fs ! j)"
    have r: "remove_column fs (n # pth) = fs[j := ?f]"
      unfolding remove_column_def edit_container_below [OF below(1-3)] by simp
    have ph: "physical_of ?f = physical_of (fs ! j)" by simp
    show ?thesis
    proof (cases "p = physical_of (fs ! j)")
      case False
      have "List.find (\<lambda>f. physical_of f = p) (fs[j := ?f]) = List.find (\<lambda>f. physical_of f = p) fs"
        by (rule find_updated) (use j False ph in auto)
      then show ?thesis using "2.prems"(4) k r by simp
    next
      case True
      have d: "distinct (map physical_of fs)" using "2.prems"(2) by simp
      have d': "distinct (map physical_of (fs[j := ?f]))"
        using d map_update_same [of j fs physical_of ?f] j ph by simp
      have old: "List.find (\<lambda>f. physical_of f = p) fs = Some (fs ! j)"
        using find_same [OF d j] True by simp
      have new: "List.find (\<lambda>f. physical_of f = p) (fs[j := ?f]) = Some ?f"
        using find_same [OF d', of j] j True ph by simp
      show ?thesis
      proof (cases "k' = []")
        case False
        have gs: "siblings_differ physical_of (Struct gs)"
          using "2.prems"(2) below(3) j by (metis list_all_length siblings_differ.simps(2))
        have "logical_path gs k' \<noteq> None" using "2.prems"(4) k old below(3) False by simp
        moreover have "take (length (physical_path gs pth)) k' \<noteq> physical_path gs pth"
          using "2.prems"(3) k below(2,3) True by simp
        ultimately have "logical_path (remove_column gs pth) k' \<noteq> None"
          using "2.IH" [OF below(2,1,3,4) gs] by blast
        then show ?thesis using r new k False by simp
      qed (use r new k in simp)
    qed
  qed
  qed simp
qed simp

section \<open>Numbers printed and read\<close>

lemma split_on_none: "sep \<notin> set s \<Longrightarrow> split_on sep s = [s]"
  by (induction s) auto

lemma py_int_digits:
  assumes "list_all ascii_digit d" "d \<noteq> []"
  shows "split_on (CHR ''_'') d = [d]" "py_strip d = d" "py_strip (CHR ''-'' # d) = CHR ''-'' # d"
proof -
  have n: "\<not> py_isspace c \<and> c \<noteq> CHR ''_''" if "c \<in> set d" for c
    using assms(1) that digit_not_space [of c] by (auto simp: list_all_iff ascii_digit_def code_def)
  then show "split_on (CHR ''_'') d = [d]" by (intro split_on_none) auto
  have m: "\<not> py_isspace (CHR ''-'')" by (simp add: py_isspace_def code_def)
  show "py_strip d = d" "py_strip (CHR ''-'' # d) = CHR ''-'' # d"
    unfolding py_strip_def by (rule strip_by_none; use n m in auto)+
qed

lemma py_int_text [simp]: "py_int (int_text i) = Some i"
proof -
  have d: "list_all ascii_digit (nat_text 10 n)" "nat_text 10 n \<noteq> []" for n
    by (simp_all add: nat_text_digits nat_text_nonempty)
  have h: "hd (nat_text 10 n) \<noteq> CHR ''-'' \<and> hd (nat_text 10 n) \<noteq> CHR ''+''" for n
    using d [of n] by (cases "nat_text 10 n") (auto simp: ascii_digit_def code_def)
  have p: "sign_split (nat_text 10 n) = (False, nat_text 10 n)" for n
    using d(2) [of n] h [of n] by (cases "nat_text 10 n") (auto simp: sign_split_def)
  show ?thesis
  proof (cases "i < 0")
    case True
    then show ?thesis
      using d [of "nat (- i)"] py_int_digits [OF d, of "nat (- i)"]
      by (simp add: py_int_def int_text_def sign_split_def digits_val_nat_text)
  next
    case False
    then show ?thesis
      using d [of "nat i"] p [of "nat i"] py_int_digits [OF d, of "nat i"]
      by (simp add: py_int_def int_text_def digits_val_nat_text)
  qed
qed

lemma int_text_nonempty [simp]: "int_text i \<noteq> []"
  by (simp add: int_text_def nat_text_nonempty)

lemma recorded_max_set [simp]: "recorded_max (dict_set cm_max (int_text n) conf) = Some n"
  by (simp add: recorded_max_def map_of_dict_set)

section \<open>What a schema keeps\<close>

text \<open>Keys that tell more apart keep siblings apart.\<close>

lemma siblings_finer:
  assumes "\<forall>f\<in>set (walk t). h f = \<phi> (k f)" "siblings_differ h t"
  shows "siblings_differ k t"
  using assms
proof (induction t rule: walk.induct)
  case (2 fs)
  have "map h fs = map \<phi> (map k fs)" using "2.prems"(1) by auto
  then have "distinct (map k fs)" using "2.prems"(2) by (metis distinct_map siblings_differ.simps(2))
  moreover have "siblings_differ k (col_type f)" if "f \<in> set fs" for f
    using "2.IH" [OF that] "2.prems" that by (auto simp: list_all_iff)
  ultimately show ?case by (simp add: list_all_iff)
qed auto

lemma walk_siblings_distinct:
  assumes "distinct (map k (walk t))"
  shows "siblings_differ k t"
  using assms
proof (induction t rule: walk.induct)
  case (2 fs)
  have "distinct (map k gs) \<and> list_all (\<lambda>f. siblings_differ k (col_type f)) gs"
    if "distinct (map k (walk_fields gs))" "set gs \<subseteq> set fs" for gs
    using that
  proof (induction gs)
    case (Cons g gs)
    have "set gs \<subseteq> set (walk_fields gs)" by auto
    then have "k g \<notin> k ` set gs" using Cons.prems(1) by auto
    then show ?case using Cons "2.IH" [of g] by auto
  qed simp
  from this [OF "2.prems"] show ?case by simp
qed auto

text \<open>Under column mapping every field has an id within the recorded maximum, no two the same, and a
  physical name that tells it from its siblings.\<close>

definition field_mapped :: "int \<Rightarrow> json option \<times> json option \<Rightarrow> bool" where
  "field_mapped m x \<longleftrightarrow> (\<exists>i p. x = (Some (JInt i), Some (JStr p)) \<and> i \<le> m)"

definition columns_mapped :: "(string \<times> string) list \<Rightarrow> column list \<Rightarrow> bool" where
  "columns_mapped conf fs \<longleftrightarrow>
     (\<exists>m. recorded_max conf = Some m \<and> (\<forall>x\<in>set (keys_of fs). field_mapped m x))
     \<and> distinct (map fst (keys_of fs)) \<and> siblings_differ physical_of (Struct fs)"

definition columns_ok :: "(string \<times> string) list \<Rightarrow> column list \<Rightarrow> bool" where
  "columns_ok conf fs \<longleftrightarrow>
     siblings_differ lower_column (Struct fs)
     \<and> (maps_columns conf \<longrightarrow> columns_mapped conf fs)"

text \<open>Without column mapping a field may still carry the physical name it had in another table: a new
  column loses the mapping metadata of its own, but not that of the fields inside it.  A schema
  is free of such names where column mapping is on or no field has a physical name.\<close>

definition own_fields :: "(string \<times> string) list \<Rightarrow> column list \<Rightarrow> bool" where
  "own_fields conf fs \<longleftrightarrow> maps_columns conf \<or> list_all (\<lambda>f. snd (field_key f) = None) (walk_fields fs)"

lemma own_fields_physical:
  assumes "columns_ok conf fs" "own_fields conf fs"
  shows "siblings_differ physical_of (Struct fs)"
proof (cases "maps_columns conf")
  case False
  then have "\<forall>f\<in>set (walk_fields fs). physical_of f = col_name f"
    using assms(2) by (auto simp: own_fields_def list_all_iff physical_of_def field_key_def simp del: walk.simps)
  then have "\<forall>f\<in>set (walk (Struct fs)). lower_column f = py_lower (physical_of f)"
    by (simp add: lower_column_def del: walk.simps)
  then show ?thesis
    by (rule siblings_finer) (use assms(1) in \<open>simp add: columns_ok_def del: siblings_differ.simps\<close>)
qed (use assms(1) in \<open>simp add: columns_ok_def columns_mapped_def del: siblings_differ.simps\<close>)

lemma lower_column_set [simp]:
  "lower_column (set_type t f) = lower_column f" "lower_column (set_nullable b f) = lower_column f"
  "lower_column (set_meta m f) = lower_column f"
  by (simp_all add: lower_column_def)

lemma edit_column_siblings:
  assumes "find_column fs pth = Inr (c, i)" "siblings_differ k (Struct fs)"
    and "k (g (c ! i)) = k (c ! i)" "siblings_differ k (col_type (g (c ! i)))"
    and "\<And>t f. k (set_type t f) = k f"
  shows "siblings_differ k (Struct (edit_column g fs pth))"
proof -
  have c: "siblings_differ k (Struct c)" using siblings_find [OF assms(1,2)] .
  have i: "i < length c" using find_column_index [OF assms(1)] .
  have "map k (c[i := g (c ! i)]) = map k c" by (rule map_update_same [OF i assms(3)])
  moreover have "list_all (\<lambda>f. siblings_differ k (col_type f)) (c[i := g (c ! i)])"
    using c i assms(4) by (auto simp: list_all_length nth_list_update)
  ultimately have "siblings_differ k (Struct (c[i := g (c ! i)]))" using c by simp
  then show ?thesis unfolding edit_column_def by (rule siblings_edit [OF assms(1,2) _ assms(5)])
qed

text \<open>An edit of one column that keeps what identifies it, its name and its nested fields.\<close>

definition mild_edit :: "(column \<Rightarrow> column) \<Rightarrow> column \<Rightarrow> bool" where
  "mild_edit g f \<longleftrightarrow>
     field_key (g f) = field_key f \<and> physical_of (g f) = physical_of f \<and> col_name (g f) = col_name f
     \<and> (col_type (g f) = col_type f \<or> (\<exists>a b. col_type f = Prim a \<and> col_type (g f) = Prim b))"

lemma mild_edit_ok:
  assumes "find_column fs pth = Inr (c, i)" "mild_edit g (c ! i)" "columns_ok conf fs"
  shows "columns_ok conf (edit_column g fs pth) \<and> keys_of (edit_column g fs pth) = keys_of fs
    \<and> shape_of (Struct (edit_column g fs pth)) = shape_of (Struct fs)"
proof -
  note g = assms(2) [unfolded mild_edit_def]
  have sib: "siblings_differ k (col_type (g (c ! i)))" if "siblings_differ k (Struct fs)" for k :: "column \<Rightarrow> 'x"
    using siblings_find [OF assms(1) that] find_column_index [OF assms(1)] g by (auto simp: list_all_length)
  have w: "map field_key (walk (col_type (g (c ! i)))) = map field_key (walk (col_type (c ! i)))" using g by auto
  have s: "shape_of (col_type (g (c ! i))) = shape_of (col_type (c ! i))" using g by auto
  have keys: "keys_of (edit_column g fs pth) = keys_of fs" by (rule edit_column_keys [OF assms(1)]) (use g w in blast)+
  have lower: "siblings_differ lower_column (Struct (edit_column g fs pth))"
    if "siblings_differ lower_column (Struct fs)"
    by (rule edit_column_siblings [OF assms(1) that]) (use g sib [OF that] in \<open>simp_all add: lower_column_def\<close>)
  have phys: "siblings_differ physical_of (Struct (edit_column g fs pth))"
    if "siblings_differ physical_of (Struct fs)"
    by (rule edit_column_siblings [OF assms(1) that]) (use g sib [OF that] in simp_all)
  show ?thesis
    using assms(3) keys lower phys edit_column_shape [OF assms(1), of g] s g
    unfolding columns_ok_def columns_mapped_def keys by (auto simp del: siblings_differ.simps walk.simps)
qed

lemma find_column_key:
  assumes "find_column fs pth = Inr (c, i)"
  shows "field_key (c ! i) \<in> set (keys_of fs)" "set (keys_of c) \<subseteq> set (keys_of fs)"
proof -
  obtain A B where k: "keys_of fs = A @ keys_of c @ B"
    using edit_container_keys [OF assms, of "\<lambda>c i. c"] by blast
  show sub: "set (keys_of c) \<subseteq> set (keys_of fs)" unfolding k set_append by blast
  have "field_key (c ! i) \<in> set (keys_of c)"
    using keys_of_split [OF find_column_index [OF assms]] by simp
  with sub show "field_key (c ! i) \<in> set (keys_of fs)" by blast
qed

lemma physical_of_name: "snd (field_key f) = Some j \<Longrightarrow> physical_of (set_name n f) = physical_of f"
  by (simp add: field_key_def physical_of_def)

lemma rename_ok:
  assumes "find_column fs pth = Inr (c, i)" "columns_ok conf fs" "maps_columns conf"
    and "list_all (\<lambda>f. \<not> same_name (col_name f) leaf) (take i c @ drop (Suc i) c)"
  shows "columns_ok conf (edit_column (set_name leaf) fs pth)
    \<and> keys_of (edit_column (set_name leaf) fs pth) = keys_of fs
    \<and> shape_of (Struct (edit_column (set_name leaf) fs pth)) = shape_of (Struct fs)"
proof -
  let ?r = "edit_column (set_name leaf) fs pth"
  have i: "i < length c" using find_column_index [OF assms(1)] .
  have m: "columns_mapped conf fs" "siblings_differ lower_column (Struct fs)"
    using assms(2,3) by (auto simp: columns_ok_def)
  obtain p where "snd (field_key (c ! i)) = Some p"
    using find_column_key(1) [OF assms(1)] m(1) by (fastforce simp: columns_mapped_def field_mapped_def)
  then have ph: "physical_of (set_name leaf (c ! i)) = physical_of (c ! i)" by (rule physical_of_name)
  have keys: "keys_of ?r = keys_of fs" by (rule edit_column_keys [OF assms(1)]) simp_all
  have shape: "shape_of (Struct ?r) = shape_of (Struct fs)"
    by (rule edit_column_shape [OF assms(1)]) (use ph in simp_all)
  have phys: "siblings_differ physical_of (Struct ?r)"
  proof (rule edit_column_siblings [OF assms(1)])
    show "siblings_differ physical_of (Struct fs)" using m(1) by (simp add: columns_mapped_def)
    then show "siblings_differ physical_of (col_type (set_name leaf (c ! i)))"
      using siblings_find [OF assms(1)] i by (auto simp: list_all_length)
  qed (use ph in simp_all)
  have c: "siblings_differ lower_column (Struct c)" using siblings_find [OF assms(1) m(2)] .
  have "siblings_differ lower_column (Struct (c[i := set_name leaf (c ! i)]))"
  proof -
    have "distinct (map lower_column (take i c @ c ! i # drop (Suc i) c))"
      using c i by (simp add: id_take_nth_drop [symmetric])
    then have "distinct (map lower_column (take i c @ set_name leaf (c ! i) # drop (Suc i) c))"
      using assms(4) by (auto simp: lower_column_def same_name_def list_all_iff)
    moreover have "list_all (\<lambda>f. siblings_differ lower_column (col_type f)) (c[i := set_name leaf (c ! i)])"
      using c i by (auto simp: list_all_length nth_list_update)
    ultimately show ?thesis using i by (simp add: upd_conv_take_nth_drop)
  qed
  then have lower: "siblings_differ lower_column (Struct ?r)"
    unfolding edit_column_def by (rule siblings_edit [OF assms(1) m(2)]) simp
  show ?thesis
    using assms(3) m(1) lower phys keys shape unfolding columns_ok_def columns_mapped_def keys
    by (simp del: siblings_differ.simps walk.simps shape_of.simps)
qed

lemma siblings_removed:
  "siblings_differ k (Struct c) \<Longrightarrow> siblings_differ k (Struct (take i c @ drop (Suc i) c))"
proof -
  assume s: "siblings_differ k (Struct c)"
  have "distinct (take i (map k c) @ drop (Suc i) (map k c))"
    using s set_take_disj_set_drop_if_distinct [of "map k c" i "Suc i"] by simp
  then have "distinct (map k (take i c @ drop (Suc i) c))" by (simp add: take_map drop_map)
  moreover have "set (take i c @ drop (Suc i) c) \<subseteq> set c"
    by (auto dest: in_set_takeD in_set_dropD)
  ultimately show ?thesis using s by (auto simp: list_all_iff)
qed

lemma remove_column_ok:
  assumes "find_column fs pth = Inr (c, i)" "columns_ok conf fs"
  shows "columns_ok conf (remove_column fs pth) \<and> set (keys_of (remove_column fs pth)) \<subseteq> set (keys_of fs)"
proof -
  obtain A D B where k: "keys_of fs = A @ D @ B" "keys_of (remove_column fs pth) = A @ B"
    using remove_column_keys [OF assms(1)] by blast
  have s: "siblings_differ h (Struct (remove_column fs pth))"
    if "siblings_differ h (Struct fs)" "\<And>t f. h (set_type t f) = h f" for h :: "column \<Rightarrow> 'x"
    unfolding remove_column_def
    by (rule siblings_edit [OF assms(1) that(1)])
      (use siblings_removed [OF siblings_find [OF assms(1) that(1)]] that(2) in blast)+
  have l: "siblings_differ lower_column (Struct (remove_column fs pth))"
    by (rule s) (use assms(2) in \<open>simp_all add: columns_ok_def del: siblings_differ.simps\<close>)
  have p: "siblings_differ physical_of (Struct (remove_column fs pth))" if "siblings_differ physical_of (Struct fs)"
    by (rule s) (use that in \<open>simp_all del: siblings_differ.simps\<close>)
  have "distinct (map fst (A @ D @ B)) \<Longrightarrow> distinct (map fst (A @ B))" by auto
  then have "columns_mapped conf (remove_column fs pth)" if "columns_mapped conf fs"
    using that p unfolding columns_mapped_def k by (auto simp del: siblings_differ.simps)
  then have "columns_ok conf (remove_column fs pth)"
    using assms(2) l unfolding columns_ok_def k by (auto simp del: siblings_differ.simps split: if_splits)
  then show ?thesis by (auto simp: k simp del: walk.simps)
qed

section \<open>New columns\<close>

lemma columns_ok_conf:
  assumes "map_of conf' cm_mode = map_of conf cm_mode" "map_of conf' cm_max = map_of conf cm_max"
  shows "columns_ok conf' fs = columns_ok conf fs"
  using assms by (simp add: columns_ok_def columns_mapped_def maps_columns_def table_mapping_mode_def conf_get_def
      recorded_max_def)

lemma siblings_append:
  "siblings_differ k (Struct (fs @ gs)) \<longleftrightarrow>
     siblings_differ k (Struct fs) \<and> siblings_differ k (Struct gs) \<and> k ` set fs \<inter> k ` set gs = {}"
  by (auto simp: list_all_append)

lemma foldl_max: "\<forall>i\<in>set is. i \<le> r \<Longrightarrow> foldl max r is = r" for r :: int
  by (induction "is") auto

text \<open>The ids of a mapped schema are all within the recorded maximum, which is thus the maximum.\<close>

lemma ids_in_mapped:
  "\<forall>f\<in>set fs. field_mapped m (field_key f) \<Longrightarrow> \<exists>is. ids_in fs = Some is \<and> (\<forall>i\<in>set is. i \<le> m)"
proof (induction fs)
  case (Cons f fs)
  then obtain "is" where "ids_in fs = Some is" "\<forall>i\<in>set is. i \<le> m" by auto
  moreover obtain i p where "map_of (col_meta f) cm_id = Some (JInt i)" "i \<le> m"
    using Cons.prems by (auto simp: field_mapped_def field_key_def)
  ultimately show ?case by (auto simp: column_id_def)
qed simp

lemma max_column_id_mapped:
  assumes "columns_mapped (md_configuration md) (md_schema md)"
  shows "max_column_id md = recorded_max (md_configuration md)"
proof -
  obtain m where m: "recorded_max (md_configuration md) = Some m"
    "\<forall>x\<in>set (keys_of (md_schema md)). field_mapped m x" using assms by (auto simp: columns_mapped_def)
  then have "\<forall>f\<in>set (walk_fields (md_schema md)). field_mapped m (field_key f)" by simp
  from ids_in_mapped [OF this] obtain "is" where
    "ids_in (walk_fields (md_schema md)) = Some is" "\<forall>i\<in>set is. i \<le> m" by blast
  then show ?thesis
    using m(1) by (simp add: max_column_id_def foldl_max)
qed

text \<open>New physical names: no two ids draw the same, and no field of the schema has one of them.\<close>

definition fresh_names :: "(int \<Rightarrow> string) \<Rightarrow> column list \<Rightarrow> bool" where
  "fresh_names uuid fs \<longleftrightarrow> inj uuid \<and> (\<forall>i. \<forall>f\<in>set (walk_fields fs). physical_of f \<noteq> ''col-'' @ uuid i)"

lemma physical_of_key: "snd (field_key f) = Some (JStr p) \<Longrightarrow> physical_of f = p"
  by (simp add: field_key_def physical_of_def json_text_def)

lemma numbered_physical_distinct:
  assumes "inj uuid"
  shows "distinct (map snd (numbered (\<lambda>i f. ''col-'' @ uuid i) n fs))"
proof (induction fs arbitrary: n)
  case (Cons f fs)
  have "Some (JStr (''col-'' @ uuid n)) \<notin> set (map snd (numbered (\<lambda>i f. ''col-'' @ uuid i) (n + 1) fs))"
    by (auto dest!: numbered_set injD [OF assms])
  with Cons show ?case by simp
qed simp

lemma assign_lower [simp]:
  "siblings_differ lower_column (Struct (fst (assign_ids phys n fs))) = siblings_differ lower_column (Struct fs)"
  "lower_column ` set (fst (assign_ids phys n fs)) = lower_column ` set fs"
proof -
  have m: "map lower_column (fst (assign_ids phys n fs)) = map lower_column fs"
    using assign_names_map [of py_lower phys n fs] by (simp add: lower_column_def [abs_def])
  then show "lower_column ` set (fst (assign_ids phys n fs)) = lower_column ` set fs"
    by (metis list.set_map)
  show "siblings_differ lower_column (Struct (fst (assign_ids phys n fs))) = siblings_differ lower_column (Struct fs)"
    using m assign_siblings(2) [of py_lower phys n fs] by (simp add: lower_column_def [abs_def])
qed

lemma fresh_columns:
  assumes "inj uuid" "r = assign_ids (\<lambda>i f. ''col-'' @ uuid i) n added"
  shows "siblings_differ physical_of (Struct (fst r))"
    and "f \<in> set (walk_fields (fst r)) \<Longrightarrow> \<exists>i. n \<le> i \<and> i < snd r \<and> field_key f = (Some (JInt i), Some (JStr (''col-'' @ uuid i)))"
    and "distinct (map fst (keys_of (fst r)))"
proof -
  let ?p = "\<lambda>i f. ''col-'' @ uuid i"
  have k: "keys_of (fst r) = numbered ?p n (walk_fields added)" "snd r = n + int (length (walk_fields added))"
    unfolding assms(2) using assign_numbered(2) [of ?p n added] by blast+
  show "distinct (map fst (keys_of (fst r)))" unfolding k by (rule numbered_distinct)
  show *: "\<exists>i. n \<le> i \<and> i < snd r \<and> field_key f = (Some (JInt i), Some (JStr (''col-'' @ uuid i)))"
    if "f \<in> set (walk_fields (fst r))" for f
  proof -
    have "field_key f \<in> set (keys_of (fst r))" using that by (simp del: walk.simps)
    then have "field_key f \<in> set (numbered ?p n (walk_fields added))" by (simp only: k)
    from numbered_set [OF this] show ?thesis unfolding k(2) by blast
  qed
  have "map (snd \<circ> field_key) (walk_fields (fst r)) = map (\<lambda>f. Some (JStr (physical_of f))) (walk_fields (fst r))"
  proof (rule map_cong [OF refl])
    fix f assume "f \<in> set (walk_fields (fst r))"
    from * [OF this] obtain i where "snd (field_key f) = Some (JStr (''col-'' @ uuid i))" by auto
    then show "(snd \<circ> field_key) f = Some (JStr (physical_of f))" by (simp add: physical_of_key)
  qed
  then have "distinct (map (\<lambda>f. Some (JStr (physical_of f))) (walk_fields (fst r)))"
    using numbered_physical_distinct [OF assms(1), of n "walk_fields added"] k(1)
    by (metis map_map)
  then have "distinct (map physical_of (walk_fields (fst r)))"
    by (auto simp: distinct_map inj_on_def simp del: walk.simps)
  then show "siblings_differ physical_of (Struct (fst r))" by (rule walk_siblings_distinct)
qed

lemma append_mapped:
  assumes "columns_ok conf fs" "maps_columns conf" "recorded_max conf = Some m" "fresh_names uuid fs"
    and "siblings_differ lower_column (Struct added)" "lower_column ` set fs \<inter> lower_column ` set added = {}"
    and "r = assign_ids (\<lambda>i f. ''col-'' @ uuid i) (m + 1) added"
  shows "columns_ok (dict_set cm_max (int_text (snd r - 1)) conf) (fs @ fst r)
    \<and> (\<forall>x\<in>set (keys_of (fst r)). \<exists>i p. x = (Some (JInt i), p) \<and> m < i) \<and> m \<le> snd r - 1"
proof -
  have uuid: "inj uuid" using assms(4) by (simp add: fresh_names_def)
  note f = fresh_columns [OF uuid assms(7)]
  note old = assms(1) [unfolded columns_ok_def]
  have cm: "columns_mapped conf fs" using old assms(2) by simp
  have len: "m \<le> snd r - 1"
    unfolding assms(7) using assign_numbered(2) [of "\<lambda>i f. ''col-'' @ uuid i" "m + 1" added] by simp
  have new: "\<exists>i p. x = (Some (JInt i), Some (JStr p)) \<and> m < i \<and> i \<le> snd r - 1"
    if "x \<in> set (keys_of (fst r))" for x
    using that f(2) by (fastforce simp del: walk.simps)
  have oldk: "field_mapped m x" if "x \<in> set (keys_of fs)" for x
    using cm assms(3) that by (auto simp: columns_mapped_def simp del: walk.simps)
  have "fst ` set (keys_of fs) \<inter> fst ` set (keys_of (fst r)) = {}"
  proof -
    { fix x y assume "x \<in> set (keys_of fs)" "y \<in> set (keys_of (fst r))" "fst x = fst y"
      from oldk [OF this(1)] new [OF this(2)] this(3) have False by (auto simp: field_mapped_def) }
    then show ?thesis by blast
  qed
  then have ids: "distinct (map fst (keys_of (fs @ fst r)))"
    using cm f(3) unfolding columns_mapped_def walk_fields_append map_append distinct_append set_map by blast
  have "physical_of ` set fs \<inter> physical_of ` set (fst r) = {}"
  proof -
    { fix a b assume a: "a \<in> set fs" and b: "b \<in> set (fst r)" and e: "physical_of a = physical_of b"
      have "b \<in> set (walk_fields (fst r))" using b by auto
      then obtain i where "physical_of b = ''col-'' @ uuid i" using f(2) [of b] physical_of_key [of b] by auto
      moreover have "a \<in> set (walk_fields fs)" using a by auto
      ultimately have False using assms(4) e unfolding fresh_names_def by metis }
    then show ?thesis by blast
  qed
  then have phys: "siblings_differ physical_of (Struct (fs @ fst r))"
    unfolding siblings_append using cm f(1) by (simp add: columns_mapped_def del: siblings_differ.simps)
  have lower: "siblings_differ lower_column (Struct (fs @ fst r))"
    unfolding siblings_append using old assms(5,6,7) by (simp del: siblings_differ.simps)
  have bound: "field_mapped (snd r - 1) x" if "x \<in> set (keys_of (fs @ fst r))" for x
  proof -
    have "x \<in> set (keys_of fs) \<or> x \<in> set (keys_of (fst r))"
      using that unfolding walk_fields_append map_append by simp
    then show ?thesis
    proof
      assume "x \<in> set (keys_of fs)"
      from oldk [OF this] len show ?thesis by (auto simp: field_mapped_def)
    next
      assume "x \<in> set (keys_of (fst r))"
      from new [OF this] show ?thesis by (auto simp: field_mapped_def)
    qed
  qed
  let ?conf = "dict_set cm_max (int_text (snd r - 1)) conf"
  have "maps_columns ?conf"
    using assms(2) by (simp add: maps_columns_def table_mapping_mode_def conf_get_def map_of_dict_set cm_max_def cm_mode_def)
  then have "columns_ok ?conf (fs @ fst r)"
    using lower ids phys bound unfolding columns_ok_def columns_mapped_def by simp
  then show ?thesis using new len by fastforce
qed

lemma append_unmapped:
  assumes "columns_ok conf fs" "\<not> maps_columns conf"
    and "siblings_differ lower_column (Struct added)" "lower_column ` set fs \<inter> lower_column ` set added = {}"
  shows "columns_ok conf (fs @ added)"
  using assms unfolding columns_ok_def siblings_append by auto

section \<open>Turning column mapping on\<close>

lemma physical_of_assigned [simp]: "physical_of (Column n t b (dict_set cm_physical (JStr p) m)) = p"
  by (simp add: physical_of_def map_of_dict_set json_text_def)

abbreviation by_name :: "int \<Rightarrow> column \<Rightarrow> string" where
  "by_name \<equiv> \<lambda>i f. col_name f"

lemma assign_by_name:
  "\<forall>f\<in>set (walk (fst (assign_type by_name n t))). physical_of f = col_name f"
  "\<forall>f\<in>set (walk_fields (fst (assign_ids by_name n fs))). physical_of f = col_name f"
  by (induction by_name n t and by_name n fs rule: assign_type_assign_ids.induct)
    (simp_all add: Let_def ball_Un)

lemma assign_shape:
  "\<forall>f\<in>set (walk t). physical_of f = col_name f \<Longrightarrow> shape_of (fst (assign_type by_name n t)) = shape_of t"
  "\<forall>f\<in>set (walk_fields fs). physical_of f = col_name f \<Longrightarrow>
     shape_of (Struct (fst (assign_ids by_name n fs))) = shape_of (Struct fs)"
  by (induction by_name n t and by_name n fs rule: assign_type_assign_ids.induct)
    (simp_all add: Let_def ball_Un)

text \<open>Turning the mapping on gives every field an id and its name as physical name, whatever it had
  before; a schema without names of another table keeps its tree of physical names.\<close>

lemma enable_mapped:
  assumes "columns_ok conf fs" "\<not> maps_columns conf" "r = assign_ids by_name 1 fs"
    and "maps_columns conf'" "recorded_max conf' = Some (snd r - 1)"
  shows "columns_ok conf' (fst r) \<and> (own_fields conf fs \<longrightarrow> shape_of (Struct (fst r)) = shape_of (Struct fs))"
proof -
  have k: "keys_of (fst r) = numbered by_name 1 (walk_fields fs)" "snd r = 1 + int (length (walk_fields fs))"
    unfolding assms(3) using assign_numbered(2) [of by_name 1 fs] by blast+
  have lower: "siblings_differ lower_column (Struct (fst r))"
    using assms(1,3) by (simp add: columns_ok_def del: siblings_differ.simps)
  have "\<forall>f\<in>set (walk_fields (fst r)). lower_column f = py_lower (physical_of f)"
    using assign_by_name(2) [of 1 fs] unfolding assms(3) by (simp add: lower_column_def del: walk.simps)
  then have phys: "siblings_differ physical_of (Struct (fst r))" using lower by (rule siblings_finer)
  have "field_mapped (snd r - 1) x" if "x \<in> set (keys_of (fst r))" for x
    using numbered_set [OF that [unfolded k(1)]] unfolding k(2) by (auto simp: field_mapped_def)
  then have "columns_mapped conf' (fst r)"
    unfolding columns_mapped_def using assms(5) phys numbered_distinct [of by_name 1 "walk_fields fs"] k(1) by metis
  moreover have "\<forall>f\<in>set (walk_fields fs). physical_of f = col_name f" if "own_fields conf fs"
    using that assms(2) by (auto simp: own_fields_def list_all_iff physical_of_def field_key_def simp del: walk.simps)
  ultimately show ?thesis
    using assms(3,4) lower assign_shape(2) [of fs 1] by (simp add: columns_ok_def del: siblings_differ.simps)
qed

end
