(* ===== verification/Meta_Safe.thy ===== *)
theory Meta_Safe
  imports Meta_Columns
begin

text \<open>
  What every sequence of metadata changes keeps of a table: names, mapping ids and physical names
  that identify its columns, partition columns that exist, and the protocol features its settings
  need; and, where no field carries a name of another table, clustering keys that exist.
\<close>

section \<open>The invariant\<close>

definition partitions_ok :: "column list \<Rightarrow> string list \<Rightarrow> bool" where
  "partitions_ok fs ps \<longleftrightarrow> (\<forall>p\<in>set ps. py_lower p \<in> lower_column ` set fs)"

definition clustering_ok :: "column list \<Rightarrow> string list list \<Rightarrow> bool" where
  "clustering_ok fs ks \<longleftrightarrow> (\<forall>k\<in>set ks. reaches (shape_of (Struct fs)) k)"

definition provides :: "protocol \<Rightarrow> string \<Rightarrow> bool" where
  "provides p f \<longleftrightarrow> f \<in> supported_features p \<or> previewed (supported_features p) f"

definition features_ok :: "protocol \<Rightarrow> (string \<times> string) list \<Rightarrow> bool" where
  "features_ok p conf \<longleftrightarrow>
     (\<forall>(k, f)\<in>set enabling. map_of conf k = Some ''true'' \<longrightarrow> provides p f)
     \<and> (maps_columns conf \<longrightarrow> provides p ''columnMapping'')"

definition table_ok :: "table_state \<Rightarrow> bool" where
  "table_ok st \<longleftrightarrow>
     columns_ok (conf_of st) (schema_cols st)
     \<and> partitions_ok (schema_cols st) (md_partitions (ts_meta st))
     \<and> features_ok (ts_protocol st) (conf_of st)"

definition keys_ok :: "table_state \<Rightarrow> bool" where
  "keys_ok st \<longleftrightarrow> clustering_ok (schema_cols st) (clustering_keys st)"

definition own_names :: "table_state \<Rightarrow> bool" where
  "own_names st \<longleftrightarrow> own_fields (conf_of st) (schema_cols st)"

text \<open>No column comes back: a column of the later table whose id the earlier one had given out is
  a column the earlier one has, with the same physical name.\<close>

definition old_ids :: "int \<Rightarrow> column list \<Rightarrow> (json option \<times> json option) set" where
  "old_ids m fs = {x \<in> set (keys_of fs). \<exists>i. fst x = Some (JInt i) \<and> i \<le> m}"

definition descends :: "table_state \<Rightarrow> table_state \<Rightarrow> bool" where
  "descends st st' \<longleftrightarrow>
     (maps_columns (conf_of st) \<longrightarrow>
        maps_columns (conf_of st')
        \<and> (\<exists>m m'. recorded_max (conf_of st) = Some m \<and> recorded_max (conf_of st') = Some m' \<and> m \<le> m'
             \<and> old_ids m (schema_cols st') \<subseteq> set (keys_of (schema_cols st))))"

lemma old_ids_sub: "old_ids m fs \<subseteq> set (keys_of fs)"
  unfolding old_ids_def by blast

lemma old_ids_mono: "m \<le> m' \<Longrightarrow> old_ids m fs \<subseteq> old_ids m' fs"
  unfolding old_ids_def by force

lemma descends_trans:
  assumes "descends a b" "descends b c"
  shows "descends a c"
proof (cases "maps_columns (conf_of a)")
  case True
  then obtain m m' where ab: "maps_columns (conf_of b)" "recorded_max (conf_of a) = Some m"
    "recorded_max (conf_of b) = Some m'" "m \<le> m'" "old_ids m (schema_cols b) \<subseteq> set (keys_of (schema_cols a))"
    using assms(1) by (auto simp: descends_def)
  then obtain m'' where bc: "maps_columns (conf_of c)" "recorded_max (conf_of c) = Some m''" "m' \<le> m''"
    "old_ids m' (schema_cols c) \<subseteq> set (keys_of (schema_cols b))"
    using assms(2) by (auto simp: descends_def)
  have "old_ids m (schema_cols c) \<subseteq> set (keys_of (schema_cols b))"
    using old_ids_mono [OF ab(4), of "schema_cols c"] bc(4) by blast
  then have "old_ids m (schema_cols c) \<subseteq> old_ids m (schema_cols b)" unfolding old_ids_def by blast
  then have "old_ids m (schema_cols c) \<subseteq> set (keys_of (schema_cols a))" using ab(5) by blast
  then show ?thesis using ab(2,4) bc(1,2,3) unfolding descends_def by (meson order.trans)
qed (simp add: descends_def)

section \<open>Applying a change\<close>

definition applied :: "table_state \<Rightarrow> change \<Rightarrow> table_state" where
  "applied st c = st\<lparr>
     ts_protocol := (case ch_protocol c of None \<Rightarrow> ts_protocol st | Some p \<Rightarrow> p),
     ts_meta := (case ch_meta c of None \<Rightarrow> ts_meta st | Some m \<Rightarrow> m),
     ts_clustering := (case ch_clustering c of None \<Rightarrow> ts_clustering st | Some ks \<Rightarrow> Some ks)\<rparr>"

definition keeps :: "table_state \<Rightarrow> change \<Rightarrow> bool" where
  "keeps st c \<longleftrightarrow> table_ok (applied st c) \<and> descends st (applied st c)
     \<and> (own_names st \<and> keys_ok st \<longrightarrow> keys_ok (applied st c))"

lemma applied_no_change [simp]: "applied st (no_change op ps) = st"
  by (simp add: applied_def no_change_def)

lemma columns_mapped_recorded:
  "columns_ok conf fs \<Longrightarrow> maps_columns conf \<Longrightarrow> \<exists>m. recorded_max conf = Some m"
  by (auto simp: columns_ok_def columns_mapped_def)

lemma descends_refl: "table_ok st \<Longrightarrow> descends st st"
  using columns_mapped_recorded [of "conf_of st" "schema_cols st"]
  using old_ids_sub by (auto simp: descends_def table_ok_def simp del: walk.simps)

lemma keeps_no_change: "table_ok st \<Longrightarrow> keeps st (no_change op ps)"
  by (simp add: keeps_def descends_refl)

lemma if_changed_meta: "(case if_changed st md of None \<Rightarrow> ts_meta st | Some m \<Rightarrow> m) = md"
  by (simp add: if_changed_def)

lemma provides_mono: "provides p f \<Longrightarrow> supported_features p \<subseteq> supported_features q \<Longrightarrow> provides q f"
  using previewed_mono by (auto simp: provides_def)

lemma features_ok_mono: "features_ok p conf \<Longrightarrow> supported_features p \<subseteq> supported_features q \<Longrightarrow> features_ok q conf"
  using provides_mono unfolding features_ok_def by blast

text \<open>A change of the schema alone that keeps the columns it keeps.\<close>

lemma keeps_schema:
  assumes "table_ok st" "ch_meta c = Some (with_schema fs (ts_meta st)) \<or> ch_meta c = if_changed st (with_schema fs (ts_meta st))"
    and "ch_clustering c = None" "\<forall>p. ch_protocol c = Some p \<longrightarrow> supported_features (ts_protocol st) \<subseteq> supported_features p"
    and "columns_ok (conf_of st) fs" "set (keys_of fs) \<subseteq> set (keys_of (schema_cols st))"
    and "partitions_ok fs (md_partitions (ts_meta st))"
    and "own_names st \<Longrightarrow> keys_ok st \<Longrightarrow> clustering_ok fs (clustering_keys st)"
  shows "keeps st c"
proof -
  have md: "ts_meta (applied st c) = with_schema fs (ts_meta st)"
    using assms(2) if_changed_meta [of st "with_schema fs (ts_meta st)"] by (auto simp: applied_def)
  have cl: "clustering_keys (applied st c) = clustering_keys st"
    by (simp add: applied_def clustering_keys_def assms(3))
  have f: "features_ok (ts_protocol (applied st c)) (conf_of st)"
    using assms(1,4) features_ok_mono by (auto simp: applied_def table_ok_def split: option.splits)
  have "table_ok (applied st c)"
    using assms(5,7) f unfolding table_ok_def md by simp
  moreover have "own_names st \<and> keys_ok st \<longrightarrow> keys_ok (applied st c)"
    using assms(8) unfolding keys_ok_def md cl by simp
  moreover have "descends st (applied st c)"
    using columns_mapped_recorded [OF assms(5)] subset_trans [OF old_ids_sub assms(6)]
    unfolding descends_def md by (auto simp del: walk.simps)
  ultimately show ?thesis by (simp add: keeps_def)
qed

text \<open>Top-level names under an edit that keeps them.\<close>

lemma edit_column_lower:
  assumes "find_column fs pth = Inr (c, i)" "lower_column (g (c ! i)) = lower_column (c ! i)"
  shows "lower_column ` set (edit_column g fs pth) = lower_column ` set fs"
proof (cases pth)
  case (Cons n r)
  have "map lower_column (edit_column g fs (n # r)) = map lower_column fs"
    using assms(1) [unfolded Cons]
  proof (cases rule: find_column_cases)
    case (here j)
    then show ?thesis
      using assms(2) map_update_same [of j fs lower_column "g (fs ! j)"] index_of_Some [OF here(2)] Cons
      by (simp add: edit_column_def)
  next
    case (below j gs)
    then show ?thesis
      using map_update_same [of j fs lower_column] index_of_Some [OF below(2)]
      by (simp add: edit_column_def)
  qed
  then show ?thesis unfolding Cons by (metis list.set_map)
qed (use assms(1) in simp)

lemma keeps_mild_edit:
  assumes "table_ok st" "found (schema_cols st) pth = Inr (c, i)" "mild_edit g (c ! i)"
    and "ch_meta ch = Some (with_schema (edit_column g (schema_cols st) pth) (ts_meta st))
      \<or> ch_meta ch = if_changed st (with_schema (edit_column g (schema_cols st) pth) (ts_meta st))"
    and "ch_clustering ch = None"
    and "\<forall>p. ch_protocol ch = Some p \<longrightarrow> supported_features (ts_protocol st) \<subseteq> supported_features p"
  shows "keeps st ch"
proof -
  have f: "find_column (schema_cols st) pth = Inr (c, i)"
    using assms(2) by (auto simp: found_def split: sum.splits)
  have ok: "columns_ok (conf_of st) (schema_cols st)" using assms(1) by (simp add: table_ok_def)
  note e = mild_edit_ok [OF f assms(3) ok]
  have l: "lower_column ` set (edit_column g (schema_cols st) pth) = lower_column ` set (schema_cols st)"
    by (rule edit_column_lower [OF f]) (use assms(3) in \<open>simp add: mild_edit_def lower_column_def\<close>)
  show ?thesis
    by (rule keeps_schema [OF assms(1,4,5,6)])
      (use e l assms(1) in \<open>simp_all add: table_ok_def keys_ok_def partitions_ok_def clustering_ok_def del: walk.simps shape_of.simps\<close>)
qed

lemma mild_meta:
  assumes "map_of m cm_id = map_of (col_meta f) cm_id" "map_of m cm_physical = map_of (col_meta f) cm_physical"
  shows "field_key (set_meta m f) = field_key f \<and> physical_of (set_meta m f) = physical_of f"
  using assms by (simp add: field_key_def physical_of_def split: option.splits)

lemma map_of_dict_drop: "map_of (dict_drop k m) j = (if j = k then None else map_of m j)"
  by (induction m) (auto simp: dict_drop_def)

lemma meta_keys_differ [simp]:
  "cm_id \<noteq> ''comment''" "cm_physical \<noteq> ''comment''" "cm_id \<noteq> type_changes" "cm_physical \<noteq> type_changes"
  by (simp_all add: cm_id_def cm_physical_def type_changes_def)

lemma comment_mild: "mild_edit (comment_column c) f"
  unfolding mild_edit_def comment_column_def
  using mild_meta [of "if c = [] then dict_drop ''comment'' (col_meta f) else dict_set ''comment'' (JStr c) (col_meta f)" f]
  by (simp add: map_of_dict_drop map_of_dict_set)

lemma nullable_mild: "mild_edit (set_nullable b) f"
  by (simp add: mild_edit_def)

lemma widen_mild: "col_type f = Prim old \<Longrightarrow> mild_edit (widen_column old new) f"
  unfolding mild_edit_def widen_column_def
  using mild_meta [of "dict_set type_changes (JArr (history_of f @ [JObj [(''fromType'', JStr old), (''toType'', JStr new)]])) (col_meta f)"
    "set_type (Prim new) f"]
  by (simp add: map_of_dict_set)

lemma with_features_more: "with_features p ns = Some q \<Longrightarrow> supported_features p \<subseteq> supported_features q"
  using supported_with_features by blast

section \<open>Each operation\<close>

lemma keeps_set_comment: "table_ok st \<Longrightarrow> keeps st (set_comment st c)"
proof -
  assume ok: "table_ok st"
  have m: "ts_meta (applied st (set_comment st c)) = (ts_meta st)\<lparr>md_description := str_or_none (case c of None \<Rightarrow> [] | Some t \<Rightarrow> t)\<rparr>"
    by (simp add: applied_def set_comment_def Let_def if_changed_def)
  have "ts_protocol (applied st (set_comment st c)) = ts_protocol st"
    "clustering_keys (applied st (set_comment st c)) = clustering_keys st"
    by (simp_all add: applied_def set_comment_def Let_def no_change_def clustering_keys_def)
  with m ok descends_refl [OF ok] show ?thesis
    by (simp add: keeps_def table_ok_def keys_ok_def descends_def del: walk.simps)
qed

lemma keeps_column_comment:
  assumes "table_ok st" "set_column_comment st column comment = Inr ch"
  shows "keeps st ch"
proof -
  let ?g = "comment_column (case comment of None \<Rightarrow> [] | Some t \<Rightarrow> t)"
  from assms(2) obtain pth c i where f: "found (schema_cols st) pth = Inr (c, i)"
    and ch: "ch_meta ch = if_changed st (with_schema (edit_column ?g (schema_cols st) pth) (ts_meta st))"
      "ch_clustering ch = None" "ch_protocol ch = None"
    by (auto simp: set_column_comment_def Let_def no_change_def elim!: bind_result_InrE)
  show ?thesis by (rule keeps_mild_edit [OF assms(1) f, of ?g]) (use ch comment_mild in simp_all)
qed

lemma keeps_nullability:
  assumes "table_ok st" "set_nullability st column b = Inr ch"
  shows "keeps st ch"
proof -
  from assms(2) obtain pth c i where f: "found (schema_cols st) pth = Inr (c, i)"
    and ch: "ch_meta ch = if_changed st (with_schema (edit_column (set_nullable b) (schema_cols st) pth) (ts_meta st))"
      "ch_clustering ch = None" "ch_protocol ch = None"
    by (auto simp: set_nullability_def no_change_def elim!: bind_result_InrE split: if_splits)
  show ?thesis by (rule keeps_mild_edit [OF assms(1) f nullable_mild [of b]]) (use ch in simp_all)
qed

lemma keeps_alter_type:
  assumes "table_ok st" "alter_column_type st column new_type = Inr ch"
  shows "keeps st ch"
proof -
  let ?new = "normalise_type new_type"
  from assms(2) obtain pth r where f: "found (schema_cols st) pth = Inr r"
    and 1: "(\<lambda>(c, i).
        if col_type (c ! i) = Prim ?new
        then Inr (no_change ''CHANGE COLUMN'' [(''column'', PText column), (''type'', PText ?new)])
        else if \<not> is_true (conf_of st) ''delta.enableTypeWidening'' then Inl (Refused WideningOff)
        else case col_type (c ! i) of
          Prim old \<Rightarrow>
            (case alter_refusal st pth (col_name (c ! i)) old ?new of
               Some r \<Rightarrow> Inl (Refused r)
             | None \<Rightarrow> Inr ((no_change ''CHANGE COLUMN'' [(''column'', PText column), (''type'', PText ?new)])
                 \<lparr>ch_protocol := with_features (ts_protocol st) (''typeWidening'' # type_features (Prim ?new)),
                  ch_meta := Some (with_schema (edit_column (widen_column old ?new) (schema_cols st) pth) (ts_meta st))\<rparr>))
        | _ \<Rightarrow> Inl (Refused (NotAWidening []))) r = Inr ch"
    unfolding alter_column_type_def Let_def by (elim bind_result_InrE)
  obtain c i where r: "r = (c, i)" by fastforce
  show ?thesis
  proof (cases "col_type (c ! i) = Prim ?new")
    case True
    then show ?thesis using 1 keeps_no_change [OF assms(1)] by (auto simp: r)
  next
    case False
    then obtain old where o: "col_type (c ! i) = Prim old"
      and ch: "ch_meta ch = Some (with_schema (edit_column (widen_column old ?new) (schema_cols st) pth) (ts_meta st))"
        "ch_clustering ch = None"
        "ch_protocol ch = with_features (ts_protocol st) (''typeWidening'' # type_features (Prim ?new))"
      using 1 by (auto simp: r no_change_def split: if_splits delta_type.splits option.splits
          simp del: type_features.simps)
    show ?thesis
      by (rule keeps_mild_edit [OF assms(1) f [unfolded r] widen_mild [OF o]]) (use ch with_features_more in auto)
  qed
qed

lemma keeps_drop:
  assumes "table_ok st" "drop_column st column = Inr ch"
  shows "keeps st ch"
proof -
  let ?fs = "schema_cols st"
  from assms(2) obtain pth c i where f: "find_column ?fs pth = Inr (c, i)" and r: "drop_refusal st pth c i = None"
    and m: "require_mapping st = None"
    and ch: "ch_meta ch = Some (with_schema (remove_column ?fs pth) (ts_meta st))" "ch_clustering ch = None" "ch_protocol ch = None"
    by (auto simp: drop_column_def no_change_def found_def elim!: bind_result_InrE split: option.splits sum.splits)
  have ok: "columns_ok (conf_of st) ?fs" "partitions_ok ?fs (md_partitions (ts_meta st))"
    using assms(1) by (auto simp: table_ok_def)
  have maps: "maps_columns (conf_of st)" using m by (auto simp: require_mapping_def split: if_splits)
  have phys: "siblings_differ physical_of (Struct ?fs)"
    using ok(1) maps by (simp add: columns_ok_def columns_mapped_def del: siblings_differ.simps)
  note rm = remove_column_ok [OF f ok(1)]
  have "partitions_ok (remove_column ?fs pth) (md_partitions (ts_meta st))"
  proof (cases pth)
    case (Cons n p)
    from f [unfolded Cons] show ?thesis
    proof (cases rule: find_column_cases)
      case (here j)
      have np: "\<not> is_partition (ts_meta st) (col_name (?fs ! j))"
        using r here Cons by (auto simp: drop_refusal_def Let_def split: if_splits)
      have "q \<in> lower_column ` set (take j ?fs @ drop (Suc j) ?fs)"
        if "q = py_lower p" "p \<in> set (md_partitions (ts_meta st))" for p q
      proof -
        have "q \<noteq> lower_column (?fs ! j)"
          using np that by (auto simp: is_partition_def list_ex_iff same_name_def lower_column_def)
        moreover have "q \<in> lower_column ` set (take j ?fs @ ?fs ! j # drop (Suc j) ?fs)"
          using ok(2) that index_of_split [OF here(2)] by (auto simp: partitions_ok_def)
        ultimately show ?thesis by auto
      qed
      then show ?thesis using here Cons by (auto simp: partitions_ok_def remove_column_def)
    next
      case (below j gs)
      have "map lower_column (remove_column ?fs (n # p)) = map lower_column ?fs"
        using map_update_same [of j ?fs lower_column] index_of_Some [OF below(2)] below
        by (simp add: remove_column_def)
      then have "lower_column ` set (remove_column ?fs pth) = lower_column ` set ?fs"
        unfolding Cons by (metis list.set_map)
      then show ?thesis using ok(2) by (simp add: partitions_ok_def)
    qed
  qed (use f in simp)
  moreover have "clustering_ok (remove_column ?fs pth) (clustering_keys st)" if keys: "keys_ok st"
  proof -
    have "reaches (shape_of (Struct (remove_column ?fs pth))) k" if k: "k \<in> set (clustering_keys st)" for k
    proof -
      have "take (length (physical_path ?fs pth)) k \<noteq> physical_path ?fs pth"
        using r k by (auto simp: drop_refusal_def Let_def list_ex_iff split: if_splits)
      moreover have "logical_path ?fs k \<noteq> None"
        using keys k unfolding keys_ok_def clustering_ok_def logical_path_reaches by blast
      ultimately show ?thesis
        using remove_column_path [OF f phys] unfolding logical_path_reaches by blast
    qed
    then show ?thesis by (simp add: clustering_ok_def del: shape_of.simps)
  qed
  ultimately show ?thesis
    by (intro keeps_schema [OF assms(1), where fs = "remove_column ?fs pth"]) (use ch rm in auto)
qed

lemma partitions_ok_map:
  "partitions_ok fs (map f ps) \<longleftrightarrow> (\<forall>q\<in>set ps. py_lower (f q) \<in> lower_column ` set fs)"
  by (auto simp: partitions_ok_def)

lemma keeps_rename:
  assumes "table_ok st" "rename_column st old new = Inr ch"
  shows "keeps st ch"
proof -
  let ?fs = "schema_cols st"
  from assms(2) obtain pth c i leaf where f: "find_column ?fs pth = Inr (c, i)"
    and m: "require_mapping st = None" and r: "rename_refusal st pth c i leaf = None"
    and ch: "(\<exists>ps. ch = no_change ''RENAME COLUMN'' ps)
      \<or> (ch_meta ch = Some (renamed_meta (ts_meta st) pth (col_name (c ! i)) leaf)
         \<and> ch_clustering ch = None \<and> ch_protocol ch = None)"
    by (auto simp: rename_column_def Let_def no_change_def found_def elim!: bind_result_InrE
        split: option.splits sum.splits if_splits)
  have ok: "columns_ok (conf_of st) ?fs" "partitions_ok ?fs (md_partitions (ts_meta st))"
    "features_ok (ts_protocol st) (conf_of st)"
    using assms(1) by (auto simp: table_ok_def)
  have maps: "maps_columns (conf_of st)" using m by (auto simp: require_mapping_def split: if_splits)
  let ?r = "edit_column (set_name leaf) ?fs pth"
  have "list_all (\<lambda>f. \<not> same_name (col_name f) leaf) (take i c @ drop (Suc i) c)"
    using r by (auto simp: rename_refusal_def list_ex_iff list_all_iff split: if_splits)
  note rn = rename_ok [OF f ok(1) maps this]
  let ?md = "renamed_meta (ts_meta st) pth (col_name (c ! i)) leaf"
  have md: "md_schema ?md = ?r" "md_configuration ?md = conf_of st"
    by (simp_all add: renamed_meta_def Let_def)
  have parts: "partitions_ok ?r (md_partitions ?md)"
  proof (cases pth)
    case (Cons n p)
    from f [unfolded Cons] show ?thesis
    proof (cases rule: find_column_cases)
      case (here j)
      have j: "j < length ?fs" using index_of_Some [OF here(2)] by simp
      have r1: "?r = ?fs[j := set_name leaf (?fs ! j)]" using here Cons by (simp add: edit_column_def)
      have "py_lower (if same_name q (col_name (?fs ! j)) then leaf else q) \<in> lower_column ` set ?r"
        if q: "q \<in> set (md_partitions (ts_meta st))" for q
      proof (cases "same_name q (col_name (?fs ! j))")
        case True
        have "set_name leaf (?fs ! j) \<in> set ?r" using j by (simp add: r1 set_update_memI)
        then show ?thesis using True by (force simp: lower_column_def)
      next
        case False
        have "py_lower q \<in> lower_column ` set ?fs" using ok(2) q by (simp add: partitions_ok_def)
        then obtain k where k: "k < length ?fs" "py_lower q = lower_column (?fs ! k)"
          by (auto simp: in_set_conv_nth)
        then have "k \<noteq> j" using False by (auto simp: same_name_def lower_column_def)
        then have "?r ! k = ?fs ! k" "k < length ?r" using k r1 by auto
        then have "lower_column (?fs ! k) \<in> lower_column ` set ?r" by (metis image_eqI nth_mem)
        then show ?thesis using False k by simp
      qed
      moreover have "md_partitions ?md = map (\<lambda>q. if same_name q (col_name (?fs ! j)) then leaf else q) (md_partitions (ts_meta st))"
        using here Cons by (simp add: renamed_meta_def Let_def)
      ultimately show ?thesis by (simp only: partitions_ok_map) blast
    next
      case (below j gs)
      have "map lower_column (edit_column (set_name leaf) ?fs (n # p)) = map lower_column ?fs"
        using map_update_same [of j ?fs lower_column] index_of_Some [OF below(2)] below
        by (simp add: edit_column_def)
      then have "lower_column ` set ?r = lower_column ` set ?fs" unfolding Cons by (metis list.set_map)
      moreover have "md_partitions ?md = md_partitions (ts_meta st)"
        using below(1) Cons by (simp add: renamed_meta_def Let_def)
      ultimately show ?thesis using ok(2) by (simp add: partitions_ok_def)
    qed
  qed (use f in simp)
  show ?thesis
  proof (cases "\<exists>ps. ch = no_change ''RENAME COLUMN'' ps")
    case False
    then have c: "ts_meta (applied st ch) = ?md" "ts_protocol (applied st ch) = ts_protocol st"
      "clustering_keys (applied st ch) = clustering_keys st"
      using ch by (auto simp: applied_def clustering_keys_def)
    have "table_ok (applied st ch)"
      using ok rn parts by (simp add: table_ok_def c md del: walk.simps shape_of.simps)
    moreover have "keys_ok st \<longrightarrow> keys_ok (applied st ch)"
      using rn by (simp add: keys_ok_def c md clustering_ok_def del: walk.simps shape_of.simps)
    moreover have "descends st (applied st ch)"
      using rn columns_mapped_recorded [OF ok(1)] old_ids_sub [of _ ?r]
      unfolding descends_def c md by (auto simp del: walk.simps)
    ultimately show ?thesis by (simp add: keeps_def)
  qed (use keeps_no_change [OF assms(1)] in auto)
qed

end
