(* ===== verification/Meta_Steps.thy ===== *)
theory Meta_Steps
  imports Meta_Safe
begin

text \<open>
  The remaining operations keep the invariant; commits and the tables reached through them.
\<close>

section \<open>Adding columns\<close>

lemma provides_features:
  assumes "f \<in> set fs"
  shows "provides (case features_protocol p fs of None \<Rightarrow> p | Some q \<Rightarrow> q) f"
proof -
  have "features_protocol p fs = with_features p fs" using assms by (auto simp: features_protocol_def)
  then show ?thesis
    using with_features_enough [OF assms, of p] by (auto simp: provides_def Let_def split: option.splits)
qed

lemma features_protocol_more: "features_protocol p fs = Some q \<Longrightarrow> supported_features p \<subseteq> supported_features q"
  using with_features_more by (auto simp: features_protocol_def split: if_splits)

lemma added_column_lower:
  assumes "added_column p j = Inr f" "field_parts j = Some (n, d, m)"
  shows "col_name f = n"
  using assms by (auto simp: added_column_def elim!: bind_result_InrE split: option.splits if_splits)

lemma addable_new:
  assumes "addable conf existing js = None" "map_result (added_column p) js = Inr added"
  shows "existing \<inter> lower_column ` set added = {}"
  using assms
proof (induction conf existing js arbitrary: added rule: addable.induct)
  case (2 conf existing f fs)
  obtain g gs where g: "added_column p f = Inr g" "map_result (added_column p) fs = Inr gs" "added = g # gs"
    using "2.prems"(2) by (auto elim!: bind_result_InrE)
  obtain n d m where f: "field_parts f = Some (n, d, m)" using "2.prems"(1) by (auto split: option.splits)
  have r: "py_lower n \<notin> existing" "flag m ''nullable''" "\<not> (feed_enabled conf \<and> py_lower n \<in> set feed_reserved)"
    "addable conf (insert (py_lower n) existing) fs = None"
    using "2.prems"(1) f by (auto split: if_splits)
  have "insert (py_lower n) existing \<inter> lower_column ` set gs = {}"
    by (rule "2.IH" [OF f refl refl r(1) _ r(3,4) g(2)]) (use r(2) in simp)
  moreover have "lower_column g = py_lower n" using added_column_lower [OF g(1) f] by (simp add: lower_column_def)
  ultimately show ?case using g(3) r(1) by auto
qed auto

lemma shape_append:
  "clustering_ok fs ks \<Longrightarrow> clustering_ok (fs @ gs) ks"
  using reaches_append by (simp add: clustering_ok_def)

lemma partitions_append: "partitions_ok fs ps \<Longrightarrow> partitions_ok (fs @ gs) ps"
  by (auto simp: partitions_ok_def)

lemma features_ok_conf:
  assumes "\<And>k. k \<in> fst ` set enabling \<Longrightarrow> map_of conf' k = map_of conf k" "map_of conf' cm_mode = map_of conf cm_mode"
  shows "features_ok p conf' = features_ok p conf"
proof -
  have "maps_columns conf' = maps_columns conf"
    using assms(2) by (simp add: maps_columns_def table_mapping_mode_def conf_get_def)
  moreover have "map_of conf' k = map_of conf k" if "(k, f) \<in> set enabling" for k f
    using assms(1) that by force
  ultimately show ?thesis unfolding features_ok_def by auto
qed

text \<open>A change of the configuration that leaves the mapping and the enabling keys alone.\<close>

lemma keeps_conf:
  assumes "table_ok st" "ch_meta c = Some ((ts_meta st)\<lparr>md_configuration := conf\<rparr>)"
    and "\<And>k. k \<in> {cm_mode, cm_max} \<union> fst ` set enabling \<Longrightarrow> map_of conf k = map_of (conf_of st) k"
    and "ch_clustering c = None" "\<forall>p. ch_protocol c = Some p \<longrightarrow> supported_features (ts_protocol st) \<subseteq> supported_features p"
  shows "keeps st c"
proof -
  have md: "ts_meta (applied st c) = (ts_meta st)\<lparr>md_configuration := conf\<rparr>"
    and cl: "clustering_keys (applied st c) = clustering_keys st"
    using assms(2,4) by (auto simp: applied_def clustering_keys_def)
  have f: "features_ok (ts_protocol (applied st c)) conf"
  proof -
    have "features_ok (ts_protocol st) conf"
      using assms(1,3) features_ok_conf [of conf "conf_of st" "ts_protocol st"] by (simp add: table_ok_def)
    then show ?thesis using assms(5) features_ok_mono by (auto simp: applied_def split: option.splits)
  qed
  have c: "columns_ok conf (schema_cols st)"
    using assms(1,3) columns_ok_conf [of conf "conf_of st" "schema_cols st"] by (simp add: table_ok_def)
  have "table_ok (applied st c)"
    using assms(1) f c unfolding table_ok_def md by simp
  moreover have "keys_ok (applied st c) = keys_ok st" by (simp add: keys_ok_def md cl)
  moreover have "descends st (applied st c)"
    using descends_refl [OF assms(1)] assms(3)
    unfolding descends_def md by (simp add: maps_columns_def table_mapping_mode_def conf_get_def recorded_max_def)
  ultimately show ?thesis by (simp add: keeps_def)
qed

lemma cm_keys_other [simp]:
  "cm_mode \<noteq> cm_max" "cm_max \<noteq> cm_mode"
  by (simp_all add: cm_max_def cm_mode_def)

lemma enabling_not_cm: "k \<in> fst ` set enabling \<Longrightarrow> k \<noteq> cm_max \<and> k \<noteq> cm_mode"
proof -
  have "list_all (\<lambda>e. fst e \<noteq> cm_max \<and> fst e \<noteq> cm_mode) enabling" by code_simp
  then show "k \<in> fst ` set enabling \<Longrightarrow> k \<noteq> cm_max \<and> k \<noteq> cm_mode" by (auto simp: list_all_iff)
qed

lemma keeps_add_columns:
  assumes "table_ok st" "add_columns uuid st js = Inr ch"
    and "fresh_names uuid (schema_cols st)"
  shows "keeps st ch"
proof (cases "js = []")
  case True
  then show ?thesis using assms(2) keeps_no_change [OF assms(1)] by (auto simp: add_columns_def Let_def)
next
  case False
  let ?fs = "schema_cols st" and ?conf = "conf_of st"
  have a: "addable ?conf (lower_column ` set ?fs) js = None"
    using assms(2) by (auto simp: add_columns_def Let_def split: option.splits)
  then have 1: "bind_result (map_result (added_column (ts_protocol st)) js) (\<lambda>added.
            case check_names (maps_columns ?conf) added of
              Some e \<Rightarrow> Inl (BadNames e)
            | None \<Rightarrow> bind_result (with_ids uuid (ts_meta st) added) (\<lambda>(cols, conf').
                Inr ((no_change ''ADD COLUMNS'' [(''columns'', PNames (map col_name added))])
                  \<lparr>ch_protocol := features_protocol (ts_protocol st)
                       (concat (map (\<lambda>f. type_features (col_type f)) added)),
                   ch_meta := Some ((ts_meta st)\<lparr>md_schema := ?fs @ cols, md_configuration := conf'\<rparr>)\<rparr>))) = Inr ch"
    using assms(2) False by (simp add: add_columns_def Let_def)
  obtain added where added: "map_result (added_column (ts_protocol st)) js = Inr added"
    using 1 by (rule bind_result_InrE)
  have names: "check_names (maps_columns ?conf) added = None"
    using 1 added by (auto split: option.splits)
  obtain cols conf' where ids: "with_ids uuid (ts_meta st) added = Inr (cols, conf')"
    and ch: "ch_meta ch = Some ((ts_meta st)\<lparr>md_schema := ?fs @ cols, md_configuration := conf'\<rparr>)"
      "ch_clustering ch = None"
      "ch_protocol ch = features_protocol (ts_protocol st) (concat (map (\<lambda>f. type_features (col_type f)) added))"
    using 1 added names by (auto simp: no_change_def elim!: bind_result_InrE simp del: type_features.simps)
  have low: "siblings_differ lower_column (Struct added)" "lower_column ` set ?fs \<inter> lower_column ` set added = {}"
    using check_names_sound(1) [of "maps_columns ?conf" "{}" added] names addable_new [OF a added]
    by (simp_all add: check_names_def del: siblings_differ.simps)
  have ok: "columns_ok ?conf ?fs" using assms(1) by (simp add: table_ok_def)
  have md: "ts_meta (applied st ch) = (ts_meta st)\<lparr>md_schema := ?fs @ cols, md_configuration := conf'\<rparr>"
    and cl: "clustering_keys (applied st ch) = clustering_keys st"
    using ch by (auto simp: applied_def clustering_keys_def)
  have "columns_ok conf' (?fs @ cols) \<and> features_ok (ts_protocol st) conf' \<and> descends st (applied st ch)"
  proof (cases "maps_columns ?conf")
    case False
    then have "cols = added" "conf' = ?conf" using ids by (auto simp: with_ids_def)
    then show ?thesis
      using append_unmapped [OF ok False low] False assms(1) by (simp add: descends_def table_ok_def del: walk.simps)
  next
    case True
    obtain m where m: "recorded_max ?conf = Some m" using columns_mapped_recorded [OF ok True] ..
    have mx: "max_column_id (ts_meta st) = Some m"
      using max_column_id_mapped [of "ts_meta st"] ok True m by (simp add: columns_ok_def)
    define r where "r = assign_ids (\<lambda>i f. ''col-'' @ uuid i) (m + 1) added"
    have c: "cols = fst r" "conf' = dict_set cm_max (int_text (snd r - 1)) ?conf"
      using ids True mx by (auto simp: with_ids_def r_def Let_def simp del: assign_ids.simps)
    note ap = append_mapped [OF ok True m assms(3) low r_def]
    have maps: "maps_columns conf'"
      using True c by (simp add: maps_columns_def table_mapping_mode_def conf_get_def map_of_dict_set)
    have "old_ids m (?fs @ cols) \<subseteq> set (keys_of ?fs)"
      using ap unfolding old_ids_def walk_fields_append map_append set_append c by force
    then have "descends st (applied st ch)"
      unfolding descends_def md using maps m ap c by auto
    moreover have "features_ok (ts_protocol st) conf'"
    proof -
      have "map_of conf' k = map_of ?conf k" if "k \<in> fst ` set enabling" for k
        using enabling_not_cm [OF that] by (simp add: c map_of_dict_set)
      then show ?thesis
        using assms(1) features_ok_conf [of conf' ?conf] by (simp add: table_ok_def c map_of_dict_set)
    qed
    ultimately show ?thesis using ap c by simp
  qed
  then show ?thesis
    using assms(1) partitions_append shape_append features_ok_mono features_protocol_more
    unfolding keeps_def table_ok_def keys_ok_def md cl by (auto simp: applied_def ch(3) split: option.splits)
qed

section \<open>Constraints\<close>

lemma map_of_update_conf: "k \<notin> fst ` set added \<Longrightarrow> map_of (update_conf conf added) k = map_of conf k"
  unfolding update_conf_def by (induction added arbitrary: conf) (auto simp: map_of_dict_set)

lemma constraint_entries_prefixed:
  "constraint_entries existing added cs = Inr added' \<Longrightarrow> list_all (\<lambda>e. starts_with (fst e) constraint_prefix) added
    \<Longrightarrow> list_all (\<lambda>e. starts_with (fst e) constraint_prefix) added'"
  by (induction existing added cs rule: constraint_entries.induct) (auto simp: Let_def split: if_splits)

text \<open>No constraint key is one the invariant looks at, however it is spelled.\<close>

definition watched_keys :: "string list" where
  "watched_keys = cm_mode # cm_max # ict_timestamp_key # ict_version_key # map fst enabling"

lemma watched_no_constraint:
  "k \<in> set watched_keys \<Longrightarrow> \<not> starts_with (py_lower k) constraint_prefix \<and> \<not> starts_with k constraint_prefix"
proof -
  have "list_all (\<lambda>k. \<not> starts_with (py_lower k) constraint_prefix \<and> \<not> starts_with k constraint_prefix) watched_keys"
    by code_simp
  then show "k \<in> set watched_keys \<Longrightarrow> \<not> starts_with (py_lower k) constraint_prefix \<and> \<not> starts_with k constraint_prefix"
    by (simp add: list_all_iff)
qed

lemma watched_iff [simp]: "k \<in> {cm_mode, cm_max} \<union> fst ` set enabling \<Longrightarrow> k \<in> set watched_keys"
  by (auto simp: watched_keys_def)

lemma constraint_protocol_more:
  "constraint_protocol p = Some q \<Longrightarrow> supported_features p \<subseteq> supported_features q"
proof (cases "7 \<le> pr_writer p")
  case False
  assume q: "constraint_protocol p = Some q"
  then have "pr_writer p < 3" "q = p\<lparr>pr_writer := 3\<rparr>"
    using False by (auto simp: constraint_protocol_def split: if_splits)
  then show ?thesis by (auto simp: supported_features_def metadata_legacy_writer_def split: if_splits)
qed (use with_features_more in \<open>auto simp: constraint_protocol_def\<close>)

lemma update_conf_watched:
  assumes "constraint_entries ex [] cs = Inr added" "k \<in> set watched_keys"
  shows "map_of (update_conf conf added) k = map_of conf k"
proof -
  have "list_all (\<lambda>e. starts_with (fst e) constraint_prefix) added"
    using constraint_entries_prefixed [OF assms(1)] by simp
  then have "k \<notin> fst ` set added" using watched_no_constraint [OF assms(2)] by (auto simp: list_all_iff)
  then show ?thesis by (rule map_of_update_conf)
qed

lemma keeps_add_constraints:
  assumes "table_ok st" "add_constraints st cs = Inr ch"
  shows "keeps st ch"
proof -
  obtain added where e: "constraint_entries (py_lower ` fst ` set (conf_of st)) [] cs = Inr added"
    using assms(2) by (auto simp: add_constraints_def split: sum.splits)
  show ?thesis
  proof (cases "added = []")
    case True
    then show ?thesis using assms(2) e keeps_no_change [OF assms(1)] by (auto simp: add_constraints_def)
  next
    case False
    then have ch: "ch_meta ch = Some ((ts_meta st)\<lparr>md_configuration := update_conf (conf_of st) added\<rparr>)"
      "ch_clustering ch = None" "ch_protocol ch = constraint_protocol (ts_protocol st)"
      using assms(2) e by (auto simp: add_constraints_def no_change_def)
    show ?thesis
      by (rule keeps_conf [OF assms(1) ch(1) _ ch(2)])
        (use ch(3) update_conf_watched [OF e] constraint_protocol_more in auto)
  qed
qed

lemma keeps_drop_constraint:
  assumes "table_ok st" "drop_constraint st name b = Inr ch"
  shows "keeps st ch"
proof (cases "List.find (\<lambda>(k, v). py_lower k = constraint_prefix @ py_lower name) (conf_of st)")
  case None
  then show ?thesis using assms keeps_no_change by (auto simp: drop_constraint_def split: if_splits)
next
  case (Some kv)
  obtain k v where kv: "kv = (k, v)" by fastforce
  have k: "py_lower k = constraint_prefix @ py_lower name" using Some by (auto simp: kv find_Some_iff)
  have ch: "ch_meta ch = Some ((ts_meta st)\<lparr>md_configuration := dict_drop k (conf_of st)\<rparr>)"
    "ch_clustering ch = None" "ch_protocol ch = None"
    using assms(2) Some kv by (auto simp: drop_constraint_def no_change_def)
  have w: "j \<noteq> k" if "j \<in> set watched_keys" for j
    using watched_no_constraint [OF that] k by (auto simp: starts_with_append)
  show ?thesis
    by (rule keeps_conf [OF assms(1) ch(1) _ ch(2)]) (use ch(3) w in \<open>auto simp: map_of_dict_drop\<close>)
qed

section \<open>Clustering keys\<close>

lemma key_path_reaches:
  "key_path fs pth = Inr k \<Longrightarrow> siblings_differ physical_of (Struct fs) \<Longrightarrow> reaches (shape_of (Struct fs)) k"
proof (induction fs pth arbitrary: k rule: key_path.induct)
  case (2 fs n pth)
  obtain i where i: "index_of n fs = Some i" using "2.prems"(1) by (auto split: option.splits)
  have len: "i < length fs" using index_of_Some [OF i] by simp
  have d: "distinct (map physical_of fs)" using "2.prems"(2) by simp
  have f: "map_of (map (\<lambda>f. (physical_of f, shape_of (col_type f))) fs) (physical_of (fs ! i))
      = Some (shape_of (col_type (fs ! i)))"
    using find_same [OF d len] by (simp add: map_of_find)
  show ?case
  proof (cases "pth = []")
    case True
    then show ?thesis using "2.prems"(1) i f by (auto split: delta_type.splits if_splits)
  next
    case False
    then obtain gs r where g: "col_type (fs ! i) = Struct gs" "key_path gs pth = Inr r" "k = physical_of (fs ! i) # r"
      using "2.prems"(1) i by (auto elim!: bind_result_InrE split: delta_type.splits)
    have "siblings_differ physical_of (Struct gs)"
      using "2.prems"(2) g(1) len by (metis list_all_length siblings_differ.simps(2))
    then have "reaches (shape_of (Struct gs)) r" using "2.IH" [OF i False g(1)] g(2) by blast
    then show ?thesis using g f by simp
  qed
qed simp

lemma key_paths_reach:
  "key_paths st seen cs = Inr ks \<Longrightarrow> siblings_differ physical_of (Struct (schema_cols st)) \<Longrightarrow> clustering_ok (schema_cols st) ks"
proof (induction st seen cs arbitrary: ks rule: key_paths.induct)
  case (2 st seen c cs)
  obtain pth where p: "split_path c = Inr pth" using "2.prems"(1) by (auto elim!: bind_result_InrE)
  then obtain names where n: "key_path (schema_cols st) pth = Inr names"
    using "2.prems"(1) by (auto split: sum.splits)
  define seen' where "seen' = insert (map py_lower names) seen"
  have 1: "map py_lower names \<notin> seen" using "2.prems"(1) p n by (auto simp: Let_def split: if_splits)
  obtain b ks' where r: "has_stats (conf_of st) (schema_cols st) pth = Inr b" "b"
      "key_paths st seen' cs = Inr ks'" "ks = names # ks'"
    using "2.prems"(1) p n 1 by (auto simp: Let_def seen'_def elim!: bind_result_InrE split: if_splits)
  have "clustering_ok (schema_cols st) ks'"
    by (rule "2.IH" [OF n refl 1]) (use r(2,3) "2.prems"(2) seen'_def in simp_all)
  moreover have "reaches (shape_of (Struct (schema_cols st))) names"
    by (rule key_path_reaches [OF n "2.prems"(2)])
  ultimately show ?case using r(4) by (simp add: clustering_ok_def)
qed (simp add: clustering_ok_def)

lemma keeps_cluster_by:
  assumes "table_ok st" "cluster_by st cs = Inr ch"
  shows "keeps st ch"
proof -
  obtain ks where k: "key_paths st {} cs = Inr ks"
    using assms(2) by (auto simp: cluster_by_def elim!: bind_result_InrE split: if_splits)
  have c: "clustering_ok (schema_cols st) ks" if "own_names st"
    by (rule key_paths_reach [OF k own_fields_physical]) (use assms(1) that in \<open>simp_all add: table_ok_def own_names_def\<close>)
  consider ps where "ch = no_change ''CLUSTER BY'' ps"
    | "ch_meta ch = None" "ch_clustering ch = Some ks"
      "ch_protocol ch = with_features (ts_protocol st) [''clustering'', ''domainMetadata'']"
    using assms(2) k by (auto simp: cluster_by_def no_change_def split: if_splits)
  then show ?thesis
  proof cases
    case 2
    have m: "ts_meta (applied st ch) = ts_meta st" "clustering_keys (applied st ch) = ks"
      using 2 by (simp_all add: applied_def clustering_keys_def)
    have "features_ok (ts_protocol (applied st ch)) (conf_of st)"
      using 2(3) assms(1) features_ok_mono with_features_more by (auto simp: applied_def table_ok_def split: option.splits)
    then have "table_ok (applied st ch)" using assms(1) by (simp add: table_ok_def m)
    moreover have "own_names st \<longrightarrow> keys_ok (applied st ch)" using c by (simp add: keys_ok_def m)
    moreover have "descends st (applied st ch)" using descends_refl [OF assms(1)] by (simp add: descends_def m)
    ultimately show ?thesis by (simp add: keeps_def)
  qed (use keeps_no_change [OF assms(1)] in simp)
qed

section \<open>Setting properties\<close>

lemma distinct_watched: "distinct watched_keys"
  by code_simp

lemma watched_differ [simp]:
  "cm_mode \<noteq> ict_key" "cm_mode \<noteq> ict_version_key" "cm_mode \<noteq> ict_timestamp_key" "cm_max \<noteq> ict_key"
  "cm_max \<noteq> ict_version_key" "cm_max \<noteq> ict_timestamp_key" "ict_key \<noteq> ict_version_key"
  "ict_key \<noteq> ict_timestamp_key" "ict_version_key \<noteq> ict_timestamp_key"
  by code_simp+

lemma enabling_key:
  assumes "(k, f) \<in> set enabling"
  shows "map_of enabling k = Some f" "k \<in> set boolean_keys"
    "k \<noteq> cm_mode" "k \<noteq> cm_max" "k \<noteq> ict_version_key" "k \<noteq> ict_timestamp_key"
proof -
  have "list_all (\<lambda>(k, f). map_of enabling k = Some f \<and> k \<in> set boolean_keys \<and> k \<noteq> cm_mode \<and> k \<noteq> cm_max
      \<and> k \<noteq> ict_version_key \<and> k \<noteq> ict_timestamp_key) enabling"
    by code_simp
  then show "map_of enabling k = Some f" "k \<in> set boolean_keys"
    "k \<noteq> cm_mode" "k \<noteq> cm_max" "k \<noteq> ict_version_key" "k \<noteq> ict_timestamp_key"
    using assms by (auto simp: list_all_iff)
qed

lemma unknown_keys:
  "key_refusal cm_max v \<noteq> None" "key_refusal ict_version_key v \<noteq> None" "key_refusal ict_timestamp_key v \<noteq> None"
proof -
  have "list_all (\<lambda>k. starts_with k ''delta.'' \<and> k \<notin> set known_keys \<and> k \<noteq> row_tracking_key)
      [cm_max, ict_version_key, ict_timestamp_key]" by code_simp
  then show "key_refusal cm_max v \<noteq> None" "key_refusal ict_version_key v \<noteq> None" "key_refusal ict_timestamp_key v \<noteq> None"
    by (simp_all add: key_refusal_def)
qed

lemma refused_Inr [simp]: "refused r = Inr x \<longleftrightarrow> r = Inr x"
  by (cases r) (auto simp: refused_def)

lemma set_property_cases [consumes 1, case_names feature setting]:
  assumes "set_property st kv s = Inr s'"
  obtains n where "s' = s\<lparr>se_features := se_features s @ [n]\<rparr>"
  | k v where "k \<notin> {cm_max, ict_version_key, ict_timestamp_key}" "set_value st k v s = Inr s'"
    "k \<in> set boolean_keys \<Longrightarrow> v \<in> {''true'', ''false''}"
proof -
  obtain rk given where kv: "kv = (rk, given)" by fastforce
  let ?k = "canonical_property rk"
  show ?thesis
  proof (cases "starts_with ?k feature_prefix")
    case True
    then obtain n where "s' = s\<lparr>se_features := se_features s @ [n]\<rparr>"
      using assms kv by (auto simp: set_property_def Let_def elim!: bind_result_InrE split: if_splits)
    then show ?thesis by (rule that(1))
  next
    case False
    then have r: "key_refusal ?k given = None"
      and b: "bind_result (normalise_value (schema_cols st) ?k given) (\<lambda>v. refused (set_value st ?k v s)) = Inr s'"
      using assms kv by (auto simp: set_property_def Let_def split: if_splits option.splits)
    obtain v where v: "normalise_value (schema_cols st) ?k given = Inr v" "set_value st ?k v s = Inr s'"
      using b by (auto elim!: bind_result_InrE)
    show ?thesis
    proof (rule that(2) [OF _ v(2)])
      show "?k \<notin> {cm_max, ict_version_key, ict_timestamp_key}" using r unknown_keys [of given] by (metis insertE singletonD)
      show "v \<in> {''true'', ''false''}" if "?k \<in> set boolean_keys"
        using v(1) that by (auto simp: normalise_value_def Let_def valid_choice_def split: if_splits)
    qed
  qed
qed

text \<open>What the loop keeps while it goes through the properties.\<close>

definition mapping_kept :: "table_state \<Rightarrow> settings \<Rightarrow> bool" where
  "mapping_kept st s \<longleftrightarrow>
     (if maps_columns (conf_of st)
      then se_schema s = None \<and> maps_columns (se_conf s) \<and> map_of (se_conf s) cm_max = map_of (conf_of st) cm_max
      else if maps_columns (se_conf s)
      then se_schema s = Some (fst (assign_ids by_name 1 (schema_cols st)))
           \<and> recorded_max (se_conf s) = Some (snd (assign_ids by_name 1 (schema_cols st)) - 1)
      else se_schema s = None)"

definition features_kept :: "table_state \<Rightarrow> settings \<Rightarrow> bool" where
  "features_kept st s \<longleftrightarrow>
     (\<forall>(k, f)\<in>set enabling. map_of (se_conf s) k = Some ''true'' \<longrightarrow>
        f \<in> set (se_features s) \<or> map_of (conf_of st) k = Some ''true'')
     \<and> (maps_columns (se_conf s) \<longrightarrow> ''columnMapping'' \<in> set (se_features s) \<or> maps_columns (conf_of st))"

definition ict_kept :: "table_state \<Rightarrow> settings \<Rightarrow> bool" where
  "ict_kept st s \<longleftrightarrow>
     (if is_true (conf_of st) ict_key
      then map_of (se_conf s) ict_version_key = map_of (conf_of st) ict_version_key
        \<and> map_of (se_conf s) ict_timestamp_key = map_of (conf_of st) ict_timestamp_key
      else is_true (se_conf s) ict_key \<longrightarrow>
        map_of (se_conf s) ict_version_key = Some (int_text (ts_version st + 1))
        \<and> map_of (se_conf s) ict_timestamp_key = Some ict_mark)"

lemma maps_columns_conf:
  "map_of conf' cm_mode = map_of conf cm_mode \<Longrightarrow> maps_columns conf' = maps_columns conf"
  by (simp add: maps_columns_def table_mapping_mode_def conf_get_def)

lemma set_value_other:
  assumes "set_value st k v s = Inr s'" "k \<noteq> cm_mode"
  shows "s' = \<lparr>se_conf = dict_set k v (enablement st k (py_lower v) (se_conf s)),
    se_features = se_features s @ value_features k (py_lower v), se_schema = se_schema s\<rparr>"
  using assms by (auto simp: set_value_def Let_def split: if_splits)

lemma map_of_enablement:
  "map_of (enablement st k l conf) j =
     (if k = ict_key \<and> l = ''true'' \<and> \<not> is_true (conf_of st) ict_key
      then if j = ict_timestamp_key then Some ict_mark
           else if j = ict_version_key then Some (int_text (ts_version st + 1)) else map_of conf j
      else map_of conf j)"
  by (auto simp: enablement_def map_of_dict_set)

lemma set_value_mode:
  assumes "set_value st cm_mode v s = Inr s'"
  shows "maps_columns (se_conf s') \<longleftrightarrow> py_lower v \<in> {''name'', ''id''}"
    and "set (se_features s') = (if py_lower v = ''none'' then set (se_features s) else insert ''columnMapping'' (set (se_features s)))"
    and "j \<noteq> cm_mode \<Longrightarrow> j \<noteq> cm_max \<Longrightarrow> map_of (se_conf s') j = map_of (se_conf s) j"
    and "if py_lower v = table_mapping_mode (conf_of st)
      then se_schema s' = None \<and> map_of (se_conf s') cm_max = map_of (se_conf s) cm_max
      else py_lower v = ''name'' \<and> table_mapping_mode (conf_of st) = ''none''
        \<and> se_schema s' = Some (fst (assign_ids by_name 1 (schema_cols st)))
        \<and> recorded_max (se_conf s') = Some (snd (assign_ids by_name 1 (schema_cols st)) - 1)"
proof -
  have k: "cm_mode \<noteq> ''delta.enableChangeDataFeed''" "map_of enabling cm_mode = None" "cm_mode \<noteq> ''delta.checkpointPolicy''"
    by code_simp+
  obtain fs conf where e: "enable_column_mapping st (py_lower v) (se_conf s) = Inr (fs, conf)"
    and s': "s' = \<lparr>se_conf = dict_set cm_mode v conf, se_features = se_features s @ value_features cm_mode (py_lower v), se_schema = fs\<rparr>"
    using assms k by (auto simp: set_value_def Let_def enablement_def elim!: bind_result_InrE)
  show "maps_columns (se_conf s') \<longleftrightarrow> py_lower v \<in> {''name'', ''id''}"
    by (simp add: s' maps_columns_def table_mapping_mode_def conf_get_def map_of_dict_set)
  show "set (se_features s') = (if py_lower v = ''none'' then set (se_features s) else insert ''columnMapping'' (set (se_features s)))"
    using k by (simp add: s' value_features_def)
  show "map_of (se_conf s') j = map_of (se_conf s) j" if "j \<noteq> cm_mode" "j \<noteq> cm_max"
    using e that by (auto simp: s' enable_column_mapping_def Let_def map_of_dict_set split: if_splits)
  have r: "recorded_max (dict_set cm_mode v c) = recorded_max c" for c
    by (simp add: recorded_max_def map_of_dict_set)
  let ?r = "assign_ids by_name 1 (schema_cols st)"
  have c: "(fs, conf) = (if py_lower v = table_mapping_mode (conf_of st) then (None, se_conf s)
      else (Some (fst ?r), dict_set cm_max (int_text (snd ?r - 1)) (se_conf s)))"
    and m: "py_lower v = table_mapping_mode (conf_of st) \<or> py_lower v = ''name'' \<and> table_mapping_mode (conf_of st) = ''none''"
    using e by (simp_all add: enable_column_mapping_def Let_def split: if_split_asm del: assign_ids.simps)
  show "if py_lower v = table_mapping_mode (conf_of st)
      then se_schema s' = None \<and> map_of (se_conf s') cm_max = map_of (se_conf s) cm_max
      else py_lower v = ''name'' \<and> table_mapping_mode (conf_of st) = ''none''
        \<and> se_schema s' = Some (fst ?r) \<and> recorded_max (se_conf s') = Some (snd ?r - 1)"
  proof (cases "py_lower v = table_mapping_mode (conf_of st)")
    case True
    then show ?thesis using c by (simp add: s' map_of_dict_set)
  next
    case False
    then have "fs = Some (fst ?r)" "conf = dict_set cm_max (int_text (snd ?r - 1)) (se_conf s)"
      using c by (simp_all del: assign_ids.simps)
    then show ?thesis using False m r by (simp add: s' del: assign_ids.simps)
  qed
qed

lemma set_value_mapping:
  assumes "set_value st k v s = Inr s'" "mapping_kept st s" "k \<notin> {cm_max, ict_version_key, ict_timestamp_key}"
  shows "mapping_kept st s'"
proof (cases "k = cm_mode")
  case True
  note f = set_value_mode [OF assms(1) [unfolded True]]
  show ?thesis
  proof (cases "py_lower v = table_mapping_mode (conf_of st)")
    case True
    then have "maps_columns (se_conf s') = maps_columns (conf_of st)" using f(1) by (simp add: maps_columns_def)
    then show ?thesis using f(4) True assms(2) by (simp add: mapping_kept_def split: if_split_asm)
  next
    case False
    then have "maps_columns (se_conf s')" "\<not> maps_columns (conf_of st)"
      using f(1,4) by (simp_all add: maps_columns_def)
    then show ?thesis using f(4) False by (simp add: mapping_kept_def del: assign_ids.simps)
  qed
next
  case False
  note s' = set_value_other [OF assms(1) False]
  have "map_of (se_conf s') cm_mode = map_of (se_conf s) cm_mode" "map_of (se_conf s') cm_max = map_of (se_conf s) cm_max"
    using False assms(3) by (auto simp: s' map_of_dict_set map_of_enablement)
  then show ?thesis
    using assms(2) maps_columns_conf [of "se_conf s'" "se_conf s"]
    by (auto simp: mapping_kept_def s' recorded_max_def simp del: assign_ids.simps split: if_split_asm)
qed

lemma set_value_features:
  assumes "set_value st k v s = Inr s'" "features_kept st s" "k \<notin> {cm_max, ict_version_key, ict_timestamp_key}"
    and "k \<in> set boolean_keys \<Longrightarrow> v \<in> {''true'', ''false''}"
  shows "features_kept st s'"
proof -
  have e: "f \<in> set (se_features s') \<or> map_of (conf_of st) j = Some ''true''"
    if j: "(j, f) \<in> set enabling" "map_of (se_conf s') j = Some ''true''" for j f
  proof (cases "k = cm_mode")
    case True
    note m = set_value_mode [OF assms(1) [unfolded True]]
    have "map_of (se_conf s) j = Some ''true''" using m(3) [of j] enabling_key [OF j(1)] j(2) by simp
    then show ?thesis using assms(2) j(1) m(2) by (auto simp: features_kept_def)
  next
    case False
    note s' = set_value_other [OF assms(1) False]
    show ?thesis
    proof (cases "j = k")
      case True
      then have "v = ''true''" using j(2) by (simp add: s' map_of_dict_set)
      moreover have "py_lower ''true'' = ''true''" by code_simp
      ultimately show ?thesis using enabling_key(1) [OF j(1)] True by (simp add: s' value_features_def)
    next
      case False
      then have "map_of (se_conf s) j = Some ''true''"
        using j enabling_key [OF j(1)] by (simp add: s' map_of_dict_set map_of_enablement split: if_splits)
      then show ?thesis using assms(2) j(1) by (auto simp: features_kept_def s')
    qed
  qed
  have "''columnMapping'' \<in> set (se_features s') \<or> maps_columns (conf_of st)" if "maps_columns (se_conf s')"
  proof (cases "k = cm_mode")
    case True
    show ?thesis using set_value_mode(1,2) [OF assms(1) [unfolded True]] that by auto
  next
    case False
    note s' = set_value_other [OF assms(1) False]
    have "map_of (se_conf s') cm_mode = map_of (se_conf s) cm_mode"
      using False by (auto simp: s' map_of_dict_set map_of_enablement)
    then have "maps_columns (se_conf s)" using that maps_columns_conf by blast
    then show ?thesis using assms(2) by (auto simp: features_kept_def s')
  qed
  with e show ?thesis unfolding features_kept_def by blast
qed

lemma set_value_ict:
  assumes "set_value st k v s = Inr s'" "ict_kept st s" "k \<notin> {cm_max, ict_version_key, ict_timestamp_key}"
  shows "ict_kept st s'"
proof (cases "k = cm_mode")
  case True
  show ?thesis
    using assms(2) set_value_mode(3) [OF assms(1) [unfolded True], of ict_key] set_value_mode(3) [OF assms(1) [unfolded True], of ict_version_key]
      set_value_mode(3) [OF assms(1) [unfolded True], of ict_timestamp_key]
    by (simp add: ict_kept_def is_true_def conf_get_def watched_differ [symmetric])
next
  case False
  note s' = set_value_other [OF assms(1) False]
  show ?thesis
    using assms(2,3) by (auto simp: ict_kept_def s' map_of_dict_set map_of_enablement is_true_def [of "dict_set k v _"] is_true_def [of "se_conf s"] conf_get_def)
qed

lemma set_all_kept:
  assumes "set_all st kvs s = Inr s'" "mapping_kept st s" "features_kept st s" "ict_kept st s"
  shows "mapping_kept st s' \<and> features_kept st s' \<and> ict_kept st s'"
  using assms
proof (induction st kvs s rule: set_all.induct)
  case (2 st kv kvs s)
  obtain s1 where s1: "set_property st kv s = Inr s1" "set_all st kvs s1 = Inr s'"
    using "2.prems"(1) by (auto elim!: bind_result_InrE)
  from s1(1) have "mapping_kept st s1 \<and> features_kept st s1 \<and> ict_kept st s1"
  proof (cases rule: set_property_cases)
    case (feature n)
    then show ?thesis using "2.prems" by (auto simp: mapping_kept_def features_kept_def ict_kept_def)
  next
    case (setting k v)
    then show ?thesis
      using "2.prems" set_value_mapping set_value_features set_value_ict by blast
  qed
  then show ?case using "2.IH" [OF s1(2)] by blast
qed simp

end
