(* ===== verification/Meta_Reached.thy ===== *)
theory Meta_Reached
  imports Meta_Steps
begin

text \<open>
  Setting and unsetting properties keep the invariant; then the tables reached by committing
  changes one after another, and what holds of all of them.
\<close>

section \<open>Properties\<close>

lemma keeps_set_properties:
  assumes "table_ok st" "set_properties st props = Inr ch"
  shows "keeps st ch"
proof -
  let ?s0 = "\<lparr>se_conf = conf_of st, se_features = [], se_schema = None\<rparr>"
  let ?r = "assign_ids by_name 1 (schema_cols st)"
  obtain s where s: "set_all st props ?s0 = Inr s"
    using assms(2) by (auto simp: set_properties_def elim!: bind_result_InrE)
  define md where "md = (ts_meta st)\<lparr>md_configuration := se_conf s,
      md_schema := (case se_schema s of None \<Rightarrow> schema_cols st | Some fs \<Rightarrow> fs)\<rparr>"
  have ch: "ch_meta ch = if_changed st md" "ch_clustering ch = None"
    "ch_protocol ch = features_protocol (ts_protocol st) (se_features s)"
    using assms(2) s by (auto simp: set_properties_def Let_def md_def no_change_def elim!: bind_result_InrE)
  have "mapping_kept st ?s0" "features_kept st ?s0" "ict_kept st ?s0"
    by (simp_all add: mapping_kept_def features_kept_def ict_kept_def)
  then have k: "mapping_kept st s" "features_kept st s" using set_all_kept [OF s] by blast+
  have m: "ts_meta (applied st ch) = md" "clustering_keys (applied st ch) = clustering_keys st"
    using if_changed_meta [of st md] by (simp_all add: applied_def clustering_keys_def ch)
  have ok: "columns_ok (conf_of st) (schema_cols st)"
    "partitions_ok (schema_cols st) (md_partitions (ts_meta st))" "features_ok (ts_protocol st) (conf_of st)"
    using assms(1) by (simp_all add: table_ok_def)
  have schema: "columns_ok (se_conf s) (md_schema md)
      \<and> (own_names st \<and> keys_ok st \<longrightarrow> clustering_ok (md_schema md) (clustering_keys st))
      \<and> partitions_ok (md_schema md) (md_partitions (ts_meta st)) \<and> descends st (applied st ch)"
  proof (cases "maps_columns (conf_of st)")
    case True
    then have c: "se_schema s = None" "maps_columns (se_conf s)" "recorded_max (se_conf s) = recorded_max (conf_of st)"
      using k(1) by (auto simp: mapping_kept_def recorded_max_def)
    then have "columns_ok (se_conf s) (schema_cols st)"
      using ok(1) True by (simp add: columns_ok_def columns_mapped_def)
    moreover have "descends st (applied st ch)"
      using descends_refl [OF assms(1)] c unfolding descends_def m by (simp add: md_def)
    ultimately show ?thesis using ok c by (simp add: md_def keys_ok_def)
  next
    case False
    then have d: "descends st (applied st ch)" by (simp add: descends_def)
    show ?thesis
    proof (cases "maps_columns (se_conf s)")
      case True
      then have c: "se_schema s = Some (fst ?r)" "recorded_max (se_conf s) = Some (snd ?r - 1)"
        using k(1) False by (simp_all add: mapping_kept_def del: assign_ids.simps)
      note e = enable_mapped [OF ok(1) False refl True c(2)]
      have "partitions_ok (fst ?r) (md_partitions (ts_meta st))"
        using ok(2) unfolding partitions_ok_def assign_lower .
      moreover have "own_names st \<and> keys_ok st \<longrightarrow> clustering_ok (fst ?r) (clustering_keys st)"
        using e unfolding keys_ok_def clustering_ok_def own_names_def by simp
      ultimately show ?thesis using e d c(1) by (simp add: md_def del: assign_ids.simps)
    next
      case n: False
      then have "se_schema s = None" using k(1) False by (simp add: mapping_kept_def)
      then show ?thesis using ok d n False by (simp add: md_def columns_ok_def keys_ok_def)
    qed
  qed
  have "features_ok (ts_protocol (applied st ch)) (se_conf s)"
  proof -
    let ?p = "ts_protocol (applied st ch)"
    have p: "?p = (case features_protocol (ts_protocol st) (se_features s) of None \<Rightarrow> ts_protocol st | Some q \<Rightarrow> q)"
      by (simp add: applied_def ch(3))
    have old: "features_ok ?p (conf_of st)"
      using ok(3) features_ok_mono features_protocol_more by (auto simp: p split: option.splits)
    have new: "provides ?p f" if "f \<in> set (se_features s)" for f
      unfolding p by (rule provides_features [OF that])
    have "provides ?p f" if "(j, f) \<in> set enabling" "map_of (se_conf s) j = Some ''true''" for j f
      using k(2) that old new unfolding features_kept_def features_ok_def by blast
    moreover have "maps_columns (se_conf s) \<longrightarrow> provides ?p ''columnMapping''"
      using k(2) old new unfolding features_kept_def features_ok_def by blast
    ultimately show ?thesis unfolding features_ok_def by blast
  qed
  then show ?thesis
    using schema unfolding keeps_def table_ok_def keys_ok_def m by (simp add: md_def)
qed

lemma unset_all_conf:
  "unset_all b conf removed ks = Inr (conf', removed') \<Longrightarrow> k \<in> {cm_mode, cm_max, ict_version_key, ict_timestamp_key} \<Longrightarrow>
     map_of conf' k = map_of conf k"
proof (induction b conf removed ks rule: unset_all.induct)
  case (2 b conf removed rk ks)
  let ?k = "canonical_property rk"
  have n: "unset_refusal ?k = None" using "2.prems"(1) by (auto simp: Let_def split: option.splits)
  have "list_all (\<lambda>k. unset_refusal k \<noteq> None) [cm_mode, cm_max, ict_version_key, ict_timestamp_key]" by code_simp
  then have ne: "?k \<noteq> k" using n "2.prems"(2) by auto
  show ?case
    using 2 n ne by (auto simp: Let_def map_of_dict_drop split: if_split_asm)
qed simp

lemma unset_all_sub:
  "unset_all b conf removed ks = Inr (conf', removed') \<Longrightarrow> map_of conf' k = Some v \<Longrightarrow> map_of conf k = Some v"
  by (induction b conf removed ks rule: unset_all.induct)
    (auto simp: Let_def map_of_dict_drop split: option.splits if_split_asm)

lemma keeps_unset_properties:
  assumes "table_ok st" "unset_properties st keys b = Inr ch"
  shows "keeps st ch"
proof -
  obtain conf removed where u: "unset_all b (conf_of st) [] keys = Inr (conf, removed)"
    using assms(2) by (auto simp: unset_properties_def elim!: bind_result_InrE)
  show ?thesis
  proof (cases "removed = []")
    case True
    then show ?thesis
      using assms(2) u keeps_no_change [OF assms(1)] by (auto simp: unset_properties_def refused_def Let_def)
  next
    case False
    then have ch: "ch_meta ch = Some ((ts_meta st)\<lparr>md_configuration := conf\<rparr>)" "ch_clustering ch = None" "ch_protocol ch = None"
      using assms(2) u by (auto simp: unset_properties_def refused_def Let_def no_change_def elim!: bind_result_InrE)
    have md: "ts_meta (applied st ch) = (ts_meta st)\<lparr>md_configuration := conf\<rparr>"
      and other: "clustering_keys (applied st ch) = clustering_keys st" "ts_protocol (applied st ch) = ts_protocol st"
      using ch by (simp_all add: applied_def clustering_keys_def)
    have cm: "map_of conf cm_mode = map_of (conf_of st) cm_mode" "map_of conf cm_max = map_of (conf_of st) cm_max"
      using unset_all_conf [OF u] by simp_all
    have "features_ok (ts_protocol st) conf"
      using assms(1) unset_all_sub [OF u] maps_columns_conf [OF cm(1)]
      unfolding table_ok_def features_ok_def by fastforce
    then have "table_ok (applied st ch)"
      using assms(1) columns_ok_conf [OF cm] unfolding table_ok_def md other by simp
    moreover have "descends st (applied st ch)"
      using descends_refl [OF assms(1)] maps_columns_conf [OF cm(1)] cm(2)
      unfolding descends_def md by (simp add: recorded_max_def)
    moreover have "keys_ok (applied st ch) = keys_ok st" by (simp add: keys_ok_def md other)
    ultimately show ?thesis by (simp add: keeps_def)
  qed
qed

section \<open>Changes and commits\<close>

text \<open>Every change the module computes, whatever the fields added carry; only the physical names drawn
  for new columns, random UUIDs, are taken to be ones no column of the table has.\<close>

inductive changes :: "table_state \<Rightarrow> change \<Rightarrow> bool" for st where
  comment: "changes st (set_comment st c)"
| column_comment: "set_column_comment st column c = Inr ch \<Longrightarrow> changes st ch"
| nullability: "set_nullability st column b = Inr ch \<Longrightarrow> changes st ch"
| add: "add_columns uuid st js = Inr ch \<Longrightarrow> fresh_names uuid (schema_cols st) \<Longrightarrow> changes st ch"
| drop: "drop_column st column = Inr ch \<Longrightarrow> changes st ch"
| rename: "rename_column st old new = Inr ch \<Longrightarrow> changes st ch"
| alter: "alter_column_type st column t = Inr ch \<Longrightarrow> changes st ch"
| constraints: "add_constraints st cs = Inr ch \<Longrightarrow> changes st ch"
| drop_check: "drop_constraint st name b = Inr ch \<Longrightarrow> changes st ch"
| cluster: "cluster_by st columns = Inr ch \<Longrightarrow> changes st ch"
| set: "set_properties st props = Inr ch \<Longrightarrow> changes st ch"
| unset: "unset_properties st keys b = Inr ch \<Longrightarrow> changes st ch"

lemma changes_keep: "changes st ch \<Longrightarrow> table_ok st \<Longrightarrow> keeps st ch"
  by (induction rule: changes.induct)
    (rule keeps_set_comment keeps_column_comment keeps_nullability keeps_add_columns keeps_drop keeps_rename
      keeps_alter_type keeps_add_constraints keeps_drop_constraint keeps_cluster_by keeps_set_properties
      keeps_unset_properties; assumption)+

inductive commits :: "table_state \<Rightarrow> table_state \<Rightarrow> bool" where
  "changes st ch \<Longrightarrow> build_actions st ch now = Inr co \<Longrightarrow> commits st (committed st co)"

inductive reached :: "table_state \<Rightarrow> table_state \<Rightarrow> bool" where
  start: "reached st st"
| step: "reached st st' \<Longrightarrow> commits st' st'' \<Longrightarrow> reached st st''"

inductive_cases commitsE: "commits st st'"

text \<open>A commit is its change, up to the time of the enablement.\<close>

lemma fill_enablement_meta:
  "md_schema (fill_enablement t md) = md_schema md" "md_partitions (fill_enablement t md) = md_partitions md"
  "k \<noteq> ict_timestamp_key \<Longrightarrow> map_of (md_configuration (fill_enablement t md)) k = map_of (md_configuration md) k"
  by (simp_all add: fill_enablement_def map_of_dict_set)

lemma build_actions_parts:
  assumes "build_actions st ch now = Inr co"
  shows "co_protocol co = ch_protocol ch" "co_clustering co = ch_clustering ch"
    "co_meta co = map_option (fill_enablement (co_timestamp co)) (ch_meta ch)"
    "is_true (conf_of (applied st ch)) ict_key \<Longrightarrow>
       co_ict co = Some (co_timestamp co) \<and> (case ts_timestamp st of None \<Rightarrow> 0 | Some t \<Rightarrow> t) < co_timestamp co
       \<and> now \<le> co_timestamp co"
    "\<not> is_true (conf_of (applied st ch)) ict_key \<Longrightarrow> co_ict co = None \<and> co_timestamp co = now"
proof -
  have c: "conf_of (applied st ch) = md_configuration (case ch_meta ch of None \<Rightarrow> ts_meta st | Some m \<Rightarrow> m)"
    by (simp add: applied_def)
  show "co_protocol co = ch_protocol ch" "co_clustering co = ch_clustering ch"
    "co_meta co = map_option (fill_enablement (co_timestamp co)) (ch_meta ch)"
    using assms by (auto simp: build_actions_def Let_def split: if_split_asm)
  show "is_true (conf_of (applied st ch)) ict_key \<Longrightarrow>
       co_ict co = Some (co_timestamp co) \<and> (case ts_timestamp st of None \<Rightarrow> 0 | Some t \<Rightarrow> t) < co_timestamp co
       \<and> now \<le> co_timestamp co"
    "\<not> is_true (conf_of (applied st ch)) ict_key \<Longrightarrow> co_ict co = None \<and> co_timestamp co = now"
    using assms unfolding c by (auto simp: build_actions_def Let_def split: if_split_asm)
qed

lemma committed_parts:
  assumes "build_actions st ch now = Inr co"
  shows "ts_protocol (committed st co) = ts_protocol (applied st ch)"
    "clustering_keys (committed st co) = clustering_keys (applied st ch)"
    "schema_cols (committed st co) = schema_cols (applied st ch)"
    "md_partitions (ts_meta (committed st co)) = md_partitions (ts_meta (applied st ch))"
    "k \<noteq> ict_timestamp_key \<Longrightarrow> map_of (conf_of (committed st co)) k = map_of (conf_of (applied st ch)) k"
    "ts_timestamp (committed st co) = Some (co_timestamp co)" "ts_version (committed st co) = ts_version st + 1"
  using build_actions_parts(1,2,3) [OF assms]
  by (auto simp: committed_def applied_def clustering_keys_def fill_enablement_meta split: option.splits)

lemma commit_keeps:
  assumes "table_ok st" "commits st st'"
  shows "table_ok st' \<and> descends st st' \<and> (own_names st \<and> keys_ok st \<longrightarrow> keys_ok st')"
proof -
  from assms(2) obtain ch now co where 1: "st' = committed st co" "changes st ch" "build_actions st ch now = Inr co"
    by (rule commitsE)
  note p = committed_parts [OF 1(3)]
  have k: "table_ok (applied st ch)" "descends st (applied st ch)"
    "own_names st \<and> keys_ok st \<longrightarrow> keys_ok (applied st ch)"
    using changes_keep [OF 1(2) assms(1)] by (simp_all add: keeps_def)
  have cm: "map_of (conf_of st') cm_mode = map_of (conf_of (applied st ch)) cm_mode"
    "map_of (conf_of st') cm_max = map_of (conf_of (applied st ch)) cm_max"
    unfolding 1(1) by (simp_all add: p(5))
  have "features_ok (ts_protocol st') (conf_of st')"
    using k(1) features_ok_conf [OF _ cm(1)] enabling_key(6)
    unfolding table_ok_def 1(1) p(1) by (metis (no_types, lifting) image_iff p(5) prod.collapse)
  then have "table_ok st'"
    using k(1) columns_ok_conf [OF cm] unfolding table_ok_def 1(1) p(1-4) by simp
  moreover have "descends st st'"
    using k(2) maps_columns_conf [OF cm(1)] cm(2) unfolding descends_def 1(1) p(3) by (simp add: recorded_max_def)
  moreover have "own_names st \<and> keys_ok st \<longrightarrow> keys_ok st'"
    using k(3) unfolding keys_ok_def 1(1) p(2,3) .
  ultimately show ?thesis by blast
qed

lemma reached_keeps: "reached st st' \<Longrightarrow> table_ok st \<Longrightarrow> table_ok st' \<and> descends st st'"
proof (induction rule: reached.induct)
  case (step st st' st'')
  then show ?case using commit_keeps [of st' st''] descends_trans by blast
qed (simp add: descends_refl)

text \<open>The tables reached where no commit starts from a table whose fields carry names of another: with
  column mapping on, each has names of its own.\<close>

inductive own_reached :: "table_state \<Rightarrow> table_state \<Rightarrow> bool" where
  start: "own_reached st st"
| step: "own_reached st st' \<Longrightarrow> own_names st' \<Longrightarrow> commits st' st'' \<Longrightarrow> own_reached st st''"

lemma own_reached_reached: "own_reached st st' \<Longrightarrow> reached st st'"
  by (induction rule: own_reached.induct) (auto intro: reached.intros)

lemma own_reached_keys: "own_reached st st' \<Longrightarrow> table_ok st \<Longrightarrow> keys_ok st \<Longrightarrow> keys_ok st'"
proof (induction rule: own_reached.induct)
  case (step st st' st'')
  then have "table_ok st'" using reached_keeps own_reached_reached by blast
  then show ?case using step commit_keeps by blast
qed simp

lemma mapped_own_reached: "reached st st' \<Longrightarrow> table_ok st \<Longrightarrow> maps_columns (conf_of st) \<Longrightarrow> own_reached st st'"
proof (induction rule: reached.induct)
  case (step st st' st'')
  have "descends st st'" using reached_keeps [OF step.hyps(1) step.prems(1)] by blast
  then have "own_names st'" using step.prems(2) by (simp add: descends_def own_names_def own_fields_def)
  then show ?case using step own_reached.step by blast
qed (rule own_reached.start)

section \<open>In-commit timestamps\<close>

text \<open>Where in-commit timestamps are on, the table either had them from its first commit, or says
  from which version and time on, neither later than its last commit.\<close>

definition ict_ok :: "table_state \<Rightarrow> bool" where
  "ict_ok st \<longleftrightarrow>
     (is_true (conf_of st) ict_key \<longrightarrow>
        (map_of (conf_of st) ict_version_key = None \<and> map_of (conf_of st) ict_timestamp_key = None)
        \<or> (\<exists>v t now. map_of (conf_of st) ict_version_key = Some (int_text v)
             \<and> map_of (conf_of st) ict_timestamp_key = Some (int_text t)
             \<and> ts_timestamp st = Some now \<and> v \<le> ts_version st \<and> t \<le> now))"

abbreviation conf_settings :: "(string \<times> string) list \<Rightarrow> settings" where
  "conf_settings conf \<equiv> \<lparr>se_conf = conf, se_features = [], se_schema = None\<rparr>"

lemma ict_kept_conf:
  assumes "\<And>k. k \<in> set watched_keys \<Longrightarrow> map_of conf k = map_of (conf_of st) k"
  shows "ict_kept st (conf_settings conf)"
proof -
  have "ict_key \<in> set watched_keys" "ict_version_key \<in> set watched_keys" "ict_timestamp_key \<in> set watched_keys"
    by code_simp+
  then show ?thesis using assms by (simp add: ict_kept_def is_true_def conf_get_def)
qed

lemma ict_kept_same: "conf_of (applied st ch) = conf_of st \<Longrightarrow> ict_kept st (conf_settings (conf_of (applied st ch)))"
  by (intro ict_kept_conf) simp

text \<open>The changes of columns leave the configuration alone.\<close>

lemma column_changes_conf:
  "conf_of (applied st (set_comment st c)) = conf_of st"
  "set_column_comment st column c = Inr ch \<Longrightarrow> conf_of (applied st ch) = conf_of st"
  "set_nullability st column b = Inr ch \<Longrightarrow> conf_of (applied st ch) = conf_of st"
  "drop_column st column = Inr ch \<Longrightarrow> conf_of (applied st ch) = conf_of st"
  "rename_column st old new = Inr ch \<Longrightarrow> conf_of (applied st ch) = conf_of st"
  "cluster_by st cs = Inr ch \<Longrightarrow> conf_of (applied st ch) = conf_of st"
proof -
  show "conf_of (applied st (set_comment st c)) = conf_of st"
    by (simp add: applied_def set_comment_def Let_def if_changed_def)
  show "set_column_comment st column c = Inr ch \<Longrightarrow> conf_of (applied st ch) = conf_of st"
    by (auto simp: set_column_comment_def Let_def applied_def if_changed_def elim!: bind_result_InrE)
  show "set_nullability st column b = Inr ch \<Longrightarrow> conf_of (applied st ch) = conf_of st"
    by (auto simp: set_nullability_def applied_def if_changed_def elim!: bind_result_InrE split: if_split_asm)
  show "drop_column st column = Inr ch \<Longrightarrow> conf_of (applied st ch) = conf_of st"
    by (auto simp: drop_column_def applied_def elim!: bind_result_InrE split: option.splits)
  show "cluster_by st cs = Inr ch \<Longrightarrow> conf_of (applied st ch) = conf_of st"
    by (auto simp: cluster_by_def applied_def no_change_def elim!: bind_result_InrE split: if_split_asm)
  show "rename_column st old new = Inr ch \<Longrightarrow> conf_of (applied st ch) = conf_of st"
    by (auto simp: rename_column_def Let_def applied_def no_change_def renamed_meta_def elim!: bind_result_InrE
        split: option.splits if_split_asm)
qed

lemma alter_type_conf:
  "alter_column_type st column t = Inr ch \<Longrightarrow> conf_of (applied st ch) = conf_of st"
  by (auto simp: alter_column_type_def Let_def applied_def no_change_def elim!: bind_result_InrE
      split: option.splits if_split_asm delta_type.splits simp del: type_features.simps)

lemma changes_ict: "changes st ch \<Longrightarrow> ict_kept st (conf_settings (conf_of (applied st ch)))"
proof (induction rule: changes.induct)
  case (add uuid js ch)
  have "map_of (conf_of (applied st ch)) k = map_of (conf_of st) k" if "k \<noteq> cm_max" for k
    using add(1) that
    by (auto simp: add_columns_def with_ids_def Let_def applied_def no_change_def map_of_dict_set
        elim!: bind_result_InrE split: option.splits if_split_asm simp del: assign_ids.simps type_features.simps)
  then show ?case
    by (simp add: ict_kept_def is_true_def conf_get_def watched_differ [symmetric] del: watched_differ)
next
  case (constraints cs ch)
  then show ?case
    using update_conf_watched by (intro ict_kept_conf) (auto simp: add_constraints_def applied_def no_change_def split: sum.splits if_split_asm)
next
  case (drop_check name b ch)
  show ?case
  proof (cases "List.find (\<lambda>(k, v). py_lower k = constraint_prefix @ py_lower name) (conf_of st)")
    case (Some kv)
    then have k: "py_lower (fst kv) = constraint_prefix @ py_lower name" by (auto simp: find_Some_iff)
    have w: "j \<noteq> fst kv" if "j \<in> set watched_keys" for j using watched_no_constraint [OF that] k by auto
    show ?thesis
      using drop_check Some w
      by (intro ict_kept_conf) (auto simp: drop_constraint_def applied_def no_change_def map_of_dict_drop split: prod.splits)
  qed (use drop_check in \<open>auto simp: drop_constraint_def ict_kept_def split: if_split_asm\<close>)
next
  case (set props ch)
  obtain s where s: "set_all st props (conf_settings (conf_of st)) = Inr s"
    using set by (auto simp: set_properties_def elim!: bind_result_InrE)
  have "mapping_kept st (conf_settings (conf_of st))" "features_kept st (conf_settings (conf_of st))"
    "ict_kept st (conf_settings (conf_of st))"
    by (simp_all add: mapping_kept_def features_kept_def ict_kept_def)
  then have "ict_kept st s" using set_all_kept [OF s] by blast
  moreover have "conf_of (applied st ch) = se_conf s"
    using set s if_changed_meta by (auto simp: set_properties_def applied_def Let_def elim!: bind_result_InrE)
  ultimately show ?case by (simp add: ict_kept_def)
next
  case (unset keys b ch)
  obtain conf removed where u: "unset_all b (conf_of st) [] keys = Inr (conf, removed)"
    using unset by (auto simp: unset_properties_def elim!: bind_result_InrE)
  have "is_true conf ict_key \<Longrightarrow> is_true (conf_of st) ict_key"
  proof -
    assume t: "is_true conf ict_key"
    have "py_lower ''false'' \<noteq> ''true''" by code_simp
    then obtain v where "map_of conf ict_key = Some v"
      using t by (cases "map_of conf ict_key") (auto simp: is_true_def conf_get_def)
    then show "is_true (conf_of st) ict_key"
      using t unset_all_sub [OF u] by (simp add: is_true_def conf_get_def)
  qed
  moreover have "conf_of (applied st ch) = conf \<or> conf_of (applied st ch) = conf_of st"
    using unset u by (auto simp: unset_properties_def refused_def Let_def applied_def no_change_def elim!: bind_result_InrE split: if_split_asm)
  moreover have "map_of conf k = map_of (conf_of st) k" if "k \<in> {ict_version_key, ict_timestamp_key}" for k
    by (rule unset_all_conf [OF u]) (use that in blast)
  ultimately show ?case
    by (cases "is_true (conf_of st) ict_key") (auto simp: ict_kept_def)
qed (auto simp: column_changes_conf alter_type_conf intro!: ict_kept_conf)

lemma mark_no_number: "int_text t \<noteq> ict_mark"
proof
  assume "int_text t = ict_mark"
  then have "py_int ict_mark = Some t" using py_int_text [of t] by simp
  moreover have "py_int ict_mark = None" by code_simp
  ultimately show False by simp
qed

lemma fill_stamp:
  "map_of (md_configuration (fill_enablement t md)) ict_timestamp_key =
     (if map_of (md_configuration md) ict_timestamp_key = Some ict_mark then Some (int_text t)
      else map_of (md_configuration md) ict_timestamp_key)"
  by (simp add: fill_enablement_def map_of_dict_set)

lemma commit_ict:
  assumes "ict_ok st" "commits st st'"
  shows "ict_ok st'"
    and "is_true (conf_of st') ict_key \<Longrightarrow>
      \<exists>t. ts_timestamp st' = Some t \<and> (case ts_timestamp st of None \<Rightarrow> 0 | Some u \<Rightarrow> u) < t"
proof -
  from assms(2) obtain ch now co where 1: "st' = committed st co" "changes st ch" "build_actions st ch now = Inr co"
    by (rule commitsE)
  note p = committed_parts [OF 1(3)] and b = build_actions_parts [OF 1(3)]
  let ?t = "co_timestamp co" and ?c = "conf_of (applied st ch)"
  have k: "ict_kept st (conf_settings ?c)" by (rule changes_ict [OF 1(2)])
  have on: "is_true (conf_of st') ict_key = is_true ?c ict_key"
    using p(5) [of ict_key] unfolding 1(1) by (simp add: is_true_def conf_get_def)
  have t: "ts_timestamp st' = Some ?t" "ts_version st' = ts_version st + 1"
    using p(6,7) by (simp_all add: 1(1))
  show later: "\<exists>t. ts_timestamp st' = Some t \<and> (case ts_timestamp st of None \<Rightarrow> 0 | Some u \<Rightarrow> u) < t"
    if "is_true (conf_of st') ict_key"
    using b(4) that t on by simp
  have v: "map_of (conf_of st') ict_version_key = map_of ?c ict_version_key"
    using p(5) [of ict_version_key] by (simp add: 1(1))
  have s: "map_of (conf_of st') ict_timestamp_key = (if map_of ?c ict_timestamp_key = Some ict_mark \<and> ch_meta ch \<noteq> None
      then Some (int_text ?t) else map_of ?c ict_timestamp_key)"
  proof (cases "ch_meta ch")
    case None
    then show ?thesis using b(3) by (simp add: 1(1) committed_def applied_def)
  next
    case (Some md)
    then have "conf_of st' = md_configuration (fill_enablement ?t md)" "?c = md_configuration md"
      using b(3) by (simp_all add: 1(1) committed_def applied_def)
    then show ?thesis using fill_stamp [of ?t md] Some by simp
  qed
  show "ict_ok st'"
  proof (cases "is_true ?c ict_key \<and> \<not> is_true (conf_of st) ict_key")
    case True
    then have "map_of ?c ict_version_key = Some (int_text (ts_version st + 1))"
      "map_of ?c ict_timestamp_key = Some ict_mark" using k by (auto simp: ict_kept_def)
    moreover have "ch_meta ch \<noteq> None" using True by (cases "ch_meta ch") (auto simp: applied_def)
    ultimately have "map_of (conf_of st') ict_version_key = Some (int_text (ts_version st'))"
      "map_of (conf_of st') ict_timestamp_key = Some (int_text ?t)" using v s t by simp_all
    then show ?thesis unfolding ict_ok_def using t by blast
  next
    case old: False
    show ?thesis
    proof (cases "is_true ?c ict_key")
      case True
      then have "is_true (conf_of st) ict_key" using old by blast
      then have same: "map_of ?c ict_version_key = map_of (conf_of st) ict_version_key"
        "map_of ?c ict_timestamp_key = map_of (conf_of st) ict_timestamp_key"
        and o: "(map_of (conf_of st) ict_version_key = None \<and> map_of (conf_of st) ict_timestamp_key = None)
        \<or> (\<exists>v u now. map_of (conf_of st) ict_version_key = Some (int_text v)
             \<and> map_of (conf_of st) ict_timestamp_key = Some (int_text u)
             \<and> ts_timestamp st = Some now \<and> v \<le> ts_version st \<and> u \<le> now)"
        using k assms(1) unfolding ict_kept_def ict_ok_def by simp_all
      have "map_of (conf_of st') ict_timestamp_key = map_of (conf_of st) ict_timestamp_key"
        using s same o mark_no_number mark_no_number [symmetric] by (auto split: if_split_asm)
      then show ?thesis
        using o v same t later [unfolded on, OF True] by (fastforce simp: ict_ok_def)
    qed (use on in \<open>simp add: ict_ok_def\<close>)
  qed
qed

lemma reached_ict: "reached st st' \<Longrightarrow> ict_ok st \<Longrightarrow> ict_ok st'"
  by (induction rule: reached.induct) (use commit_ict(1) in blast)+

end
