(* ===== verification/Meta_Claims.thy ===== *)
theory Meta_Claims
  imports Meta_Reached
begin

text \<open>
  What holds of every table reached by commits of metadata changes, with a sample history.
\<close>

section \<open>A sample history\<close>

definition sample_column :: "string \<Rightarrow> string \<Rightarrow> int \<Rightarrow> string \<Rightarrow> column" where
  "sample_column n t i p = Column n (Prim t) True [(cm_id, JInt i), (cm_physical, JStr p)]"

definition table_with :: "int \<Rightarrow> int \<Rightarrow> column list \<Rightarrow> string \<Rightarrow> table_state" where
  "table_with v t fs m =
     \<lparr>ts_version = v,
      ts_protocol = \<lparr>pr_reader = 3, pr_writer = 7, pr_reader_features = Some [''columnMapping''],
        pr_writer_features = Some [''columnMapping'', ''inCommitTimestamp'', ''clustering'', ''domainMetadata'']\<rparr>,
      ts_meta = \<lparr>md_schema = fs, md_partitions = [],
        md_configuration = [(cm_mode, ''name''), (cm_max, m), (ict_key, ''true'')],
        md_description = None, md_other = []\<rparr>,
      ts_timestamp = Some t, ts_clustering = Some [[''id'']]\<rparr>"

definition table_before :: table_state where
  "table_before = table_with 5 1000 [sample_column ''id'' ''long'' 1 ''id'', sample_column ''v'' ''string'' 2 ''v''] ''2''"

definition table_dropped :: table_state where
  "table_dropped = table_with 6 1001 [sample_column ''id'' ''long'' 1 ''id''] ''2''"

definition table_after :: table_state where
  "table_after = table_with 7 1500 [sample_column ''id'' ''long'' 1 ''id'', sample_column ''v'' ''string'' 3 ''col-3''] ''3''"

text \<open>One commit of a change computed at a time.\<close>

definition commit_change :: "table_state \<Rightarrow> meta_error + change \<Rightarrow> int \<Rightarrow> table_state option" where
  "commit_change st r now =
     (case r of Inl e \<Rightarrow> None
      | Inr ch \<Rightarrow> (case build_actions st ch now of Inl e \<Rightarrow> None | Inr co \<Rightarrow> Some (committed st co)))"

lemma commit_change_commits:
  "commit_change st (Inr ch) now = Some st' \<Longrightarrow> changes st ch \<Longrightarrow> commits st st'"
  by (auto simp: commit_change_def intro: commits.intros split: sum.splits)

lemma inj_int_text: "inj int_text"
  using py_int_text by (metis injI option.inject)

definition new_fields :: "json list" where
  "new_fields = [JObj [(''name'', JStr ''v''), (''type'', JStr ''string'')]]"

lemma sample_commits: "commits table_before table_dropped" "commits table_dropped table_after"
proof -
  have 1: "commit_change table_before (drop_column table_before ''v'') 500 = Some table_dropped" by code_simp
  then obtain ch where ch: "drop_column table_before ''v'' = Inr ch"
    by (auto simp: commit_change_def split: sum.splits)
  show "commits table_before table_dropped"
    by (rule commit_change_commits [OF 1 [unfolded ch]]) (rule changes.drop [OF ch])
  have 2: "commit_change table_dropped (add_columns int_text table_dropped new_fields) 1500 = Some table_after" by code_simp
  then obtain ch where ch: "add_columns int_text table_dropped new_fields = Inr ch"
    by (auto simp: commit_change_def split: sum.splits)
  have "fresh_names int_text (schema_cols table_dropped)"
    unfolding fresh_names_def using inj_int_text
    by (simp add: table_dropped_def table_with_def sample_column_def physical_of_def json_text_def int_text_def cm_id_def cm_physical_def)
  then show "commits table_dropped table_after"
    by (intro commit_change_commits [OF 2 [unfolded ch]] changes.add [OF ch])
qed

lemma sample_reached: "reached table_before table_after"
  by (rule reached.step [OF reached.step [OF reached.start sample_commits(1)] sample_commits(2)])

lemma sample_ok: "table_ok table_before"
proof -
  have 1: "siblings_differ lower_column (Struct (schema_cols table_before))" by code_simp
  have 2: "maps_columns (conf_of table_before)" by code_simp
  have 3: "keys_of (schema_cols table_before) = [(Some (JInt 1), Some (JStr ''id'')), (Some (JInt 2), Some (JStr ''v''))]"
    by code_simp
  have 4: "recorded_max (conf_of table_before) = Some 2" by code_simp
  have 5: "siblings_differ physical_of (Struct (schema_cols table_before))" by code_simp
  have "columns_mapped (conf_of table_before) (schema_cols table_before)"
    unfolding columns_mapped_def 3 4 using 5 by (simp add: field_mapped_def del: siblings_differ.simps)
  then have "columns_ok (conf_of table_before) (schema_cols table_before)"
    using 1 2 by (simp add: columns_ok_def)
  moreover have "partitions_ok (schema_cols table_before) (md_partitions (ts_meta table_before))" by code_simp
  moreover have "features_ok (ts_protocol table_before) (conf_of table_before)" by code_simp
  ultimately show ?thesis by (simp add: table_ok_def)
qed

section \<open>Every table reached\<close>

text \<open>C2: however metadata changes follow one another, whatever mapping metadata of other tables the
  columns added carry, sibling columns keep names that differ in more than case; and under column
  mapping every column has an id of its own, none above the recorded maximum, which is the maximum
  the next change counts from, and a physical name no sibling has.  (The names drawn for new
  columns, random UUIDs, are taken to be new to the table.)\<close>

theorem reached_columns_identified:
  assumes "reached st st'" "table_ok st"
  shows "siblings_differ lower_column (Struct (schema_cols st'))
    \<and> (maps_columns (conf_of st') \<longrightarrow>
         siblings_differ physical_of (Struct (schema_cols st'))
         \<and> (\<exists>m. recorded_max (conf_of st') = Some m \<and> max_column_id (ts_meta st') = Some m
            \<and> distinct (map fst (keys_of (schema_cols st')))
            \<and> list_all (\<lambda>f. \<exists>i p. field_key f = (Some (JInt i), Some (JStr p)) \<and> i \<le> m) (walk_fields (schema_cols st'))))"
proof -
  have ok: "columns_ok (conf_of st') (schema_cols st')"
    using reached_keeps [OF assms] by (simp add: table_ok_def)
  then show ?thesis
    using max_column_id_mapped [of "ts_meta st'"]
    by (auto simp: columns_ok_def columns_mapped_def field_mapped_def list_all_iff
        simp del: siblings_differ.simps walk.simps)
qed

theorem reached_columns_identified_witness:
  "siblings_differ physical_of (Struct (schema_cols table_after))
    \<and> max_column_id (ts_meta table_after) = Some 3"
proof -
  have "maps_columns (conf_of table_after)" "recorded_max (conf_of table_after) = Some 3" by code_simp+
  then show ?thesis using reached_columns_identified [OF sample_reached sample_ok] by simp
qed

text \<open>C1: a dropped column never comes back: in a table with column mapping, a column of any later
  table whose id the earlier table had given out is a column the earlier table has, under the
  same physical name, so the data files of a dropped column are not read as those of a new one.\<close>

theorem no_column_comes_back:
  assumes "reached st st'" "table_ok st" "maps_columns (conf_of st)" "recorded_max (conf_of st) = Some m"
    and "f \<in> set (walk_fields (schema_cols st'))" "map_of (col_meta f) cm_id = Some (JInt i)" "i \<le> m"
  shows "\<exists>g\<in>set (walk_fields (schema_cols st)).
      map_of (col_meta g) cm_id = Some (JInt i) \<and> physical_of g = physical_of f"
proof -
  have ok: "table_ok st'" and d: "descends st st'" using reached_keeps [OF assms(1,2)] by auto
  then have maps: "maps_columns (conf_of st')" and old: "old_ids m (schema_cols st') \<subseteq> set (keys_of (schema_cols st))"
    using assms(3,4) by (auto simp: descends_def simp del: walk.simps)
  have "field_key f \<in> old_ids m (schema_cols st')"
  proof -
    have "field_key f \<in> set (keys_of (schema_cols st'))" using assms(5) unfolding set_map by (rule imageI)
    then show ?thesis using assms(6,7) by (simp add: old_ids_def field_key_def)
  qed
  then obtain g where g: "g \<in> set (walk_fields (schema_cols st))" "field_key f = field_key g"
    using old by (auto simp del: walk.simps)
  obtain p where "snd (field_key f) = Some (JStr p)"
    using ok maps assms(5) by (fastforce simp: table_ok_def columns_ok_def columns_mapped_def field_mapped_def
        simp del: walk.simps siblings_differ.simps)
  then have "physical_of g = physical_of f" using g(2) physical_of_key [of f] physical_of_key [of g] by simp
  then show ?thesis using g assms(6) by (auto simp: field_key_def)
qed

theorem no_column_comes_back_witness:
  "\<exists>g\<in>set (walk_fields (schema_cols table_before)).
      map_of (col_meta g) cm_id = Some (JInt 1)
      \<and> physical_of g = physical_of (sample_column ''id'' ''long'' 1 ''id'')"
proof (rule no_column_comes_back [OF sample_reached sample_ok])
  show "maps_columns (conf_of table_before)" "recorded_max (conf_of table_before) = Some 2"
    "map_of (col_meta (sample_column ''id'' ''long'' 1 ''id'')) cm_id = Some (JInt 1)" by code_simp+
  show "sample_column ''id'' ''long'' 1 ''id'' \<in> set (walk_fields (schema_cols table_after))"
    by (simp add: table_after_def table_with_def)
qed simp

text \<open>C3: the partition columns of every table reached are columns it has, whatever was renamed,
  dropped, widened, added or mapped.  So are its clustering keys, each a physical path that leads
  to a column, if those of the first table are and either that table maps its columns or no commit
  on the way starts from a table that carries physical names of another table while it maps none.
  (The condition is needed: a nested field added keeps such a name, and a key written with it is
  lost when column mapping is turned on.)\<close>

theorem reached_keys_resolve:
  assumes "reached st st'" "table_ok st"
  shows "list_all (\<lambda>p. list_ex (\<lambda>f. same_name (col_name f) p) (schema_cols st')) (md_partitions (ts_meta st'))
    \<and> (list_all (\<lambda>k. logical_path (schema_cols st) k \<noteq> None) (clustering_keys st)
         \<and> (maps_columns (conf_of st) \<or> own_reached st st') \<longrightarrow>
       list_all (\<lambda>k. logical_path (schema_cols st') k \<noteq> None) (clustering_keys st'))"
proof -
  have resolve: "keys_ok t \<longleftrightarrow> list_all (\<lambda>k. logical_path (schema_cols t) k \<noteq> None) (clustering_keys t)" for t
    unfolding keys_ok_def clustering_ok_def list_all_iff logical_path_reaches ..
  have "partitions_ok (schema_cols st') (md_partitions (ts_meta st'))"
    using reached_keeps [OF assms] by (simp add: table_ok_def)
  then have "list_all (\<lambda>p. list_ex (\<lambda>f. same_name (col_name f) p) (schema_cols st')) (md_partitions (ts_meta st'))"
    by (fastforce simp: partitions_ok_def list_all_iff list_ex_iff same_name_def lower_column_def)
  moreover have "keys_ok st' " if "keys_ok st" "maps_columns (conf_of st) \<or> own_reached st st'"
    using that mapped_own_reached [OF assms] own_reached_keys assms(2) by blast
  ultimately show ?thesis unfolding resolve by blast
qed

theorem reached_keys_resolve_witness: "logical_path (schema_cols table_after) [''id''] \<noteq> None"
proof -
  have "clustering_keys table_after = [[''id'']]" "maps_columns (conf_of table_before)"
    "list_all (\<lambda>k. logical_path (schema_cols table_before) k \<noteq> None) (clustering_keys table_before)" by code_simp+
  then show ?thesis using reached_keys_resolve [OF sample_reached sample_ok] by simp
qed

text \<open>C12: in every table reached, a property or mapping mode that needs a table feature is only on
  while the protocol supports the feature, or its preview.\<close>

theorem reached_features_supported:
  assumes "reached st st'" "table_ok st"
  shows "list_all (\<lambda>(k, f). map_of (conf_of st') k \<noteq> Some ''true''
        \<or> f \<in> supported_features (ts_protocol st') \<or> previewed (supported_features (ts_protocol st')) f) enabling
    \<and> (\<not> maps_columns (conf_of st') \<or> ''columnMapping'' \<in> supported_features (ts_protocol st')
        \<or> previewed (supported_features (ts_protocol st')) ''columnMapping'')"
  using reached_keeps [OF assms] by (auto simp: table_ok_def features_ok_def provides_def list_all_iff)

theorem reached_features_supported_witness:
  "''inCommitTimestamp'' \<in> supported_features (ts_protocol table_after)
    \<or> previewed (supported_features (ts_protocol table_after)) ''inCommitTimestamp''"
proof -
  have "map_of (conf_of table_after) ''delta.enableInCommitTimestamps'' = Some ''true''" by code_simp
  then show ?thesis
    using reached_features_supported [OF sample_reached sample_ok] by (auto simp: enabling_def)
qed

text \<open>C4: once in-commit timestamps are on, each commit is stamped later than the one before, even
  where the clock went back, and the table says from which version and time on they hold: one
  it has reached, with no placeholder left, unless it had them from its first commit.\<close>

theorem in_commit_timestamps_increase:
  assumes "reached st st'" "ict_ok st" "commits st' st''" "is_true (conf_of st'') ict_key"
  shows "\<exists>t. ts_timestamp st'' = Some t
      \<and> (case ts_timestamp st' of None \<Rightarrow> 0 | Some u \<Rightarrow> u) < t
      \<and> ((map_of (conf_of st'') ict_version_key = None \<and> map_of (conf_of st'') ict_timestamp_key = None)
         \<or> (\<exists>v u. map_of (conf_of st'') ict_version_key = Some (int_text v)
              \<and> map_of (conf_of st'') ict_timestamp_key = Some (int_text u) \<and> v \<le> ts_version st'' \<and> u \<le> t))"
proof -
  have ok: "ict_ok st'" by (rule reached_ict [OF assms(1,2)])
  obtain t where t: "ts_timestamp st'' = Some t" "(case ts_timestamp st' of None \<Rightarrow> 0 | Some u \<Rightarrow> u) < t"
    using commit_ict(2) [OF ok assms(3,4)] by blast
  show ?thesis using commit_ict(1) [OF ok assms(3)] assms(4) t unfolding ict_ok_def by auto
qed

theorem in_commit_timestamps_increase_witness: "(1000::int) < 1001 \<and> ts_timestamp table_dropped = Some 1001"
proof -
  have 1: "ict_ok table_before" "is_true (conf_of table_dropped) ict_key"
  proof -
    have "map_of (conf_of table_before) ict_version_key = None" "map_of (conf_of table_before) ict_timestamp_key = None"
      by code_simp+
    then show "ict_ok table_before" by (simp add: ict_ok_def)
    show "is_true (conf_of table_dropped) ict_key" by code_simp
  qed
  have 2: "ts_timestamp table_before = Some 1000" "ts_timestamp table_dropped = Some 1001"
    by (simp_all add: table_before_def table_dropped_def table_with_def)
  show ?thesis
    using in_commit_timestamps_increase [OF reached.start 1(1) sample_commits(1) 1(2)] 2 by simp
qed

section \<open>Names of another table\<close>

text \<open>\<open>add_columns\<close> takes the mapping metadata of another table from a new field, but not from the
  fields inside it.  Without column mapping such a name is then written into the clustering keys,
  and turning the mapping on leaves the key without a column.\<close>

definition foreign_field :: json where
  "foreign_field = JObj [(''name'', JStr ''s''),
     (''type'', JObj [(''type'', JStr ''struct''), (''fields'', JArr [JObj [(''name'', JStr ''x''), (''type'', JStr ''long''),
        (''metadata'', JObj [(cm_physical, JStr ''col-z'')])]])])]"

definition plain_table :: table_state where
  "plain_table = (table_with 5 1000 [Column ''id'' (Prim ''long'') True []] ''0'')\<lparr>
     ts_meta := \<lparr>md_schema = [Column ''id'' (Prim ''long'') True []], md_partitions = [], md_configuration = [],
       md_description = None, md_other = []\<rparr>, ts_clustering := None\<rparr>"

definition with_foreign :: "table_state option" where
  "with_foreign = commit_change plain_table (add_columns int_text plain_table [foreign_field]) 1001"

definition clustered_foreign :: "table_state option" where
  "clustered_foreign = Option.bind with_foreign (\<lambda>st. commit_change st (cluster_by st [''s.x'']) 1002)"

lemma foreign_name_loses_key:
  "case clustered_foreign of None \<Rightarrow> False
   | Some st \<Rightarrow> clustering_keys st = [[''s'', ''col-z'']]
       \<and> logical_path (schema_cols st) [''s'', ''col-z''] = Some [''s'', ''x'']
       \<and> (case commit_change st (set_properties st [(cm_mode, VText ''name'')]) 1003 of None \<Rightarrow> False
          | Some st' \<Rightarrow> clustering_keys st' = [[''s'', ''col-z'']]
              \<and> logical_path (schema_cols st') [''s'', ''col-z''] = None)"
  by code_simp

end
