(* ===== verification/Meta_Create.thy ===== *)
theory Meta_Create
  imports Meta_Reached
begin

text \<open>
  \<open>engine/metadata.py\<close>: version zero of a catalog-managed table (\<open>initial_actions\<close>), from its
  schema, the protocol and properties its catalog requires and those of the caller.
\<close>

section \<open>What a creation is refused for\<close>

datatype create_refusal =
    OfMeta meta_error | NoConfigValue string | NotAStruct | OnlySupportedAt string | CreateMode string
  | CreateClash "string list" | TimestampsRequired | PartitionMissing string | PartitionNested string
  | PartitionTwice string | NoDataColumns | PartitionedAndClustered

definition of_meta :: "meta_error + 'a \<Rightarrow> create_refusal + 'a" where
  "of_meta r = (case r of Inl e \<Rightarrow> Inl (OfMeta e) | Inr a \<Rightarrow> Inr a)"

lemma of_meta_Inr [simp]: "of_meta r = Inr a \<longleftrightarrow> r = Inr a"
  by (cases r) (auto simp: of_meta_def)

text \<open>A field of the catalog's required protocol: feature names, a version or null.\<close>

datatype wire_field = WireNames "string list" | WireVersion int | WireNull

fun wire :: "(string \<times> wire_field) list \<Rightarrow> string list \<Rightarrow> wire_field option" where
  "wire required [] = None"
| "wire required (n # ns) = (case map_of required n of Some v \<Rightarrow> Some v | None \<Rightarrow> wire required ns)"

definition wire_names :: "wire_field option \<Rightarrow> string list" where
  "wire_names v = (case v of Some (WireNames ns) \<Rightarrow> ns | _ \<Rightarrow> [])"

definition wire_version :: "wire_field option \<Rightarrow> int \<Rightarrow> int" where
  "wire_version v d = (case v of Some (WireVersion i) \<Rightarrow> (if i = 0 then d else i) | _ \<Rightarrow> d)"

definition required_writers :: "(string \<times> wire_field) list \<Rightarrow> string list" where
  "required_writers r = wire_names (wire r [''writer-features'', ''writerFeatures''])"

definition required_readers :: "(string \<times> wire_field) list \<Rightarrow> string list" where
  "required_readers r = wire_names (wire r [''reader-features'', ''readerFeatures''])"

definition required_reader_version :: "(string \<times> wire_field) list \<Rightarrow> int" where
  "required_reader_version r = wire_version (wire r [''min-reader-version'', ''minReaderVersion'']) 3"

section \<open>Properties\<close>

text \<open>One property: the configuration and the features signalled so far, extended.\<close>

definition create_entry :: "column list \<Rightarrow> string \<times> prop_value \<Rightarrow> (string \<times> string) list \<times> string list
    \<Rightarrow> create_refusal + (string \<times> string) list \<times> string list" where
  "create_entry fs kv cs =
     (case kv of (rk, given) \<Rightarrow>
        let k = canonical_property rk in
        if starts_with k feature_prefix
        then if py_lower (str_of given) \<in> {''supported'', ''enabled''}
             then Inr (fst cs, snd cs @ [canonical_feature (drop (length feature_prefix) k)])
             else Inl (OnlySupportedAt k)
        else if k \<in> set known_keys \<or> k \<in> set boolean_keys
        then bind_result (of_meta (normalise_value fs k given)) (\<lambda>v. Inr (dict_set k v (fst cs), snd cs))
        else Inr (dict_set k (value_text given) (fst cs), snd cs))"

fun create_entries :: "column list \<Rightarrow> (string \<times> prop_value) list \<Rightarrow> (string \<times> string) list \<times> string list
    \<Rightarrow> create_refusal + (string \<times> string) list \<times> string list" where
  "create_entries fs [] cs = Inr cs"
| "create_entries fs (kv # kvs) cs = bind_result (create_entry fs kv cs) (create_entries fs kvs)"

definition no_value :: "(string \<times> prop_value) list \<Rightarrow> create_refusal option" where
  "no_value configuration = map_option (\<lambda>(k, v). NoConfigValue k) (List.find (\<lambda>(k, v). v = VNone) configuration)"

definition config_refusal :: "column list \<Rightarrow> (string \<times> string) list \<Rightarrow> create_refusal option" where
  "config_refusal fs conf =
     (if (case map_of conf cm_mode of None \<Rightarrow> False | Some m \<Rightarrow> m \<notin> {''none'', ''name'', ''id''})
      then Some (CreateMode (conf_get conf cm_mode []))
      else if feed_enabled conf \<and> feed_clash fs \<noteq> [] then Some (CreateClash (feed_clash fs))
      else None)"

definition row_tracking :: "(string \<times> string) list \<Rightarrow> bool" where
  "row_tracking conf \<longleftrightarrow> py_lower (conf_get conf row_tracking_key []) = ''true''"

text \<open>Features from the catalog, from signals and from the properties that are on.\<close>

definition property_features :: "(string \<times> string) list \<Rightarrow> string list" where
  "property_features conf =
     map snd (filter (\<lambda>(k, f). py_lower (conf_get conf k []) = ''true'') enabling)
     @ (if py_lower (conf_get conf ''delta.checkpointPolicy'' []) = ''v2'' then [''v2Checkpoint''] else [])
     @ (if row_tracking conf then [''rowTracking''] else [])"

definition set_default :: "string \<Rightarrow> string \<Rightarrow> (string \<times> string) list \<Rightarrow> (string \<times> string) list" where
  "set_default k v conf = (if map_of conf k = None then dict_set k v conf else conf)"

definition row_tracking_names :: "(int \<Rightarrow> string) \<Rightarrow> (string \<times> string) list \<Rightarrow> (string \<times> string) list" where
  "row_tracking_names uuid conf =
     (if row_tracking conf
      then set_default ''delta.rowTracking.materializedRowCommitVersionColumnName''
             (''_row-commit-version-col-'' @ uuid (- 2))
           (set_default ''delta.rowTracking.materializedRowIdColumnName'' (''_row-id-col-'' @ uuid (- 1)) conf)
      else conf)"

text \<open>A catalog-managed table has in-commit timestamps on.\<close>

definition catalog_timestamps ::
  "string list \<Rightarrow> (string \<times> string) list \<Rightarrow> create_refusal + (string \<times> string) list \<times> string list" where
  "catalog_timestamps needed conf =
     (if list_ex (\<lambda>f. f \<in> set needed) catalog_features
      then if conf_get conf ict_key ''true'' \<noteq> ''true'' then Inl TimestampsRequired
           else Inr (dict_set ict_key ''true'' conf, [''inCommitTimestamp''])
      else Inr (conf, []))"

section \<open>Columns, partitions and clustering keys\<close>

definition create_columns :: "(int \<Rightarrow> string) \<Rightarrow> column list \<Rightarrow> (string \<times> string) list
    \<Rightarrow> create_refusal + column list \<times> (string \<times> string) list \<times> string list" where
  "create_columns uuid fs conf =
     (let mapped = maps_columns conf in
      case check_names mapped fs of
        Some e \<Rightarrow> Inl (OfMeta (BadNames e))
      | None \<Rightarrow>
          let needed = type_features (Struct fs) @ column_features fs in
          if \<not> mapped then Inr (fs, conf, needed)
          else let r = assign_ids (\<lambda>i f. ''col-'' @ uuid i) 1 fs
               in Inr (fst r, dict_set cm_max (int_text (snd r - 1)) conf, needed @ [''columnMapping'']))"

fun partition_names :: "column list \<Rightarrow> string list \<Rightarrow> string list \<Rightarrow> create_refusal + string list" where
  "partition_names fs chosen [] = Inr chosen"
| "partition_names fs chosen (c # cs) =
     (case index_of c fs of
        None \<Rightarrow> Inl (PartitionMissing c)
      | Some i \<Rightarrow>
          let f = fs ! i in
          if (case col_type f of Prim k \<Rightarrow> False | _ \<Rightarrow> True) then Inl (PartitionNested c)
          else if col_name f \<in> set chosen then Inl (PartitionTwice c)
          else partition_names fs (chosen @ [col_name f]) cs)"

definition legacy_protocol :: protocol where
  "legacy_protocol = \<lparr>pr_reader = 1, pr_writer = 1, pr_reader_features = None, pr_writer_features = None\<rparr>"

definition initial_writers :: "string list \<Rightarrow> string set" where
  "initial_writers needed =
     set (case with_features legacy_protocol needed of None \<Rightarrow> [] | Some p \<Rightarrow> listed (pr_writer_features p))"

definition initial_protocol :: "(string \<times> wire_field) list \<Rightarrow> string list \<Rightarrow> protocol" where
  "initial_protocol required needed =
     (let writers = initial_writers needed;
          readers = Set.filter reader_writer writers \<union> set (required_readers required)
      in \<lparr>pr_reader = max 3 (required_reader_version required), pr_writer = 7,
          pr_reader_features = Some (sorted_list_of_set readers),
          pr_writer_features = Some (sorted_list_of_set (writers \<union> set (required_readers required)))\<rparr>)"

definition draft_table :: "column list \<Rightarrow> (string \<times> string) list \<Rightarrow> table_state" where
  "draft_table fs conf =
     \<lparr>ts_version = - 1,
      ts_protocol = legacy_protocol,
      ts_meta = \<lparr>md_schema = fs, md_partitions = [], md_configuration = conf, md_description = None, md_other = []\<rparr>,
      ts_timestamp = None, ts_clustering = None\<rparr>"

text \<open>\<open>cluster_by_domains\<close>: the clustering keys and the features they need.\<close>

definition create_keys :: "column list \<Rightarrow> (string \<times> string) list \<Rightarrow> string list \<Rightarrow> string list
    \<Rightarrow> create_refusal + string list list option \<times> string list" where
  "create_keys fs conf partitions keys =
     (if keys = [] then Inr (None, [])
      else if partitions \<noteq> [] then Inl PartitionedAndClustered
      else bind_result (of_meta (cluster_by (draft_table fs conf) keys)) (\<lambda>ch.
             Inr (ch_clustering ch, [''clustering'', ''domainMetadata''])))"

section \<open>Version zero\<close>

record creation =
  cr_schema :: json
  cr_required :: "(string \<times> wire_field) list"
  cr_configuration :: "(string \<times> prop_value) list"
  cr_partitions :: "string list"
  cr_keys :: "string list"
  cr_description :: "string option"
  cr_other :: "(string \<times> json) list"

definition create_fields :: "json \<Rightarrow> create_refusal + column list" where
  "create_fields j = bind_result (of_meta (checked_type j)) (\<lambda>t. case t of Struct fs \<Rightarrow> Inr fs | _ \<Rightarrow> Inl NotAStruct)"

definition initial_table :: "(int \<Rightarrow> string) \<Rightarrow> creation \<Rightarrow> int \<Rightarrow> create_refusal + table_state" where
  "initial_table uuid cr now =
     (case no_value (cr_configuration cr) of Some e \<Rightarrow> Inl e | None \<Rightarrow>
      bind_result (create_fields (cr_schema cr)) (\<lambda>fs.
      bind_result (create_entries fs (cr_configuration cr) ([], [])) (\<lambda>(conf, signals).
      case config_refusal fs conf of Some e \<Rightarrow> Inl e | None \<Rightarrow>
      let needed = required_writers (cr_required cr) @ required_readers (cr_required cr) @ signals @ property_features conf in
      bind_result (catalog_timestamps needed (row_tracking_names uuid conf)) (\<lambda>(conf, timestamps).
      bind_result (create_columns uuid fs conf) (\<lambda>(cols, conf, columns).
      bind_result (partition_names cols [] (cr_partitions cr)) (\<lambda>partitions.
      if partitions \<noteq> [] \<and> length partitions = length cols then Inl NoDataColumns else
      bind_result (create_keys cols conf partitions (cr_keys cr)) (\<lambda>(keys, clustering).
        Inr \<lparr>ts_version = 0,
             ts_protocol = initial_protocol (cr_required cr) (needed @ timestamps @ columns @ clustering),
             ts_meta = \<lparr>md_schema = cols, md_partitions = partitions, md_configuration = conf,
                        md_description = cr_description cr, md_other = cr_other cr\<rparr>,
             ts_timestamp = Some now, ts_clustering = keys\<rparr>)))))))"

section \<open>The table created\<close>

lemma initial_tableE:
  assumes "initial_table uuid cr now = Inr st"
  obtains fs conf0 signals needed conf1 timestamps cols conf columns partitions keys clustering where
    "create_fields (cr_schema cr) = Inr fs"
    "create_entries fs (cr_configuration cr) ([], []) = Inr (conf0, signals)"
    "config_refusal fs conf0 = None"
    "needed = required_writers (cr_required cr) @ required_readers (cr_required cr) @ signals @ property_features conf0"
    "catalog_timestamps needed (row_tracking_names uuid conf0) = Inr (conf1, timestamps)"
    "create_columns uuid fs conf1 = Inr (cols, conf, columns)"
    "partition_names cols [] (cr_partitions cr) = Inr partitions"
    "create_keys cols conf partitions (cr_keys cr) = Inr (keys, clustering)"
    "schema_cols st = cols" "conf_of st = conf" "md_partitions (ts_meta st) = partitions"
    "ts_clustering st = keys" "ts_version st = 0" "ts_timestamp st = Some now"
    "ts_protocol st = initial_protocol (cr_required cr) (needed @ timestamps @ columns @ clustering)"
  using assms
  by (auto simp: initial_table_def Let_def elim!: bind_result_InrE split: option.splits if_split_asm)

text \<open>Its protocol lists every feature needed, with its dependencies, and reader-writer features for
  readers too.\<close>

lemma initial_writers_depends: "initial_writers needed = depends (set needed)"
proof -
  have none: "supported_features legacy_protocol = {}"
    by (simp add: legacy_protocol_def supported_features_def metadata_legacy_writer_def)
  have missing: "missing_features legacy_protocol needed = depends (set needed)"
    by (auto simp: mem_missing none previewed_def split: option.splits)
  show ?thesis
  proof (cases "with_features legacy_protocol needed")
    case None
    then show ?thesis using with_features_None [of legacy_protocol needed] by (simp add: initial_writers_def none missing)
  next
    case (Some q)
    have "pr_writer q = 7" using with_features_versions [OF Some] by simp
    then have "supported_features q = set (listed (pr_writer_features q))" by (simp add: supported_features_def)
    then show ?thesis using supported_with_features [OF Some] by (simp add: initial_writers_def Some none missing)
  qed
qed

lemma finite_initial_writers [simp]: "finite (initial_writers needed)"
  unfolding initial_writers_def by (rule finite_set)

lemma initial_protocol_lists:
  "supported_features (initial_protocol required needed) = initial_writers needed \<union> set (required_readers required)"
  "set (listed (pr_reader_features (initial_protocol required needed))) =
     {n \<in> initial_writers needed. reader_writer n} \<union> set (required_readers required)"
  "3 \<le> pr_reader (initial_protocol required needed)"
proof -
  have "finite (Set.filter reader_writer (initial_writers needed))"
    by (rule finite_subset [OF _ finite_initial_writers]) auto
  then show "set (listed (pr_reader_features (initial_protocol required needed))) =
     {n \<in> initial_writers needed. reader_writer n} \<union> set (required_readers required)"
    by (auto simp: initial_protocol_def Let_def listed_def)
qed (simp_all add: initial_protocol_def supported_features_def Let_def listed_def)

lemma initial_protocol_ok:
  assumes "set (required_readers required) \<subseteq> set needed"
  shows "protocol_ok (initial_protocol required needed)"
proof -
  have "set (required_readers required) \<subseteq> initial_writers needed"
    using assms depends.base unfolding initial_writers_depends by blast
  then show ?thesis
    using initial_protocol_lists(3) [of required needed] unfolding protocol_ok_def initial_protocol_lists(1,2) by auto
qed

text \<open>The properties that are on have their features.\<close>

lemma canonical_on: "k \<in> set boolean_keys \<Longrightarrow> normalise_value fs k v = Inr t \<Longrightarrow> t \<in> {''true'', ''false''}"
  by (auto simp: normalise_value_def Let_def valid_choice_def split: if_split_asm)

lemma property_features_on:
  "(k, f) \<in> set enabling \<Longrightarrow> map_of conf k = Some ''true'' \<Longrightarrow> f \<in> set (property_features conf)"
proof -
  have "py_lower ''true'' = ''true''" by code_simp
  then show "(k, f) \<in> set enabling \<Longrightarrow> map_of conf k = Some ''true'' \<Longrightarrow> f \<in> set (property_features conf)"
    by (force simp: property_features_def conf_get_def)
qed

lemma map_of_set_default: "map_of (set_default k v conf) j = (if j = k \<and> map_of conf k = None then Some v else map_of conf j)"
  by (simp add: set_default_def map_of_dict_set)

lemma row_tracking_names_watched: "k \<in> set watched_keys \<Longrightarrow> map_of (row_tracking_names uuid conf) k = map_of conf k"
proof -
  have "list_all (\<lambda>k. k \<noteq> ''delta.rowTracking.materializedRowCommitVersionColumnName''
      \<and> k \<noteq> ''delta.rowTracking.materializedRowIdColumnName'') watched_keys" by code_simp
  then show "k \<in> set watched_keys \<Longrightarrow> map_of (row_tracking_names uuid conf) k = map_of conf k"
    by (auto simp: row_tracking_names_def map_of_set_default list_all_iff)
qed

lemma create_columns_ok:
  assumes "create_columns uuid fs conf = Inr (cols, conf', columns)" "inj uuid"
  shows "columns_ok conf' cols \<and> (maps_columns conf' \<longrightarrow> ''columnMapping'' \<in> set columns)
    \<and> (\<forall>k. k \<noteq> cm_max \<longrightarrow> map_of conf' k = map_of conf k)"
proof -
  have names: "check_names (maps_columns conf) fs = None"
    using assms(1) by (auto simp: create_columns_def Let_def split: option.splits)
  then have low: "siblings_differ lower_column (Struct fs)"
    using check_names_sound(1) [of "maps_columns conf" "{}" fs] by (simp add: check_names_def)
  show ?thesis
  proof (cases "maps_columns conf")
    case False
    then have "cols = fs" "conf' = conf" using assms(1) names by (auto simp: create_columns_def Let_def)
    then show ?thesis
      using low False by (simp add: columns_ok_def del: siblings_differ.simps)
  next
    case True
    define r where "r = assign_ids (\<lambda>i f. ''col-'' @ uuid i) 1 fs"
    have c: "cols = fst r" "conf' = dict_set cm_max (int_text (snd r - 1)) conf" "''columnMapping'' \<in> set columns"
      using assms(1) names True by (auto simp: create_columns_def Let_def r_def simp del: assign_ids.simps)
    note f = fresh_columns [OF assms(2) r_def]
    have "siblings_differ lower_column (Struct (fst r))" using low by (simp add: r_def del: siblings_differ.simps)
    moreover have "columns_mapped conf' cols"
    proof -
      have "field_mapped (snd r - 1) x" if x: "x \<in> set (keys_of (fst r))" for x
      proof -
        obtain g where "g \<in> set (walk_fields (fst r))" "x = field_key g" using x by (auto simp del: walk.simps)
        then show ?thesis using f(2) [of g] by (auto simp: field_mapped_def)
      qed
      then show ?thesis unfolding columns_mapped_def c using f(1,3) by (metis recorded_max_set)
    qed
    moreover have "maps_columns conf'"
      using True by (simp add: c maps_columns_def table_mapping_mode_def conf_get_def map_of_dict_set)
    ultimately show ?thesis using c by (simp add: columns_ok_def map_of_dict_set)
  qed
qed

lemma partition_names_ok:
  "partition_names fs chosen cs = Inr ps \<Longrightarrow> partitions_ok fs chosen \<Longrightarrow> partitions_ok fs ps"
proof (induction fs chosen cs rule: partition_names.induct)
  case (2 fs chosen c cs)
  obtain i where i: "index_of c fs = Some i" using "2.prems"(1) by (auto split: option.splits)
  then have m: "fs ! i \<in> set fs" using index_of_Some [OF i] by simp
  have r: "\<not> (case col_type (fs ! i) of Prim k \<Rightarrow> False | _ \<Rightarrow> True)" "col_name (fs ! i) \<notin> set chosen"
    "partition_names fs (chosen @ [col_name (fs ! i)]) cs = Inr ps"
    using "2.prems"(1) i by (auto simp: Let_def split: if_split_asm)
  have "partitions_ok fs (chosen @ [col_name (fs ! i)])"
    using "2.prems"(2) m by (auto simp: partitions_ok_def lower_column_def)
  then show ?case using "2.IH" [OF i refl r(1,2)] r(3) by blast
qed simp

lemma create_keys_ok:
  assumes "create_keys cols conf partitions ks = Inr (keys, clustering)" "siblings_differ physical_of (Struct cols)"
  shows "clustering_ok cols (case keys of None \<Rightarrow> [] | Some k \<Rightarrow> k)"
proof (cases "ks = []")
  case True
  then show ?thesis using assms(1) by (auto simp: create_keys_def clustering_ok_def)
next
  case False
  then obtain ch where ch: "cluster_by (draft_table cols conf) ks = Inr ch" "keys = ch_clustering ch"
    using assms(1) by (auto simp: create_keys_def elim!: bind_result_InrE split: if_split_asm)
  obtain physical where "key_paths (draft_table cols conf) {} ks = Inr physical"
      "ch_clustering ch \<in> {None, Some physical}"
    using ch(1) by (auto simp: cluster_by_def no_change_def elim!: bind_result_InrE split: if_split_asm)
  then show ?thesis
    using key_paths_reach [of "draft_table cols conf" "{}" ks physical] assms(2) ch(2)
    by (auto simp: draft_table_def clustering_ok_def)
qed

lemma initial_table_ok:
  assumes "initial_table uuid cr now = Inr st" "inj uuid"
  shows "table_ok st \<and> protocol_ok (ts_protocol st) \<and> pr_writer (ts_protocol st) = 7 \<and> (own_names st \<longrightarrow> keys_ok st)"
  using assms(1)
proof (cases rule: initial_tableE)
  case (1 fs conf0 signals needed conf1 timestamps cols conf columns partitions keys clustering)
  let ?all = "needed @ timestamps @ columns @ clustering"
  note cols = create_columns_ok [OF 1(6) assms(2)]
  have c: "columns_ok conf cols" "maps_columns conf \<longrightarrow> ''columnMapping'' \<in> set columns"
    "\<And>k. k \<noteq> cm_max \<Longrightarrow> map_of conf k = map_of conf1 k" using cols by auto
  have provided: "provides (ts_protocol st) f" if "f \<in> set ?all" for f
    using that depends.base [of f "set ?all"]
    unfolding 1(15) provides_def initial_protocol_lists(1) initial_writers_depends by blast
  have "f \<in> set ?all" if k: "(k, f) \<in> set enabling" "map_of conf k = Some ''true''" for k f
  proof (cases "k = ict_key \<and> timestamps \<noteq> []")
    case True
    then have "timestamps = [''inCommitTimestamp'']" using 1(5) by (auto simp: catalog_timestamps_def split: if_split_asm)
    moreover have "f = ''inCommitTimestamp''"
      using enabling_key(1) [OF k(1)] True by (simp add: enabling_def ict_key_def)
    ultimately show ?thesis by simp
  next
    case False
    have "k \<noteq> cm_max" using enabling_key [OF k(1)] by simp
    then have "map_of conf1 k = Some ''true''" using k(2) c(3) by simp
    moreover have "conf1 = row_tracking_names uuid conf0 \<or> (k \<noteq> ict_key \<and> conf1 = dict_set ict_key ''true'' (row_tracking_names uuid conf0))"
      using 1(5) False by (auto simp: catalog_timestamps_def split: if_split_asm)
    ultimately have "map_of (row_tracking_names uuid conf0) k = Some ''true''" by (auto simp: map_of_dict_set)
    moreover have "k \<in> set watched_keys" using k(1) by (force simp: watched_keys_def)
    ultimately have "map_of conf0 k = Some ''true''" using row_tracking_names_watched by simp
    then show ?thesis using property_features_on [OF k(1)] 1(4) by simp
  qed
  then have "features_ok (ts_protocol st) conf"
    using provided c(2) unfolding features_ok_def by auto
  moreover have "partitions_ok cols partitions"
    by (rule partition_names_ok [OF 1(7)]) (simp add: partitions_ok_def)
  moreover have "keys_ok st" if "own_names st"
  proof -
    have "siblings_differ physical_of (Struct cols)"
      by (rule own_fields_physical [OF c(1)]) (use that in \<open>simp add: own_names_def 1(9,10)\<close>)
    from create_keys_ok [OF 1(8) this] show ?thesis by (simp add: keys_ok_def clustering_keys_def 1(9,12))
  qed
  ultimately have "table_ok st" "own_names st \<longrightarrow> keys_ok st" using c(1) by (simp_all add: table_ok_def 1(9-11))
  moreover have "protocol_ok (ts_protocol st)"
    unfolding 1(15) by (rule initial_protocol_ok) (auto simp: 1(4))
  ultimately show ?thesis by (simp add: 1(15) initial_protocol_def Let_def)
qed

section \<open>Every table created\<close>

lemma features_protocol_from: "features_protocol p fs = Some q \<Longrightarrow> with_features p fs = Some q"
  by (simp add: features_protocol_def split: if_split_asm)

text \<open>A change of the protocol is an upgrade.\<close>

lemma changes_protocol:
  "changes st ch \<Longrightarrow> ch_protocol ch = Some p \<Longrightarrow>
     (\<exists>fs. with_features (ts_protocol st) fs = Some p) \<or> constraint_protocol (ts_protocol st) = Some p"
proof (induction rule: changes.induct)
  case (comment c)
  then show ?case by (simp add: set_comment_def Let_def no_change_def)
next
  case (column_comment column c ch)
  then show ?case by (auto simp: set_column_comment_def Let_def no_change_def elim!: bind_result_InrE)
next
  case (nullability column b ch)
  then show ?case by (auto simp: set_nullability_def no_change_def elim!: bind_result_InrE split: if_split_asm)
next
  case (add uuid js ch)
  have "ch_protocol ch \<in> insert None (range (features_protocol (ts_protocol st)))"
    using add(1) by (auto simp: add_columns_def Let_def no_change_def elim!: bind_result_InrE
        split: option.splits if_split_asm simp del: type_features.simps)
  then show ?case using add(3) features_protocol_from by fastforce
next
  case (drop column ch)
  then show ?case by (auto simp: drop_column_def no_change_def elim!: bind_result_InrE split: option.splits)
next
  case (rename old new ch)
  then show ?case
    by (auto simp: rename_column_def Let_def no_change_def elim!: bind_result_InrE split: option.splits if_split_asm)
next
  case (alter column t ch)
  have "ch_protocol ch \<in> insert None (range (with_features (ts_protocol st)))"
    using alter(1) by (auto simp: alter_column_type_def Let_def no_change_def elim!: bind_result_InrE
        split: option.splits if_split_asm delta_type.splits simp del: type_features.simps)
  then show ?case using alter(2) by force
next
  case (constraints cs ch)
  then show ?case by (auto simp: add_constraints_def no_change_def split: sum.splits if_split_asm)
next
  case (drop_check name b ch)
  then show ?case by (auto simp: drop_constraint_def no_change_def split: option.splits if_split_asm)
next
  case (cluster cs ch)
  have "ch_protocol ch \<in> insert None (range (with_features (ts_protocol st)))"
    using cluster(1) by (auto simp: cluster_by_def no_change_def elim!: bind_result_InrE split: if_split_asm)
  then show ?case using cluster(2) by force
next
  case (set props ch)
  have "ch_protocol ch \<in> range (features_protocol (ts_protocol st))"
    using set(1) by (auto simp: set_properties_def Let_def no_change_def elim!: bind_result_InrE)
  then show ?case using set(2) features_protocol_from by force
next
  case (unset keys b ch)
  then show ?case
    by (auto simp: unset_properties_def refused_def Let_def no_change_def elim!: bind_result_InrE split: if_split_asm sum.splits)
qed

lemma reached_protocol:
  "reached st st' \<Longrightarrow> protocol_ok (ts_protocol st) \<Longrightarrow> pr_writer (ts_protocol st) = 7 \<Longrightarrow>
     protocol_ok (ts_protocol st') \<and> pr_writer (ts_protocol st') = 7"
proof (induction rule: reached.induct)
  case (step st st' st'')
  from step.hyps(2) obtain ch now co where 1: "st'' = committed st' co" "changes st' ch" "build_actions st' ch now = Inr co"
    by (rule commitsE)
  have p: "ts_protocol st'' = (case ch_protocol ch of None \<Rightarrow> ts_protocol st' | Some p \<Rightarrow> p)"
    using committed_parts(1) [OF 1(3)] by (simp add: 1(1) applied_def)
  show ?case
  proof (cases "ch_protocol ch")
    case (Some q)
    have "\<exists>fs. with_features (ts_protocol st') fs = Some q"
      using changes_protocol [OF 1(2) Some] step by (auto simp: constraint_protocol_def)
    then show ?thesis using p Some step with_features_ok with_features_versions by fastforce
  qed (use p step in simp)
qed simp

text \<open>C6: a table as this library creates it at version zero, and every table any number of metadata
  commits later, is well formed: columns are told apart, by id and physical name where column
  mapping is on, partition columns exist, the properties that are on have their features, and the
  protocol lists every reader-writer feature for readers, the catalog's unknown ones included.
  The clustering keys lead to columns too, unless the table was created without column mapping
  from a schema with physical names of another table, or a commit on the way starts from a table
  with such names.\<close>

theorem created_tables_stay_sound:
  assumes "initial_table uuid cr now = Inr st" "inj uuid" "reached st st'"
  shows "table_ok st' \<and> protocol_ok (ts_protocol st') \<and> pr_writer (ts_protocol st') = 7
    \<and> (own_names st \<and> own_reached st st' \<longrightarrow> keys_ok st')"
  using initial_table_ok [OF assms(1,2)] reached_keeps [OF assms(3)] reached_protocol [OF assms(3)]
    own_reached_keys by blast

definition sample_creation :: creation where
  "sample_creation =
     \<lparr>cr_schema = JObj [(''type'', JStr ''struct''), (''fields'', JArr [
        JObj [(''name'', JStr ''id''), (''type'', JStr ''long'')],
        JObj [(''name'', JStr ''day''), (''type'', JStr ''date'')]])],
      cr_required = [(''reader-features'', WireNames [''vacuumProtocolCheck''])],
      cr_configuration = [(''delta.columnmapping.mode'', VText ''Name''), (''delta.appendOnly'', VBool True)],
      cr_partitions = [''DAY''], cr_keys = [], cr_description = None, cr_other = []\<rparr>"

theorem created_tables_stay_sound_witness:
  "\<exists>st. initial_table int_text sample_creation 1000 = Inr st \<and> table_ok st \<and> keys_ok st
     \<and> md_partitions (ts_meta st) = [''day''] \<and> maps_columns (conf_of st)"
proof -
  have c: "case initial_table int_text sample_creation 1000 of Inl e \<Rightarrow> False
      | Inr st \<Rightarrow> md_partitions (ts_meta st) = [''day''] \<and> maps_columns (conf_of st)"
    by code_simp
  then obtain st where st: "initial_table int_text sample_creation 1000 = Inr st"
    "md_partitions (ts_meta st) = [''day'']" "maps_columns (conf_of st)" by (auto split: sum.splits)
  have "inj int_text" using py_int_text by (metis injI option.inject)
  from created_tables_stay_sound [OF st(1) this reached.start] own_reached.start [of st] show ?thesis
    using st by (auto simp: own_names_def own_fields_def)
qed

end
