(* ===== verification/Meta_Commit.thy ===== *)
theory Meta_Commit
  imports Meta_Create
begin

text \<open>
  \<open>engine/kernel.py\<close>, \<open>_commit_metadata\<close>: several writers commit metadata changes to one log, each
  reading the newest version, computing its change, and putting the next version if no one else
  has.  Data commits of other writers fall in between, and the store may fail: a read that fails,
  and a put whose outcome the writer never learns, end its commit with that error.
\<close>

section \<open>The log and a writer\<close>

text \<open>The versions of a table, oldest first; the next log file is put only where there is none.\<close>

definition put_if_absent :: "table_state list \<Rightarrow> table_state \<Rightarrow> table_state list option" where
  "put_if_absent vs st = (if ts_version st \<in> ts_version ` set vs then None else Some (vs @ [st]))"

text \<open>A caller's change: a check of the state, and the change as a function of the state.\<close>

record program =
  pg_precheck :: "table_state \<Rightarrow> meta_error option"
  pg_mutate :: "table_state \<Rightarrow> meta_error + change"
  pg_attempts :: nat

datatype phase =
    Ready nat | Pending nat table_state table_commit
  | Finished int | Conflicted | Stopped meta_error | Unread | InDoubt table_state table_commit

definition changes_nothing :: "change \<Rightarrow> bool" where
  "changes_nothing ch \<longleftrightarrow> ch_protocol ch = None \<and> ch_meta ch = None \<and> ch_clustering ch = None"

definition compute :: "program \<Rightarrow> nat \<Rightarrow> table_state \<Rightarrow> int \<Rightarrow> phase" where
  "compute p k st now =
     (case pg_precheck p st of
        Some e \<Rightarrow> Stopped e
      | None \<Rightarrow> (case pg_mutate p st of
          Inl e \<Rightarrow> Stopped e
        | Inr ch \<Rightarrow> if changes_nothing ch then Finished (ts_version st)
                    else (case build_actions st ch now of Inl e \<Rightarrow> Stopped e | Inr co \<Rightarrow> Pending k st co)))"

text \<open>One turn of a writer: its next attempt, or the put of the commit it computed.  Only a conflict,
  which the store reports where the version is there, starts another attempt; where the read or
  the put fails (\<open>broken\<close>), the error goes to the caller, who is not told what became of the put.\<close>

definition writer_turn :: "program \<Rightarrow> int \<Rightarrow> bool \<Rightarrow> table_state list \<Rightarrow> phase \<Rightarrow> table_state list \<times> phase" where
  "writer_turn p now broken vs ph =
     (case ph of
        Ready 0 \<Rightarrow> (vs, Conflicted)
      | Ready (Suc k) \<Rightarrow> (vs, if broken then Unread else compute p k (last vs) now)
      | Pending k st co \<Rightarrow>
          if broken then (vs, InDoubt st co) else
          (case put_if_absent vs (committed st co) of
             None \<Rightarrow> (vs, Ready k)
           | Some vs' \<Rightarrow> (vs', Finished (ts_version st + 1)))
      | _ \<Rightarrow> (vs, ph))"

definition first_phase :: "program \<Rightarrow> phase" where
  "first_phase p = Ready (max 1 (pg_attempts p))"

section \<open>Writers side by side\<close>

text \<open>A commit of data: protocol and metadata stay, in-commit timestamps go on.\<close>

definition data_commit :: "table_state \<Rightarrow> int \<Rightarrow> table_state" where
  "data_commit st now =
     st\<lparr>ts_version := ts_version st + 1,
        ts_timestamp := Some (if is_true (conf_of st) ict_key
          then max now ((case ts_timestamp st of None \<Rightarrow> 0 | Some t \<Rightarrow> t) + 1) else now)\<rparr>"

record log_system =
  lg_log :: "table_state list"
  lg_by :: "nat option list"
  lg_phase :: "nat \<Rightarrow> phase"

definition by_after :: "log_system \<Rightarrow> table_state list \<Rightarrow> nat \<Rightarrow> nat option list" where
  "by_after s vs w = (if length (lg_log s) < length vs then lg_by s @ [Some w] else lg_by s)"

text \<open>A put that failed may have been carried out, or be carried out later, as long as no one has put
  its version.\<close>

inductive log_step :: "(nat \<Rightarrow> program) \<Rightarrow> log_system \<Rightarrow> log_system \<Rightarrow> bool" for ps where
  writer: "writer_turn (ps w) now broken (lg_log s) (lg_phase s w) = (vs, ph) \<Longrightarrow>
     log_step ps s \<lparr>lg_log = vs, lg_by = by_after s vs w, lg_phase = (lg_phase s)(w := ph)\<rparr>"
| late: "lg_phase s w = InDoubt st co \<Longrightarrow> put_if_absent (lg_log s) (committed st co) = Some vs \<Longrightarrow>
     log_step ps s (s\<lparr>lg_log := vs, lg_by := lg_by s @ [Some w]\<rparr>)"
| data: "log_step ps s (s\<lparr>lg_log := lg_log s @ [data_commit (last (lg_log s)) now], lg_by := lg_by s @ [None]\<rparr>)"

inductive log_reached :: "(nat \<Rightarrow> program) \<Rightarrow> table_state \<Rightarrow> log_system \<Rightarrow> bool" for ps st where
  start: "log_reached ps st \<lparr>lg_log = [st], lg_by = [None], lg_phase = (\<lambda>w. first_phase (ps w))\<rparr>"
| step: "log_reached ps st s \<Longrightarrow> log_step ps s s' \<Longrightarrow> log_reached ps st s'"

section \<open>Every commit follows from the version before it\<close>

text \<open>What a writer would commit after a version, were it alone.\<close>

definition serial_commit :: "program \<Rightarrow> table_state \<Rightarrow> table_state \<Rightarrow> bool" where
  "serial_commit p st st' \<longleftrightarrow>
     (\<exists>ch now co. pg_precheck p st = None \<and> pg_mutate p st = Inr ch \<and> \<not> changes_nothing ch
        \<and> build_actions st ch now = Inr co \<and> st' = committed st co)"

definition follows :: "(nat \<Rightarrow> program) \<Rightarrow> nat option \<Rightarrow> table_state \<Rightarrow> table_state \<Rightarrow> bool" where
  "follows ps who st st' \<longleftrightarrow>
     (case who of None \<Rightarrow> (\<exists>now. st' = data_commit st now) | Some w \<Rightarrow> serial_commit (ps w) st st')"

definition chained :: "(nat \<Rightarrow> program) \<Rightarrow> table_state \<Rightarrow> table_state list \<Rightarrow> nat option list \<Rightarrow> bool" where
  "chained ps st vs by \<longleftrightarrow>
     vs \<noteq> [] \<and> length by = length vs \<and> vs ! 0 = st \<and> by ! 0 = None
     \<and> (\<forall>i. Suc i < length vs \<longrightarrow> follows ps (by ! Suc i) (vs ! i) (vs ! Suc i))"

definition phase_ok :: "(nat \<Rightarrow> program) \<Rightarrow> table_state \<Rightarrow> log_system \<Rightarrow> nat \<Rightarrow> bool" where
  "phase_ok ps st s w \<longleftrightarrow>
     (case lg_phase s w of
        Ready k \<Rightarrow> Some w \<notin> set (lg_by s) \<and> k \<le> max 1 (pg_attempts (ps w)) \<and> max 1 (pg_attempts (ps w)) - k < length (lg_log s)
      | Pending k st' co \<Rightarrow>
          Some w \<notin> set (lg_by s) \<and> k < max 1 (pg_attempts (ps w)) \<and> serial_commit (ps w) st' (committed st' co)
          \<and> (\<exists>i. i < length (lg_log s) \<and> lg_log s ! i = st' \<and> max 1 (pg_attempts (ps w)) - Suc k \<le> i)
      | Finished v \<Rightarrow>
          (\<exists>i. i < length (lg_log s) \<and> ts_version (lg_log s ! i) = v
             \<and> (if Some w \<in> set (lg_by s) then lg_by s ! i = Some w \<and> count_list (lg_by s) (Some w) = 1
                else pg_precheck (ps w) (lg_log s ! i) = None
                  \<and> (\<exists>ch. pg_mutate (ps w) (lg_log s ! i) = Inr ch \<and> changes_nothing ch)))
      | Conflicted \<Rightarrow> Some w \<notin> set (lg_by s) \<and> max 1 (pg_attempts (ps w)) < length (lg_log s)
      | InDoubt st' co \<Rightarrow>
          serial_commit (ps w) st' (committed st' co) \<and> (\<exists>i. i < length (lg_log s) \<and> lg_log s ! i = st')
          \<and> (Some w \<in> set (lg_by s) \<longrightarrow> count_list (lg_by s) (Some w) = 1
               \<and> (\<exists>i. i < length (lg_log s) \<and> lg_by s ! i = Some w \<and> lg_log s ! i = committed st' co))
      | _ \<Rightarrow> Some w \<notin> set (lg_by s))"

definition log_ok :: "(nat \<Rightarrow> program) \<Rightarrow> table_state \<Rightarrow> log_system \<Rightarrow> bool" where
  "log_ok ps st s \<longleftrightarrow>
     chained ps st (lg_log s) (lg_by s)
     \<and> (\<forall>i<length (lg_log s). ts_version (lg_log s ! i) = ts_version st + int i)
     \<and> (\<forall>w. phase_ok ps st s w)"

lemma committed_version [simp]: "ts_version (committed st co) = ts_version st + 1"
  by (simp add: committed_def)

lemma data_version [simp]: "ts_version (data_commit st now) = ts_version st + 1"
  by (simp add: data_commit_def)

lemma chained_append:
  assumes "chained ps st vs by" "follows ps who (last vs) st'"
  shows "chained ps st (vs @ [st']) (by @ [who])"
proof -
  have c: "vs \<noteq> []" "length by = length vs" using assms(1) by (simp_all add: chained_def)
  have "follows ps ((by @ [who]) ! Suc i) ((vs @ [st']) ! i) ((vs @ [st']) ! Suc i)" if i: "Suc i < Suc (length vs)" for i
  proof (cases "Suc i < length vs")
    case True
    then show ?thesis using assms(1) by (simp add: chained_def nth_append)
  next
    case False
    then have "Suc i = length vs" using i by simp
    then have "last vs = vs ! i" using c(1) by (metis diff_Suc_1 last_conv_nth)
    then show ?thesis using assms(2) c(2) \<open>Suc i = length vs\<close> by (simp add: nth_append)
  qed
  then show ?thesis using assms(1) c by (simp add: chained_def nth_append)
qed

text \<open>The others' view of a log that grew.\<close>

lemma phase_ok_grown:
  assumes "phase_ok ps st s w" "lg_phase s' w = lg_phase s w" "length (lg_by s) = length (lg_log s)"
    and "lg_log s' = lg_log s @ new" "lg_by s' = lg_by s @ who" "Some w \<notin> set who"
  shows "phase_ok ps st s' w"
  using assms
  by (cases "lg_phase s w")
    (fastforce simp: phase_ok_def nth_append count_list_append count_list_0_iff)+

lemma log_ok_grown:
  assumes "log_ok ps st s" "follows ps who (last (lg_log s)) st'" "ts_version st' = ts_version (last (lg_log s)) + 1"
    and "lg_log s' = lg_log s @ [st']" "lg_by s' = lg_by s @ [who]"
    and "\<And>w. who \<noteq> Some w \<Longrightarrow> lg_phase s' w = lg_phase s w" "\<And>w. who = Some w \<Longrightarrow> phase_ok ps st s' w"
  shows "log_ok ps st s'"
proof -
  have c: "chained ps st (lg_log s) (lg_by s)" and v: "\<And>i. i < length (lg_log s) \<Longrightarrow> ts_version (lg_log s ! i) = ts_version st + int i"
    and p: "\<And>w. phase_ok ps st s w" using assms(1) by (auto simp: log_ok_def)
  have len: "lg_log s \<noteq> []" "length (lg_by s) = length (lg_log s)" using c by (simp_all add: chained_def)
  have "ts_version (last (lg_log s)) = ts_version st + int (length (lg_log s) - 1)"
    using v [of "length (lg_log s) - 1"] len(1) by (simp add: last_conv_nth)
  then have "ts_version st' = ts_version st + int (length (lg_log s))" using assms(3) len(1) by (cases "lg_log s") auto
  then have "\<forall>i<length (lg_log s'). ts_version (lg_log s' ! i) = ts_version st + int i"
    using v assms(4) by (auto simp: nth_append less_Suc_eq)
  moreover have "phase_ok ps st s' w" for w
  proof (cases "who = Some w")
    case False
    show ?thesis
      by (rule phase_ok_grown [OF p [of w] assms(6) [OF False] len(2) assms(4,5)]) (use False in simp)
  qed (use assms(7) in simp)
  ultimately show ?thesis
    using chained_append [OF c assms(2)] assms(4,5) by (simp add: log_ok_def)
qed

text \<open>A writer that adds nothing leaves the log and the others alone.\<close>

lemma log_ok_turned:
  assumes "log_ok ps st s" "phase_ok ps st (s\<lparr>lg_phase := (lg_phase s)(w := ph)\<rparr>) w"
  shows "log_ok ps st (s\<lparr>lg_phase := (lg_phase s)(w := ph)\<rparr>)"
proof -
  have "phase_ok ps st (s\<lparr>lg_phase := (lg_phase s)(w := ph)\<rparr>) w'" for w'
  proof (cases "w' = w")
    case False
    show ?thesis
      by (rule phase_ok_grown [of ps st s w' _ "[]" "[]"]) (use assms(1) False in \<open>auto simp: log_ok_def chained_def\<close>)
  qed (use assms(2) in simp)
  then show ?thesis using assms(1) by (simp add: log_ok_def)
qed

lemma compute_ok:
  assumes "log_ok ps st s" "lg_phase s w = Ready (Suc k)"
  shows "phase_ok ps st (s\<lparr>lg_phase := (lg_phase s)(w := compute (ps w) k (last (lg_log s)) now)\<rparr>) w"
proof -
  let ?n = "length (lg_log s)" and ?st = "last (lg_log s)"
  have ne: "lg_log s \<noteq> []" using assms(1) by (simp add: log_ok_def chained_def)
  then have l: "?n - 1 < ?n" "lg_log s ! (?n - 1) = ?st" by (simp_all add: last_conv_nth)
  have r: "Some w \<notin> set (lg_by s)" "Suc k \<le> max 1 (pg_attempts (ps w))" "max 1 (pg_attempts (ps w)) - Suc k < ?n"
    using assms by (auto simp: log_ok_def phase_ok_def split: phase.splits)
  show ?thesis
  proof (cases "pg_precheck (ps w) ?st")
    case None
    show ?thesis
    proof (cases "pg_mutate (ps w) ?st")
      case (Inr ch)
      show ?thesis
      proof (cases "changes_nothing ch")
        case True
        then show ?thesis
          using None Inr r l unfolding phase_ok_def compute_def by (auto intro!: exI [of _ "?n - 1"])
      next
        case False
        show ?thesis
        proof (cases "build_actions ?st ch now")
          case (Inr co)
          have "serial_commit (ps w) ?st (committed ?st co)"
            unfolding serial_commit_def using None \<open>pg_mutate (ps w) ?st = Inr ch\<close> False Inr by blast
          then show ?thesis
            using None \<open>pg_mutate (ps w) ?st = Inr ch\<close> False Inr r l
            unfolding phase_ok_def compute_def by (auto intro!: exI [of _ "?n - 1"])
        qed (use None Inr False r in \<open>simp add: phase_ok_def compute_def\<close>)
      qed
    qed (use None r in \<open>simp add: phase_ok_def compute_def\<close>)
  qed (use r in \<open>simp add: phase_ok_def compute_def\<close>)
qed

lemma put_fails:
  assumes "log_ok ps st s" "i < length (lg_log s)" "put_if_absent (lg_log s) (committed (lg_log s ! i) co) = None"
  shows "Suc i < length (lg_log s)"
proof -
  obtain j where "j < length (lg_log s)" "ts_version (lg_log s ! j) = ts_version (lg_log s ! i) + 1"
    using assms(3) by (auto simp: put_if_absent_def in_set_conv_nth split: if_split_asm)
  then have "int j = int i + 1" using assms(1,2) by (simp add: log_ok_def)
  then show ?thesis using \<open>j < length (lg_log s)\<close> by simp
qed

lemma put_succeeds:
  assumes "log_ok ps st s" "i < length (lg_log s)" "put_if_absent (lg_log s) (committed (lg_log s ! i) co) = Some vs'"
  shows "vs' = lg_log s @ [committed (last (lg_log s)) co]" "last (lg_log s) = lg_log s ! i"
proof -
  have "Suc i \<noteq> j" if "j < length (lg_log s)" for j
  proof
    assume "Suc i = j"
    then have "ts_version (lg_log s ! j) = ts_version (lg_log s ! i) + 1" using assms(1,2) that by (simp add: log_ok_def)
    moreover have "ts_version (lg_log s ! j) \<in> ts_version ` set (lg_log s)" using that by simp
    ultimately show False using assms(3) by (simp add: put_if_absent_def split: if_split_asm)
  qed
  then have "i = length (lg_log s) - 1" using assms(2) by (metis Suc_lessI diff_Suc_1)
  then show "last (lg_log s) = lg_log s ! i" using assms(2) by (cases "lg_log s = []") (simp_all add: last_conv_nth)
  then show "vs' = lg_log s @ [committed (last (lg_log s)) co]"
    using assms(3) by (simp add: put_if_absent_def split: if_split_asm)
qed

text \<open>The commit a writer computed lands on the version it was computed from.\<close>

lemma landed_ok:
  assumes "log_ok ps st s" "i < length (lg_log s)" "lg_log s ! i = st0" "serial_commit (ps w) st0 (committed st0 co)"
    and "put_if_absent (lg_log s) (committed st0 co) = Some vs"
    and "lg_log s' = vs" "lg_by s' = lg_by s @ [Some w]" "\<And>w'. w' \<noteq> w \<Longrightarrow> lg_phase s' w' = lg_phase s w'"
    and "phase_ok ps st s' w"
  shows "log_ok ps st s'"
proof -
  note put = put_succeeds [OF assms(1,2), unfolded assms(3), OF assms(5)]
  show ?thesis
    by (rule log_ok_grown [OF assms(1), where who = "Some w" and st' = "committed st0 co"])
      (use assms(4,6-9) put in \<open>auto simp: follows_def\<close>)
qed

lemma landed_parts:
  assumes "log_ok ps st s" "i < length (lg_log s)" "lg_log s ! i = st0"
    and "put_if_absent (lg_log s) (committed st0 co) = Some vs" "Some w \<notin> set (lg_by s)"
  shows "vs = lg_log s @ [committed st0 co]" "length (lg_by s) = length (lg_log s)"
    "(lg_by s @ [Some w]) ! length (lg_log s) = Some w" "count_list (lg_by s @ [Some w]) (Some w) = 1"
proof -
  note put = put_succeeds [OF assms(1,2), unfolded assms(3), OF assms(4)]
  show "vs = lg_log s @ [committed st0 co]" using put by simp
  show len: "length (lg_by s) = length (lg_log s)" using assms(1) by (simp add: log_ok_def chained_def)
  show "(lg_by s @ [Some w]) ! length (lg_log s) = Some w" using len by (simp add: nth_append)
  show "count_list (lg_by s @ [Some w]) (Some w) = 1" using assms(5) by (simp add: count_list_append count_list_0_iff)
qed

lemma put_ok:
  assumes "log_ok ps st s" "lg_phase s w = Pending k st0 co" "writer_turn (ps w) now broken (lg_log s) (lg_phase s w) = (vs, ph)"
  shows "log_ok ps st \<lparr>lg_log = vs, lg_by = by_after s vs w, lg_phase = (lg_phase s)(w := ph)\<rparr>"
proof -
  have p: "phase_ok ps st s w" using assms(1) by (simp add: log_ok_def)
  obtain i where i: "i < length (lg_log s)" "lg_log s ! i = st0" "max 1 (pg_attempts (ps w)) - Suc k \<le> i"
    and w: "Some w \<notin> set (lg_by s)" "k < max 1 (pg_attempts (ps w))" "serial_commit (ps w) st0 (committed st0 co)"
    using p assms(2) by (auto simp: phase_ok_def)
  show ?thesis
  proof (cases broken)
    case True
    then have t: "vs = lg_log s" "ph = InDoubt st0 co" using assms(2,3) by (simp_all add: writer_turn_def)
    have "phase_ok ps st (s\<lparr>lg_phase := (lg_phase s)(w := ph)\<rparr>) w"
      using w i t by (auto simp: phase_ok_def)
    from log_ok_turned [OF assms(1) this] show ?thesis using t by (cases s) (simp add: by_after_def)
  next
    case b: False
    show ?thesis
    proof (cases "put_if_absent (lg_log s) (committed st0 co)")
      case None
      then have t: "vs = lg_log s" "ph = Ready k" using assms(2,3) b by (simp_all add: writer_turn_def)
      have "Suc i < length (lg_log s)" using put_fails [OF assms(1) i(1)] None i(2) by simp
      then have "phase_ok ps st (s\<lparr>lg_phase := (lg_phase s)(w := ph)\<rparr>) w"
        using w i(3) t by (auto simp: phase_ok_def)
      from log_ok_turned [OF assms(1) this] show ?thesis using t by (cases s) (simp add: by_after_def)
    next
      case (Some vs')
      then have t: "vs = vs'" "ph = Finished (ts_version st0 + 1)" using assms(2,3) b by (simp_all add: writer_turn_def)
      note l = landed_parts [OF assms(1) i(1,2) Some w(1)]
      have by': "by_after s vs w = lg_by s @ [Some w]" by (simp add: by_after_def t(1) l(1))
      show ?thesis
        by (rule landed_ok [OF assms(1) i(1,2) w(3) Some])
          (use by' t l in \<open>auto simp: phase_ok_def intro!: exI [of _ "length (lg_log s)"]\<close>)
    qed
  qed
qed

lemma late_ok:
  assumes "log_ok ps st s" "lg_phase s w = InDoubt st0 co" "put_if_absent (lg_log s) (committed st0 co) = Some vs"
  shows "log_ok ps st (s\<lparr>lg_log := vs, lg_by := lg_by s @ [Some w]\<rparr>)"
proof -
  have p: "phase_ok ps st s w" using assms(1) by (simp add: log_ok_def)
  obtain i where i: "i < length (lg_log s)" "lg_log s ! i = st0" and w: "serial_commit (ps w) st0 (committed st0 co)"
    using p assms(2) by (auto simp: phase_ok_def)
  have n: "Some w \<notin> set (lg_by s)"
  proof
    assume "Some w \<in> set (lg_by s)"
    then have "committed st0 co \<in> set (lg_log s)" using p assms(2) by (auto simp: phase_ok_def in_set_conv_nth)
    then have "ts_version st0 + 1 \<in> ts_version ` set (lg_log s)" by (rule rev_image_eqI) simp
    then show False using assms(3) by (simp add: put_if_absent_def)
  qed
  note l = landed_parts [OF assms(1) i assms(3) n]
  have "\<exists>j. j < length vs \<and> vs ! j = st0" by (rule exI [of _ i]) (use i l(1) in \<open>simp add: nth_append\<close>)
  moreover have "\<exists>j. j < length vs \<and> (lg_by s @ [Some w]) ! j = Some w \<and> vs ! j = committed st0 co"
    by (rule exI [of _ "length (lg_log s)"]) (use l in simp)
  ultimately have "phase_ok ps st (s\<lparr>lg_log := vs, lg_by := lg_by s @ [Some w]\<rparr>) w"
    using assms(2) w l(4) by (simp add: phase_ok_def)
  then show ?thesis by (intro landed_ok [OF assms(1) i w assms(3)]) simp_all
qed

lemma log_step_ok: "log_step ps s s' \<Longrightarrow> log_ok ps st s \<Longrightarrow> log_ok ps st s'"
proof (induction rule: log_step.induct)
  case (writer w now broken s vs ph)
  have p: "phase_ok ps st s w" using writer(2) by (simp add: log_ok_def)
  have turned: "log_ok ps st \<lparr>lg_log = vs, lg_by = by_after s vs w, lg_phase = (lg_phase s)(w := ph)\<rparr>"
    if "vs = lg_log s" "phase_ok ps st (s\<lparr>lg_phase := (lg_phase s)(w := ph)\<rparr>) w"
    using log_ok_turned [OF writer(2) that(2)] that(1) by (cases s) (simp add: by_after_def)
  show ?case
  proof (cases "lg_phase s w")
    case (Pending k st0 co)
    then show ?thesis using put_ok [OF writer(2)] writer(1) by blast
  next
    case (Ready k)
    show ?thesis
    proof (cases k)
      case 0
      have "vs = lg_log s" "ph = Conflicted" using writer(1) Ready 0 by (simp_all add: writer_turn_def)
      then show ?thesis using p Ready 0 by (intro turned) (simp_all add: phase_ok_def)
    next
      case (Suc j)
      have "vs = lg_log s" "ph = (if broken then Unread else compute (ps w) j (last (lg_log s)) now)"
        using writer(1) Ready Suc by (auto simp: writer_turn_def)
      then show ?thesis using p Ready compute_ok [OF writer(2) Ready [unfolded Suc], of now]
        by (intro turned) (auto simp: phase_ok_def)
    qed
  qed (use writer in \<open>cases s; simp add: writer_turn_def by_after_def fun_upd_idem\<close>)+
next
  case (late s w st' co vs)
  then show ?case using late_ok by blast
next
  case (data s now)
  show ?case
    by (rule log_ok_grown [OF data, where who = None]) (auto simp: follows_def)
qed

lemma log_reached_ok: "log_reached ps st s \<Longrightarrow> log_ok ps st s"
proof (induction rule: log_reached.induct)
  case start
  show ?case by (simp add: log_ok_def chained_def phase_ok_def first_phase_def)
next
  case (step s s')
  then show ?case using log_step_ok by blast
qed

section \<open>Serial execution\<close>

text \<open>C7: metadata commits are serial: whatever writers race, with retries and with data commits in
  between, each version of the log is one number after the version before it and is exactly what
  its writer would have committed had it run alone on that version.\<close>

theorem metadata_commits_serial:
  assumes "log_reached ps st s" "Suc i < length (lg_log s)"
  shows "ts_version (lg_log s ! Suc i) = ts_version (lg_log s ! i) + 1
    \<and> (case lg_by s ! Suc i of
          None \<Rightarrow> \<exists>now. lg_log s ! Suc i = data_commit (lg_log s ! i) now
        | Some w \<Rightarrow> \<exists>ch now co. pg_precheck (ps w) (lg_log s ! i) = None \<and> pg_mutate (ps w) (lg_log s ! i) = Inr ch
            \<and> \<not> changes_nothing ch \<and> build_actions (lg_log s ! i) ch now = Inr co
            \<and> lg_log s ! Suc i = committed (lg_log s ! i) co)"
proof -
  have ok: "log_ok ps st s" by (rule log_reached_ok [OF assms(1)])
  then have "follows ps (lg_by s ! Suc i) (lg_log s ! i) (lg_log s ! Suc i)"
    using assms(2) by (simp add: log_ok_def chained_def)
  moreover have "ts_version (lg_log s ! Suc i) = ts_version (lg_log s ! i) + 1"
    using ok assms(2) by (simp add: log_ok_def)
  ultimately show ?thesis by (auto simp: follows_def serial_commit_def split: option.splits)
qed

text \<open>C9: a writer reports what happened: the version it returns is its one commit, or a version its
  change leaves as it is; a conflict is reported only after as many others' commits as it had
  attempts, and then, as after a refusal or a failed read, nothing of its change is in the log.
  Only a put that failed with an error other than a conflict leaves it open: the commit computed
  last is in the log once or not at all, and nothing else of the writer is.\<close>

theorem metadata_writer_reports:
  assumes "log_reached ps st s"
  shows "case lg_phase s w of
      Finished v \<Rightarrow> \<exists>i<length (lg_log s). ts_version (lg_log s ! i) = v
        \<and> (if Some w \<in> set (lg_by s) then lg_by s ! i = Some w \<and> count_list (lg_by s) (Some w) = 1
           else pg_precheck (ps w) (lg_log s ! i) = None
             \<and> (\<exists>ch. pg_mutate (ps w) (lg_log s ! i) = Inr ch \<and> changes_nothing ch))
    | Conflicted \<Rightarrow> Some w \<notin> set (lg_by s) \<and> max 1 (pg_attempts (ps w)) < length (lg_log s)
    | InDoubt st' co \<Rightarrow> Some w \<notin> set (lg_by s)
        \<or> (count_list (lg_by s) (Some w) = 1
           \<and> (\<exists>i<length (lg_log s). lg_by s ! i = Some w \<and> lg_log s ! i = committed st' co))
    | _ \<Rightarrow> Some w \<notin> set (lg_by s)"
proof -
  have "phase_ok ps st s w" using log_reached_ok [OF assms] by (simp add: log_ok_def)
  then show ?thesis by (cases "lg_phase s w") (auto simp: phase_ok_def)
qed

text \<open>Data commits keep the invariant of the metadata.\<close>

lemma data_commit_keeps:
  "table_ok st \<Longrightarrow> table_ok (data_commit st now) \<and> descends st (data_commit st now) \<and> keys_ok (data_commit st now) = keys_ok st"
  using descends_refl [of st] by (simp add: table_ok_def keys_ok_def descends_def data_commit_def clustering_keys_def)

lemma follows_keeps:
  assumes "follows ps who st st'" "table_ok st" "\<And>w v ch. pg_mutate (ps w) v = Inr ch \<Longrightarrow> changes v ch"
  shows "table_ok st' \<and> descends st st' \<and> (own_names st \<and> keys_ok st \<longrightarrow> keys_ok st')"
proof (cases who)
  case None
  then show ?thesis using assms(1,2) data_commit_keeps by (auto simp: follows_def)
next
  case (Some w)
  then have "commits st st'"
    using assms(1,3) by (auto simp: follows_def serial_commit_def intro: commits.intros)
  then show ?thesis using commit_keeps [OF assms(2)] by blast
qed

text \<open>C8: while writers race, and whatever of their reads and puts fails, every version of the log is a
  well-formed table, provided the first one is and each writer's change is one this library
  computes; from any version to any later one no dropped column comes back; and clustering keys
  that lead to columns go on doing so, as long as no version on the way carries physical names of
  another table while it maps no columns.\<close>

theorem raced_tables_sound:
  assumes "log_reached ps st s" "table_ok st" "\<And>w v ch. pg_mutate (ps w) v = Inr ch \<Longrightarrow> changes v ch"
    and "i \<le> j" "j < length (lg_log s)"
  shows "table_ok (lg_log s ! j) \<and> descends (lg_log s ! i) (lg_log s ! j)
    \<and> (keys_ok (lg_log s ! i) \<and> (\<forall>k\<in>{i..<j}. own_names (lg_log s ! k)) \<longrightarrow> keys_ok (lg_log s ! j))"
proof -
  have c: "chained ps st (lg_log s) (lg_by s)" using log_reached_ok [OF assms(1)] by (simp add: log_ok_def)
  have one: "table_ok (lg_log s ! k) \<Longrightarrow> table_ok (lg_log s ! Suc k) \<and> descends (lg_log s ! k) (lg_log s ! Suc k)
      \<and> (own_names (lg_log s ! k) \<and> keys_ok (lg_log s ! k) \<longrightarrow> keys_ok (lg_log s ! Suc k))" if "Suc k < length (lg_log s)" for k
  proof -
    assume ok: "table_ok (lg_log s ! k)"
    have "follows ps (lg_by s ! Suc k) (lg_log s ! k) (lg_log s ! Suc k)" using c that by (simp add: chained_def)
    then show ?thesis by (rule follows_keeps [OF _ ok assms(3)])
  qed
  have ok: "k < length (lg_log s) \<Longrightarrow> table_ok (lg_log s ! k)" for k
    by (induction k) (use c assms(2) one in \<open>auto simp: chained_def\<close>)
  show ?thesis using assms(4,5)
  proof (induction j rule: dec_induct)
    case base
    then show ?case using ok descends_refl by blast
  next
    case (step k)
    then have "table_ok (lg_log s ! k)" using ok by simp
    from one [OF step.prems this] step descends_trans show ?case by fastforce
  qed
qed

section \<open>A race\<close>

definition take_turn :: "(nat \<Rightarrow> program) \<Rightarrow> nat \<times> int \<times> bool \<Rightarrow> log_system \<Rightarrow> log_system" where
  "take_turn ps wt s =
     (case wt of (w, now, broken) \<Rightarrow> let r = writer_turn (ps w) now broken (lg_log s) (lg_phase s w)
       in \<lparr>lg_log = fst r, lg_by = by_after s (fst r) w, lg_phase = (lg_phase s)(w := snd r)\<rparr>)"

lemma turns_reached: "log_reached ps st s \<Longrightarrow> log_reached ps st (fold (take_turn ps) wts s)"
proof (induction wts arbitrary: s)
  case (Cons wt wts)
  obtain w now broken where wt: "wt = (w, now, broken)" by (cases wt)
  have "log_step ps s (take_turn ps wt s)"
    using log_step.writer [of ps w now broken s "fst (writer_turn (ps w) now broken (lg_log s) (lg_phase s w))"
      "snd (writer_turn (ps w) now broken (lg_log s) (lg_phase s w))"]
    by (simp add: take_turn_def wt Let_def)
  then show ?case using Cons.IH log_reached.step [OF Cons.prems] by simp
qed simp

definition racing :: "nat \<Rightarrow> program" where
  "racing w =
     \<lparr>pg_precheck = (\<lambda>st. None),
      pg_mutate = (\<lambda>st. if w = 0 then drop_column st ''v'' else Inr (set_comment st (Some ''x''))),
      pg_attempts = 2\<rparr>"

definition race_start :: "table_state \<Rightarrow> log_system" where
  "race_start st = \<lparr>lg_log = [st], lg_by = [None], lg_phase = (\<lambda>w. first_phase (racing w))\<rparr>"

text \<open>Both read version 5; the second commits version 6, the first loses and commits version 7.\<close>

definition race_of :: "table_state \<Rightarrow> log_system" where
  "race_of st = fold (take_turn racing) (map (\<lambda>w. (w, 0, False)) [0, 1, 1, 0, 0, 0]) (race_start st)"

definition race_table :: table_state where
  "race_table =
     \<lparr>ts_version = 5,
      ts_protocol = \<lparr>pr_reader = 3, pr_writer = 7, pr_reader_features = Some [''columnMapping''],
        pr_writer_features = Some [''columnMapping'']\<rparr>,
      ts_meta = \<lparr>md_schema = [Column ''id'' (Prim ''long'') True [(cm_id, JInt 1), (cm_physical, JStr ''id'')],
          Column ''v'' (Prim ''long'') True [(cm_id, JInt 2), (cm_physical, JStr ''v'')]],
        md_partitions = [], md_configuration = [(cm_mode, ''name''), (cm_max, ''2'')],
        md_description = None, md_other = []\<rparr>,
      ts_timestamp = Some 1000, ts_clustering = None\<rparr>"

lemma race_reached: "log_reached racing race_table (race_of race_table)"
  unfolding race_of_def race_start_def by (rule turns_reached) (rule log_reached.start)

lemma race_result:
  "map ts_version (lg_log (race_of race_table)) = [5, 6, 7]" "lg_by (race_of race_table) = [None, Some 1, Some 0]"
  "lg_phase (race_of race_table) 0 = Finished 7"
proof -
  have "let r = race_of race_table in map ts_version (lg_log r) = [5, 6, 7] \<and> lg_by r = [None, Some 1, Some 0]
      \<and> lg_phase r 0 = Finished 7" by code_simp
  then show "map ts_version (lg_log (race_of race_table)) = [5, 6, 7]" "lg_by (race_of race_table) = [None, Some 1, Some 0]"
    "lg_phase (race_of race_table) 0 = Finished 7" by (simp_all add: Let_def)
qed

text \<open>A put that failed, and yet is carried out after its writer gave up.\<close>

lemma unanswered_put_lands:
  "\<exists>s. log_reached racing race_table s \<and> lg_by s = [None, Some 0] \<and> (\<exists>st co. lg_phase s 0 = InDoubt st co)"
proof -
  define s where "s = fold (take_turn racing) [(0, 0, False), (0, 0, True)] (race_start race_table)"
  have "case lg_phase s 0 of InDoubt st co \<Rightarrow> lg_by s = [None] \<and> put_if_absent (lg_log s) (committed st co) \<noteq> None | _ \<Rightarrow> False"
    unfolding s_def by code_simp
  then obtain st co vs where 1: "lg_phase s 0 = InDoubt st co" "lg_by s = [None]"
    "put_if_absent (lg_log s) (committed st co) = Some vs" by (auto split: phase.splits)
  have "log_reached racing race_table s"
    unfolding s_def race_start_def by (rule turns_reached) (rule log_reached.start)
  from log_reached.step [OF this log_step.late [OF 1(1,3)]] show ?thesis using 1 by fastforce
qed

theorem metadata_commits_serial_witness:
  "\<exists>ch. drop_column (lg_log (race_of race_table) ! 1) ''v'' = Inr ch \<and> ts_version (lg_log (race_of race_table) ! 2) = 7"
proof -
  have l: "length (lg_log (race_of race_table)) = 3" using race_result(1) by (metis length_map length_Cons list.size(3) numeral_3_eq_3)
  have v: "ts_version (lg_log (race_of race_table) ! 2) = 7"
    using race_result(1) l nth_map [of 2 "lg_log (race_of race_table)" ts_version] by simp
  have "Suc 1 < length (lg_log (race_of race_table))" using l by simp
  from metadata_commits_serial [OF race_reached this] show ?thesis
    using race_result(2) v by (auto simp: racing_def)
qed

theorem metadata_writer_reports_witness: "count_list (lg_by (race_of race_table)) (Some 0) = 1"
  using metadata_writer_reports [OF race_reached, of 0] race_result(2,3) by auto

lemma race_table_ok: "table_ok race_table"
proof -
  have 1: "siblings_differ lower_column (Struct (schema_cols race_table))" by code_simp
  have 2: "maps_columns (conf_of race_table)" by code_simp
  have 3: "keys_of (schema_cols race_table) = [(Some (JInt 1), Some (JStr ''id'')), (Some (JInt 2), Some (JStr ''v''))]"
    by code_simp
  have 4: "recorded_max (conf_of race_table) = Some 2" by code_simp
  have 5: "siblings_differ physical_of (Struct (schema_cols race_table))" by code_simp
  have "columns_mapped (conf_of race_table) (schema_cols race_table)"
    unfolding columns_mapped_def 3 4 using 5 by (simp add: field_mapped_def del: siblings_differ.simps)
  then have "columns_ok (conf_of race_table) (schema_cols race_table)"
    using 1 2 by (simp add: columns_ok_def)
  moreover have "partitions_ok (schema_cols race_table) (md_partitions (ts_meta race_table))" by code_simp
  moreover have "features_ok (ts_protocol race_table) (conf_of race_table)" by code_simp
  ultimately show ?thesis by (simp add: table_ok_def)
qed

theorem raced_tables_sound_witness: "table_ok (lg_log (race_of race_table) ! 2)"
proof -
  have "2 < length (lg_log (race_of race_table))"
    using race_result(1) by (metis length_map length_Cons list.size(3) lessI numeral_2_eq_2)
  moreover have "pg_mutate (racing w) v = Inr ch \<Longrightarrow> changes v ch" for w v ch
    by (auto simp: racing_def intro: changes.intros split: if_split_asm)
  ultimately show ?thesis using raced_tables_sound [OF race_reached race_table_ok, of 2 2] by blast
qed

end
