(* ===== verification/Meta_Sql_Types.thy ===== *)
theory Meta_Sql_Types
  imports Meta_Ops
begin

text \<open>
  \<open>engine/metadata.py\<close>, \<open>sql_type_to_delta\<close>: a column type as a caller spells it in SQL, read as a
  type of the Delta protocol.
\<close>

section \<open>Names of primitive types\<close>

definition type_name_aliases :: "(string \<times> string) list" where
  "type_name_aliases = type_aliases @
    [(''bool'', ''boolean''), (''varchar'', ''string''), (''char'', ''string''), (''text'', ''string''),
     (''int64'', ''long''), (''int32'', ''integer''), (''int16'', ''short''), (''int8'', ''byte''),
     (''float32'', ''float''), (''float64'', ''double''), (''utf8'', ''string''),
     (''large_string'', ''string''), (''timestampntz'', ''timestamp_ntz''), (''date32'', ''date'')]"

definition delta_primitive_names :: "string list" where
  "delta_primitive_names =
    [''string'', ''long'', ''integer'', ''short'', ''byte'', ''float'', ''double'', ''boolean'',
     ''binary'', ''date'', ''timestamp'', ''timestamp_ntz'', ''variant'']"

datatype sql_type_error =
    UnbalancedType | MapTakesTwo | MemberNeeds string | NotDecimal | OutsideDecimals | UnknownType

section \<open>Splitting\<close>

text \<open>\<open>_split_top\<close>: the parts between separators outside brackets; the depth may fall below zero.\<close>

fun split_from :: "char \<Rightarrow> int \<Rightarrow> string \<Rightarrow> string \<Rightarrow> string list" where
  "split_from sep d part [] = [part]"
| "split_from sep d part (c # cs) =
     (if c = CHR ''<'' \<or> c = open_paren then split_from sep (d + 1) (part @ [c]) cs
      else if c = CHR ''>'' \<or> c = CHR '')'' then split_from sep (d - 1) (part @ [c]) cs
      else if c = sep \<and> d = 0 then part # split_from sep d [] cs
      else split_from sep d (part @ [c]) cs)"

definition split_top :: "string \<Rightarrow> char \<Rightarrow> string list" where
  "split_top s sep = map py_strip (split_from sep 0 [] s)"

text \<open>The kind of a nested type, when its name is followed by an opening bracket.\<close>

definition opens :: "string \<Rightarrow> string \<Rightarrow> bool" where
  "opens low k \<longleftrightarrow> starts_with low k \<and> starts_with (lstrip_by py_isspace (drop (length k) low)) ''<''"

definition nested_kind :: "string \<Rightarrow> string option" where
  "nested_kind low = find (opens low) [''array'', ''map'', ''struct'']"

text \<open>A member of a struct: \<open>name: type\<close> or \<open>name type\<close>.\<close>

definition member_parts :: "string \<Rightarrow> sql_type_error + string \<times> string" where
  "member_parts m =
     (let (n, t) = (if CHR '':'' \<in> set m then partition_on (CHR '':'') m else partition_on (CHR '' '') m);
          n' = strip_by (\<lambda>c. c = bt) (py_strip n)
      in if n' = [] \<or> py_strip t = [] then Inl (MemberNeeds m) else Inr (n', t))"

section \<open>A type that is not nested\<close>

definition decimal_args :: "string \<Rightarrow> (nat \<times> nat) option" where
  "decimal_args a =
     (let (p, r) = span_digits a in
      if p = [] then None
      else if r = '')'' then Some (digits_val p, 0)
      else if starts_with r '','' then
        (let (q, e) = span_digits (tl r) in
         if q = [] \<or> e \<noteq> '')'' then None else Some (digits_val p, digits_val q))
      else None)"

definition scalar_type :: "string \<Rightarrow> sql_type_error + delta_type" where
  "scalar_type low =
     (let compact = without_blanks low;
          (h, a) = partition_on open_paren compact;
          paren = (open_paren \<in> set compact);
          name = (case map_of type_name_aliases h of None \<Rightarrow> h | Some t \<Rightarrow> t)
      in if name = ''decimal'' then
           (if \<not> paren then Inr (Prim ''decimal(10,0)'')
            else case decimal_args a of
              None \<Rightarrow> Inl NotDecimal
            | Some (p, s) \<Rightarrow>
                if \<not> (0 < p \<and> p \<le> 38) \<or> p < s then Inl OutsideDecimals else Inr (Prim (decimal_text p s)))
         else if paren \<and> name = ''string'' then Inr (Prim ''string'')
         else if \<not> paren \<and> name \<in> set delta_primitive_names then Inr (Prim name)
         else Inl UnknownType)"

section \<open>Reading a type\<close>

lemma map_result_cong [fundef_cong]:
  "xs = ys \<Longrightarrow> (\<And>x. x \<in> set ys \<Longrightarrow> f x = g x) \<Longrightarrow> map_result f xs = map_result g ys"
  by (induction xs arbitrary: ys) auto

lemma map_result_member: "map_result f xs = Inr ys \<Longrightarrow> y \<in> set ys \<Longrightarrow> \<exists>x\<in>set xs. f x = Inr y"
  by (induction xs arbitrary: ys) (auto elim!: bind_result_InrE)

lemma map_result_length: "map_result f xs = Inr ys \<Longrightarrow> length ys = length xs"
  using list_all2_lengthD [OF map_result_all2] by fastforce

definition bracket_body :: "string \<Rightarrow> string option" where
  "bracket_body text =
     (let inner = drop 1 (dropWhile (\<lambda>c. c \<noteq> CHR ''<'') text)
      in if inner = [] \<or> last inner \<noteq> CHR ''>'' then None else Some (py_strip (butlast inner)))"

lemma length_strip: "length (py_strip s) \<le> length s"
proof -
  have "length (dropWhile py_isspace r) \<le> length r" for r by (rule length_dropWhile_le)
  then show ?thesis
    unfolding py_strip_def strip_by_def rstrip_by_def lstrip_by_def
    by (metis length_rev order_trans)
qed

lemma split_from_length: "p \<in> set (split_from sep d part s) \<Longrightarrow> length p \<le> length part + length s"
proof (induction sep d part s rule: split_from.induct)
  case (2 sep d part c cs)
  then show ?case by (auto split: if_splits)
qed simp

lemma split_top_length: "p \<in> set (split_top s sep) \<Longrightarrow> length p \<le> length s"
  using split_from_length [of _ sep 0 "[]" s] length_strip by (auto simp: split_top_def intro: order_trans)

lemma bracket_body_length: "bracket_body s = Some b \<Longrightarrow> length b < length s"
proof -
  assume b: "bracket_body s = Some b"
  define r where "r = dropWhile (\<lambda>c. c \<noteq> CHR ''<'') s"
  have r: "drop 1 r \<noteq> []" "b = py_strip (butlast (drop 1 r))"
    using b by (auto simp: bracket_body_def r_def Let_def split: if_splits)
  have "length b \<le> length (butlast (drop 1 r))" unfolding r(2) by (rule length_strip)
  also have "\<dots> < length r" using r(1) by (cases r) auto
  also have "length r \<le> length s" unfolding r_def by (rule length_dropWhile_le)
  finally show ?thesis .
qed

lemma member_parts_length: "member_parts m = Inr (n, t) \<Longrightarrow> length t \<le> length m"
proof -
  have "length (snd (partition_on c m)) \<le> length m" for c
    using length_dropWhile_le [of "\<lambda>x. x \<noteq> c" m] by (simp add: partition_on_def)
  then show "member_parts m = Inr (n, t) \<Longrightarrow> length t \<le> length m"
    by (auto simp: member_parts_def Let_def split: prod.splits if_splits) (metis snd_conv)+
qed

function sql_type_to_delta :: "string \<Rightarrow> sql_type_error + delta_type" where
  "sql_type_to_delta s =
     (let text = py_strip s in
      case nested_kind (py_lower text) of
        None \<Rightarrow> scalar_type (py_lower text)
      | Some k \<Rightarrow>
          (case bracket_body text of
             None \<Rightarrow> Inl UnbalancedType
           | Some body \<Rightarrow>
               if k = ''array'' then bind_result (sql_type_to_delta body) (\<lambda>t. Inr (ArrayOf t True))
               else if k = ''map'' then
                 (case split_top body (CHR '','') of
                    [a, b] \<Rightarrow> bind_result (sql_type_to_delta a) (\<lambda>t. bind_result (sql_type_to_delta b) (\<lambda>u.
                      Inr (MapOf t u True)))
                  | _ \<Rightarrow> Inl MapTakesTwo)
               else
                 bind_result (map_result (\<lambda>m. case member_parts m of
                     Inl e \<Rightarrow> Inl e
                   | Inr (n, ty) \<Rightarrow> bind_result (sql_type_to_delta ty) (\<lambda>t. Inr (Column n t True [])))
                   (split_top body (CHR '','')))
                 (\<lambda>fs. Inr (Struct fs))))"
  by pat_completeness auto

lemma body_length: "bracket_body (py_strip s) = Some b \<Longrightarrow> length b < length s"
  using bracket_body_length length_strip order_less_le_trans by blast

lemma part_length: "bracket_body (py_strip s) = Some b \<Longrightarrow> p \<in> set (split_top b c) \<Longrightarrow> length p < length s"
  using body_length split_top_length order_le_less_trans by blast

lemma pair_length:
  assumes "bracket_body (py_strip s) = Some b" "split_top b c = [x, y]"
  shows "length x < length s \<and> length y < length s"
  using part_length [OF assms(1), of x c] part_length [OF assms(1), of y c] assms(2) by simp

termination sql_type_to_delta
proof (relation "measure length", goal_cases)
  case (5 s t k body m r n ty)
  then show ?case using part_length [of s body m "CHR '',''"] member_parts_length [of m n ty] by simp
qed (auto dest: body_length pair_length)

declare sql_type_to_delta.simps [simp del]

section \<open>What is read is a type of the protocol\<close>

lemma nested_kinds: "nested_kind low = Some k \<Longrightarrow> k = ''array'' \<or> k = ''map'' \<or> k = ''struct''"
  by (auto simp: nested_kind_def split: if_splits)

definition member_read :: "string \<Rightarrow> column \<Rightarrow> bool" where
  "member_read m f \<longleftrightarrow> (\<exists>n ty u. member_parts m = Inr (n, ty) \<and> sql_type_to_delta ty = Inr u \<and> f = Column n u True [])"

lemma sql_type_InrE:
  assumes "sql_type_to_delta s = Inr t"
  obtains (scalar) "nested_kind (py_lower (py_strip s)) = None" "scalar_type (py_lower (py_strip s)) = Inr t"
  | (array) body u where "bracket_body (py_strip s) = Some body" "sql_type_to_delta body = Inr u" "t = ArrayOf u True"
  | (map) body a b u v where "bracket_body (py_strip s) = Some body" "split_top body (CHR '','') = [a, b]"
      "sql_type_to_delta a = Inr u" "sql_type_to_delta b = Inr v" "t = MapOf u v True"
  | (struct) body fs where "bracket_body (py_strip s) = Some body"
      "list_all2 member_read (split_top body (CHR '','')) fs" "t = Struct fs"
proof (cases "nested_kind (py_lower (py_strip s))")
  case None
  then show thesis using assms scalar by (simp add: sql_type_to_delta.simps [of s])
next
  case (Some k)
  obtain body where b: "bracket_body (py_strip s) = Some body"
    using assms Some by (auto simp: sql_type_to_delta.simps [of s] split: option.splits)
  consider "k = ''array''" | "k = ''map''" | "k = ''struct''" using nested_kinds [OF Some] by blast
  then show thesis
  proof cases
    case 1
    then show thesis using assms Some b array by (auto simp: sql_type_to_delta.simps [of s] elim: bind_result_InrE)
  next
    case 2
    then show thesis using assms Some b map
      by (auto simp: sql_type_to_delta.simps [of s] elim!: bind_result_InrE split: list.splits)
  next
    case 3
    then obtain fs where m: "map_result (\<lambda>m. case member_parts m of Inl e \<Rightarrow> Inl e
          | Inr (n, ty) \<Rightarrow> bind_result (sql_type_to_delta ty) (\<lambda>t. Inr (Column n t True []))) (split_top body (CHR '','')) = Inr fs"
      and t: "t = Struct fs"
      using assms Some b by (auto simp: sql_type_to_delta.simps [of s] elim!: bind_result_InrE)
    have "list_all2 member_read (split_top body (CHR '','')) fs"
      by (rule list_all2_mono [OF map_result_all2 [OF m]])
        (auto simp: member_read_def elim!: bind_result_InrE split: sum.splits prod.splits)
    then show thesis using struct b t by blast
  qed
qed

lemma split_from_nonempty [simp]: "split_from sep d part s \<noteq> []"
  by (induction sep d part s rule: split_from.induct) auto

lemma scalar_type_protocol: "scalar_type low = Inr t \<Longrightarrow> protocol_type t"
proof -
  have d: "match_decimal ''decimal(10,0)'' = Some (10, 0)" "decimal_text 10 0 = ''decimal(10,0)''"
    by code_simp+
  have n: "set delta_primitive_names = set primitive_types" by code_simp
  have s: "''string'' \<in> set primitive_types" by code_simp
  show "scalar_type low = Inr t \<Longrightarrow> protocol_type t"
    unfolding scalar_type_def Let_def
    by (auto simp: d n s split: if_splits option.splits prod.splits)
qed

lemma sql_type_protocol: "sql_type_to_delta s = Inr t \<Longrightarrow> protocol_type t"
proof (induction s arbitrary: t rule: measure_induct_rule [of length])
  case (less s)
  from less.prems show ?case
  proof (cases rule: sql_type_InrE)
    case scalar
    then show ?thesis by (simp add: scalar_type_protocol)
  next
    case (array body u)
    then show ?thesis using less.IH [OF body_length [OF array(1)]] by simp
  next
    case (map body a b u v)
    then show ?thesis using less.IH [of a u] less.IH [of b v] pair_length [of s body "CHR '',''" a b] by simp
  next
    case (struct body fs)
    have "protocol_type (col_type f)" if f: "f \<in> set fs" for f
    proof -
      obtain m where "m \<in> set (split_top body (CHR '',''))" "member_read m f"
        using struct(2) f by (metis in_set_conv_nth list_all2_conv_all_nth)
      then obtain n ty u where m: "member_parts m = Inr (n, ty)" "sql_type_to_delta ty = Inr u" "f = Column n u True []"
        "length m < length s"
        using part_length [OF struct(1)] by (auto simp: member_read_def)
      then show ?thesis using less.IH [of ty u] member_parts_length [OF m(1)] by simp
    qed
    moreover have "fs \<noteq> []" using struct(2) by (auto simp: split_top_def)
    ultimately show ?thesis using struct(3) by (simp add: list_all_iff)
  qed
qed

text \<open>C18: whatever a caller writes as a type is refused or read as a type the Delta protocol defines:
  known primitives, decimals in range, no empty struct; its JSON passes the check of types and is read
  back as the same type.\<close>

theorem written_types_valid:
  assumes "sql_type_to_delta s = Inr t"
  shows "protocol_type t \<and> valid_type (type_json t) = Inr t"
  using sql_type_protocol [OF assms] type_json_valid(1) by blast

theorem written_types_valid_witness:
  "protocol_type (Struct [Column ''a'' (ArrayOf (Prim ''long'') True) True [], Column ''b c'' (Prim ''decimal(5,0)'') True []])"
proof -
  have "sql_type_to_delta '' struct < a: ARRAY<bigint> ,`b c`:Numeric( 5 )>'' =
      Inr (Struct [Column ''a'' (ArrayOf (Prim ''long'') True) True [], Column ''b c'' (Prim ''decimal(5,0)'') True []])"
    by code_simp
  from written_types_valid [OF this] show ?thesis by simp
qed

text \<open>Spark reads a doubled backtick in a quoted name as one; the reader keeps both.\<close>

lemma doubled_backtick_kept:
  "sql_type_to_delta (''struct<'' @ [bt] @ ''a'' @ [bt, bt] @ ''b'' @ [bt] @ '': int>'') =
     Inr (Struct [Column (''a'' @ [bt, bt] @ ''b'') (Prim ''integer'') True []])"
  by code_simp

end
