(* ===== verification/Arrow_Types.thy ===== *)
theory Arrow_Types
  imports Meta_Sql_Types
begin

text \<open>
  Arrow types on their way into a table: \<open>arrow_to_delta_type\<close> (\<open>engine/metadata.py\<close>), which the
  direct engines write into the log, and \<open>arrow_to_sql\<close> (\<open>engine/sql_text.py\<close>), which a warehouse is
  sent.
\<close>

section \<open>Arrow types\<close>

text \<open>The layouts of one logical type that the source tells apart, and the types neither side knows.\<close>

datatype width = W8 | W16 | W32 | W64
datatype layout = Plain | Large | Fixed | View | LargeView

datatype arrow_dtype =
    ANull | ABool | AInt width | AUInt width | AHalf | AFloat | ADouble
  | ADecimal nat int | AString layout | ABinary layout | ADate | ATimestamp "string option"
  | AList layout arrow_dtype bool | AMap arrow_dtype arrow_dtype bool | AStruct "arrow_field list"
  | ADictionary arrow_dtype | AExtension arrow_dtype | AOther string
and arrow_field =
    AField (af_name: string) (af_type: arrow_dtype) (af_nullable: bool) (af_meta: "(string \<times> string) list")

datatype arrow_error = NoDeltaType | NoSqlType | DecimalDigits

section \<open>As a Delta type\<close>

definition int_name :: "width \<Rightarrow> string" where
  "int_name w = (case w of W8 \<Rightarrow> ''byte'' | W16 \<Rightarrow> ''short'' | W32 \<Rightarrow> ''integer'' | W64 \<Rightarrow> ''long'')"

definition field_metadata :: "(string \<times> string) list \<Rightarrow> (string \<times> json) list" where
  "field_metadata m =
     dict_of (map (\<lambda>(k, v). (k, JStr v))
       (filter (\<lambda>(k, v). \<not> starts_with k ''delta.columnMapping.'' \<and> \<not> starts_with k ''PARQUET:'') m))"

fun arrow_to_delta_type :: "arrow_dtype \<Rightarrow> arrow_error + delta_type"
  and arrow_to_delta_field :: "arrow_field \<Rightarrow> arrow_error + column" where
  "arrow_to_delta_type (ADictionary t) = arrow_to_delta_type t"
| "arrow_to_delta_type ABool = Inr (Prim ''boolean'')"
| "arrow_to_delta_type (AInt w) = Inr (Prim (int_name w))"
| "arrow_to_delta_type AFloat = Inr (Prim ''float'')"
| "arrow_to_delta_type ADouble = Inr (Prim ''double'')"
| "arrow_to_delta_type (AString l) = (if l \<in> {Plain, Large, View} then Inr (Prim ''string'') else Inl NoDeltaType)"
| "arrow_to_delta_type (ABinary l) = (if l \<in> {Plain, Large, View} then Inr (Prim ''binary'') else Inl NoDeltaType)"
| "arrow_to_delta_type ADate = Inr (Prim ''date'')"
| "arrow_to_delta_type (ATimestamp tz) = Inr (Prim (if tz \<noteq> None then ''timestamp'' else ''timestamp_ntz''))"
| "arrow_to_delta_type (ADecimal p s) =
     (if \<not> (0 < p \<and> p \<le> 38) \<or> \<not> (0 \<le> s \<and> s \<le> int p) then Inl DecimalDigits
      else Inr (Prim (decimal_text p (nat s))))"
| "arrow_to_delta_type (AStruct fs) = bind_result (map_result arrow_to_delta_field fs) (\<lambda>cs. Inr (Struct cs))"
| "arrow_to_delta_type (AList l t n) = bind_result (arrow_to_delta_type t) (\<lambda>u. Inr (ArrayOf u n))"
| "arrow_to_delta_type (AMap k v n) =
     bind_result (arrow_to_delta_type k) (\<lambda>a. bind_result (arrow_to_delta_type v) (\<lambda>b. Inr (MapOf a b n)))"
| "arrow_to_delta_type ANull = Inl NoDeltaType"
| "arrow_to_delta_type (AUInt w) = Inl NoDeltaType"
| "arrow_to_delta_type AHalf = Inl NoDeltaType"
| "arrow_to_delta_type (AExtension t) = Inl NoDeltaType"
| "arrow_to_delta_type (AOther t) = Inl NoDeltaType"
| "arrow_to_delta_field (AField n t b m) = bind_result (arrow_to_delta_type t) (\<lambda>u. Inr (Column n u b (field_metadata m)))"

definition arrow_to_delta_schema :: "arrow_field list \<Rightarrow> arrow_error + delta_type" where
  "arrow_to_delta_schema fs = bind_result (map_result arrow_to_delta_field fs) (\<lambda>cs. Inr (Struct cs))"

section \<open>As SQL\<close>

definition quoted :: "string \<Rightarrow> string" where
  "quoted n = bt # double_backticks n @ [bt]"

definition int_sql :: "width \<Rightarrow> string" where
  "int_sql w = (case w of W8 \<Rightarrow> ''TINYINT'' | W16 \<Rightarrow> ''SMALLINT'' | W32 \<Rightarrow> ''INT'' | W64 \<Rightarrow> ''BIGINT'')"

definition uint_sql :: "width \<Rightarrow> string" where
  "uint_sql w = (case w of W8 \<Rightarrow> ''SMALLINT'' | W16 \<Rightarrow> ''INT'' | W32 \<Rightarrow> ''BIGINT'' | W64 \<Rightarrow> ''DECIMAL(20,0)'')"

text \<open>\<open>", ".join(parts)\<close>.\<close>

fun comma_joined :: "string list \<Rightarrow> string" where
  "comma_joined [] = []"
| "comma_joined [p] = p"
| "comma_joined (p # q # ps) = p @ '', '' @ comma_joined (q # ps)"

fun arrow_to_sql :: "arrow_dtype \<Rightarrow> arrow_error + string"
  and member_sql :: "arrow_field \<Rightarrow> arrow_error + string" where
  "arrow_to_sql (AExtension t) = arrow_to_sql t"
| "arrow_to_sql (ADictionary t) = arrow_to_sql t"
| "arrow_to_sql ABool = Inr ''BOOLEAN''"
| "arrow_to_sql (AUInt w) = Inr (uint_sql w)"
| "arrow_to_sql AHalf = Inr ''FLOAT''"
| "arrow_to_sql ANull = Inr ''VOID''"
| "arrow_to_sql (AInt w) = Inr (int_sql w)"
| "arrow_to_sql AFloat = Inr ''FLOAT''"
| "arrow_to_sql ADouble = Inr ''DOUBLE''"
| "arrow_to_sql (ADecimal p s) =
     (if 38 < p then Inl DecimalDigits else Inr (''DECIMAL('' @ nat_text 10 p @ '','' @ int_text s @ '')''))"
| "arrow_to_sql (AString l) = (if l \<in> {Plain, Large, View} then Inr ''STRING'' else Inl NoSqlType)"
| "arrow_to_sql (ABinary l) = (if l \<in> {Plain, Large, Fixed, View} then Inr ''BINARY'' else Inl NoSqlType)"
| "arrow_to_sql ADate = Inr ''DATE''"
| "arrow_to_sql (ATimestamp tz) =
     Inr (case tz of Some (c # cs) \<Rightarrow> ''TIMESTAMP'' | _ \<Rightarrow> ''TIMESTAMP_NTZ'')"
| "arrow_to_sql (AList l t n) =
     (if l \<in> {Plain, Large, Fixed} then bind_result (arrow_to_sql t) (\<lambda>u. Inr (''ARRAY<'' @ u @ ''>''))
      else Inl NoSqlType)"
| "arrow_to_sql (AMap k v n) =
     bind_result (arrow_to_sql k) (\<lambda>a. bind_result (arrow_to_sql v) (\<lambda>b.
       Inr (''MAP<'' @ a @ '', '' @ b @ ''>'')))"
| "arrow_to_sql (AStruct fs) =
     bind_result (map_result member_sql fs) (\<lambda>ms. Inr (''STRUCT<'' @ comma_joined ms @ ''>''))"
| "arrow_to_sql (AOther t) = Inl NoSqlType"
| "member_sql (AField n t b m) =
     bind_result (arrow_to_sql t) (\<lambda>u. Inr (quoted n @ '': '' @ u @ (if b then [] else '' NOT NULL'')))"

section \<open>Text a split leaves whole\<close>

text \<open>Outside brackets, and inside some.\<close>

definition neutral :: "string \<Rightarrow> bool" where
  "neutral s \<longleftrightarrow>
     (\<forall>d part r. 0 \<le> d \<longrightarrow> split_from (CHR '','') d part (s @ r) = split_from (CHR '','') d (part @ s) r)"

definition muted :: "string \<Rightarrow> bool" where
  "muted s \<longleftrightarrow>
     (\<forall>d part r. 0 < d \<longrightarrow> split_from (CHR '','') d part (s @ r) = split_from (CHR '','') d (part @ s) r)"

definition bracket_free :: "string \<Rightarrow> bool" where
  "bracket_free s \<longleftrightarrow> list_all (\<lambda>c. c \<notin> set ''<>(),'') s"

lemma neutral_append [intro]: "neutral s \<Longrightarrow> neutral t \<Longrightarrow> neutral (s @ t)"
  by (simp add: neutral_def)

lemma muted_append [intro]: "muted s \<Longrightarrow> muted t \<Longrightarrow> muted (s @ t)"
  by (simp add: muted_def)

lemma neutral_muted [intro]: "neutral s \<Longrightarrow> muted s"
  by (simp add: neutral_def muted_def)

lemma muted_comma [intro]: "muted '',''"
  by (simp add: muted_def open_paren_def)

lemma neutral_angles [intro]: "muted s \<Longrightarrow> neutral (''<'' @ s @ ''>'')"
  by (simp add: muted_def neutral_def open_paren_def)

lemma neutral_parens [intro]: "muted s \<Longrightarrow> neutral (open_paren # s @ '')'')"
  by (simp add: muted_def neutral_def open_paren_def)

lemma neutral_free [intro]: "bracket_free s \<Longrightarrow> neutral s"
proof -
  have "bracket_free s \<Longrightarrow> split_from (CHR '','') d part (s @ r) = split_from (CHR '','') d (part @ s) r" for d part r
    by (induction s arbitrary: part) (auto simp: bracket_free_def open_paren_def)
  then show "bracket_free s \<Longrightarrow> neutral s" by (simp add: neutral_def)
qed

lemma neutral_alone: "neutral s \<Longrightarrow> split_from (CHR '','') 0 part s = [part @ s]"
  unfolding neutral_def by (metis append_Nil2 order_refl split_from.simps(1))

lemma neutral_nested: "muted e \<Longrightarrow> bracket_free K \<Longrightarrow> neutral (K @ ''<'' @ e @ ''>'')"
  by (intro neutral_append [of K] neutral_free neutral_angles)

definition trimmed :: "string \<Rightarrow> bool" where
  "trimmed s \<longleftrightarrow> s \<noteq> [] \<and> \<not> py_isspace (hd s) \<and> \<not> py_isspace (last s)"

lemma strip_trimmed: "trimmed s \<Longrightarrow> py_strip s = s"
  unfolding trimmed_def py_strip_def by (intro strip_by_id) auto

lemma strip_blank: "trimmed s \<Longrightarrow> py_strip (CHR '' '' # s) = s"
  using strip_trimmed [of s] by (simp add: py_strip_def strip_by_def lstrip_by_def py_isspace_def code_def)

lemma digits_free: "bracket_free (nat_text 10 n)" "bracket_free (int_text i)"
proof -
  have d: "ascii_digit c \<Longrightarrow> c \<notin> set ''<>(),''" for c by (auto simp: ascii_digit_def code_def)
  show n: "bracket_free (nat_text 10 n)" for n
    using nat_text_digits [of n] d by (auto simp: bracket_free_def list_all_iff)
  show "bracket_free (int_text i)" using n by (auto simp: int_text_def bracket_free_def)
qed

section \<open>Names that need no quoting rule\<close>

definition plain_name :: "string \<Rightarrow> bool" where
  "plain_name n \<longleftrightarrow> n \<noteq> [] \<and> list_all (\<lambda>c. c \<notin> set ''<>(),:'' \<and> c \<noteq> bt) n"

text \<open>Structs have members, nullable and plainly named; a time zone has a name.\<close>

fun plain_arrow :: "arrow_dtype \<Rightarrow> bool" and plain_field :: "arrow_field \<Rightarrow> bool" where
  "plain_arrow (AStruct fs) \<longleftrightarrow> fs \<noteq> [] \<and> list_all plain_field fs"
| "plain_arrow (AList l t n) \<longleftrightarrow> plain_arrow t"
| "plain_arrow (AMap k v n) \<longleftrightarrow> plain_arrow k \<and> plain_arrow v"
| "plain_arrow (ADictionary t) \<longleftrightarrow> plain_arrow t"
| "plain_arrow (AExtension t) \<longleftrightarrow> plain_arrow t"
| "plain_arrow (ATimestamp tz) \<longleftrightarrow> tz \<noteq> Some []"
| "plain_arrow _ \<longleftrightarrow> True"
| "plain_field (AField n t b m) \<longleftrightarrow> b \<and> plain_name n \<and> plain_arrow t"

lemma doubled_plain: "plain_name n \<Longrightarrow> double_backticks n = n"
proof -
  have "list_all (\<lambda>c. c \<noteq> bt) n \<Longrightarrow> double_backticks n = n"
    by (induction n) (auto simp: double_backticks_def)
  then show "plain_name n \<Longrightarrow> double_backticks n = n" by (simp add: plain_name_def list_all_iff)
qed

lemma quoted_plain: "plain_name n \<Longrightarrow> quoted n = bt # n @ [bt]"
  by (simp add: quoted_def doubled_plain)

lemma trimmed_lit: "\<not> py_isspace c \<Longrightarrow> \<not> py_isspace d \<Longrightarrow> trimmed (c # s @ [d])" "\<not> py_isspace c \<Longrightarrow> trimmed [c]"
  by (simp_all add: trimmed_def)

lemma joined_neutral: "list_all neutral ms \<Longrightarrow> muted (comma_joined ms)"
proof (induction ms rule: comma_joined.induct)
  case (3 p q ps)
  then have "muted p" "muted (comma_joined (q # ps))" by auto
  moreover have "muted ('','' @ '' '')" by (intro muted_append muted_comma neutral_muted neutral_free) (simp add: bracket_free_def)
  ultimately show ?case using muted_append [of p "'', ''"] muted_append by (metis append_Cons append_Nil comma_joined.simps(3))
qed (auto simp: muted_def neutral_def)

lemma neutral_uint [simp]: "neutral ''DECIMAL(20,0)''"
  by (simp add: neutral_def open_paren_def)

lemma arrow_sql_shape:
  "arrow_to_sql t = Inr s \<Longrightarrow> plain_arrow t \<Longrightarrow> neutral s \<and> trimmed s"
  "member_sql f = Inr s \<Longrightarrow> plain_field f \<Longrightarrow> neutral s \<and> trimmed s"
proof (induction t and f arbitrary: s and s)
  case (ADecimal p q)
  then have s: "s = ''DECIMAL'' @ open_paren # (nat_text 10 p @ '','' @ int_text q) @ '')''"
    by (auto split: if_splits simp: open_paren_def)
  have "muted (nat_text 10 p @ '','' @ int_text q)"
    using digits_free by (intro muted_append muted_comma neutral_muted neutral_free)
  then have "neutral s"
    unfolding s by (intro neutral_append neutral_parens neutral_free) (simp_all add: bracket_free_def)
  then show ?case by (simp add: s trimmed_def py_isspace_def code_def)
next
  case (AStruct fs)
  then obtain ms where m: "map_result member_sql fs = Inr ms" and s: "s = ''STRUCT'' @ ''<'' @ comma_joined ms @ ''>''"
    by (auto elim!: bind_result_InrE)
  have "neutral x" if x: "x \<in> set ms" for x
  proof -
    obtain f where f: "f \<in> set fs" "member_sql f = Inr x" using map_result_member [OF m x] by blast
    moreover have "plain_field f" using AStruct.prems(2) f(1) by (simp add: list_all_iff)
    ultimately show ?thesis using AStruct.IH by blast
  qed
  then have "list_all neutral ms" by (simp add: list_all_iff)
  then have "neutral s"
    unfolding s by (intro neutral_nested joined_neutral) (simp_all add: bracket_free_def)
  then show ?case by (simp add: s trimmed_def py_isspace_def code_def)
next
  case (AList l t n)
  then obtain u where u: "arrow_to_sql t = Inr u" and s: "s = ''ARRAY'' @ ''<'' @ u @ ''>''"
    by (auto elim!: bind_result_InrE split: if_splits)
  then have "neutral s"
    unfolding s using AList by (intro neutral_nested neutral_muted) (auto simp: bracket_free_def)
  then show ?case by (simp add: s trimmed_def py_isspace_def code_def)
next
  case (AMap k v n)
  then obtain a b where ab: "arrow_to_sql k = Inr a" "arrow_to_sql v = Inr b" and s: "s = ''MAP'' @ ''<'' @ (a @ '','' @ '' '' @ b) @ ''>''"
    by (auto elim!: bind_result_InrE)
  have "neutral a" "neutral b" using AMap ab by auto
  then have "neutral s"
    unfolding s by (intro neutral_nested muted_append muted_comma neutral_muted neutral_free [of "'' ''"])
      (simp_all add: bracket_free_def)
  then show ?case by (simp add: s trimmed_def py_isspace_def code_def)
next
  case (AField n t b m)
  then obtain u where u: "arrow_to_sql t = Inr u" and s: "s = bt # n @ bt # '': '' @ u" and p: "plain_name n" "plain_arrow t"
    by (auto elim!: bind_result_InrE simp: quoted_plain)
  have "neutral u" "trimmed u" using AField u p by auto
  moreover have "bracket_free (bt # n @ bt # '': '')" using p(1) by (auto simp: plain_name_def bracket_free_def list_all_iff)
  ultimately have "neutral ((bt # n @ bt # '': '') @ u)" using neutral_append [OF neutral_free] by blast
  then show ?case using \<open>trimmed u\<close> by (auto simp: s trimmed_def py_isspace_def code_def)
qed (auto simp: trimmed_def bracket_free_def py_isspace_def code_def uint_sql_def int_sql_def neutral_free split: width.splits if_splits option.splits list.splits)

section \<open>Reading nested SQL\<close>

lemma py_lower_append: "py_lower (s @ t) = py_lower s @ py_lower t"
  by (simp add: py_lower_def)

lemma lower_kinds:
  "map py_lower [''ARRAY'', ''MAP'', ''STRUCT'', ''<'', ''DECIMAL('', '','', '')''] = [''array'', ''map'', ''struct'', ''<'', ''decimal('', '','', '')'']"
  by code_simp

lemmas upper_kinds = lower_kinds [unfolded list.map list.inject simp_thms]

lemma nested_text:
  assumes "K \<in> {''ARRAY'', ''MAP'', ''STRUCT''}" "trimmed e \<or> e = []"
  shows "py_strip (K @ ''<'' @ e @ ''>'') = K @ ''<'' @ e @ ''>''"
    and "nested_kind (py_lower (K @ ''<'' @ e @ ''>'')) = Some (py_lower K)"
    and "bracket_body (K @ ''<'' @ e @ ''>'') = Some e"
proof -
  have "trimmed (K @ ''<'' @ e @ ''>'')"
    using assms(1) by (auto simp: trimmed_def py_isspace_def code_def)
  then show "py_strip (K @ ''<'' @ e @ ''>'') = K @ ''<'' @ e @ ''>''" by (rule strip_trimmed)
  have o: "lstrip_by py_isspace (CHR ''<'' # x) = CHR ''<'' # x" for x
    by (simp add: lstrip_by_def py_isspace_def code_def)
  show "nested_kind (py_lower (K @ ''<'' @ e @ ''>'')) = Some (py_lower K)"
    unfolding py_lower_append nested_kind_def opens_def using assms(1) by (auto simp: upper_kinds o)
  have "py_strip e = e" using assms(2) strip_trimmed by (auto simp: py_strip_def strip_by_def lstrip_by_def rstrip_by_def)
  moreover have "drop 1 (dropWhile (\<lambda>c. c \<noteq> CHR ''<'') (K @ ''<'' @ e @ ''>'')) = e @ ''>''"
    using assms(1) by auto
  ultimately show "bracket_body (K @ ''<'' @ e @ ''>'') = Some e"
    by (simp add: bracket_body_def butlast_append)
qed

lemma read_array:
  assumes "trimmed e"
  shows "sql_type_to_delta (''ARRAY'' @ ''<'' @ e @ ''>'') = bind_result (sql_type_to_delta e) (\<lambda>t. Inr (ArrayOf t True))"
  using nested_text [of "''ARRAY''" e] assms
  by (subst sql_type_to_delta.simps) (simp add: upper_kinds Let_def)

lemma split_pair:
  assumes "neutral a" "neutral b" "trimmed a" "trimmed b"
  shows "split_top (a @ '', '' @ b) (CHR '','') = [a, b]"
proof -
  have "split_from (CHR '','') 0 [] (a @ '', '' @ b) = a # split_from (CHR '','') 0 [] (CHR '' '' # b)"
    using assms(1) by (simp add: neutral_def open_paren_def)
  also have "split_from (CHR '','') 0 [] (CHR '' '' # b) = [CHR '' '' # b]"
    using neutral_alone [OF neutral_append [OF neutral_free assms(2)], of "'' ''"] by (simp add: bracket_free_def)
  finally show ?thesis using assms(3,4) by (simp add: split_top_def strip_trimmed strip_blank)
qed

lemma read_map:
  assumes "neutral a" "neutral b" "trimmed a" "trimmed b"
  shows "sql_type_to_delta (''MAP'' @ ''<'' @ (a @ '', '' @ b) @ ''>'') =
     bind_result (sql_type_to_delta a) (\<lambda>t. bind_result (sql_type_to_delta b) (\<lambda>u. Inr (MapOf t u True)))"
proof -
  have "trimmed (a @ '', '' @ b)" using assms(3,4) by (simp add: trimmed_def)
  then show ?thesis using nested_text [of "''MAP''" "a @ '', '' @ b"] split_pair [OF assms]
    by (subst sql_type_to_delta.simps) (simp add: upper_kinds Let_def)
qed

lemma split_joined:
  "ms \<noteq> [] \<Longrightarrow> list_all (\<lambda>m. neutral m \<and> trimmed m) ms \<Longrightarrow> split_top (comma_joined ms) (CHR '','') = ms"
proof -
  have "ms \<noteq> [] \<Longrightarrow> list_all (\<lambda>m. neutral m \<and> trimmed m) ms \<Longrightarrow>
     split_from (CHR '','') 0 part (comma_joined ms) = (part @ hd ms) # map ((#) (CHR '' '')) (tl ms)" for part
  proof (induction ms arbitrary: part rule: comma_joined.induct)
    case (2 p)
    then show ?case by (simp add: neutral_alone)
  next
    case (3 p q ps)
    have "split_from (CHR '','') 0 part (p @ CHR '','' # r) = (part @ p) # split_from (CHR '','') 0 [] r" for r
      using "3.prems" by (simp add: neutral_def open_paren_def)
    then show ?case using "3.IH" [of "'' ''"] "3.prems" by (simp add: open_paren_def)
  qed simp
  then show "ms \<noteq> [] \<Longrightarrow> list_all (\<lambda>m. neutral m \<and> trimmed m) ms \<Longrightarrow> split_top (comma_joined ms) (CHR '','') = ms"
    by (cases ms) (auto simp: split_top_def strip_trimmed strip_blank list_all_iff intro: map_idI)
qed

lemma joined_trimmed: "ms \<noteq> [] \<Longrightarrow> list_all trimmed ms \<Longrightarrow> trimmed (comma_joined ms)"
  by (induction ms rule: comma_joined.induct) (auto simp: trimmed_def)

lemma read_stripped: "sql_type_to_delta (CHR '' '' # s) = sql_type_to_delta s" if "trimmed s"
  using that strip_blank strip_trimmed by (subst (1 2) sql_type_to_delta.simps) simp

lemma read_member:
  assumes "plain_name n"
  shows "member_parts (quoted n @ '': '' @ u) = (if py_strip (CHR '' '' # u) = [] then Inl (MemberNeeds (quoted n @ '': '' @ u)) else Inr (n, CHR '' '' # u))"
proof -
  have n: "CHR '':'' \<notin> set n" "bt \<notin> set n" "n \<noteq> []" using assms by (auto simp: plain_name_def list_all_iff)
  have p: "partition_on (CHR '':'') (quoted n @ '': '' @ u) = (quoted n, CHR '' '' # u)"
    using n(1) by (simp add: partition_on_def quoted_plain assms takeWhile_append dropWhile_append)
  have "trimmed (quoted n)" by (simp add: quoted_plain assms trimmed_def py_isspace_def code_def)
  moreover have "strip_by (\<lambda>c. c = bt) (bt # n @ [bt]) = n"
  proof -
    have "hd n \<in> set n" "last n \<in> set n" using n(3) by simp_all
    then have h: "hd n \<noteq> bt" "last n \<noteq> bt" using n(2) by auto
    then have "dropWhile (\<lambda>c. c = bt) (bt # n @ [bt]) = n @ [bt]" "dropWhile (\<lambda>c. c = bt) (rev n) = rev n"
      using n(3) h by (simp_all add: dropWhile_id hd_rev)
    then show ?thesis by (simp add: strip_by_def lstrip_by_def rstrip_by_def)
  qed
  ultimately show ?thesis
    using n(3) p by (simp add: member_parts_def strip_trimmed quoted_plain assms)
qed

section \<open>The warehouse and the direct engines give a column one type\<close>

text \<open>A type as SQL without NOT NULL can say it: everything nullable, no metadata on members.\<close>

fun relaxed :: "delta_type \<Rightarrow> delta_type" and relaxed_field :: "column \<Rightarrow> column" where
  "relaxed (Prim k) = Prim k"
| "relaxed (Struct fs) = Struct (map relaxed_field fs)"
| "relaxed (ArrayOf t b) = ArrayOf (relaxed t) True"
| "relaxed (MapOf k v b) = MapOf (relaxed k) (relaxed v) True"
| "relaxed_field (Column n t b m) = Column n (relaxed t) True []"

lemma map_result_all: "list_all2 (\<lambda>x y. f x = Inr y) xs ys \<Longrightarrow> map_result f xs = Inr ys"
  by (induction rule: list_all2_induct) auto

lemma read_struct:
  assumes "ms \<noteq> []" "list_all (\<lambda>m. neutral m \<and> trimmed m) ms" "list_all2 member_read ms cs"
  shows "sql_type_to_delta (''STRUCT'' @ ''<'' @ comma_joined ms @ ''>'') = Inr (Struct cs)"
proof -
  have "trimmed (comma_joined ms)" using assms(1,2) by (intro joined_trimmed) (auto simp: list_all_iff)
  moreover have "map_result (\<lambda>m. case member_parts m of Inl e \<Rightarrow> Inl e
      | Inr (n, ty) \<Rightarrow> bind_result (sql_type_to_delta ty) (\<lambda>t. Inr (Column n t True []))) ms = Inr cs"
    by (rule map_result_all, rule list_all2_mono [OF assms(3)]) (auto simp: member_read_def)
  ultimately show ?thesis using nested_text [of "''STRUCT''" "comma_joined ms"] split_joined [OF assms(1,2)]
    by (subst sql_type_to_delta.simps) (simp add: upper_kinds Let_def)
qed

lemma read_scalars:
  "map sql_type_to_delta [''BOOLEAN'', ''FLOAT'', ''DOUBLE'', ''STRING'', ''BINARY'', ''DATE'', ''TIMESTAMP'', ''TIMESTAMP_NTZ'',
      ''TINYINT'', ''SMALLINT'', ''INT'', ''BIGINT''] =
   map (\<lambda>n. Inr (Prim n)) [''boolean'', ''float'', ''double'', ''string'', ''binary'', ''date'', ''timestamp'', ''timestamp_ntz'',
      ''byte'', ''short'', ''integer'', ''long'']"
  by code_simp

lemmas read_primitive = read_scalars [unfolded list.map list.inject simp_thms]

lemma read_int: "sql_type_to_delta (int_sql w) = Inr (Prim (int_name w))"
  using read_primitive by (cases w) (simp_all add: int_sql_def int_name_def)

lemma read_decimal:
  assumes "0 < p" "p \<le> 38" "q \<le> p"
  shows "sql_type_to_delta (''DECIMAL('' @ nat_text 10 p @ '','' @ nat_text 10 q @ '')'') = Inr (Prim (decimal_text p q))"
proof -
  let ?a = "nat_text 10 p @ '','' @ nat_text 10 q @ '')''"
  have d: "ascii_digit c \<Longrightarrow> lower_char c = c \<and> c \<noteq> CHR '' '' \<and> c \<noteq> open_paren" for c
    by (auto simp: ascii_digit_def open_paren_def code_def lower_char_def)
  have low: "py_lower (nat_text 10 n) = nat_text 10 n" for n
    using nat_text_digits [of n] d unfolding py_lower_def by (intro map_idI) (auto simp: list_all_iff)
  have t: "trimmed (''DECIMAL('' @ ?a)" by (simp add: trimmed_def py_isspace_def code_def)
  have l: "py_lower (''DECIMAL('' @ ?a) = ''decimal('' @ ?a"
    by (simp only: py_lower_append low upper_kinds)
  have b: "without_blanks (''decimal('' @ ?a) = ''decimal('' @ ?a"
    using nat_text_digits [of p] nat_text_digits [of q] d by (intro no_blanks) (auto simp: list_all_iff)
  have k: "nested_kind (''decimal('' @ ?a) = None" by (simp add: nested_kind_def opens_def)
  have pt: "partition_on open_paren (''decimal('' @ ?a) = (''decimal'', ?a)" by (simp add: partition_on_def open_paren_def)
  have al: "(case map_of type_name_aliases ''decimal'' of None \<Rightarrow> ''decimal'' | Some t \<Rightarrow> t) = ''decimal''" by code_simp
  have "span_digits ?a = (nat_text 10 p, '','' @ nat_text 10 q @ '')'')"
    by (rule span_digits_text) (simp_all add: nat_text_digits)
  moreover have "span_digits (nat_text 10 q @ '')'') = (nat_text 10 q, '')'')"
    by (rule span_digits_text) (simp_all add: nat_text_digits)
  ultimately have "decimal_args ?a = Some (p, q)"
    by (simp add: decimal_args_def nat_text_nonempty digits_val_nat_text)
  then have "scalar_type (''decimal('' @ ?a) = Inr (Prim (decimal_text p q))"
    using assms unfolding scalar_type_def Let_def b pt prod.case al by (simp add: open_paren_def)
  then show ?thesis
    unfolding sql_type_to_delta.simps [of "''DECIMAL('' @ ?a"] Let_def strip_trimmed [OF t] l k by simp
qed

lemma struct_member:
  assumes "arrow_to_delta_field f = Inr c" "member_sql f = Inr s" "plain_field f"
    and "\<And>t u d. f = AField (col_name c) t True (af_meta f) \<Longrightarrow> arrow_to_sql t = Inr u \<Longrightarrow> arrow_to_delta_type t = Inr d
      \<Longrightarrow> plain_arrow t \<Longrightarrow> sql_type_to_delta u = Inr (relaxed d)"
  shows "member_read s (relaxed_field c)"
proof (cases f)
  case (AField n t b m)
  obtain d where c: "arrow_to_delta_type t = Inr d" "c = Column n d b (field_metadata m)"
    using assms(1) AField by (auto elim!: bind_result_InrE)
  obtain u where u: "arrow_to_sql t = Inr u" "s = quoted n @ '': '' @ u" and p: "b" "plain_name n" "plain_arrow t"
    using assms(2,3) AField by (auto elim!: bind_result_InrE)
  have r: "sql_type_to_delta u = Inr (relaxed d)" using assms(4) [of t u d] AField u(1) c p by simp
  have tr: "trimmed u" using arrow_sql_shape(1) [OF u(1) p(3)] by simp
  then have "py_strip (CHR '' '' # u) \<noteq> []" using strip_blank by (simp add: trimmed_def)
  then have "member_parts s = Inr (n, CHR '' '' # u)" unfolding u(2) read_member [OF p(2)] by simp
  then show ?thesis using r c(2) tr by (simp add: member_read_def read_stripped)
qed

lemma types_agree:
  "arrow_to_sql t = Inr s \<Longrightarrow> arrow_to_delta_type t = Inr d \<Longrightarrow> plain_arrow t \<Longrightarrow> sql_type_to_delta s = Inr (relaxed d)"
  "member_sql f = Inr s \<Longrightarrow> arrow_to_delta_field f = Inr c \<Longrightarrow> plain_field f \<Longrightarrow> member_read s (relaxed_field c)"
proof (induction t and f arbitrary: s d and s c)
  case (ADecimal p q)
  then have s: "s = ''DECIMAL('' @ nat_text 10 p @ '','' @ nat_text 10 (nat q) @ '')''" and
    d: "d = Prim (decimal_text p (nat q))" "0 < p" "p \<le> 38" "nat q \<le> p"
    by (auto split: if_splits simp: int_text_def)
  then show ?case by (simp only: read_decimal relaxed.simps)
next
  case (AStruct fs)
  then obtain ms cs where m: "map_result member_sql fs = Inr ms" "map_result arrow_to_delta_field fs = Inr cs"
    and s: "s = ''STRUCT'' @ ''<'' @ comma_joined ms @ ''>''" "d = Struct cs"
    by (auto elim!: bind_result_InrE)
  have l: "length ms = length fs" "length cs = length fs" using m by (simp_all add: map_result_length)
  have n: "member_sql (fs ! i) = Inr (ms ! i)" "arrow_to_delta_field (fs ! i) = Inr (cs ! i)" "plain_field (fs ! i)"
    if "i < length fs" for i
    using map_result_all2 [OF m(1)] map_result_all2 [OF m(2)] that AStruct.prems(3)
    by (simp_all add: list_all2_conv_all_nth list_all_length)
  have "list_all2 member_read ms (map relaxed_field cs)"
    using l n AStruct.IH [OF nth_mem] by (simp add: list_all2_conv_all_nth)
  moreover have "list_all (\<lambda>m. neutral m \<and> trimmed m) ms"
    using l arrow_sql_shape(2) [OF n(1) n(3)] by (simp add: list_all_length)
  moreover have "ms \<noteq> []" using l AStruct.prems(3) by auto
  ultimately show ?case unfolding s relaxed.simps by (intro read_struct)
next
  case (AList l t n)
  then obtain u e where u: "arrow_to_sql t = Inr u" "s = ''ARRAY'' @ ''<'' @ u @ ''>''" and e: "arrow_to_delta_type t = Inr e" "d = ArrayOf e n"
    by (auto elim!: bind_result_InrE split: if_splits)
  have "trimmed u" using arrow_sql_shape(1) [OF u(1)] AList.prems(3) by simp
  then show ?case using AList.IH [OF u(1) e(1)] AList.prems(3) unfolding u(2) e(2) by (simp only: read_array) simp
next
  case (AMap k v n)
  then obtain a b where ab: "arrow_to_sql k = Inr a" "arrow_to_sql v = Inr b" and s: "s = ''MAP'' @ ''<'' @ (a @ '', '' @ b) @ ''>''"
    by (auto elim!: bind_result_InrE)
  obtain x y where xy: "arrow_to_delta_type k = Inr x" "arrow_to_delta_type v = Inr y" "d = MapOf x y n"
    using AMap.prems(2) by (auto elim!: bind_result_InrE)
  have "neutral a \<and> trimmed a" "neutral b \<and> trimmed b" using arrow_sql_shape(1) ab AMap.prems(3) by auto
  then show ?case using AMap.IH(1) [OF ab(1) xy(1)] AMap.IH(2) [OF ab(2) xy(2)] AMap.prems(3) unfolding s xy(3)
    by (simp only: read_map) simp
next
  case (AField n t b m)
  then show ?case using struct_member [of "AField n t b m" c s] by auto
qed (auto simp: read_primitive read_int split: if_splits option.splits list.splits)

text \<open>C15: a column of a plain Arrow type gets the same type through a warehouse as through a direct
  engine: the SQL rendered for it, read by this library's reader of SQL types, is the Delta type
  written into the log for it, up to the nullability of elements and members and the metadata of
  members.  Plain are the types whose structs, at any depth, have members, all of them nullable and
  named, without backticks, brackets, commas and colons, and whose time zones are not empty; a
  NOT NULL member is rendered but not read (\<open>not_null_unread\<close>).\<close>

theorem engines_agree_on_types:
  assumes "arrow_to_sql t = Inr s" "arrow_to_delta_type t = Inr d" "plain_arrow t"
  shows "sql_type_to_delta s = Inr (relaxed d) \<and> protocol_type (relaxed d)"
  using types_agree(1) [OF assms] sql_type_protocol by blast

definition sample_arrow :: arrow_dtype where
  "sample_arrow = AMap (AString Large) (AStruct
     [AField ''when'' (ATimestamp (Some ''UTC'')) True [], AField ''paid in'' (AList Plain (ADecimal 5 2) False) True []]) True"

theorem engines_agree_on_types_witness:
  "\<exists>s d. arrow_to_sql sample_arrow = Inr s \<and> arrow_to_delta_type sample_arrow = Inr d \<and> sql_type_to_delta s = Inr (relaxed d)"
proof -
  have "\<exists>s. arrow_to_sql sample_arrow = Inr s" "\<exists>d. arrow_to_delta_type sample_arrow = Inr d" "plain_arrow sample_arrow"
    by (simp_all add: sample_arrow_def plain_name_def)
  then show ?thesis using engines_agree_on_types by blast
qed

text \<open>A member that may not be null is beyond the reader, though a warehouse takes it.\<close>

lemma not_null_unread: "sql_type_to_delta ''STRUCT<a: INT NOT NULL>'' = Inl UnknownType"
  by code_simp

end
