(* ===== verification/Sql_Text.thy ===== *)
theory Sql_Text
  imports Arrow_Types Catalog
begin

text \<open>
  \<open>engine/sql_text.py\<close>: names, values and types as they are put into a statement for a warehouse,
  and what the warehouse reads there.
\<close>

section \<open>Names\<close>

datatype sql_error =
    NoParts | BadReference ref_error | OtherStruct | EmptyNewName | NotByName | NotSqlType string
  | NoPrivilege | NotPrivilege string | NullProperty "string list" | BlankPredicate

definition of_ref :: "ref_error + 'a \<Rightarrow> sql_error + 'a" where
  "of_ref r = (case r of Inl e \<Rightarrow> Inl (BadReference e) | Inr x \<Rightarrow> Inr x)"

text \<open>A column: a text is one name, a list a path of names.\<close>

datatype column_ref = OneName string | NamePath "string list"
datatype columns_ref = OneColumn string | ManyColumns "column_ref list"

definition dotted_quoted :: "string list \<Rightarrow> string" where
  "dotted_quoted ps = join_with dot (map quoted ps)"

definition sql_column :: "column_ref \<Rightarrow> sql_error + string" where
  "sql_column c =
     (case c of OneName n \<Rightarrow> Inr (quoted n)
      | NamePath ps \<Rightarrow> if ps = [] then Inl NoParts else Inr (dotted_quoted ps))"

definition column_path :: "column_ref \<Rightarrow> sql_error + string" where
  "column_path c =
     (case c of OneName n \<Rightarrow> bind_result (of_ref (split_identifier n)) (\<lambda>ps. sql_column (NamePath ps))
      | NamePath ps \<Rightarrow> sql_column (NamePath ps))"

definition sql_columns :: "columns_ref \<Rightarrow> sql_error + string" where
  "sql_columns cs =
     (case cs of OneColumn n \<Rightarrow> sql_column (OneName n)
      | ManyColumns cs \<Rightarrow> bind_result (map_result sql_column cs) (\<lambda>ps. Inr (comma_joined ps)))"

text \<open>The new name of a column: it may repeat the path of its struct, and only that.\<close>

definition leaf_name :: "column_ref \<Rightarrow> string \<Rightarrow> sql_error + string" where
  "leaf_name old new =
     bind_result (case old of OneName n \<Rightarrow> of_ref (split_identifier n) | NamePath ps \<Rightarrow> Inr ps) (\<lambda>pth.
       let new_path = (if bt \<in> set new \<or> dot \<in> set new
                       then (case split_identifier new of Inl e \<Rightarrow> [new] | Inr ps \<Rightarrow> ps) else [new])
       in if 1 < length new_path
             \<and> (length new_path \<noteq> length pth \<or> map py_lower (butlast new_path) \<noteq> map py_lower (butlast pth))
          then Inl OtherStruct
          else if last new_path = [] then Inl EmptyNewName
          else Inr (quoted (last new_path)))"

definition qualified_name :: "string \<Rightarrow> sql_error + string" where
  "qualified_name n = bind_result (of_ref (split_identifier n)) (\<lambda>ps. Inr (dotted_quoted ps))"

definition table_name :: "resolved_table \<Rightarrow> sql_error + string" where
  "table_name t =
     (let r = t_ref t in
      if kind r \<noteq> CATALOG then Inl NotByName
      else Inr (dotted_quoted (map the (filter (\<lambda>p. p \<noteq> None) [catalog r, schema r, table r]))))"

section \<open>Values\<close>

definition apostrophe :: char where "apostrophe = CHR 0x27"

definition replace_char :: "char \<Rightarrow> string \<Rightarrow> string \<Rightarrow> string" where
  "replace_char c t s = concat (map (\<lambda>x. if x = c then t else [x]) s)"

definition literal :: "string option \<Rightarrow> string" where
  "literal v =
     (case v of None \<Rightarrow> ''NULL''
      | Some s \<Rightarrow> apostrophe
          # replace_char apostrophe [backslash, apostrophe] (replace_char backslash [backslash, backslash] s)
          @ [apostrophe])"

text \<open>A property as a caller gives it: None, a boolean, or anything else by its \<open>str\<close>.\<close>

datatype property_arg = NoValue | Flag bool | Value string

definition property_value :: "string \<Rightarrow> property_arg \<Rightarrow> sql_error + string" where
  "property_value k v =
     (case v of NoValue \<Rightarrow> Inl (NullProperty [k])
      | Flag b \<Rightarrow> Inr (if b then ''true'' else ''false'') | Value s \<Rightarrow> Inr s)"

definition assignment :: "string \<times> property_arg \<Rightarrow> sql_error + string" where
  "assignment kv =
     bind_result (property_value (fst kv) (snd kv)) (\<lambda>v.
       Inr (literal (Some (fst kv)) @ '' = '' @ literal (Some v)))"

definition sql_properties :: "(string \<times> property_arg) list \<Rightarrow> sql_error + string" where
  "sql_properties kvs =
     (let unset = map fst (filter (\<lambda>kv. snd kv = NoValue) kvs) in
      if unset \<noteq> [] then Inl (NullProperty (sort unset))
      else bind_result (map_result assignment kvs) (\<lambda>ps. Inr (comma_joined ps)))"

definition sql_predicate :: "string option \<Rightarrow> sql_error + string option" where
  "sql_predicate p =
     (case p of None \<Rightarrow> Inr None
      | Some s \<Rightarrow> if py_strip s = [] then Inl BlankPredicate else Inr (Some s))"

definition sql_expression :: "string option \<Rightarrow> string" where
  "sql_expression v = (case v of None \<Rightarrow> ''NULL'' | Some s \<Rightarrow> s)"

text \<open>\<open>_PRIVILEGE.match\<close>, and \<open>str.split()\<close>.\<close>

definition without_newline :: "string \<Rightarrow> string" where
  "without_newline u = (if u \<noteq> [] \<and> last u = CHR 0x0A then butlast u else u)"

definition privilege_ok :: "string \<Rightarrow> bool" where
  "privilege_ok s =
     (case without_newline s of [] \<Rightarrow> False
      | c # r \<Rightarrow> ascii_alpha c \<and> list_all (\<lambda>x. ascii_alpha x \<or> x = CHR '' '' \<or> x = CHR ''_'') r)"

definition py_words :: "string \<Rightarrow> string list" where
  "py_words s =
     filter (\<lambda>w. w \<noteq> []) (split_on (CHR '' '') (map (\<lambda>c. if py_isspace c then CHR '' '' else c) s))"

definition sql_privileges :: "string list \<Rightarrow> sql_error + string" where
  "sql_privileges items =
     (if items = [] then Inl NoPrivilege
      else case find (\<lambda>i. \<not> privilege_ok i) items of
        Some i \<Rightarrow> Inl (NotPrivilege i)
      | None \<Rightarrow> Inr (comma_joined (map (\<lambda>i. join_with (CHR '' '') (py_words (py_upper i))) items)))"

definition sql_principal :: "string \<Rightarrow> string" where
  "sql_principal p = quoted p"

text \<open>A feature by its wire name, or a delta-rs \<open>TableFeatures\<close> member by its text.\<close>

datatype feature_arg = WireName string | Member string

definition feature_aliases :: "(string \<times> string) list" where
  "feature_aliases =
     [(''TimestampWithoutTimezone'', ''timestampNtz''), (''VariantTypePreview'', ''variantType-preview''),
      (''TypeWideningPreview'', ''typeWidening-preview'')]"

definition wire_feature :: "feature_arg \<Rightarrow> string" where
  "wire_feature f =
     (case f of WireName s \<Rightarrow> s
      | Member s \<Rightarrow>
          let m = last (split_on dot s) in
          case map_of feature_aliases m of Some a \<Rightarrow> a
          | None \<Rightarrow> py_lower (take 1 m) @ drop 1 m)"

section \<open>Types\<close>

text \<open>
  \<open>_QUOTED_IDENTIFIER\<close> from its opening backtick: what follows the match.  The repetition takes a
  doubled backtick first, and gives the last one back when nothing closes the name.
\<close>

fun close_quote :: "string \<Rightarrow> string option" where
  "close_quote [] = None"
| "close_quote (c # r) =
     (if c \<noteq> bt then close_quote r
      else (case r of
              [] \<Rightarrow> Some []
            | d # r' \<Rightarrow>
                if d = bt then (case close_quote r' of Some x \<Rightarrow> Some x | None \<Rightarrow> Some r) else Some r))"

lemma close_quote_length [termination_simp]: "close_quote s = Some x \<Longrightarrow> length x < length s"
proof (induction s rule: close_quote.induct)
  case (2 c r)
  show ?case
  proof (cases "c = bt")
    case False
    then show ?thesis using 2 by (simp add: less_SucI)
  next
    case True
    show ?thesis
    proof (cases r)
      case (Cons d r')
      show ?thesis
      proof (cases "d = bt \<and> close_quote r' = Some x")
        case both: True
        then have "length x < length r'" using "2.IH"(2) [OF _ Cons] True by simp
        then show ?thesis using Cons by simp
      next
        case False
        then have "x = r" using "2.prems" True Cons by (auto split: if_splits option.splits)
        then show ?thesis by simp
      qed
    qed (use 2 True in simp)
  qed
qed simp

text \<open>\<open>_QUOTED_IDENTIFIER.sub("q", text)\<close>.\<close>

fun sub_quoted :: "string \<Rightarrow> string" where
  "sub_quoted [] = []"
| "sub_quoted (c # r) =
     (if c = bt then (case close_quote r of Some x \<Rightarrow> CHR ''q'' # sub_quoted x | None \<Rightarrow> c # sub_quoted r)
      else c # sub_quoted r)"

definition type_char :: "char \<Rightarrow> bool" where
  "type_char c \<longleftrightarrow> ascii_alpha c \<or> ascii_digit c \<or> c \<in> set ''_ ,:()<>''"

text \<open>\<open>_SQL_TYPE.match\<close>; its \<open>$\<close> also matches before a final newline.\<close>

definition match_sql_type :: "string \<Rightarrow> bool" where
  "match_sql_type u \<longleftrightarrow>
     (let v = without_newline u in v \<noteq> [] \<and> list_all type_char v)"

definition sql_type :: "string \<Rightarrow> sql_error + string" where
  "sql_type s =
     (let t = py_strip s in
      if t = [] \<or> \<not> match_sql_type (sub_quoted t) then Inl (NotSqlType s) else Inr t)"

text \<open>A type as SQL text, as an Arrow type or as an Arrow field; columns to add or create.\<close>

datatype type_arg = TypeText string | ArrowType arrow_dtype | ArrowField arrow_field
datatype columns_arg = NamedTypes "(string \<times> type_arg) list" | ArrowFields "arrow_field list"

definition type_text :: "type_arg \<Rightarrow> arrow_error + string" where
  "type_text a =
     (case a of TypeText s \<Rightarrow> Inr s | ArrowType t \<Rightarrow> arrow_to_sql t | ArrowField f \<Rightarrow> arrow_to_sql (af_type f))"

definition column_types :: "columns_arg \<Rightarrow> arrow_error + (string \<times> string) list" where
  "column_types a =
     (case a of
        NamedTypes kvs \<Rightarrow> map_result (\<lambda>(k, v). bind_result (type_text v) (\<lambda>t. Inr (k, t))) kvs
      | ArrowFields fs \<Rightarrow> map_result (\<lambda>f. bind_result (arrow_to_sql (af_type f)) (\<lambda>t. Inr (af_name f, t))) fs)"

section \<open>What a warehouse reads\<close>

text \<open>
  The lexical structure of Databricks SQL: names between backticks, a doubled one standing for one;
  strings between quotes, with backslash escapes; everything else character by character.
\<close>

datatype piece = Ident string | Str string | Bare char

fun ident_end :: "string \<Rightarrow> (string \<times> string) option" where
  "ident_end [] = None"
| "ident_end (c # r) =
     (if c \<noteq> bt then map_option (apfst ((#) c)) (ident_end r)
      else (case r of
              [] \<Rightarrow> Some ([], [])
            | d # r' \<Rightarrow> if d = bt then map_option (apfst ((#) bt)) (ident_end r') else Some ([], r)))"

text \<open>An escaped character; a wildcard of LIKE keeps its backslash.\<close>

definition escaped :: "char \<Rightarrow> string" where
  "escaped c =
     (case map_of [(CHR ''n'', 0x0A), (CHR ''r'', 0x0D), (CHR ''t'', 0x09), (CHR ''b'', 0x08), (CHR ''0'', 0),
         (CHR ''Z'', 0x1A)] c of
        Some n \<Rightarrow> [char_of (n :: nat)]
      | None \<Rightarrow> if c = CHR ''%'' \<or> c = CHR ''_'' then [backslash, c] else [c])"

fun string_end :: "char \<Rightarrow> string \<Rightarrow> (string \<times> string) option" where
  "string_end q [] = None"
| "string_end q (c # r) =
     (if c = backslash then (case r of [] \<Rightarrow> None | d # r' \<Rightarrow> map_option (apfst ((@) (escaped d))) (string_end q r'))
      else if c = q then Some ([], r)
      else map_option (apfst ((#) c)) (string_end q r))"

lemma ident_end_length [termination_simp]: "ident_end s = Some (n, r) \<Longrightarrow> length r < length s"
proof (induction s arbitrary: n r rule: ident_end.induct)
  case (2 c s)
  show ?case
  proof (cases "c = bt")
    case False
    then show ?thesis using 2 by (auto simp: less_SucI)
  next
    case True
    then show ?thesis using 2 by (cases s) (auto simp: less_SucI split: if_splits)
  qed
qed simp

lemma string_end_length [termination_simp]: "string_end q s = Some (n, r) \<Longrightarrow> length r < length s"
proof (induction q s arbitrary: n r rule: string_end.induct)
  case (2 q c s)
  show ?case
  proof (cases "c = backslash")
    case False
    then show ?thesis using 2 by (auto simp: less_SucI split: if_splits)
  next
    case True
    then show ?thesis using 2 by (cases s) (auto simp: less_SucI)
  qed
qed simp

fun read_sql :: "string \<Rightarrow> piece list option" where
  "read_sql [] = Some []"
| "read_sql (c # r) =
     (if c = bt then (case ident_end r of None \<Rightarrow> None | Some (n, x) \<Rightarrow> map_option ((#) (Ident n)) (read_sql x))
      else if c = apostrophe \<or> c = CHR 0x22 then
        (case string_end c r of None \<Rightarrow> None | Some (v, x) \<Rightarrow> map_option ((#) (Str v)) (read_sql x))
      else map_option ((#) (Bare c)) (read_sql r))"

lemma ident_end_doubled: "r = [] \<or> hd r \<noteq> bt \<Longrightarrow> ident_end (double_backticks n @ bt # r) = Some (n, r)"
proof (induction n)
  case Nil
  then show ?case by (cases r) (auto simp: double_backticks_def)
qed (auto simp: double_backticks_def)

lemma read_quoted:
  "r = [] \<or> hd r \<noteq> bt \<Longrightarrow> read_sql (quoted n @ r) = map_option ((#) (Ident n)) (read_sql r)"
  by (simp add: quoted_def ident_end_doubled)

definition escaped_text :: "string \<Rightarrow> string" where
  "escaped_text s = replace_char apostrophe [backslash, apostrophe] (replace_char backslash [backslash, backslash] s)"

lemma escaped_text_simps:
  "escaped_text [] = []"
  "escaped_text (c # s) =
     (if c = backslash then [backslash, backslash] else if c = apostrophe then [backslash, apostrophe] else [c]) @ escaped_text s"
  by (simp_all add: escaped_text_def replace_char_def apostrophe_def)

lemma string_end_escaped: "string_end apostrophe (escaped_text v @ apostrophe # r) = Some (v, r)"
proof (induction v)
  case (Cons c v)
  then show ?case by (auto simp: escaped_text_simps escaped_def apostrophe_def)
qed (simp add: escaped_text_simps apostrophe_def)

lemma read_literal: "read_sql (literal (Some v) @ r) = map_option ((#) (Str v)) (read_sql r)"
proof -
  have "literal (Some v) @ r = apostrophe # escaped_text v @ apostrophe # r"
    by (simp add: literal_def escaped_text_def)
  then show ?thesis by (simp add: string_end_escaped) (simp add: apostrophe_def)
qed

section \<open>Properties are read back\<close>

fun joined_pieces :: "piece list list \<Rightarrow> piece list" where
  "joined_pieces [] = []"
| "joined_pieces [p] = p"
| "joined_pieces (p # q # ps) = p @ [Bare (CHR '',''), Bare (CHR '' '')] @ joined_pieces (q # ps)"

definition prop_text :: "property_arg \<Rightarrow> string" where
  "prop_text v = (case v of NoValue \<Rightarrow> [] | Flag b \<Rightarrow> if b then ''true'' else ''false'' | Value s \<Rightarrow> s)"

definition assigned :: "string \<times> property_arg \<Rightarrow> piece list" where
  "assigned kv = [Str (fst kv), Bare (CHR '' ''), Bare (CHR ''=''), Bare (CHR '' ''), Str (prop_text (snd kv))]"

text \<open>A text read as pieces, whatever follows it.\<close>

definition reads :: "string \<Rightarrow> piece list \<Rightarrow> bool" where
  "reads s ps \<longleftrightarrow> (\<forall>r. r = [] \<or> hd r \<noteq> bt \<longrightarrow> read_sql (s @ r) = map_option ((@) ps) (read_sql r))"

lemma readsD: "reads s ps \<Longrightarrow> r = [] \<or> hd r \<noteq> bt \<Longrightarrow> read_sql (s @ r) = map_option ((@) ps) (read_sql r)"
  unfolding reads_def by blast

lemma prepend:
  "map_option ((@) []) m = m" "map_option ((@) (x # xs)) m = map_option ((#) x) (map_option ((@) xs) m)"
  "map_option ((@) (xs @ ys)) m = map_option ((@) xs) (map_option ((@) ys) m)"
  for m :: "'a list option"
  by (cases m; simp)+

lemma reads_alone: "reads s ps \<Longrightarrow> read_sql s = Some ps"
  by (auto simp: reads_def dest!: spec [of _ "[]"])

lemma reads_append:
  assumes "reads s ps" "reads t qs" "t = [] \<or> hd t \<noteq> bt"
  shows "reads (s @ t) (ps @ qs)"
proof -
  have "read_sql (s @ t @ r) = map_option ((@) (ps @ qs)) (read_sql r)" if r: "r = [] \<or> hd r \<noteq> bt" for r
  proof -
    have "t @ r = [] \<or> hd (t @ r) \<noteq> bt" using assms(3) r by (cases t) auto
    then have "read_sql (s @ t @ r) = map_option ((@) ps) (read_sql (t @ r))"
      using assms(1) by (rule readsD [rotated])
    also have "\<dots> = map_option ((@) ps) (map_option ((@) qs) (read_sql r))"
      using readsD [OF assms(2) r] by simp
    finally show ?thesis by (simp only: prepend)
  qed
  then show ?thesis by (simp add: reads_def)
qed

lemma reads_bare: "c \<noteq> bt \<Longrightarrow> c \<noteq> apostrophe \<Longrightarrow> c \<noteq> CHR 0x22 \<Longrightarrow> reads [c] [Bare c]"
  by (simp add: reads_def prepend)

lemma reads_join:
  assumes "list_all2 reads ss pss"
  shows "reads (comma_joined ss) (joined_pieces pss)"
  using assms
proof (induction ss arbitrary: pss rule: comma_joined.induct)
  case 1
  then show ?case by (simp add: reads_def prepend)
next
  case (2 p)
  then show ?case by (auto simp: list_all2_Cons1)
next
  case (3 p q ss)
  then obtain a b pss' where pss: "pss = a # b # pss'" "reads p a" "reads (comma_joined (q # ss)) (joined_pieces (b # pss'))"
    by (auto simp: list_all2_Cons1)
  have "read_sql (p @ '', '' @ comma_joined (q # ss) @ r) =
      map_option ((@) (a @ [Bare (CHR '',''), Bare (CHR '' '')] @ joined_pieces (b # pss'))) (read_sql r)"
    if r: "r = [] \<or> hd r \<noteq> bt" for r
    using readsD [OF pss(2), of "'', '' @ comma_joined (q # ss) @ r"] readsD [OF pss(3) r] by (simp add: apostrophe_def prepend)
  then show ?case by (simp add: reads_def pss(1))
qed

lemma assignment_reads: "assignment kv = Inr s \<Longrightarrow> reads s (assigned kv)"
proof -
  assume "assignment kv = Inr s"
  then have s: "s = literal (Some (fst kv)) @ '' = '' @ literal (Some (prop_text (snd kv)))"
    by (auto simp: assignment_def property_value_def prop_text_def elim!: bind_result_InrE split: property_arg.splits)
  have "read_sql (s @ r) = map_option ((@) (assigned kv)) (read_sql r)" for r
    unfolding s assigned_def append_assoc read_literal
    by (simp add: read_literal apostrophe_def prepend del: append_assoc)
  then show ?thesis by (simp add: reads_def)
qed

text \<open>A warehouse reads a rendered list of table properties as exactly the keys and values given,
  whatever quotes, backslashes or separators they hold; none reaches out of its string.\<close>

theorem properties_read_back:
  assumes "sql_properties kvs = Inr s"
  shows "read_sql s = Some (joined_pieces (map assigned kvs)) \<and> (\<forall>kv\<in>set kvs. snd kv \<noteq> NoValue)"
proof -
  have f: "filter (\<lambda>kv. snd kv = NoValue) kvs = []" and "\<exists>ps. map_result assignment kvs = Inr ps \<and> s = comma_joined ps"
    using assms by (auto simp: sql_properties_def elim!: bind_result_InrE split: if_splits)
  then obtain ps where ps: "map_result assignment kvs = Inr ps" "s = comma_joined ps" by blast
  have "list_all2 reads ps (map assigned kvs)"
    using map_result_all2 [OF ps(1)] assignment_reads by (simp add: list_all2_conv_all_nth)
  then have "read_sql s = Some (joined_pieces (map assigned kvs))"
    unfolding ps(2) by (intro reads_alone reads_join)
  then show ?thesis using f by (auto simp: filter_empty_conv)
qed

theorem properties_read_back_witness:
  "\<exists>s. sql_properties [(''it's'', Value (''a'' @ [backslash])), (''k'', Flag True)] = Inr s
     \<and> read_sql s = Some (assigned (''it's'', Value (''a'' @ [backslash])) @ [Bare (CHR '',''), Bare (CHR '' '')] @ assigned (''k'', Flag True))"
proof -
  have "\<exists>s. sql_properties [(''it's'', Value (''a'' @ [backslash])), (''k'', Flag True)] = Inr s"
    by (simp add: sql_properties_def assignment_def property_value_def)
  then show ?thesis using properties_read_back by fastforce
qed

section \<open>Names are read back\<close>

definition name_pieces :: "string list \<Rightarrow> piece list" where
  "name_pieces ns = tl (concat (map (\<lambda>n. [Bare dot, Ident n]) ns))"

lemma reads_quoted: "reads (quoted n) [Ident n]"
  by (simp add: reads_def read_quoted prepend)

lemma reads_dotted: "ns \<noteq> [] \<Longrightarrow> reads (dotted_quoted ns) (name_pieces ns)"
proof (induction ns rule: list_nonempty_induct)
  case (single n)
  then show ?case by (simp add: dotted_quoted_def name_pieces_def reads_quoted)
next
  case (cons n l)
  then obtain m ns where l: "l = m # ns" by (cases l) auto
  have "reads ([dot] @ dotted_quoted (m # ns)) ([Bare dot] @ name_pieces (m # ns))"
  proof -
    have "read_sql (dot # dotted_quoted (m # ns) @ r) = map_option ((#) (Bare dot)) (map_option ((@) (name_pieces (m # ns))) (read_sql r))"
      if "r = [] \<or> hd r \<noteq> bt" for r
      using readsD [OF cons.IH that] l by (simp add: apostrophe_def)
    then show ?thesis by (simp add: reads_def prepend)
  qed
  then have "reads (quoted n @ [dot] @ dotted_quoted (m # ns)) ([Ident n] @ [Bare dot] @ name_pieces (m # ns))"
    by (rule reads_append [OF reads_quoted]) simp
  then show ?case by (simp add: dotted_quoted_def name_pieces_def l)
qed

definition column_names :: "column_ref \<Rightarrow> string list" where
  "column_names c = (case c of OneName n \<Rightarrow> [n] | NamePath ps \<Rightarrow> ps)"

lemma reads_column: "sql_column c = Inr s \<Longrightarrow> reads s (name_pieces (column_names c))"
  using reads_quoted reads_dotted
  by (auto simp: sql_column_def column_names_def name_pieces_def split: column_ref.splits if_splits)

definition listed_columns :: "columns_ref \<Rightarrow> column_ref list" where
  "listed_columns cs = (case cs of OneColumn n \<Rightarrow> [OneName n] | ManyColumns cs \<Rightarrow> cs)"

text \<open>A warehouse reads a rendered list of columns as exactly the names given, part by part, and
  nothing else, whatever characters they hold.\<close>

theorem columns_read_back:
  assumes "sql_columns cs = Inr s"
  shows "read_sql s = Some (joined_pieces (map (\<lambda>c. name_pieces (column_names c)) (listed_columns cs)))"
proof (cases cs)
  case (OneColumn n)
  then show ?thesis using assms reads_alone [OF reads_quoted]
    by (auto simp: sql_columns_def sql_column_def listed_columns_def column_names_def name_pieces_def)
next
  case (ManyColumns l)
  then obtain ps where ps: "map_result sql_column l = Inr ps" "s = comma_joined ps"
    using assms by (auto simp: sql_columns_def elim!: bind_result_InrE)
  have "list_all2 reads ps (map (\<lambda>c. name_pieces (column_names c)) l)"
    using map_result_all2 [OF ps(1)] reads_column by (simp add: list_all2_conv_all_nth)
  then show ?thesis unfolding ps(2) ManyColumns listed_columns_def by (simp add: reads_alone reads_join)
qed

theorem columns_read_back_witness:
  "\<exists>s. sql_columns (ManyColumns [NamePath [''a'' @ [bt], ''b''], OneName ''c, d'']) = Inr s
     \<and> read_sql s = Some [Ident (''a'' @ [bt]), Bare dot, Ident ''b'', Bare (CHR '',''), Bare (CHR '' ''), Ident ''c, d'']"
proof -
  have "\<exists>s. sql_columns (ManyColumns [NamePath [''a'' @ [bt], ''b''], OneName ''c, d'']) = Inr s"
    by (simp add: sql_columns_def sql_column_def)
  then show ?thesis using columns_read_back
    by (fastforce simp: listed_columns_def column_names_def name_pieces_def)
qed

section \<open>A type stays in its place\<close>

text \<open>Where the name closes, the two readings agree; where it does not, a backtick is left over.\<close>

lemma close_quote_reads:
  "close_quote s = Some r \<Longrightarrow> (\<exists>n. ident_end s = Some (n, r)) \<or> (\<exists>x. r = bt # x \<and> close_quote x = None)"
proof (induction s rule: close_quote.induct)
  case (2 c s)
  show ?case
  proof (cases "c = bt")
    case False
    then show ?thesis using 2 by auto
  next
    case True
    show ?thesis
    proof (cases s)
      case Nil
      then show ?thesis using "2.prems" True by simp
    next
      case (Cons d s')
      then show ?thesis using 2 True by (cases "d = bt"; cases "close_quote s'") auto
    qed
  qed
qed simp

definition contained :: "piece \<Rightarrow> bool" where
  "contained p \<longleftrightarrow> (case p of Ident n \<Rightarrow> True | Str v \<Rightarrow> False | Bare c \<Rightarrow> type_char c)"

lemma contained_simps [simp]: "contained (Ident n)" "\<not> contained (Str v)" "contained (Bare c) \<longleftrightarrow> type_char c"
  by (simp_all add: contained_def)

lemma type_char_marks [simp]: "\<not> type_char bt" "\<not> type_char apostrophe" "\<not> type_char (CHR 0x22)" "type_char (CHR ''q'')"
  by (simp_all add: type_char_def ascii_alpha_def ascii_digit_def code_def apostrophe_def)

lemma ident_end_append:
  "ident_end s = Some (n, x) \<Longrightarrow> x \<noteq> [] \<or> r = [] \<or> hd r \<noteq> bt \<Longrightarrow> ident_end (s @ r) = Some (n, x @ r)"
proof (induction s arbitrary: n x rule: ident_end.induct)
  case (2 c s)
  show ?case
  proof (cases "c = bt")
    case False
    then show ?thesis using 2 by auto
  next
    case True
    show ?thesis
    proof (cases s)
      case Nil
      then show ?thesis using "2.prems" True by (cases r) auto
    next
      case (Cons d s')
      then show ?thesis using 2 True by (cases "d = bt") auto
    qed
  qed
qed simp

lemma sub_quoted_reads:
  "list_all type_char (sub_quoted s) \<Longrightarrow> \<exists>ps. reads s ps \<and> list_all contained ps"
proof (induction s rule: measure_induct_rule [of length])
  case (less s)
  show ?case
  proof (cases s)
    case Nil
    then show ?thesis by (intro exI [of _ "[]"]) (simp add: reads_def prepend)
  next
    case (Cons c r)
    show ?thesis
    proof (cases "c = bt")
      case False
      then have c: "type_char c" "list_all type_char (sub_quoted r)" using less.prems Cons by auto
      then have m: "c \<noteq> apostrophe" "c \<noteq> CHR 0x22" by auto
      obtain ps where ps: "reads r ps" "list_all contained ps" using less.IH [of r] c(2) Cons by auto
      have "reads ([c] @ r) ([Bare c] @ ps)"
        using readsD [OF ps(1)] False m by (auto simp: reads_def prepend)
      then show ?thesis using ps(2) c(1) Cons by (intro exI [of _ "[Bare c] @ ps"]) simp
    next
      case True
      then obtain x where x: "close_quote r = Some x" "list_all type_char (sub_quoted x)"
        using less.prems Cons by (auto split: option.splits)
      have "\<not> (\<exists>y. x = bt # y \<and> close_quote y = None)" using x(2) by (auto split: option.splits)
      then obtain n where n: "ident_end r = Some (n, x)" using close_quote_reads [OF x(1)] by blast
      obtain ps where ps: "reads x ps" "list_all contained ps"
        using less.IH [of x] x(2) close_quote_length [OF x(1)] Cons by auto
      have "read_sql (s @ q) = map_option ((@) (Ident n # ps)) (read_sql q)" if q: "q = [] \<or> hd q \<noteq> bt" for q
        using ident_end_append [OF n, of q] q readsD [OF ps(1) q] True Cons by (simp add: prepend)
      then show ?thesis using ps(2)
        by (intro exI [of _ "Ident n # ps"]) (simp add: reads_def)
    qed
  qed
qed

lemma close_quote_suffix: "close_quote s = Some r \<Longrightarrow> \<exists>p. s = p @ r"
proof (induction s rule: close_quote.induct)
  case (2 c s)
  show ?case
  proof (cases "c = bt")
    case False
    then show ?thesis using 2 by (auto intro: exI [of _ "c # _"])
  next
    case True
    show ?thesis
    proof (cases s)
      case Nil
      then show ?thesis using "2.prems" True by simp
    next
      case (Cons d s')
      then have "r = s \<or> (\<exists>p. s' = p @ r)" using 2 True by (auto split: if_splits option.splits)
      then show ?thesis using Cons by (metis append_Cons append_Nil)
    qed
  qed
qed simp

lemma sub_quoted_last: "s \<noteq> [] \<Longrightarrow> last s \<noteq> CHR 0x0A \<Longrightarrow> sub_quoted s \<noteq> [] \<and> last (sub_quoted s) \<noteq> CHR 0x0A"
proof (induction s rule: measure_induct_rule [of length])
  case (less s)
  then obtain c r where s: "s = c # r" by (cases s) auto
  show ?case
  proof (cases "c = bt \<and> close_quote r \<noteq> None")
    case False
    then have "sub_quoted s = c # sub_quoted r" using s by auto
    then show ?thesis using less.IH [of r] less.prems s by (cases "r = []") auto
  next
    case True
    then obtain x where x: "close_quote r = Some x" by auto
    obtain p where p: "r = p @ x" using close_quote_suffix [OF x] by blast
    have "sub_quoted s = CHR ''q'' # sub_quoted x" using True s x by simp
    then show ?thesis using less.IH [of x] less.prems s p by (cases "x = []") auto
  qed
qed

lemma sql_type_chars:
  assumes "sql_type s = Inr t"
  shows "t = py_strip s \<and> list_all type_char (sub_quoted t)"
proof -
  have t: "t = py_strip s" "t \<noteq> []" "match_sql_type (sub_quoted t)"
    using assms by (auto simp: sql_type_def Let_def split: if_splits)
  have "\<not> py_isspace (last t)"
    using t(1,2) strip_by_hd [of py_isspace s] by (simp add: py_strip_def)
  then have "last t \<noteq> CHR 0x0A" by (auto simp: py_isspace_def code_def)
  then have "last (sub_quoted t) \<noteq> CHR 0x0A" using sub_quoted_last [OF t(2)] by blast
  then show ?thesis
    using t(1,3) by (simp add: match_sql_type_def without_newline_def Let_def)
qed

text \<open>C17: a type let through is read by a warehouse as names between backticks and the few characters
  types are made of: no string, comment or end of a statement starts in it, and every name it opens it
  closes, also where the pattern that sets names aside backtracks.\<close>

theorem sql_type_contained:
  assumes "sql_type s = Inr t"
  shows "\<exists>ps. read_sql t = Some ps \<and> list_all contained ps"
  using sub_quoted_reads reads_alone sql_type_chars [OF assms] by blast

theorem sql_type_contained_witness:
  "\<exists>ps. read_sql (''STRUCT<'' @ [bt] @ ''a;'' @ [bt, bt] @ ''--'' @ [bt] @ '': INT>'') = Some ps \<and> list_all contained ps"
proof -
  have "sql_type ('' STRUCT<'' @ [bt] @ ''a;'' @ [bt, bt] @ ''--'' @ [bt] @ '': INT>'') =
      Inr (''STRUCT<'' @ [bt] @ ''a;'' @ [bt, bt] @ ''--'' @ [bt] @ '': INT>'')"
    by code_simp
  then show ?thesis by (rule sql_type_contained)
qed

text \<open>A comma outside brackets is let through: a type can bring a column of its own.\<close>

lemma type_brings_column: "sql_type ''INT, b STRING'' = Inr ''INT, b STRING''"
  by code_simp

section \<open>Arrow types pass\<close>

text \<open>Scales SQL can say.\<close>

fun sql_scales :: "arrow_dtype \<Rightarrow> bool" and field_scales :: "arrow_field \<Rightarrow> bool" where
  "sql_scales (ADecimal p s) \<longleftrightarrow> 0 \<le> s"
| "sql_scales (AStruct fs) \<longleftrightarrow> list_all field_scales fs"
| "sql_scales (AList l t n) \<longleftrightarrow> sql_scales t"
| "sql_scales (AMap k v n) \<longleftrightarrow> sql_scales k \<and> sql_scales v"
| "sql_scales (ADictionary t) \<longleftrightarrow> sql_scales t"
| "sql_scales (AExtension t) \<longleftrightarrow> sql_scales t"
| "sql_scales _ \<longleftrightarrow> True"
| "field_scales (AField n t b m) \<longleftrightarrow> sql_scales t"

text \<open>Text that is let through or not, whatever follows it: \<open>verdict b s\<close> says the guard lets a text
  that begins with \<open>s\<close> through if it lets the rest through and \<open>b\<close>.\<close>

definition verdict :: "bool \<Rightarrow> string \<Rightarrow> bool" where
  "verdict b s \<longleftrightarrow> (\<forall>r. list_all type_char (sub_quoted (s @ r)) \<longleftrightarrow> b \<and> list_all type_char (sub_quoted r))"

lemma verdict_append: "verdict a s \<Longrightarrow> verdict b t \<Longrightarrow> verdict (a \<and> b) (s @ t)"
  by (simp add: verdict_def)

lemma verdict_chars: "list_all (\<lambda>c. c \<noteq> bt) s \<Longrightarrow> verdict (list_all type_char s) s"
proof -
  have "list_all (\<lambda>c. c \<noteq> bt) s \<Longrightarrow>
      list_all type_char (sub_quoted (s @ r)) \<longleftrightarrow> list_all type_char s \<and> list_all type_char (sub_quoted r)" for r
    by (induction s) auto
  then show "list_all (\<lambda>c. c \<noteq> bt) s \<Longrightarrow> verdict (list_all type_char s) s" by (simp add: verdict_def)
qed

lemma type_char_no_bt: "type_char c \<Longrightarrow> c \<noteq> bt"
  by (auto simp: type_char_def ascii_alpha_def ascii_digit_def code_def)

lemma verdict_passes: "list_all type_char s \<Longrightarrow> verdict True s"
  using verdict_chars [of s] type_char_no_bt by (auto simp: list_all_iff)

lemma close_quote_doubled: "r = [] \<or> hd r \<noteq> bt \<Longrightarrow> close_quote (double_backticks n @ bt # r) = Some r"
proof (induction n)
  case Nil
  then show ?case by (cases r) (auto simp: double_backticks_def)
qed (auto simp: double_backticks_def)

lemma verdict_quoted: "c \<noteq> bt \<Longrightarrow> verdict b (c # s) \<Longrightarrow> verdict b (quoted n @ c # s)"
  by (simp add: verdict_def quoted_def close_quote_doubled)

lemma digits_type_chars: "list_all type_char (nat_text 10 n)"
  using nat_text_digits [of n] by (auto simp: list_all_iff type_char_def)

lemma alpha_type_char: "ascii_alpha c \<Longrightarrow> type_char c" "c \<in> set ''_ ,:()<>'' \<Longrightarrow> type_char c"
  by (simp_all add: type_char_def)

lemma kind_type_chars:
  "list_all type_char ''ARRAY<''" "list_all type_char ''MAP<''" "list_all type_char ''STRUCT<''" "list_all type_char ''DECIMAL(''"
  "list_all type_char '', ''" "list_all type_char ''>''" "list_all type_char '','' " "list_all type_char '')''"
  "list_all type_char '': ''" "list_all type_char '' NOT NULL''"
  by code_simp+

lemma verdict_wrapped:
  assumes "list_all type_char f" "verdict b s" "list_all type_char g"
  shows "verdict b (f @ s @ g)"
  using verdict_append [OF verdict_passes [OF assms(1)] verdict_append [OF assms(2) verdict_passes [OF assms(3)]]] by simp

lemma verdict_joined: "list_all2 verdict bs ms \<Longrightarrow> verdict (list_all (\<lambda>b. b) bs) (comma_joined ms)"
proof (induction ms arbitrary: bs rule: comma_joined.induct)
  case (2 p)
  then show ?case by (cases bs) auto
next
  case (3 p q ps)
  then obtain b bs' where b: "bs = b # bs'" "verdict b p" "list_all2 verdict bs' (q # ps)" by (cases bs) auto
  have "verdict (b \<and> True \<and> list_all (\<lambda>b. b) bs') (p @ '', '' @ comma_joined (q # ps))"
    by (intro verdict_append b(2) "3.IH" b(3) verdict_passes kind_type_chars)
  then show ?case by (simp add: b(1))
qed (simp add: verdict_def)

lemma verdict_scale: "verdict (0 \<le> q) (int_text q)"
proof (cases "q < 0")
  case True
  have "list_all (\<lambda>c. c \<noteq> bt) (int_text q)" "\<not> list_all type_char (int_text q)"
    using digits_type_chars [of "nat (- q)"] type_char_no_bt True
    by (auto simp: int_text_def list_all_iff type_char_def ascii_alpha_def ascii_digit_def code_def)
  then show ?thesis using verdict_chars [of "int_text q"] True by simp
next
  case False
  then show ?thesis using verdict_passes [OF digits_type_chars [of "nat q"]] by (simp add: int_text_def)
qed

text \<open>What is rendered for a type is let through exactly where its scales are not negative.\<close>

lemma arrow_verdict:
  "arrow_to_sql t = Inr s \<Longrightarrow> verdict (sql_scales t) s \<and> trimmed s"
  "member_sql f = Inr s \<Longrightarrow> verdict (field_scales f) s"
proof (induction t and f arbitrary: s and s)
  case (ADecimal p q)
  then have s: "s = ''DECIMAL('' @ nat_text 10 p @ '','' @ int_text q @ '')''"
    by (auto split: if_splits)
  have "verdict (True \<and> True \<and> True \<and> 0 \<le> q \<and> True) s"
    unfolding s by (intro verdict_append verdict_scale verdict_passes kind_type_chars digits_type_chars)
  then show ?case by (simp add: s trimmed_def py_isspace_def code_def)
next
  case (AStruct fs)
  then obtain ms where m: "map_result member_sql fs = Inr ms" and s: "s = ''STRUCT<'' @ comma_joined ms @ ''>''"
    by (auto elim!: bind_result_InrE)
  have "list_all2 verdict (map field_scales fs) ms"
    using m AStruct.IH by (induction fs arbitrary: ms) (auto elim!: bind_result_InrE)
  from verdict_joined [OF this] have "verdict (sql_scales (AStruct fs)) (comma_joined ms)" by (simp add: list_all_iff)
  then have "verdict (sql_scales (AStruct fs)) s" unfolding s by (intro verdict_wrapped kind_type_chars)
  then show ?case by (simp add: s trimmed_def py_isspace_def code_def)
next
  case (AList l t n)
  then obtain u where u: "arrow_to_sql t = Inr u" and s: "s = ''ARRAY<'' @ u @ ''>''"
    by (auto elim!: bind_result_InrE split: if_splits)
  have p: "verdict (sql_scales t) u" using AList u by simp
  have "verdict (sql_scales t) s" unfolding s by (intro verdict_wrapped p kind_type_chars)
  then show ?case by (simp add: s trimmed_def py_isspace_def code_def)
next
  case (AMap k v n)
  then obtain a b where ab: "arrow_to_sql k = Inr a" "arrow_to_sql v = Inr b" and s: "s = ''MAP<'' @ a @ '', '' @ b @ ''>''"
    by (auto elim!: bind_result_InrE)
  have p: "verdict (sql_scales k) a" "verdict (sql_scales v) b" using AMap ab by simp_all
  have "verdict (True \<and> sql_scales k \<and> True \<and> sql_scales v \<and> True) s"
    unfolding s by (intro verdict_append p verdict_passes kind_type_chars)
  then show ?case by (simp add: s trimmed_def py_isspace_def code_def)
next
  case (AField n t b m)
  then obtain u where u: "arrow_to_sql t = Inr u" and s: "s = quoted n @ '': '' @ u @ (if b then [] else '' NOT NULL'')"
    by (auto elim!: bind_result_InrE)
  have p: "verdict (sql_scales t) u" using AField u by simp
  have n: "list_all type_char (if b then [] else '' NOT NULL'')" by (cases b) (simp_all only: if_True if_False kind_type_chars list.pred_inject(1))
  have "verdict (sql_scales t) ('': '' @ u @ (if b then [] else '' NOT NULL''))"
    by (intro verdict_wrapped p n kind_type_chars)
  then show ?case unfolding s by (simp add: verdict_quoted)
qed (auto simp: trimmed_def py_isspace_def uint_sql_def int_sql_def type_char_def ascii_alpha_def ascii_digit_def code_def
    intro!: verdict_passes split: width.splits if_splits option.splits list.splits)

text \<open>C19: the guard on types lets through what is rendered for an Arrow type, whatever the names of its
  members and however it is nested, exactly where no decimal in it has a negative scale.  A negative
  scale, which Arrow allows and the renderer writes, is refused: its sign is not in the allowlist.\<close>

theorem arrow_types_pass:
  assumes "arrow_to_sql t = Inr s"
  shows "sql_type s = (if sql_scales t then Inr s else Inl (NotSqlType s))"
proof -
  have p: "verdict (sql_scales t) s" "trimmed s" using arrow_verdict(1) [OF assms] by simp_all
  have "list_all type_char (sub_quoted s) \<longleftrightarrow> sql_scales t" using p(1) [unfolded verdict_def, THEN spec, of "[]"] by simp
  moreover have n: "last s \<noteq> CHR 0x0A" using p(2) by (auto simp: trimmed_def py_isspace_def code_def)
  moreover have "sub_quoted s \<noteq> []" "last (sub_quoted s) \<noteq> CHR 0x0A"
    using sub_quoted_last [OF _ n] p(2) by (auto simp: trimmed_def)
  ultimately show ?thesis using strip_trimmed [OF p(2)] p(2)
    by (simp add: sql_type_def match_sql_type_def without_newline_def Let_def trimmed_def)
qed

theorem arrow_types_pass_witness:
  "(\<exists>s. arrow_to_sql sample_arrow = Inr s \<and> sql_type s = Inr s)
   \<and> sql_type ''DECIMAL(5,-2)'' = Inl (NotSqlType ''DECIMAL(5,-2)'')"
proof
  have "\<exists>s. arrow_to_sql sample_arrow = Inr s" "sql_scales sample_arrow"
    by (simp_all add: sample_arrow_def)
  then show "\<exists>s. arrow_to_sql sample_arrow = Inr s \<and> sql_type s = Inr s" using arrow_types_pass by fastforce
  have "arrow_to_sql (ADecimal 5 (- 2)) = Inr ''DECIMAL(5,-2)''" by code_simp
  then show "sql_type ''DECIMAL(5,-2)'' = Inl (NotSqlType ''DECIMAL(5,-2)'')" using arrow_types_pass by fastforce
qed

end
