(* ===== verification/Sql_Statements.thy ===== *)
theory Sql_Statements
  imports Sql_Text
begin

text \<open>
  \<open>engine/sql.py\<close>: the statements a call of the warehouse engine becomes, as text, and what the
  warehouse reads.  Running them is the backend's part and not modelled.
\<close>

section \<open>Statements\<close>

datatype statement_error =
    SqlError sql_error | ArrowError arrow_error | NothingGiven | ColumnsOrAll | NoscanColumns | ReplaceOrExists
  | VersionOrTime | NothingToReorg | NotRefreshable | ListOrAuto | NameAndCheck string

definition lift_sql :: "sql_error + 'a \<Rightarrow> statement_error + 'a" where
  "lift_sql r = (case r of Inl e \<Rightarrow> Inl (SqlError e) | Inr x \<Rightarrow> Inr x)"

definition lift_arrow :: "arrow_error + 'a \<Rightarrow> statement_error + 'a" where
  "lift_arrow r = (case r of Inl e \<Rightarrow> Inl (ArrowError e) | Inr x \<Rightarrow> Inr x)"

text \<open>A version, or a time as \<open>timestamp_text\<close> spells it.\<close>

datatype time_target = AtVersion int | AtTime string

definition restore_sql :: "resolved_table \<Rightarrow> time_target \<Rightarrow> statement_error + string" where
  "restore_sql t target =
     (let clause = (case target of AtVersion n \<Rightarrow> ''VERSION AS OF '' @ int_text n
                    | AtTime w \<Rightarrow> ''TIMESTAMP AS OF '' @ literal (Some w))
      in bind_result (lift_sql (table_name t)) (\<lambda>n. Inr (''RESTORE TABLE '' @ n @ '' TO '' @ clause)))"

definition repair_sql :: "resolved_table \<Rightarrow> bool \<Rightarrow> statement_error + string" where
  "repair_sql t dry_run =
     bind_result (lift_sql (table_name t)) (\<lambda>n.
       Inr (''FSCK REPAIR TABLE '' @ n @ (if dry_run then '' DRY RUN'' else [])))"

definition reorg_sql :: "resolved_table \<Rightarrow> bool \<Rightarrow> int option \<Rightarrow> string option \<Rightarrow> statement_error + string" where
  "reorg_sql t purge upgrade predicate =
     bind_result (case upgrade of
         Some v \<Rightarrow> Inr (''APPLY (UPGRADE UNIFORM(ICEBERG_COMPAT_VERSION='' @ int_text v @ ''))'')
       | None \<Rightarrow> if purge then Inr ''APPLY (PURGE)'' else Inl NothingToReorg) (\<lambda>clause.
     bind_result (lift_sql (sql_predicate predicate)) (\<lambda>p.
     bind_result (lift_sql (table_name t)) (\<lambda>n.
       Inr (''REORG TABLE '' @ n @ (case p of None \<Rightarrow> [] | Some w \<Rightarrow> '' WHERE '' @ w) @ '' '' @ clause))))"

definition clone_sql ::
  "resolved_table \<Rightarrow> string \<Rightarrow> bool \<Rightarrow> bool \<Rightarrow> bool \<Rightarrow> int option \<Rightarrow> string option \<Rightarrow> statement_error + string" where
  "clone_sql t target shallow replace if_not_exists version timestamp =
     (if replace \<and> if_not_exists then Inl ReplaceOrExists
      else if version \<noteq> None \<and> timestamp \<noteq> None then Inl VersionOrTime
      else
        let verb = (if replace then ''CREATE OR REPLACE TABLE'' else ''CREATE TABLE'')
                   @ (if if_not_exists then '' IF NOT EXISTS'' else []);
            clone = (if shallow then ''SHALLOW CLONE'' else ''DEEP CLONE'')
        in bind_result (lift_sql (qualified_name target)) (\<lambda>q.
           bind_result (lift_sql (table_name t)) (\<lambda>n.
             Inr (verb @ '' '' @ q @ '' '' @ clone @ '' '' @ n
                  @ (case version of Some v \<Rightarrow> '' VERSION AS OF '' @ int_text v
                     | None \<Rightarrow> (case timestamp of Some w \<Rightarrow> '' TIMESTAMP AS OF '' @ literal (Some w) | None \<Rightarrow> []))))))"

text \<open>Columns as an optional argument, a text or a list, and whether Python takes it for true.\<close>

definition given_columns :: "columns_ref option \<Rightarrow> bool" where
  "given_columns cs =
     (case cs of None \<Rightarrow> False | Some (OneColumn s) \<Rightarrow> s \<noteq> [] | Some (ManyColumns l) \<Rightarrow> l \<noteq> [])"

definition analyze_sql :: "resolved_table \<Rightarrow> columns_ref option \<Rightarrow> bool \<Rightarrow> bool \<Rightarrow> statement_error + string" where
  "analyze_sql t columns delta noscan =
     bind_result (lift_sql (table_name t)) (\<lambda>n.
       let sql = ''ANALYZE TABLE '' @ n @ '' COMPUTE'' @ (if delta then '' DELTA STATISTICS'' else '' STATISTICS'')
       in bind_result
            (case columns of
               Some (OneColumn s) \<Rightarrow>
                 if py_lower s \<noteq> ''all'' \<and> py_lower s \<noteq> ''*'' then Inl ColumnsOrAll else Inr (sql @ '' FOR ALL COLUMNS'')
             | Some (ManyColumns cs) \<Rightarrow>
                 if cs = [] then Inr sql
                 else bind_result (lift_sql (sql_columns (ManyColumns cs))) (\<lambda>c. Inr (sql @ '' FOR COLUMNS '' @ c))
             | None \<Rightarrow> Inr sql)
            (\<lambda>s. if noscan then (if given_columns columns then Inl NoscanColumns else Inr (s @ '' NOSCAN'')) else Inr s))"

definition sync_sql :: "resolved_table \<Rightarrow> statement_error + string" where
  "sync_sql t = bind_result (lift_sql (table_name t)) (\<lambda>n. Inr (''MSCK REPAIR TABLE '' @ n @ '' SYNC METADATA''))"

definition refresh_sql :: "resolved_table \<Rightarrow> bool \<Rightarrow> statement_error + string" where
  "refresh_sql t full =
     bind_result (if t_type t = Some MaterializedView then Inr ''MATERIALIZED VIEW''
                  else if t_type t = Some StreamingTable then Inr ''STREAMING TABLE'' else Inl NotRefreshable) (\<lambda>k.
     bind_result (lift_sql (table_name t)) (\<lambda>n. Inr (''REFRESH '' @ k @ '' '' @ n @ (if full then '' FULL'' else []))))"

section \<open>ALTER TABLE\<close>

definition alter :: "resolved_table \<Rightarrow> string \<Rightarrow> statement_error + string" where
  "alter t clause = bind_result (lift_sql (table_name t)) (\<lambda>n. Inr (''ALTER TABLE '' @ n @ '' '' @ clause))"

definition column_pair :: "string \<times> string \<Rightarrow> statement_error + string" where
  "column_pair nt = bind_result (lift_sql (sql_type (snd nt))) (\<lambda>ty. Inr (quoted (fst nt) @ '' '' @ ty))"

definition add_columns_sql :: "resolved_table \<Rightarrow> columns_arg \<Rightarrow> statement_error + string" where
  "add_columns_sql t fs =
     bind_result (lift_arrow (column_types fs)) (\<lambda>nts.
     bind_result (map_result column_pair nts) (\<lambda>pairs.
       if pairs = [] then Inl NothingGiven else alter t (''ADD COLUMNS ('' @ comma_joined pairs @ '')'')))"

definition drop_column_sql :: "resolved_table \<Rightarrow> column_ref \<Rightarrow> statement_error + string" where
  "drop_column_sql t c = bind_result (lift_sql (column_path c)) (\<lambda>p. alter t (''DROP COLUMN '' @ p))"

definition rename_column_sql :: "resolved_table \<Rightarrow> column_ref \<Rightarrow> string \<Rightarrow> statement_error + string" where
  "rename_column_sql t old new =
     bind_result (lift_sql (column_path old)) (\<lambda>p. bind_result (lift_sql (leaf_name old new)) (\<lambda>l.
       alter t (''RENAME COLUMN '' @ p @ '' TO '' @ l)))"

definition set_properties_sql :: "resolved_table \<Rightarrow> (string \<times> property_arg) list \<Rightarrow> statement_error + string" where
  "set_properties_sql t kvs =
     (if kvs = [] then Inl NothingGiven
      else bind_result (lift_sql (sql_properties kvs)) (\<lambda>p. alter t (''SET TBLPROPERTIES ('' @ p @ '')'')))"

definition literals :: "string list \<Rightarrow> string" where
  "literals ks = comma_joined (map (\<lambda>k. literal (Some k)) ks)"

definition unset_properties_sql :: "resolved_table \<Rightarrow> string list \<Rightarrow> bool \<Rightarrow> statement_error + string" where
  "unset_properties_sql t ks if_exists =
     (if ks = [] then Inl NothingGiven
      else alter t (''UNSET TBLPROPERTIES '' @ (if if_exists then ''IF EXISTS '' else []) @ ''('' @ literals ks @ '')''))"

text \<open>\<open>{f"delta.feature.{name}": "supported" for f in features}\<close>: a dict.\<close>

definition add_feature_sql :: "resolved_table \<Rightarrow> feature_arg list \<Rightarrow> statement_error + string" where
  "add_feature_sql t fs =
     set_properties_sql t (dict_of (map (\<lambda>f. (''delta.feature.'' @ wire_feature f, Value ''supported'')) fs))"

definition drop_feature_sql :: "resolved_table \<Rightarrow> feature_arg \<Rightarrow> bool \<Rightarrow> statement_error + string" where
  "drop_feature_sql t f history =
     alter t (''DROP FEATURE '' @ quoted (wire_feature f) @ (if history then '' TRUNCATE HISTORY'' else []))"

text \<open>One statement per constraint, all checked before the first is sent.\<close>

definition add_constraint_sql ::
  "resolved_table \<Rightarrow> (string \<times> string option) list \<Rightarrow> statement_error + string list" where
  "add_constraint_sql t cs =
     (if cs = [] then Inl NothingGiven
      else bind_result (map_result (\<lambda>(n, e). bind_result (lift_sql (sql_predicate e)) (\<lambda>p.
               if p = None \<or> py_strip n = [] then Inl (NameAndCheck n) else Inr ())) cs) (\<lambda>_.
           map_result (\<lambda>(n, e). alter t (''ADD CONSTRAINT '' @ quoted n @ '' CHECK ('' @ sql_expression e @ '')'')) cs))"

definition drop_constraint_sql :: "resolved_table \<Rightarrow> string \<Rightarrow> bool \<Rightarrow> statement_error + string" where
  "drop_constraint_sql t n if_exists =
     alter t (''DROP CONSTRAINT '' @ (if if_exists then ''IF EXISTS '' else []) @ quoted n)"

definition set_comment_sql :: "resolved_table \<Rightarrow> string option \<Rightarrow> statement_error + string" where
  "set_comment_sql t c =
     bind_result (lift_sql (table_name t)) (\<lambda>n. Inr (''COMMENT ON TABLE '' @ n @ '' IS '' @ literal c))"

definition set_column_comment_sql :: "resolved_table \<Rightarrow> column_ref \<Rightarrow> string option \<Rightarrow> statement_error + string" where
  "set_column_comment_sql t c comment =
     bind_result (lift_sql (column_path c)) (\<lambda>p.
       alter t (''ALTER COLUMN '' @ p @ '' COMMENT '' @ literal (Some (case comment of None \<Rightarrow> [] | Some s \<Rightarrow> s))))"

definition alter_column_type_sql :: "resolved_table \<Rightarrow> column_ref \<Rightarrow> type_arg \<Rightarrow> statement_error + string" where
  "alter_column_type_sql t c ty =
     bind_result (lift_sql (column_path c)) (\<lambda>p. bind_result (lift_arrow (type_text ty)) (\<lambda>s.
     bind_result (lift_sql (sql_type s)) (\<lambda>u. alter t (''ALTER COLUMN '' @ p @ '' TYPE '' @ u))))"

definition set_not_null_sql :: "resolved_table \<Rightarrow> column_ref \<Rightarrow> statement_error + string" where
  "set_not_null_sql t c = bind_result (lift_sql (column_path c)) (\<lambda>p. alter t (''ALTER COLUMN '' @ p @ '' SET NOT NULL''))"

definition drop_not_null_sql :: "resolved_table \<Rightarrow> column_ref \<Rightarrow> statement_error + string" where
  "drop_not_null_sql t c = bind_result (lift_sql (column_path c)) (\<lambda>p. alter t (''ALTER COLUMN '' @ p @ '' DROP NOT NULL''))"

definition cluster_by_sql :: "resolved_table \<Rightarrow> columns_ref option \<Rightarrow> statement_error + string" where
  "cluster_by_sql t cs =
     bind_result
       (case cs of
          Some (OneColumn s) \<Rightarrow> if py_lower s \<noteq> ''auto'' then Inl ListOrAuto else Inr ''CLUSTER BY AUTO''
        | None \<Rightarrow> Inr ''CLUSTER BY NONE''
        | Some (ManyColumns l) \<Rightarrow>
            if l = [] then Inr ''CLUSTER BY NONE''
            else bind_result (lift_sql (sql_columns (ManyColumns l))) (\<lambda>c. Inr (''CLUSTER BY ('' @ c @ '')'')))
       (alter t)"

section \<open>Governance\<close>

definition undrop_sql :: "string \<Rightarrow> statement_error + string" where
  "undrop_sql n = bind_result (lift_sql (qualified_name n)) (\<lambda>q. Inr (''UNDROP TABLE '' @ q))"

definition set_row_filter_sql :: "resolved_table \<Rightarrow> string \<Rightarrow> columns_ref \<Rightarrow> statement_error + string" where
  "set_row_filter_sql t f cs =
     bind_result (lift_sql (qualified_name f)) (\<lambda>q. bind_result (lift_sql (sql_columns cs)) (\<lambda>c.
       alter t (''SET ROW FILTER '' @ q @ '' ON ('' @ c @ '')'')))"

definition drop_row_filter_sql :: "resolved_table \<Rightarrow> statement_error + string" where
  "drop_row_filter_sql t = alter t ''DROP ROW FILTER''"

definition set_column_mask_sql ::
  "resolved_table \<Rightarrow> column_ref \<Rightarrow> string \<Rightarrow> columns_ref option \<Rightarrow> statement_error + string" where
  "set_column_mask_sql t c f cs =
     bind_result (lift_sql (sql_column c)) (\<lambda>p. bind_result (lift_sql (qualified_name f)) (\<lambda>q.
     bind_result (case cs of
         Some l \<Rightarrow> if given_columns cs then bind_result (lift_sql (sql_columns l)) (\<lambda>x. Inr ('' USING COLUMNS ('' @ x @ '')''))
                   else Inr []
       | None \<Rightarrow> Inr []) (\<lambda>u.
       alter t (''ALTER COLUMN '' @ p @ '' SET MASK '' @ q @ u))))"

definition drop_column_mask_sql :: "resolved_table \<Rightarrow> column_ref \<Rightarrow> statement_error + string" where
  "drop_column_mask_sql t c = bind_result (lift_sql (sql_column c)) (\<lambda>p. alter t (''ALTER COLUMN '' @ p @ '' DROP MASK''))"

definition tag_target :: "column_ref option \<Rightarrow> statement_error + string" where
  "tag_target c =
     (case c of None \<Rightarrow> Inr []
      | Some r \<Rightarrow> bind_result (lift_sql (sql_column r)) (\<lambda>p. Inr (''ALTER COLUMN '' @ p @ '' '')))"

definition tag_pair :: "string \<times> string option \<Rightarrow> string" where
  "tag_pair kv = literal (Some (fst kv)) @ '' = '' @ literal (Some (case snd kv of None \<Rightarrow> [] | Some v \<Rightarrow> v))"

definition set_tags_sql ::
  "resolved_table \<Rightarrow> (string \<times> string option) list \<Rightarrow> column_ref option \<Rightarrow> statement_error + string" where
  "set_tags_sql t tags c =
     (if tags = [] then Inl NothingGiven
      else bind_result (tag_target c) (\<lambda>w. alter t (w @ ''SET TAGS ('' @ comma_joined (map tag_pair tags) @ '')'')))"

definition unset_tags_sql :: "resolved_table \<Rightarrow> string list \<Rightarrow> column_ref option \<Rightarrow> statement_error + string" where
  "unset_tags_sql t ks c =
     (if ks = [] then Inl NothingGiven
      else bind_result (tag_target c) (\<lambda>w. alter t (w @ ''UNSET TAGS ('' @ literals ks @ '')'')))"

definition set_owner_sql :: "resolved_table \<Rightarrow> string \<Rightarrow> statement_error + string" where
  "set_owner_sql t p = alter t (''OWNER TO '' @ sql_principal p)"

definition grant_sql :: "resolved_table \<Rightarrow> string list \<Rightarrow> string \<Rightarrow> statement_error + string" where
  "grant_sql t ps p =
     bind_result (lift_sql (table_name t)) (\<lambda>n. bind_result (lift_sql (sql_privileges ps)) (\<lambda>l.
       Inr (''GRANT '' @ l @ '' ON '' @ ''TABLE '' @ n @ '' TO '' @ sql_principal p)))"

definition revoke_sql :: "resolved_table \<Rightarrow> string list \<Rightarrow> string \<Rightarrow> statement_error + string" where
  "revoke_sql t ps p =
     bind_result (lift_sql (table_name t)) (\<lambda>n. bind_result (lift_sql (sql_privileges ps)) (\<lambda>l.
       Inr (''REVOKE '' @ l @ '' ON '' @ ''TABLE '' @ n @ '' FROM '' @ sql_principal p)))"

section \<open>A call and its statement\<close>

datatype call =
    Restore time_target | Repair bool | Reorg bool "int option" "string option"
  | Clone string bool bool bool "int option" "string option" | Analyze "columns_ref option" bool bool
  | SyncIceberg | Refresh bool | AddColumns columns_arg | DropColumn column_ref | RenameColumn column_ref string
  | SetProperties "(string \<times> property_arg) list" | UnsetProperties "string list" bool
  | AddFeature "feature_arg list" | DropFeature feature_arg bool | DropConstraint string bool
  | SetComment "string option" | SetColumnComment column_ref "string option" | AlterColumnType column_ref type_arg
  | SetNotNull column_ref | DropNotNull column_ref | ClusterBy "columns_ref option" | Undrop string
  | SetRowFilter string columns_ref | DropRowFilter | SetColumnMask column_ref string "columns_ref option"
  | DropColumnMask column_ref | SetTags "(string \<times> string option) list" "column_ref option"
  | UnsetTags "string list" "column_ref option" | SetOwner string | Grant "string list" string
  | Revoke "string list" string

fun statement :: "resolved_table \<Rightarrow> call \<Rightarrow> statement_error + string" where
  "statement t (Restore w) = restore_sql t w"
| "statement t (Repair d) = repair_sql t d"
| "statement t (Reorg u v p) = reorg_sql t u v p"
| "statement t (Clone g sh r i v w) = clone_sql t g sh r i v w"
| "statement t (Analyze cs d n) = analyze_sql t cs d n"
| "statement t SyncIceberg = sync_sql t"
| "statement t (Refresh f) = refresh_sql t f"
| "statement t (AddColumns fs) = add_columns_sql t fs"
| "statement t (DropColumn c) = drop_column_sql t c"
| "statement t (RenameColumn c n) = rename_column_sql t c n"
| "statement t (SetProperties kvs) = set_properties_sql t kvs"
| "statement t (UnsetProperties ks e) = unset_properties_sql t ks e"
| "statement t (AddFeature fs) = add_feature_sql t fs"
| "statement t (DropFeature f h) = drop_feature_sql t f h"
| "statement t (DropConstraint n e) = drop_constraint_sql t n e"
| "statement t (SetComment c) = set_comment_sql t c"
| "statement t (SetColumnComment c d) = set_column_comment_sql t c d"
| "statement t (AlterColumnType c ty) = alter_column_type_sql t c ty"
| "statement t (SetNotNull c) = set_not_null_sql t c"
| "statement t (DropNotNull c) = drop_not_null_sql t c"
| "statement t (ClusterBy cs) = cluster_by_sql t cs"
| "statement t (Undrop n) = undrop_sql n"
| "statement t (SetRowFilter f cs) = set_row_filter_sql t f cs"
| "statement t DropRowFilter = drop_row_filter_sql t"
| "statement t (SetColumnMask c f cs) = set_column_mask_sql t c f cs"
| "statement t (DropColumnMask c) = drop_column_mask_sql t c"
| "statement t (SetTags ts c) = set_tags_sql t ts c"
| "statement t (UnsetTags ks c) = unset_tags_sql t ks c"
| "statement t (SetOwner p) = set_owner_sql t p"
| "statement t (Grant ps p) = grant_sql t ps p"
| "statement t (Revoke ps p) = revoke_sql t ps p"

section \<open>The names and texts a call hands over\<close>

definition idents :: "piece list \<Rightarrow> string list" where
  "idents ps = concat (map (\<lambda>p. case p of Ident n \<Rightarrow> [n] | _ \<Rightarrow> []) ps)"

definition texts :: "piece list \<Rightarrow> string list" where
  "texts ps = concat (map (\<lambda>p. case p of Str v \<Rightarrow> [v] | _ \<Rightarrow> []) ps)"

definition split_names :: "string \<Rightarrow> string list" where
  "split_names n = (case split_identifier n of Inl e \<Rightarrow> [] | Inr ps \<Rightarrow> ps)"

definition path_names :: "column_ref \<Rightarrow> string list" where
  "path_names c = (case c of OneName n \<Rightarrow> split_names n | NamePath ps \<Rightarrow> ps)"

definition list_names :: "columns_ref \<Rightarrow> string list" where
  "list_names cs = concat (map column_names (listed_columns cs))"

definition table_names :: "resolved_table \<Rightarrow> string list" where
  "table_names t = map the (filter (\<lambda>p. p \<noteq> None) [catalog (t_ref t), schema (t_ref t), table (t_ref t)])"

text \<open>The last part of a new name, and the names inside the text of a type.\<close>

definition new_leaf :: "string \<Rightarrow> string" where
  "new_leaf new =
     last (if bt \<in> set new \<or> dot \<in> set new then (case split_identifier new of Inl e \<Rightarrow> [new] | Inr ps \<Rightarrow> ps) else [new])"

definition type_names :: "string \<Rightarrow> string list" where
  "type_names s = idents (the (read_sql (py_strip s)))"

definition typed_names :: "columns_arg \<Rightarrow> string list" where
  "typed_names fs = (case column_types fs of Inl e \<Rightarrow> [] | Inr nts \<Rightarrow> concat (map (\<lambda>(n, s). n # type_names s) nts))"

definition arg_type_names :: "type_arg \<Rightarrow> string list" where
  "arg_type_names a = (case type_text a of Inl e \<Rightarrow> [] | Inr s \<Rightarrow> type_names s)"

definition optional :: "('a \<Rightarrow> 'b list) \<Rightarrow> 'a option \<Rightarrow> 'b list" where
  "optional f m = (case m of None \<Rightarrow> [] | Some x \<Rightarrow> f x)"

definition listed_names :: "columns_ref option \<Rightarrow> string list" where
  "listed_names cs = (if given_columns cs then optional list_names cs else [])"

definition several_names :: "columns_ref option \<Rightarrow> string list" where
  "several_names cs = (case cs of Some (ManyColumns l) \<Rightarrow> list_names (ManyColumns l) | _ \<Rightarrow> [])"

fun call_names :: "resolved_table \<Rightarrow> call \<Rightarrow> string list" where
  "call_names t (Clone g sh r i v w) = split_names g @ table_names t"
| "call_names t (Analyze cs d n) = table_names t @ several_names cs"
| "call_names t (AddColumns fs) = table_names t @ typed_names fs"
| "call_names t (DropColumn c) = table_names t @ path_names c"
| "call_names t (RenameColumn c n) = table_names t @ path_names c @ [new_leaf n]"
| "call_names t (DropFeature f h) = table_names t @ [wire_feature f]"
| "call_names t (DropConstraint n e) = table_names t @ [n]"
| "call_names t (SetColumnComment c d) = table_names t @ path_names c"
| "call_names t (AlterColumnType c ty) = table_names t @ path_names c @ arg_type_names ty"
| "call_names t (SetNotNull c) = table_names t @ path_names c"
| "call_names t (DropNotNull c) = table_names t @ path_names c"
| "call_names t (ClusterBy cs) = table_names t @ several_names cs"
| "call_names t (Undrop n) = split_names n"
| "call_names t (SetRowFilter f cs) = table_names t @ split_names f @ list_names cs"
| "call_names t (SetColumnMask c f cs) = table_names t @ column_names c @ split_names f @ listed_names cs"
| "call_names t (DropColumnMask c) = table_names t @ column_names c"
| "call_names t (SetTags ts c) = table_names t @ optional column_names c"
| "call_names t (UnsetTags ks c) = table_names t @ optional column_names c"
| "call_names t (SetOwner p) = table_names t @ [p]"
| "call_names t (Grant ps p) = table_names t @ [p]"
| "call_names t (Revoke ps p) = table_names t @ [p]"
| "call_names t _ = table_names t"

definition property_texts :: "(string \<times> property_arg) list \<Rightarrow> string list" where
  "property_texts kvs = concat (map (\<lambda>(k, v). [k, prop_text v]) kvs)"

fun call_texts :: "call \<Rightarrow> string list" where
  "call_texts (Restore (AtTime w)) = [w]"
| "call_texts (Clone g sh r i v w) = optional (\<lambda>x. [x]) w"
| "call_texts (SetProperties kvs) = property_texts kvs"
| "call_texts (UnsetProperties ks e) = ks"
| "call_texts (AddFeature fs) =
     property_texts (dict_of (map (\<lambda>f. (''delta.feature.'' @ wire_feature f, Value ''supported'')) fs))"
| "call_texts (SetComment c) = optional (\<lambda>x. [x]) c"
| "call_texts (SetColumnComment c d) = [case d of None \<Rightarrow> [] | Some s \<Rightarrow> s]"
| "call_texts (SetTags ts c) = concat (map (\<lambda>(k, v). [k, case v of None \<Rightarrow> [] | Some x \<Rightarrow> x]) ts)"
| "call_texts (UnsetTags ks c) = ks"
| "call_texts _ = []"

text \<open>No SQL of the caller's own (the predicate of a \<open>REORG\<close>), and versions that are not negative.\<close>

fun plain_call :: "call \<Rightarrow> bool" where
  "plain_call (Restore (AtVersion n)) \<longleftrightarrow> 0 \<le> n"
| "plain_call (Reorg u v p) \<longleftrightarrow> p = None \<and> (case v of None \<Rightarrow> True | Some n \<Rightarrow> 0 \<le> n)"
| "plain_call (Clone g sh r i v w) \<longleftrightarrow> (case v of None \<Rightarrow> True | Some n \<Rightarrow> 0 \<le> n)"
| "plain_call _ \<longleftrightarrow> True"

definition safe_char :: "char \<Rightarrow> bool" where
  "safe_char c \<longleftrightarrow> type_char c \<or> c = dot \<or> c = CHR ''=''"

definition safe_piece :: "piece \<Rightarrow> bool" where
  "safe_piece p \<longleftrightarrow> (case p of Bare c \<Rightarrow> safe_char c | _ \<Rightarrow> True)"

section \<open>Text with its names and strings\<close>

definition yields :: "string \<Rightarrow> string list \<Rightarrow> string list \<Rightarrow> bool" where
  "yields s ns vs \<longleftrightarrow> (\<exists>ps. reads s ps \<and> idents ps = ns \<and> texts ps = vs \<and> list_all safe_piece ps)"

lemma piece_lists [simp]:
  "idents [] = []" "texts [] = []" "idents (ps @ qs) = idents ps @ idents qs" "texts (ps @ qs) = texts ps @ texts qs"
  "idents (Ident n # ps) = n # idents ps" "idents (Str v # ps) = idents ps" "idents (Bare c # ps) = idents ps"
  "texts (Ident n # ps) = texts ps" "texts (Str v # ps) = v # texts ps" "texts (Bare c # ps) = texts ps"
  by (simp_all add: idents_def texts_def)

lemma safe_not_marks: "safe_char c \<Longrightarrow> c \<noteq> bt \<and> c \<noteq> apostrophe \<and> c \<noteq> CHR 0x22"
proof -
  have "\<not> safe_char bt" "\<not> safe_char apostrophe" "\<not> safe_char (CHR 0x22)" by code_simp+
  then show "safe_char c \<Longrightarrow> c \<noteq> bt \<and> c \<noteq> apostrophe \<and> c \<noteq> CHR 0x22" by blast
qed

lemma yields_read: "yields s ns vs \<Longrightarrow> \<exists>ps. read_sql s = Some ps \<and> idents ps = ns \<and> texts ps = vs \<and> list_all safe_piece ps"
  using reads_alone by (auto simp: yields_def)

lemma yields_nil [intro]: "yields [] [] []"
  unfolding yields_def by (rule exI [of _ "[]"]) (simp add: reads_def prepend)

lemma yields_append:
  assumes "yields s a b" "yields t c d" "t = [] \<or> hd t \<noteq> bt"
  shows "yields (s @ t) (a @ c) (b @ d)"
proof -
  obtain ps qs where "reads s ps" "idents ps = a" "texts ps = b" "list_all safe_piece ps"
    "reads t qs" "idents qs = c" "texts qs = d" "list_all safe_piece qs"
    using assms(1,2) by (auto simp: yields_def)
  then show ?thesis unfolding yields_def
    using reads_append [OF _ _ assms(3)] by (intro exI [of _ "ps @ qs"]) simp
qed

text \<open>Fixed text before anything.\<close>

lemma yields_after:
  assumes "list_all safe_char f" "yields t a b"
  shows "yields (f @ t) a b"
  using assms(1)
proof (induction f)
  case (Cons c f)
  then obtain ps where ps: "reads (f @ t) ps" "idents ps = a" "texts ps = b" "list_all safe_piece ps"
    by (auto simp: yields_def)
  have "safe_char c" using Cons.prems by simp
  then have "reads (c # f @ t) (Bare c # ps)"
    using ps(1) safe_not_marks by (auto simp: reads_def prepend)
  then show ?case unfolding yields_def
    using ps \<open>safe_char c\<close> by (intro exI [of _ "Bare c # ps"]) (simp add: safe_piece_def)
qed (use assms(2) in simp)

lemma yields_fixed: "list_all safe_char f \<Longrightarrow> yields f [] []"
  using yields_after [of f "[]" "[]" "[]"] by auto

text \<open>Something, then fixed text, then the rest.\<close>

lemma yields_then:
  assumes "yields s a b" "f \<noteq> []" "list_all safe_char f" "yields t c d"
  shows "yields (s @ f @ t) (a @ c) (b @ d)"
  using assms safe_not_marks by (intro yields_append yields_after) (cases f; auto)+

lemma yields_end:
  assumes "yields s a b" "list_all safe_char f"
  shows "yields (s @ f) a b"
  using yields_append [OF assms(1) yields_fixed [OF assms(2)]] assms(2) safe_not_marks by (cases f) auto

lemma yields_quoted: "yields (quoted n) [n] []"
  unfolding yields_def by (rule exI [of _ "[Ident n]"]) (simp add: reads_quoted safe_piece_def)

lemma yields_literal: "yields (literal (Some v)) [] [v]"
  unfolding yields_def by (rule exI [of _ "[Str v]"]) (simp add: reads_def read_literal prepend safe_piece_def)

lemma name_pieces_simps [simp]:
  "name_pieces [] = []" "name_pieces [n] = [Ident n]" "name_pieces (n # m # ns) = Ident n # Bare dot # name_pieces (m # ns)"
  by (simp_all add: name_pieces_def)

lemma yields_dotted: "yields (dotted_quoted ns) ns []"
proof (cases "ns = []")
  case True
  then show ?thesis by (auto simp: dotted_quoted_def)
next
  case False
  have "idents (name_pieces ns) = ns \<and> texts (name_pieces ns) = [] \<and> list_all safe_piece (name_pieces ns)"
    using False by (induction ns rule: list_nonempty_induct) (auto simp: neq_Nil_conv safe_piece_def safe_char_def)
  then show ?thesis using reads_dotted [OF False] by (auto simp: yields_def)
qed

lemma yields_joined:
  "list_all2 (\<lambda>s (a, b). yields s a b) ss rs \<Longrightarrow>
     yields (comma_joined ss) (concat (map fst rs)) (concat (map snd rs))"
proof (induction ss arbitrary: rs rule: comma_joined.induct)
  case (3 p q ss)
  obtain x rs' where x: "rs = x # rs'" "case x of (a, b) \<Rightarrow> yields p a b"
    and l: "list_all2 (\<lambda>s (a, b). yields s a b) (q # ss) rs'"
    using "3.prems" unfolding list_all2_Cons1 by blast
  obtain a b where r: "rs = (a, b) # rs'" "yields p a b" using x by (cases x) simp
  note j = "3.IH" [OF l]
  have "yields (p @ '', '' @ comma_joined (q # ss)) (a @ concat (map fst rs')) (b @ concat (map snd rs'))"
    using r(2) j by (intro yields_then) (simp_all add: safe_char_def type_char_def)
  then show ?case by (simp add: r(1))
qed (auto simp: list_all2_Cons1)

lemma yields_listed:
  assumes "list_all2 (\<lambda>x s. yields s (f x) (g x)) xs ss"
  shows "yields (comma_joined ss) (concat (map f xs)) (concat (map g xs))"
proof -
  have "list_all2 (\<lambda>s (a, b). yields s a b) ss (map (\<lambda>x. (f x, g x)) xs)"
    using assms by (simp add: list_all2_conv_all_nth)
  from yields_joined [OF this] show ?thesis by (simp add: comp_def)
qed

section \<open>Names, lists and types in a statement\<close>

lemma lift_Inr [simp]: "lift_sql r = Inr x \<longleftrightarrow> r = Inr x" "lift_arrow q = Inr x \<longleftrightarrow> q = Inr x"
  by (auto simp: lift_sql_def lift_arrow_def split: sum.splits)

lemma of_ref_Inr [simp]: "of_ref r = Inr x \<longleftrightarrow> r = Inr x"
  by (auto simp: of_ref_def split: sum.splits)

lemma yields_table: "table_name t = Inr n \<Longrightarrow> yields n (table_names t) []"
  using yields_dotted by (auto simp: table_name_def table_names_def Let_def split: if_splits)

lemma yields_qualified: "qualified_name n = Inr q \<Longrightarrow> yields q (split_names n) []"
  using yields_dotted by (auto simp: qualified_name_def split_names_def elim!: bind_result_InrE)

lemma yields_column: "sql_column c = Inr s \<Longrightarrow> yields s (column_names c) []"
  using yields_dotted yields_quoted
  by (auto simp: sql_column_def column_names_def split: column_ref.splits if_splits)

lemma yields_path: "column_path c = Inr s \<Longrightarrow> yields s (path_names c) []"
  using yields_column [of "NamePath _"]
  by (auto simp: column_path_def path_names_def split_names_def column_names_def elim!: bind_result_InrE split: column_ref.splits)

lemma yields_leaf: "leaf_name old new = Inr s \<Longrightarrow> yields s [new_leaf new] []"
  using yields_quoted by (auto simp: leaf_name_def new_leaf_def Let_def elim!: bind_result_InrE split: if_splits)

lemma concat_nils: "concat (map (\<lambda>x. []) l) = []"
  by (induction l) auto

lemma yields_columns: "sql_columns cs = Inr s \<Longrightarrow> yields s (list_names cs) []"
proof (cases cs)
  case (OneColumn n)
  then show "sql_columns cs = Inr s \<Longrightarrow> yields s (list_names cs) []"
    using yields_quoted
    by (auto simp: sql_columns_def sql_column_def list_names_def listed_columns_def column_names_def)
next
  case (ManyColumns l)
  assume "sql_columns cs = Inr s"
  then obtain ps where ps: "map_result sql_column l = Inr ps" "s = comma_joined ps"
    using ManyColumns by (auto simp: sql_columns_def elim!: bind_result_InrE)
  have "list_all2 (\<lambda>c s. yields s (column_names c) []) l ps"
    using map_result_all2 [OF ps(1)] by (rule list_all2_mono) (rule yields_column)
  from yields_listed [OF this] show ?thesis by (simp add: ps(2) ManyColumns list_names_def listed_columns_def concat_nils)
qed

lemma contained_safe: "list_all contained ps \<Longrightarrow> list_all safe_piece ps \<and> texts ps = []"
  by (induction ps) (auto simp: contained_def safe_piece_def safe_char_def split: piece.splits)

lemma yields_type: "sql_type s = Inr u \<Longrightarrow> yields u (type_names s) []"
proof -
  assume "sql_type s = Inr u"
  then have u: "u = py_strip s" "list_all type_char (sub_quoted u)" using sql_type_chars by auto
  obtain ps where ps: "reads u ps" "list_all contained ps" using sub_quoted_reads [OF u(2)] by blast
  have "type_names s = idents ps" using reads_alone [OF ps(1)] u(1) by (simp add: type_names_def)
  then show ?thesis using ps contained_safe [OF ps(2)] unfolding yields_def by auto
qed

text \<open>The characters of fixed text.\<close>

lemma safe_chars:
  "list_all safe_char ''ABCDEFGHIJKLMNOPQRSTUVWXYZ _(),=<>:.abcdefghijklmnopqrstuvwxyz''"
  by code_simp

lemmas safe_text = safe_chars [unfolded list.pred_inject simp_thms]

lemma safe_version: "0 \<le> n \<Longrightarrow> list_all safe_char (int_text n)"
  using digits_type_chars by (auto simp: int_text_def list_all_iff safe_char_def)

lemma safe_alpha: "ascii_alpha c \<Longrightarrow> safe_char c"
  by (simp add: safe_char_def type_char_def)

lemma split_on_subset: "w \<in> set (split_on c s) \<Longrightarrow> set w \<subseteq> set s"
  by (induction s arbitrary: w) (auto split: if_splits list.splits, fastforce+)

lemma safe_words:
  assumes "list_all (\<lambda>c. safe_char c \<or> py_isspace c) s"
  shows "list_all safe_char (join_with (CHR '' '') (py_words s))"
proof -
  have join: "list_all (list_all safe_char) ws \<Longrightarrow> list_all safe_char (join_with (CHR '' '') ws)" for ws
    by (induction "CHR '' ''" ws rule: join_with.induct) (auto simp: safe_text)
  have "list_all safe_char (map (\<lambda>c. if py_isspace c then CHR '' '' else c) s)"
    using assms by (auto simp: list_all_iff safe_text)
  then have "list_all (list_all safe_char) (py_words s)"
    using split_on_subset by (fastforce simp: py_words_def list_all_iff)
  then show ?thesis by (rule join)
qed

lemma upper_alpha: "ascii_alpha c \<Longrightarrow> list_all ascii_alpha (upper_char c)"
  by (auto simp: upper_char_def ascii_alpha_def code_def)

lemma upper_marks: "upper_char (CHR '' '') = '' ''" "upper_char (CHR ''_'') = ''_''" "upper_char (CHR 0x0A) = [CHR 0x0A]"
  by (simp_all add: upper_char_def code_def)

lemma privilege_chars:
  assumes "privilege_ok i"
  shows "list_all (\<lambda>c. safe_char c \<or> py_isspace c) (py_upper i)"
proof -
  have "ascii_alpha c \<or> c = CHR '' '' \<or> c = CHR ''_'' \<or> c = CHR 0x0A" if "c \<in> set i" for c
  proof (cases "c \<in> set (without_newline i)")
    case True
    then show ?thesis using assms by (auto simp: privilege_ok_def list_all_iff split: list.splits)
  next
    case False
    then have "i \<noteq> [] \<and> last i = CHR 0x0A" using that by (auto simp: without_newline_def split: if_splits)
    then show ?thesis using that False
      by (metis append_butlast_last_id set_append UnE empty_iff empty_set set_ConsD without_newline_def)
  qed
  then show ?thesis using upper_alpha safe_alpha
    by (fastforce simp: py_upper_def list_all_iff upper_marks safe_text py_isspace_def code_def)
qed

lemma safe_joined: "list_all (list_all safe_char) ws \<Longrightarrow> list_all safe_char (comma_joined ws)"
  by (induction ws rule: comma_joined.induct) (auto simp: safe_text)

lemma safe_privileges: "sql_privileges ps = Inr s \<Longrightarrow> list_all safe_char s"
proof -
  assume "sql_privileges ps = Inr s"
  then have f: "find (\<lambda>i. \<not> privilege_ok i) ps = None"
    and s: "s = comma_joined (map (\<lambda>i. join_with (CHR '' '') (py_words (py_upper i))) ps)"
    by (auto simp: sql_privileges_def split: if_splits option.splits)
  have "privilege_ok i" if "i \<in> set ps" for i using f that by (auto simp: find_None_iff)
  then have "list_all safe_char (join_with (CHR '' '') (py_words (py_upper i)))" if "i \<in> set ps" for i
    using that by (intro safe_words privilege_chars)
  then show ?thesis unfolding s by (intro safe_joined) (simp add: list_all_iff)
qed

lemma yields_literals: "yields (literals ks) [] ks"
proof -
  have "list_all2 (\<lambda>k s. yields s [] [k]) ks (map (\<lambda>k. literal (Some k)) ks)"
    using yields_literal by (simp add: list_all2_conv_all_nth)
  from yields_listed [OF this] show ?thesis by (simp add: literals_def concat_nils)
qed

lemma yields_pair: "yields (literal (Some k) @ '' = '' @ literal (Some v)) [] [k, v]"
  using yields_then [OF yields_literal _ _ yields_literal, of "'' = ''" k v] by (simp add: safe_text)

lemma yields_properties: "sql_properties kvs = Inr s \<Longrightarrow> yields s [] (property_texts kvs)"
proof -
  assume "sql_properties kvs = Inr s"
  then obtain ps where ps: "map_result assignment kvs = Inr ps" "s = comma_joined ps"
    by (auto simp: sql_properties_def elim!: bind_result_InrE split: if_splits)
  have "yields a [] (case kv of (k, v) \<Rightarrow> [k, prop_text v])" if "assignment kv = Inr a" for kv a
    using that yields_pair [of "fst kv" "prop_text (snd kv)"]
    by (cases kv) (auto simp: assignment_def property_value_def prop_text_def elim!: bind_result_InrE split: property_arg.splits)
  then have "list_all2 (\<lambda>kv a. yields a [] (case kv of (k, v) \<Rightarrow> [k, prop_text v])) kvs ps"
    using map_result_all2 [OF ps(1)] by (rule list_all2_mono [rotated])
  from yields_listed [OF this] show ?thesis by (simp add: ps(2) property_texts_def concat_nils)
qed

lemma yields_tags:
  "yields (comma_joined (map tag_pair ts)) [] (concat (map (\<lambda>(k, v). [k, case v of None \<Rightarrow> [] | Some x \<Rightarrow> x]) ts))"
proof -
  have "list_all2 (\<lambda>kv s. yields s [] (case kv of (k, v) \<Rightarrow> [k, case v of None \<Rightarrow> [] | Some x \<Rightarrow> x])) ts (map tag_pair ts)"
    using yields_pair by (auto simp: list_all2_conv_all_nth tag_pair_def split: prod.splits)
  from yields_listed [OF this] show ?thesis by (simp add: concat_nils)
qed

lemma yields_alter:
  assumes "alter t clause = Inr s" "yields clause a b"
  shows "yields s (table_names t @ a) b"
proof -
  obtain n where n: "table_name t = Inr n" "s = ''ALTER TABLE '' @ n @ '' '' @ clause"
    using assms(1) by (auto simp: alter_def elim!: bind_result_InrE)
  have "yields (n @ '' '' @ clause) (table_names t @ a) ([] @ b)"
    by (rule yields_then [OF yields_table [OF n(1)] _ _ assms(2)]) (simp_all add: safe_text)
  then show ?thesis using yields_after [of "''ALTER TABLE ''"] by (simp add: n(2) safe_text)
qed

section \<open>Every statement\<close>

text \<open>One lemma per shape: a clause of ALTER TABLE, or a text around the table's name.\<close>

lemma yields_around:
  assumes "table_name t = Inr n" "list_all safe_char f" "g \<noteq> []" "list_all safe_char g" "yields r a b"
  shows "yields (f @ n @ g @ r) (table_names t @ a) b"
  using yields_after [OF assms(2) yields_then [OF yields_table [OF assms(1)] assms(3,4,5)]] by simp

lemma yields_name_last:
  assumes "table_name t = Inr n" "list_all safe_char f" "list_all safe_char g"
  shows "yields (f @ n @ g) (table_names t) []"
  using yields_after [OF assms(2) yields_end [OF yields_table [OF assms(1)] assms(3)]] .

lemma alter_after:
  assumes "alter t (f @ x) = Inr s" "list_all safe_char f" "yields x a b"
  shows "yields s (table_names t @ a) b"
  using yields_alter [OF assms(1) yields_after [OF assms(2,3)]] .

lemma alter_between:
  assumes "alter t (f @ x @ g) = Inr s" "list_all safe_char f" "yields x a b" "list_all safe_char g"
  shows "yields s (table_names t @ a) b"
  using alter_after [OF assms(1,2) yields_end [OF assms(3,4)]] .

lemma alter_two:
  assumes "alter t (f @ x @ g @ y) = Inr s" "list_all safe_char f" "yields x a b" "g \<noteq> []" "list_all safe_char g" "yields y c d"
  shows "yields s (table_names t @ a @ c) (b @ d)"
  using alter_after [OF assms(1,2) yields_then [OF assms(3,4,5,6)]] .

lemma restore_yields:
  "restore_sql t w = Inr s \<Longrightarrow> plain_call (Restore w) \<Longrightarrow> yields s (table_names t) (call_texts (Restore w))"
proof (cases w)
  case (AtVersion k)
  assume "restore_sql t w = Inr s" "plain_call (Restore w)"
  then obtain n where n: "table_name t = Inr n" "s = ''RESTORE TABLE '' @ n @ '' TO '' @ ''VERSION AS OF '' @ int_text k" "0 \<le> k"
    using AtVersion by (auto simp: restore_sql_def elim!: bind_result_InrE)
  have "yields (''VERSION AS OF '' @ int_text k) [] []"
    using safe_version [OF n(3)] by (intro yields_fixed) (simp add: safe_text)
  from yields_around [OF n(1) _ _ _ this, where f = "''RESTORE TABLE ''" and g = "'' TO ''"] show ?thesis by (simp add: n(2) AtVersion safe_text)
next
  case (AtTime m)
  assume "restore_sql t w = Inr s"
  then obtain n where n: "table_name t = Inr n" "s = ''RESTORE TABLE '' @ n @ '' TO '' @ ''TIMESTAMP AS OF '' @ literal (Some m)"
    using AtTime by (auto simp: restore_sql_def elim!: bind_result_InrE)
  have "yields (''TIMESTAMP AS OF '' @ literal (Some m)) [] [m]"
    by (rule yields_after [OF _ yields_literal]) (simp add: safe_text)
  from yields_around [OF n(1) _ _ _ this, where f = "''RESTORE TABLE ''" and g = "'' TO ''"] show ?thesis by (simp add: n(2) AtTime safe_text)
qed

lemma repair_yields: "repair_sql t d = Inr s \<Longrightarrow> yields s (table_names t) []"
proof -
  assume "repair_sql t d = Inr s"
  then obtain n where "table_name t = Inr n" "s = ''FSCK REPAIR TABLE '' @ n @ (if d then '' DRY RUN'' else [])"
    by (auto simp: repair_sql_def elim!: bind_result_InrE)
  then show ?thesis using yields_name_last [of t n "''FSCK REPAIR TABLE ''" "if d then '' DRY RUN'' else []"]
    by (simp add: safe_text)
qed

lemma reorg_yields: "reorg_sql t u v p = Inr s \<Longrightarrow> plain_call (Reorg u v p) \<Longrightarrow> yields s (table_names t) []"
proof -
  assume r: "reorg_sql t u v p = Inr s" "plain_call (Reorg u v p)"
  obtain n c where n: "table_name t = Inr n" "s = ''REORG TABLE '' @ n @ '' '' @ c"
    and c: "c = ''APPLY (PURGE)'' \<or> (\<exists>k. v = Some k \<and> c = ''APPLY (UPGRADE UNIFORM(ICEBERG_COMPAT_VERSION='' @ int_text k @ ''))'')"
    using r by (auto simp: reorg_sql_def sql_predicate_def elim!: bind_result_InrE split: option.splits if_splits)
  have "list_all safe_char c" using c r(2) safe_version by (auto simp: safe_text)
  from yields_name_last [OF n(1), of "''REORG TABLE ''" "'' '' @ c"] this show ?thesis by (simp add: n(2) safe_text)
qed

lemma clone_yields:
  assumes "clone_sql t g sh r i v w = Inr s" "plain_call (Clone g sh r i v w)"
  shows "yields s (split_names g @ table_names t) (optional (\<lambda>x. [x]) w)"
proof -
  obtain q n where q: "qualified_name g = Inr q" and n: "table_name t = Inr n"
    and s: "s = ((if r then ''CREATE OR REPLACE TABLE'' else ''CREATE TABLE'') @ (if i then '' IF NOT EXISTS'' else []) @ '' '')
      @ q @ ('' '' @ (if sh then ''SHALLOW CLONE'' else ''DEEP CLONE'') @ '' '') @ n
      @ (case v of Some k \<Rightarrow> '' VERSION AS OF '' @ int_text k
         | None \<Rightarrow> (case w of Some m \<Rightarrow> '' TIMESTAMP AS OF '' @ literal (Some m) | None \<Rightarrow> []))"
    and b: "v = None \<or> w = None"
    using assms(1) by (auto simp: clone_sql_def Let_def elim!: bind_result_InrE split: if_splits)
  let ?c = "case v of Some k \<Rightarrow> '' VERSION AS OF '' @ int_text k
         | None \<Rightarrow> (case w of Some m \<Rightarrow> '' TIMESTAMP AS OF '' @ literal (Some m) | None \<Rightarrow> [])"
  have c: "yields ?c [] (optional (\<lambda>x. [x]) w)"
  proof (cases v)
    case None
    show ?thesis
    proof (cases w)
      case (Some m)
      have "yields ('' TIMESTAMP AS OF '' @ literal (Some m)) [] [m]"
        by (rule yields_after [OF _ yields_literal]) (simp add: safe_text)
      then show ?thesis using None Some by (simp add: optional_def)
    qed (use None in \<open>auto simp: optional_def\<close>)
  next
    case (Some k)
    then have "list_all safe_char (int_text k)" using assms(2) safe_version by simp
    then have "yields ('' VERSION AS OF '' @ int_text k) [] []" by (intro yields_fixed) (simp add: safe_text)
    then show ?thesis using Some b by (simp add: optional_def)
  qed
  have "yields (n @ ?c) (table_names t @ []) ([] @ optional (\<lambda>x. [x]) w)"
    by (rule yields_append [OF yields_table [OF n] c]) (simp split: option.splits)
  then have y: "yields (q @ ('' '' @ (if sh then ''SHALLOW CLONE'' else ''DEEP CLONE'') @ '' '') @ n @ ?c)
      (split_names g @ table_names t @ []) ([] @ [] @ optional (\<lambda>x. [x]) w)"
    by (intro yields_then [OF yields_qualified [OF q]]) (simp_all add: safe_text)
  have "list_all safe_char ((if r then ''CREATE OR REPLACE TABLE'' else ''CREATE TABLE'') @ (if i then '' IF NOT EXISTS'' else []) @ '' '')"
    by (simp add: safe_text)
  from yields_after [OF this y] show ?thesis unfolding s by (simp only: append_Nil append_Nil2 append_assoc)
qed

lemma analyze_yields:
  assumes "analyze_sql t cs d k = Inr s"
  shows "yields s (table_names t @ several_names cs) []"
proof -
  obtain n where n: "table_name t = Inr n" using assms by (auto simp: analyze_sql_def elim!: bind_result_InrE)
  let ?g = "'' COMPUTE'' @ (if d then '' DELTA STATISTICS'' else '' STATISTICS'')"
  let ?e = "if k then '' NOSCAN'' else []"
  have f: "list_all safe_char ''ANALYZE TABLE ''" "?g \<noteq> []" "list_all safe_char ?g" "list_all safe_char ?e"
    by (simp_all add: safe_text)
  consider (fixed) x where "s = ''ANALYZE TABLE '' @ n @ ?g @ x @ ?e" "list_all safe_char x" "several_names cs = []"
    | (list) l c where "cs = Some (ManyColumns l)" "sql_columns (ManyColumns l) = Inr c"
        "s = ''ANALYZE TABLE '' @ n @ ?g @ '' FOR COLUMNS '' @ c @ ?e"
  proof (cases cs)
    case None
    then show thesis using assms n fixed [of "[]"]
      by (auto simp: analyze_sql_def several_names_def Let_def elim!: bind_result_InrE split: if_splits)
  next
    case (Some x)
    show thesis
    proof (cases x)
      case (OneColumn m)
      then show thesis using assms n Some fixed [of "'' FOR ALL COLUMNS''"]
        by (auto simp: analyze_sql_def several_names_def Let_def safe_text elim!: bind_result_InrE split: if_splits)
    next
      case (ManyColumns l)
      then show thesis using assms n Some fixed [of "[]"] list [of l]
        by (auto simp: analyze_sql_def several_names_def list_names_def listed_columns_def Let_def elim!: bind_result_InrE split: if_splits)
    qed
  qed
  then show ?thesis
  proof cases
    case fixed
    have "yields (x @ ?e) [] []" using fixed(2) f(4) by (intro yields_fixed) simp
    from yields_around [OF n f(1,2,3) this] show ?thesis by (simp add: fixed(1,3))
  next
    case list
    have "yields ('' FOR COLUMNS '' @ c @ ?e) (list_names (ManyColumns l)) []"
      by (rule yields_after [OF _ yields_end [OF yields_columns [OF list(2)] f(4)]]) (simp add: safe_text)
    from yields_around [OF n f(1,2,3) this] show ?thesis by (simp add: list several_names_def)
  qed
qed

lemma sync_yields: "sync_sql t = Inr s \<Longrightarrow> yields s (table_names t) []"
  using yields_name_last [of t _ "''MSCK REPAIR TABLE ''" "'' SYNC METADATA''"]
  by (auto simp: sync_sql_def safe_text elim!: bind_result_InrE)

lemma refresh_yields: "refresh_sql t f = Inr s \<Longrightarrow> yields s (table_names t) []"
proof -
  assume "refresh_sql t f = Inr s"
  then obtain k n where k: "(if t_type t = Some MaterializedView then Inr ''MATERIALIZED VIEW''
        else if t_type t = Some StreamingTable then Inr ''STREAMING TABLE'' else Inl NotRefreshable) = Inr k"
    and n: "lift_sql (table_name t) = Inr n" "Inr (''REFRESH '' @ k @ '' '' @ n @ (if f then '' FULL'' else [])) = (Inr s :: statement_error + string)"
    unfolding refresh_sql_def by (elim bind_result_InrE)
  have "list_all safe_char k" using k by (auto simp: safe_text split: if_splits)
  then have "yields ((''REFRESH '' @ k @ '' '') @ n @ (if f then '' FULL'' else [])) (table_names t) []"
    using n(1) by (intro yields_name_last) (simp_all add: safe_text)
  then show ?thesis using n(2) by simp
qed

lemma add_columns_yields:
  assumes "add_columns_sql t fs = Inr s"
  shows "yields s (table_names t @ typed_names fs) []"
proof -
  obtain nts ps where n: "column_types fs = Inr nts" "map_result column_pair nts = Inr ps"
    and a: "alter t (''ADD COLUMNS ('' @ comma_joined ps @ '')'') = Inr s"
    using assms by (auto simp: add_columns_sql_def elim!: bind_result_InrE split: if_splits)
  have "yields p (case nt of (m, ty) \<Rightarrow> m # type_names ty) []" if p: "column_pair nt = Inr p" for nt p
  proof -
    obtain u where u: "sql_type (snd nt) = Inr u" "p = quoted (fst nt) @ '' '' @ u"
      using p by (auto simp: column_pair_def elim!: bind_result_InrE)
    have "yields (quoted (fst nt) @ '' '' @ u) ([fst nt] @ type_names (snd nt)) ([] @ [])"
      by (rule yields_then [OF yields_quoted _ _ yields_type [OF u(1)]]) (simp_all add: safe_text)
    then show ?thesis by (cases nt) (simp add: u(2))
  qed
  then have "list_all2 (\<lambda>nt p. yields p (case nt of (m, ty) \<Rightarrow> m # type_names ty) []) nts ps"
    using map_result_all2 [OF n(2)] by (rule list_all2_mono [rotated])
  from yields_listed [OF this] have "yields (comma_joined ps) (typed_names fs) []"
    by (simp add: typed_names_def n(1) concat_nils)
  from alter_between [OF a _ this] show ?thesis by (simp add: safe_text)
qed

lemma drop_column_yields: "drop_column_sql t c = Inr s \<Longrightarrow> yields s (table_names t @ path_names c) []"
  using alter_after [OF _ _ yields_path, of t "''DROP COLUMN ''" _ s c]
  by (auto simp: drop_column_sql_def safe_text elim!: bind_result_InrE)

lemma rename_column_yields:
  assumes "rename_column_sql t c m = Inr s"
  shows "yields s (table_names t @ path_names c @ [new_leaf m]) []"
proof -
  obtain p l where p: "column_path c = Inr p" "leaf_name c m = Inr l"
    and a: "alter t (''RENAME COLUMN '' @ p @ '' TO '' @ l) = Inr s"
    using assms by (auto simp: rename_column_sql_def elim!: bind_result_InrE)
  from alter_two [OF a _ yields_path [OF p(1)] _ _ yields_leaf [OF p(2)]] show ?thesis by (simp add: safe_text)
qed

lemma set_properties_yields: "set_properties_sql t kvs = Inr s \<Longrightarrow> yields s (table_names t) (property_texts kvs)"
proof -
  assume "set_properties_sql t kvs = Inr s"
  then obtain p where p: "sql_properties kvs = Inr p" and a: "alter t (''SET TBLPROPERTIES ('' @ p @ '')'') = Inr s"
    by (auto simp: set_properties_sql_def elim!: bind_result_InrE split: if_splits)
  from alter_between [OF a _ yields_properties [OF p]] show ?thesis by (simp add: safe_text)
qed

lemma unset_properties_yields: "unset_properties_sql t ks e = Inr s \<Longrightarrow> yields s (table_names t) ks"
proof -
  assume "unset_properties_sql t ks e = Inr s"
  then have a: "alter t ((''UNSET TBLPROPERTIES '' @ (if e then ''IF EXISTS '' else []) @ ''('') @ literals ks @ '')'') = Inr s"
    by (auto simp: unset_properties_sql_def split: if_splits)
  from alter_between [OF a _ yields_literals] show ?thesis by (simp add: safe_text)
qed

lemma drop_feature_yields: "drop_feature_sql t f h = Inr s \<Longrightarrow> yields s (table_names t @ [wire_feature f]) []"
  using alter_between [OF _ _ yields_quoted, of t "''DROP FEATURE ''" "wire_feature f" "if h then '' TRUNCATE HISTORY'' else []" s]
  by (simp add: drop_feature_sql_def safe_text)

lemma drop_constraint_yields: "drop_constraint_sql t n e = Inr s \<Longrightarrow> yields s (table_names t @ [n]) []"
  using alter_after [OF _ _ yields_quoted, of t "''DROP CONSTRAINT '' @ (if e then ''IF EXISTS '' else [])" n s]
  by (simp add: drop_constraint_sql_def safe_text)

lemma set_comment_yields: "set_comment_sql t c = Inr s \<Longrightarrow> yields s (table_names t) (optional (\<lambda>x. [x]) c)"
proof -
  assume "set_comment_sql t c = Inr s"
  then obtain n where n: "table_name t = Inr n" "s = ''COMMENT ON TABLE '' @ n @ '' IS '' @ literal c"
    by (auto simp: set_comment_sql_def elim!: bind_result_InrE)
  have "yields (literal c) [] (optional (\<lambda>x. [x]) c)"
  proof (cases c)
    case None
    have "yields ''NULL'' [] []" by (rule yields_fixed) (simp add: safe_text)
    then show ?thesis by (simp add: None optional_def literal_def)
  qed (simp add: optional_def yields_literal)
  from yields_around [OF n(1) _ _ _ this, where f = "''COMMENT ON TABLE ''" and g = "'' IS ''"] show ?thesis
    by (simp add: n(2) safe_text)
qed

lemma set_column_comment_yields:
  assumes "set_column_comment_sql t c d = Inr s"
  shows "yields s (table_names t @ path_names c) [case d of None \<Rightarrow> [] | Some x \<Rightarrow> x]"
proof -
  obtain p where p: "column_path c = Inr p"
    and a: "alter t (''ALTER COLUMN '' @ p @ '' COMMENT '' @ literal (Some (case d of None \<Rightarrow> [] | Some x \<Rightarrow> x))) = Inr s"
    using assms by (auto simp: set_column_comment_sql_def elim!: bind_result_InrE)
  from alter_two [OF a _ yields_path [OF p] _ _ yields_literal] show ?thesis by (simp add: safe_text)
qed

lemma alter_column_type_yields:
  assumes "alter_column_type_sql t c ty = Inr s"
  shows "yields s (table_names t @ path_names c @ arg_type_names ty) []"
proof -
  obtain p x u where p: "column_path c = Inr p" "type_text ty = Inr x" "sql_type x = Inr u"
    and a: "alter t (''ALTER COLUMN '' @ p @ '' TYPE '' @ u) = Inr s"
    using assms by (auto simp: alter_column_type_sql_def elim!: bind_result_InrE)
  from alter_two [OF a _ yields_path [OF p(1)] _ _ yields_type [OF p(3)]] show ?thesis
    by (simp add: arg_type_names_def p(2) safe_text)
qed

lemma set_not_null_yields: "set_not_null_sql t c = Inr s \<Longrightarrow> yields s (table_names t @ path_names c) []"
  using alter_between [OF _ _ yields_path, of t "''ALTER COLUMN ''" _ "'' SET NOT NULL''" s c]
  by (auto simp: set_not_null_sql_def safe_text elim!: bind_result_InrE)

lemma drop_not_null_yields: "drop_not_null_sql t c = Inr s \<Longrightarrow> yields s (table_names t @ path_names c) []"
  using alter_between [OF _ _ yields_path, of t "''ALTER COLUMN ''" _ "'' DROP NOT NULL''" s c]
  by (auto simp: drop_not_null_sql_def safe_text elim!: bind_result_InrE)

lemma cluster_by_yields:
  assumes "cluster_by_sql t cs = Inr s"
  shows "yields s (table_names t @ several_names cs) []"
proof -
  consider (fixed) f where "alter t f = Inr s" "list_all safe_char f" "several_names cs = []"
    | (list) l c where "cs = Some (ManyColumns l)" "sql_columns (ManyColumns l) = Inr c"
        "alter t (''CLUSTER BY ('' @ c @ '')'') = Inr s"
  proof (cases cs)
    case None
    then show thesis using assms fixed [of "''CLUSTER BY NONE''"]
      by (simp add: cluster_by_sql_def several_names_def safe_text)
  next
    case (Some x)
    show thesis
    proof (cases x)
      case (OneColumn m)
      then show thesis using assms Some fixed [of "''CLUSTER BY AUTO''"]
        by (auto simp: cluster_by_sql_def several_names_def safe_text split: if_splits)
    next
      case (ManyColumns l)
      then show thesis using assms Some fixed [of "''CLUSTER BY NONE''"] list [of l]
        by (auto simp: cluster_by_sql_def several_names_def list_names_def listed_columns_def safe_text
            elim!: bind_result_InrE split: if_splits)
    qed
  qed
  then show ?thesis
  proof cases
    case fixed
    from yields_alter [OF fixed(1) yields_fixed [OF fixed(2)]] show ?thesis by (simp add: fixed(3))
  next
    case list
    from alter_between [OF list(3) _ yields_columns [OF list(2)]] show ?thesis
      by (simp add: list(1) several_names_def safe_text)
  qed
qed

lemma undrop_yields: "undrop_sql n = Inr s \<Longrightarrow> yields s (split_names n) []"
  using yields_after [OF _ yields_qualified, of "''UNDROP TABLE ''"]
  by (auto simp: undrop_sql_def safe_text elim!: bind_result_InrE)

lemma set_row_filter_yields:
  assumes "set_row_filter_sql t f cs = Inr s"
  shows "yields s (table_names t @ split_names f @ list_names cs) []"
proof -
  obtain q c where q: "qualified_name f = Inr q" "sql_columns cs = Inr c"
    and a: "alter t (''SET ROW FILTER '' @ q @ '' ON ('' @ c @ '')'') = Inr s"
    using assms by (auto simp: set_row_filter_sql_def elim!: bind_result_InrE)
  have "yields (c @ '')'') (list_names cs) []"
    by (rule yields_end [OF yields_columns [OF q(2)]]) (simp add: safe_text)
  from alter_two [OF a _ yields_qualified [OF q(1)] _ _ this] show ?thesis by (simp add: safe_text)
qed

lemma drop_row_filter_yields: "drop_row_filter_sql t = Inr s \<Longrightarrow> yields s (table_names t) []"
  using yields_alter [OF _ yields_fixed, of t "''DROP ROW FILTER''" s] by (simp add: drop_row_filter_sql_def safe_text)

lemma set_column_mask_yields:
  assumes "set_column_mask_sql t c f cs = Inr s"
  shows "yields s (table_names t @ column_names c @ split_names f @ listed_names cs) []"
proof -
  obtain p q u where p: "sql_column c = Inr p" "qualified_name f = Inr q"
    and u: "(case cs of Some l \<Rightarrow> if given_columns cs then bind_result (lift_sql (sql_columns l)) (\<lambda>x. Inr ('' USING COLUMNS ('' @ x @ '')''))
                   else Inr [] | None \<Rightarrow> Inr []) = (Inr u :: statement_error + string)"
    and a: "alter t (''ALTER COLUMN '' @ p @ '' SET MASK '' @ q @ u) = Inr s"
    using assms unfolding set_column_mask_sql_def by (auto elim!: bind_result_InrE)
  have y: "yields u (listed_names cs) [] \<and> (u = [] \<or> hd u \<noteq> bt)"
  proof (cases "u = []")
    case True
    then have "listed_names cs = []" using u
      by (auto simp: listed_names_def optional_def given_columns_def split: option.splits if_splits elim!: bind_result_InrE)
    then show ?thesis using True by auto
  next
    case False
    then obtain l x where l: "cs = Some l" "given_columns cs" "sql_columns l = Inr x" "u = '' USING COLUMNS ('' @ x @ '')''"
      using u by (auto split: option.splits if_splits elim!: bind_result_InrE)
    have "yields ('' USING COLUMNS ('' @ x @ '')'') (list_names l) []"
      by (rule yields_after [OF _ yields_end [OF yields_columns [OF l(3)]]]) (simp_all add: safe_text)
    then show ?thesis by (simp add: l listed_names_def optional_def) (use l(1,2) in simp)
  qed
  have "yields (q @ u) (split_names f @ listed_names cs) ([] @ [])"
    using yields_append [OF yields_qualified [OF p(2)]] y by blast
  from alter_two [OF a _ yields_column [OF p(1)] _ _ this] show ?thesis by (simp add: safe_text)
qed

lemma drop_column_mask_yields: "drop_column_mask_sql t c = Inr s \<Longrightarrow> yields s (table_names t @ column_names c) []"
  using alter_between [OF _ _ yields_column, of t "''ALTER COLUMN ''" _ "'' DROP MASK''" s c]
  by (auto simp: drop_column_mask_sql_def safe_text elim!: bind_result_InrE)

lemma tag_target_yields:
  assumes "tag_target c = Inr w" "list_all safe_char f" "f \<noteq> []" "yields x a b"
  shows "yields (w @ f @ x) (optional column_names c @ a) b"
proof (cases c)
  case None
  then show ?thesis using assms yields_after [OF assms(2,4)] by (simp add: tag_target_def optional_def)
next
  case (Some r)
  then obtain p where p: "sql_column r = Inr p" "w = ''ALTER COLUMN '' @ p @ '' ''"
    using assms(1) by (auto simp: tag_target_def elim!: bind_result_InrE)
  have "yields (p @ ('' '' @ f) @ x) (column_names r @ a) ([] @ b)"
    using assms(2) by (intro yields_then [OF yields_column [OF p(1)] _ _ assms(4)]) (simp_all add: safe_text)
  then show ?thesis using yields_after [of "''ALTER COLUMN ''"] Some by (simp add: p(2) optional_def safe_text)
qed

lemma set_tags_yields:
  assumes "set_tags_sql t ts c = Inr s"
  shows "yields s (table_names t @ optional column_names c)
    (concat (map (\<lambda>(k, v). [k, case v of None \<Rightarrow> [] | Some x \<Rightarrow> x]) ts))"
proof -
  obtain w where w: "tag_target c = Inr w" and a: "alter t (w @ ''SET TAGS ('' @ comma_joined (map tag_pair ts) @ '')'') = Inr s"
    using assms by (auto simp: set_tags_sql_def elim!: bind_result_InrE split: if_splits)
  have "yields (comma_joined (map tag_pair ts) @ '')'') [] (concat (map (\<lambda>(k, v). [k, case v of None \<Rightarrow> [] | Some x \<Rightarrow> x]) ts))"
    by (rule yields_end [OF yields_tags]) (simp add: safe_text)
  from yields_alter [OF a tag_target_yields [OF w _ _ this]] show ?thesis by (simp add: safe_text)
qed

lemma unset_tags_yields:
  assumes "unset_tags_sql t ks c = Inr s"
  shows "yields s (table_names t @ optional column_names c) ks"
proof -
  obtain w where w: "tag_target c = Inr w" and a: "alter t (w @ ''UNSET TAGS ('' @ literals ks @ '')'') = Inr s"
    using assms by (auto simp: unset_tags_sql_def elim!: bind_result_InrE split: if_splits)
  have "yields (literals ks @ '')'') [] ks"
    by (rule yields_end [OF yields_literals]) (simp add: safe_text)
  from yields_alter [OF a tag_target_yields [OF w _ _ this]] show ?thesis by (simp add: safe_text)
qed

lemma set_owner_yields: "set_owner_sql t p = Inr s \<Longrightarrow> yields s (table_names t @ [p]) []"
  using alter_after [OF _ _ yields_quoted, of t "''OWNER TO ''" p s]
  by (simp add: set_owner_sql_def sql_principal_def safe_text)

lemma grant_yields: "grant_sql t ps p = Inr s \<Longrightarrow> yields s (table_names t @ [p]) []"
proof -
  assume "grant_sql t ps p = Inr s"
  then obtain n l where n: "table_name t = Inr n" "sql_privileges ps = Inr l"
    and s: "s = (''GRANT '' @ l @ '' ON TABLE '') @ n @ '' TO '' @ quoted p"
    by (auto simp: grant_sql_def sql_principal_def elim!: bind_result_InrE)
  have "list_all safe_char (''GRANT '' @ l @ '' ON TABLE '')" using safe_privileges [OF n(2)] by (simp add: safe_text)
  then show ?thesis unfolding s by (rule yields_around [OF n(1) _ _ _ yields_quoted]) (simp_all add: safe_text)
qed

lemma revoke_yields: "revoke_sql t ps p = Inr s \<Longrightarrow> yields s (table_names t @ [p]) []"
proof -
  assume "revoke_sql t ps p = Inr s"
  then obtain n l where n: "table_name t = Inr n" "sql_privileges ps = Inr l"
    and s: "s = (''REVOKE '' @ l @ '' ON TABLE '') @ n @ '' FROM '' @ quoted p"
    by (auto simp: revoke_sql_def sql_principal_def elim!: bind_result_InrE)
  have "list_all safe_char (''REVOKE '' @ l @ '' ON TABLE '')" using safe_privileges [OF n(2)] by (simp add: safe_text)
  then show ?thesis unfolding s by (rule yields_around [OF n(1) _ _ _ yields_quoted]) (simp_all add: safe_text)
qed

lemmas statement_yields =
  restore_yields repair_yields reorg_yields clone_yields analyze_yields sync_yields refresh_yields add_columns_yields
  drop_column_yields rename_column_yields set_properties_yields unset_properties_yields
  set_properties_yields [where kvs = "dict_of kvs" for kvs] drop_feature_yields drop_constraint_yields set_comment_yields
  set_column_comment_yields alter_column_type_yields set_not_null_yields drop_not_null_yields cluster_by_yields
  undrop_yields set_row_filter_yields drop_row_filter_yields set_column_mask_yields drop_column_mask_yields
  set_tags_yields unset_tags_yields set_owner_yields grant_yields revoke_yields

text \<open>The expression of a CHECK constraint is the caller's SQL and goes in as it is; the name before it
  is contained whatever it holds.\<close>

lemma constraint_names_contained:
  assumes "add_constraint_sql t cs = Inr ss" "s \<in> set ss"
  shows "\<exists>n e f. (n, e) \<in> set cs \<and> s = f @ sql_expression e @ '')'' \<and> yields f (table_names t @ [n]) []"
proof -
  have "map_result (\<lambda>(n, e). alter t (''ADD CONSTRAINT '' @ quoted n @ '' CHECK ('' @ sql_expression e @ '')'')) cs = Inr ss"
    using assms(1) by (auto simp: add_constraint_sql_def elim!: bind_result_InrE split: if_splits)
  from map_result_member [OF this assms(2)] obtain n e where
    c: "(n, e) \<in> set cs" "alter t (''ADD CONSTRAINT '' @ quoted n @ '' CHECK ('' @ sql_expression e @ '')'') = Inr s" by auto
  then obtain nm where nm: "table_name t = Inr nm"
    "s = (''ALTER TABLE '' @ nm @ '' ADD CONSTRAINT '' @ quoted n @ '' CHECK ('') @ sql_expression e @ '')''"
    by (auto simp: alter_def elim!: bind_result_InrE)
  have "alter t (''ADD CONSTRAINT '' @ quoted n @ '' CHECK ('') = Inr (''ALTER TABLE '' @ nm @ '' ADD CONSTRAINT '' @ quoted n @ '' CHECK ('')"
    by (simp add: alter_def nm(1) lift_sql_def)
  from alter_between [OF this _ yields_quoted] have
    "yields (''ALTER TABLE '' @ nm @ '' ADD CONSTRAINT '' @ quoted n @ '' CHECK ('') (table_names t @ [n]) []"
    by (simp add: safe_text)
  then show ?thesis using c(1) nm(2) by blast
qed

text \<open>C16: a warehouse reads back, from the statement of a call that carries no SQL of the caller's own and
  no negative version, exactly the names of the call as quoted identifiers and its texts as string
  literals, each complete and in its place.  All else it reads, the text of a type included, is
  letters, digits, blanks and a few marks that open no string, quoted name or comment and end no
  statement.  The text of a type is held to those marks only: it may still read as more than a type
  (\<open>type_brings_column\<close>).  Outside these calls are the predicate of a \<open>REORG\<close> and the expression of a
  CHECK constraint, which are SQL by contract.\<close>

theorem statements_contained:
  assumes "statement t c = Inr s" "plain_call c"
  shows "\<exists>ps. read_sql s = Some ps \<and> idents ps = call_names t c \<and> texts ps = call_texts c \<and> list_all safe_piece ps"
proof (rule yields_read)
  show "yields s (call_names t c) (call_texts c)"
    using assms by (cases c) (simp_all only: statement.simps call_names.simps call_texts.simps, auto simp: add_feature_sql_def dest: statement_yields)
qed

definition awkward_table :: resolved_table where
  "awkward_table = (legacy_table 2)\<lparr>t_ref := \<lparr>kind = CATALOG, catalog = Some ''main'', schema = Some ''s'',
     table = Some (''t'' @ [bt]), path = None, scheme = None, endpoint = None, raw = ''main.s''\<rparr>\<rparr>"

definition awkward_call :: call where
  "awkward_call = SetTags [(''it's'', Some ''x'; DROP TABLE t --'')] (Some (OneName ''a, b''))"

theorem statements_contained_witness:
  "\<exists>s ps. statement awkward_table awkward_call = Inr s \<and> read_sql s = Some ps
     \<and> idents ps = [''main'', ''s'', ''t'' @ [bt], ''a, b''] \<and> texts ps = [''it's'', ''x'; DROP TABLE t --'']
     \<and> list_all safe_piece ps"
proof -
  have "\<exists>s. statement awkward_table awkward_call = Inr s"
    by (simp add: awkward_call_def awkward_table_def set_tags_sql_def tag_target_def alter_def table_name_def
        sql_column_def lift_sql_def)
  then obtain s where s: "statement awkward_table awkward_call = Inr s" by blast
  have "plain_call awkward_call" by (simp add: awkward_call_def)
  from statements_contained [OF s this] s show ?thesis
    by (auto simp: awkward_call_def awkward_table_def table_names_def optional_def column_names_def)
qed

end
