(* ===== verification/Identity_Values.thy ===== *)
theory Identity_Values
  imports Meta_Reached
begin

text \<open>
  \<open>engine/values.py\<close>, identity columns: the values a commit reserves by moving the column's high
  water mark, their division into slots, and the cursors of the worker tasks that use them up.
\<close>

section \<open>Columns and blocks\<close>

record identity_spec =
  is_name :: string
  is_start :: int
  is_step :: int
  is_mark :: "int option"
  is_explicit :: bool

definition first_free :: "identity_spec \<Rightarrow> int" where
  "first_free s = (case is_mark s of None \<Rightarrow> is_start s | Some m \<Rightarrow> m + is_step s)"

definition identity_start_key :: string where "identity_start_key = ''delta.identity.start''"
definition identity_step_key :: string where "identity_step_key = ''delta.identity.step''"
definition identity_mark_key :: string where "identity_mark_key = ''delta.identity.highWaterMark''"
definition identity_explicit_key :: string where "identity_explicit_key = ''delta.identity.allowExplicitInsert''"

datatype identity_error = NotANumber string | BigintRange string | NoIdentity "string list"
  | OutsideSlots int nat | BlockRunsOut string

text \<open>\<open>int(value)\<close>; \<open>None\<close> where Python raises.\<close>

fun json_int :: "json \<Rightarrow> int option" where
  "json_int (JInt i) = Some i"
| "json_int (JBool b) = Some (if b then 1 else 0)"
| "json_int (JReal r) = Some (if r < 0 then - floor (- r) else floor r)"
| "json_int (JStr s) = py_int s"
| "json_int _ = None"

definition meta_number :: "(string \<times> json) list \<Rightarrow> string \<Rightarrow> int option \<Rightarrow> identity_error + int option" where
  "meta_number m k d =
     (case map_of m k of
        None \<Rightarrow> Inr d
      | Some v \<Rightarrow> if v = JNull then Inr d
                 else (case json_int v of None \<Rightarrow> Inl (NotANumber k) | Some i \<Rightarrow> Inr (Some i)))"

definition explicit_flag :: "(string \<times> json) list \<Rightarrow> bool" where
  "explicit_flag m =
     (case map_of m identity_explicit_key of
        None \<Rightarrow> False | Some (JStr s) \<Rightarrow> py_lower s = ''true'' | Some v \<Rightarrow> truthy v)"

text \<open>\<open>_identity_spec\<close>; \<open>number(...) or 0\<close> is the number, whose default is 1.\<close>

definition identity_spec_of :: "string \<Rightarrow> (string \<times> json) list \<Rightarrow> identity_error + identity_spec" where
  "identity_spec_of n m =
     bind_result (meta_number m identity_start_key (Some 1)) (\<lambda>s.
     bind_result (meta_number m identity_step_key (Some 1)) (\<lambda>d.
     bind_result (meta_number m identity_mark_key None) (\<lambda>h.
       Inr \<lparr>is_name = n, is_start = (case s of None \<Rightarrow> 0 | Some i \<Rightarrow> i), is_step = (case d of None \<Rightarrow> 0 | Some i \<Rightarrow> i), is_mark = h,
            is_explicit = explicit_flag m\<rparr>)))"

record block =
  bl_first :: int
  bl_step :: int
  bl_count :: int

definition block_slot :: "block \<Rightarrow> int \<Rightarrow> int \<Rightarrow> identity_error + block" where
  "block_slot b i slots =
     (if slots \<le> 0 \<or> i < 0 \<or> slots \<le> i then Inl (OutsideSlots i (nat slots))
      else let size = bl_count b div slots
           in Inr \<lparr>bl_first = bl_first b + i * size * bl_step b, bl_step = bl_step b, bl_count = size\<rparr>)"

record cursor =
  cu_block :: block
  cu_used :: int

definition new_cursor :: "block \<Rightarrow> cursor" where
  "new_cursor b = \<lparr>cu_block = b, cu_used = 0\<rparr>"

definition take_values :: "string \<Rightarrow> cursor \<Rightarrow> int \<Rightarrow> identity_error + int \<times> cursor" where
  "take_values n c rows =
     (if bl_count (cu_block c) < cu_used c + rows then Inl (BlockRunsOut n)
      else Inr (bl_first (cu_block c) + cu_used c * bl_step (cu_block c), c\<lparr>cu_used := cu_used c + rows\<rparr>))"

text \<open>\<open>slot_cursor\<close>: the process's cursors, by plan, task and column.\<close>

definition slot_cursor :: "(string \<times> int \<times> string) \<Rightarrow> block \<Rightarrow> (string \<times> int \<times> string \<Rightarrow> cursor option)
    \<Rightarrow> cursor \<times> (string \<times> int \<times> string \<Rightarrow> cursor option)" where
  "slot_cursor k b cursors =
     (case cursors k of
        Some c \<Rightarrow> if cu_block c = b then (c, cursors) else (new_cursor b, cursors(k \<mapsto> new_cursor b))
      | None \<Rightarrow> (new_cursor b, cursors(k \<mapsto> new_cursor b)))"

text \<open>\<open>range(first, first + rows * step, step)\<close> for a step that is not 0.\<close>

definition value_range :: "int \<Rightarrow> int \<Rightarrow> nat \<Rightarrow> int list" where
  "value_range first d rows = map (\<lambda>i. first + int i * d) [0..<rows]"

section \<open>Reserving\<close>

definition bigint_range :: "int \<Rightarrow> bool" where
  "bigint_range i \<longleftrightarrow> - (2 ^ 63) \<le> i \<and> i \<le> 2 ^ 63 - 1"

definition reserve_column :: "int \<Rightarrow> column \<Rightarrow> identity_error + column \<times> block" where
  "reserve_column k f =
     bind_result (identity_spec_of (col_name f) (col_meta f)) (\<lambda>s.
       let first = first_free s; final = first + is_step s * (k - 1)
       in if \<not> (bigint_range first \<and> bigint_range final) then Inl (BigintRange (col_name f))
          else Inr (set_meta (dict_set identity_mark_key (JInt final) (col_meta f)) f,
                    \<lparr>bl_first = first, bl_step = is_step s, bl_count = k\<rparr>))"

definition count_of :: "(string \<times> int) list \<Rightarrow> string \<Rightarrow> int" where
  "count_of counts n = (case map_of counts n of None \<Rightarrow> 0 | Some c \<Rightarrow> c)"

fun reserve_fields :: "(string \<times> int) list \<Rightarrow> column list \<Rightarrow> (string \<times> block) list
    \<Rightarrow> identity_error + column list \<times> (string \<times> block) list" where
  "reserve_fields counts [] blocks = Inr ([], blocks)"
| "reserve_fields counts (f # fs) blocks =
     (if count_of counts (col_name f) \<le> 0
      then bind_result (reserve_fields counts fs blocks) (\<lambda>(gs, bs). Inr (f # gs, bs))
      else bind_result (reserve_column (count_of counts (col_name f)) f) (\<lambda>(g, b).
             bind_result (reserve_fields counts fs (dict_set (col_name f) b blocks)) (\<lambda>(gs, bs).
               Inr (g # gs, bs))))"

definition reserve_identity :: "table_state \<Rightarrow> (string \<times> int) list
    \<Rightarrow> identity_error + change \<times> (string \<times> block) list" where
  "reserve_identity st counts =
     bind_result (reserve_fields counts (schema_cols st) []) (\<lambda>(fs, blocks).
       let missing = filter (\<lambda>n. n \<notin> col_name ` set (schema_cols st)) (map fst counts)
       in if missing \<noteq> [] then Inl (NoIdentity (sort (remdups missing)))
          else Inr ((no_change ''CHANGE COLUMN'' [(''reason'', PText ''reserve identity values'')])
                 \<lparr>ch_meta := (if blocks = [] then None else Some (with_schema fs (ts_meta st)))\<rparr>, blocks))"

text \<open>The identity columns a write with these columns must generate.\<close>

definition generates_identity :: "string list \<Rightarrow> string list option \<Rightarrow> string list" where
  "generates_identity identity names =
     (case names of
        None \<Rightarrow> sort identity
      | Some ns \<Rightarrow> sort (filter (\<lambda>n. py_lower n \<notin> py_lower ` set ns) identity))"

section \<open>What a reservation does\<close>

lemma identity_keys_differ [simp]:
  "identity_start_key \<noteq> identity_mark_key" "identity_step_key \<noteq> identity_mark_key" "identity_explicit_key \<noteq> identity_mark_key"
  by code_simp+

lemma spec_after_mark:
  assumes "identity_spec_of n m = Inr s"
  shows "identity_spec_of n (dict_set identity_mark_key (JInt i) m) = Inr (s\<lparr>is_mark := Some i\<rparr>)"
proof -
  let ?m = "dict_set identity_mark_key (JInt i) m"
  have "meta_number ?m identity_start_key d = meta_number m identity_start_key d"
    "meta_number ?m identity_step_key d = meta_number m identity_step_key d" for d
    by (simp_all add: meta_number_def map_of_dict_set)
  moreover have "meta_number ?m identity_mark_key None = Inr (Some i)" "explicit_flag ?m = explicit_flag m"
    by (simp_all add: meta_number_def explicit_flag_def map_of_dict_set)
  ultimately show ?thesis
    using assms by (auto simp: identity_spec_of_def elim!: bind_result_InrE)
qed

lemma reserve_columnD:
  assumes "reserve_column k f = Inr (g, b)"
  obtains s where "identity_spec_of (col_name f) (col_meta f) = Inr s"
    "b = \<lparr>bl_first = first_free s, bl_step = is_step s, bl_count = k\<rparr>"
    "bigint_range (first_free s)" "bigint_range (first_free s + is_step s * (k - 1))"
    "col_name g = col_name f"
    "identity_spec_of (col_name g) (col_meta g) = Inr (s\<lparr>is_mark := Some (first_free s + is_step s * (k - 1))\<rparr>)"
  using assms spec_after_mark
  by (auto simp: reserve_column_def Let_def elim!: bind_result_InrE split: if_split_asm)

lemma reserve_fields_names:
  "reserve_fields counts fs bs = Inr (gs, bs') \<Longrightarrow> map col_name gs = map col_name fs"
  by (induction fs arbitrary: bs gs bs')
    (auto elim!: bind_result_InrE reserve_columnD split: if_split_asm)

text \<open>The column of a name, and what its metadata declares.\<close>

definition column_spec :: "column list \<Rightarrow> string \<Rightarrow> identity_spec option" where
  "column_spec fs n =
     (case List.find (\<lambda>f. col_name f = n) fs of
        None \<Rightarrow> None
      | Some f \<Rightarrow> (case identity_spec_of (col_name f) (col_meta f) of Inl e \<Rightarrow> None | Inr s \<Rightarrow> Some s))"

lemma reserve_fields_other:
  "reserve_fields counts fs bs = Inr (gs, bs') \<Longrightarrow> n \<notin> col_name ` set fs \<Longrightarrow> map_of bs' n = map_of bs n"
proof (induction fs arbitrary: bs gs bs')
  case (Cons f fs)
  then show ?case
    by (auto simp: map_of_dict_set elim!: bind_result_InrE split: if_split_asm)
qed simp

lemma reserve_fields_block:
  assumes "reserve_fields counts fs bs = Inr (gs, bs')" "map_of bs' n = Some b" "map_of bs n = None"
    and "distinct (map col_name fs)" "column_spec fs n = Some s"
  shows "0 < count_of counts n
    \<and> b = \<lparr>bl_first = first_free s, bl_step = is_step s, bl_count = count_of counts n\<rparr>
    \<and> bigint_range (first_free s) \<and> bigint_range (first_free s + is_step s * (count_of counts n - 1))
    \<and> column_spec gs n = Some (s\<lparr>is_mark := Some (first_free s + is_step s * (count_of counts n - 1))\<rparr>)"
  using assms
proof (induction fs arbitrary: bs gs bs')
  case (Cons f fs)
  show ?case
  proof (cases "col_name f = n")
    case True
    have notin: "n \<notin> col_name ` set fs" using Cons.prems(4) True by auto
    have pos: "0 < count_of counts n"
    proof (rule ccontr)
      assume "\<not> ?thesis"
      then obtain gs' where "reserve_fields counts fs bs = Inr (gs', bs')"
        using Cons.prems(1) True by (auto elim!: bind_result_InrE split: if_split_asm)
      from reserve_fields_other [OF this notin] show False using Cons.prems(2,3) by simp
    qed
    then obtain g c gs' where g: "reserve_column (count_of counts n) f = Inr (g, c)" "gs = g # gs'"
      "reserve_fields counts fs (dict_set n c bs) = Inr (gs', bs')"
      using Cons.prems(1) True by (auto elim!: bind_result_InrE split: if_split_asm)
    have b: "b = c" using reserve_fields_other [OF g(3) notin] Cons.prems(2) by (simp add: map_of_dict_set)
    from g(1) obtain s' where s': "identity_spec_of (col_name f) (col_meta f) = Inr s'"
      "c = \<lparr>bl_first = first_free s', bl_step = is_step s', bl_count = count_of counts n\<rparr>"
      "bigint_range (first_free s')" "bigint_range (first_free s' + is_step s' * (count_of counts n - 1))"
      "col_name g = col_name f"
      "identity_spec_of (col_name g) (col_meta g) = Inr (s'\<lparr>is_mark := Some (first_free s' + is_step s' * (count_of counts n - 1))\<rparr>)"
      by (rule reserve_columnD)
    have "s' = s" using Cons.prems(5) s'(1) True by (simp add: column_spec_def)
    then show ?thesis using s' pos True g(2) b by (simp add: column_spec_def)
  next
    case False
    have spec: "column_spec fs n = Some s" using Cons.prems(5) False by (simp add: column_spec_def)
    have d: "distinct (map col_name fs)" using Cons.prems(4) by simp
    show ?thesis
    proof (cases "count_of counts (col_name f) \<le> 0")
      case True
      then obtain gs' where g: "reserve_fields counts fs bs = Inr (gs', bs')" "gs = f # gs'"
        using Cons.prems(1) by (auto elim!: bind_result_InrE)
      have "column_spec gs n = column_spec gs' n" using g(2) False by (simp add: column_spec_def)
      then show ?thesis using Cons.IH [OF g(1) Cons.prems(2,3) d spec] by simp
    next
      case pos: False
      then obtain g c gs' where g: "reserve_column (count_of counts (col_name f)) f = Inr (g, c)" "gs = g # gs'"
        "reserve_fields counts fs (dict_set (col_name f) c bs) = Inr (gs', bs')"
        using Cons.prems(1) by (auto elim!: bind_result_InrE)
      have "map_of (dict_set (col_name f) c bs) n = None" using Cons.prems(3) False by (simp add: map_of_dict_set)
      note ih = Cons.IH [OF g(3) Cons.prems(2) this d spec]
      have "col_name g \<noteq> n" using g(1) False by (auto elim: reserve_columnD)
      then have "column_spec gs n = column_spec gs' n" using g(2) by (simp add: column_spec_def)
      then show ?thesis using ih by simp
    qed
  qed
qed simp

end
