(* ===== verification/Identity_Runs.thy ===== *)
theory Identity_Runs
  imports Identity_Values
begin

text \<open>
  Writes to a table with an identity column: reservations committed one after another, divided
  into slots, and tasks taking values from their slots in any order.  No value is given out twice.
\<close>

section \<open>Steps\<close>

record identity_run =
  ir_table :: table_state
  ir_plans :: "(string \<times> block \<times> int) list"
  ir_cursors :: "string \<times> int \<times> string \<Rightarrow> cursor option"
  ir_values :: "int list"

text \<open>One draw of a task: its cursor, then the values (\<open>_identity_values\<close>).\<close>

definition draw :: "string \<Rightarrow> string \<Rightarrow> block \<Rightarrow> int \<Rightarrow> int \<Rightarrow> nat \<Rightarrow> identity_run \<Rightarrow> identity_error + identity_run" where
  "draw n plan b slots i rows w =
     bind_result (block_slot b i slots) (\<lambda>s.
       let (c, cursors) = slot_cursor (plan, i, n) s (ir_cursors w)
       in bind_result (take_values n c (int rows)) (\<lambda>(first, c').
            Inr (w\<lparr>ir_cursors := cursors((plan, i, n) \<mapsto> c'),
                   ir_values := ir_values w @ value_range first (bl_step s) rows\<rparr>)))"

text \<open>A reservation is committed as any metadata change is; other commits leave the column's identity
  metadata alone.\<close>

inductive identity_step :: "string \<Rightarrow> identity_run \<Rightarrow> identity_run \<Rightarrow> bool" for n where
  reserve: "reserve_identity (ir_table w) counts = Inr (ch, blocks) \<Longrightarrow> build_actions (ir_table w) ch now = Inr co \<Longrightarrow>
     map_of blocks n = Some b \<Longrightarrow> plan \<notin> fst ` set (ir_plans w) \<Longrightarrow>
     identity_step n w (w\<lparr>ir_table := committed (ir_table w) co, ir_plans := ir_plans w @ [(plan, b, slots)]\<rparr>)"
| other: "column_spec (schema_cols st) n = column_spec (schema_cols (ir_table w)) n \<Longrightarrow>
     distinct (map col_name (schema_cols st)) \<Longrightarrow> identity_step n w (w\<lparr>ir_table := st\<rparr>)"
| use: "(plan, b, slots) \<in> set (ir_plans w) \<Longrightarrow> draw n plan b slots i rows w = Inr w' \<Longrightarrow> identity_step n w w'"

inductive identity_reached :: "string \<Rightarrow> table_state \<Rightarrow> identity_run \<Rightarrow> bool" for n st where
  start: "identity_reached n st \<lparr>ir_table = st, ir_plans = [], ir_cursors = (\<lambda>k. None), ir_values = []\<rparr>"
| step: "identity_reached n st w \<Longrightarrow> identity_step n w w' \<Longrightarrow> identity_reached n st w'"

section \<open>Intervals\<close>

text \<open>The values of a column, counted from its first free one in steps: a plan has an interval of them,
  a slot of the plan a part of that interval.\<close>

definition plan_offset :: "(string \<times> block \<times> int) list \<Rightarrow> nat \<Rightarrow> int" where
  "plan_offset ps j = sum_list (map (\<lambda>p. bl_count (fst (snd p))) (take j ps))"

lemma plan_offset_Suc: "j < length ps \<Longrightarrow> plan_offset ps (Suc j) = plan_offset ps j + bl_count (fst (snd (ps ! j)))"
  by (simp add: plan_offset_def take_Suc_conv_app_nth)

lemma plan_offset_append: "j \<le> length ps \<Longrightarrow> plan_offset (ps @ qs) j = plan_offset ps j"
  by (simp add: plan_offset_def)

lemma plan_offset_mono:
  assumes "\<forall>p\<in>set ps. 0 \<le> bl_count (fst (snd p))" "j < j'" "j' \<le> length ps"
  shows "plan_offset ps j + bl_count (fst (snd (ps ! j))) \<le> plan_offset ps j'"
  using assms(2,3)
proof (induction j')
  case (Suc k)
  show ?case
  proof (cases "j = k")
    case True
    then show ?thesis using plan_offset_Suc [of k ps] Suc.prems by simp
  next
    case False
    then have "plan_offset ps j + bl_count (fst (snd (ps ! j))) \<le> plan_offset ps k" using Suc by simp
    moreover have "0 \<le> bl_count (fst (snd (ps ! k)))" using assms(1) Suc.prems by simp
    ultimately show ?thesis using plan_offset_Suc [of k ps] Suc.prems by simp
  qed
qed simp

definition slot_size :: "block \<Rightarrow> int \<Rightarrow> int" where
  "slot_size b slots = bl_count b div slots"

lemma block_slotD:
  assumes "block_slot b i slots = Inr s" "0 \<le> bl_count b"
  shows "0 \<le> i" "i < slots" "bl_count s = slot_size b slots" "bl_step s = bl_step b"
    "bl_first s = bl_first b + i * slot_size b slots * bl_step b"
    "0 \<le> slot_size b slots" "i * slot_size b slots + slot_size b slots \<le> bl_count b"
proof -
  show 1: "0 \<le> i" "i < slots" "bl_count s = slot_size b slots" "bl_step s = bl_step b"
    "bl_first s = bl_first b + i * slot_size b slots * bl_step b"
    using assms(1) by (auto simp: block_slot_def slot_size_def Let_def split: if_split_asm)
  have pos: "0 < slots" using 1 by simp
  show size: "0 \<le> slot_size b slots" using assms(2) pos by (simp add: slot_size_def pos_imp_zdiv_nonneg_iff)
  have "(i + 1) * slot_size b slots \<le> slots * slot_size b slots"
    using 1 size by (intro mult_right_mono) auto
  also have "\<dots> \<le> bl_count b"
    using mult_div_mod_eq [of slots "bl_count b"] pos_mod_sign [OF pos, of "bl_count b"]
    unfolding slot_size_def by linarith
  finally show "i * slot_size b slots + slot_size b slots \<le> bl_count b" by (simp add: algebra_simps)
qed

section \<open>The invariant\<close>

abbreviation plan_block :: "(string \<times> block \<times> int) list \<Rightarrow> nat \<Rightarrow> block" where
  "plan_block ps j \<equiv> fst (snd (ps ! j))"

abbreviation plan_slots :: "(string \<times> block \<times> int) list \<Rightarrow> nat \<Rightarrow> int" where
  "plan_slots ps j \<equiv> snd (snd (ps ! j))"

definition slot_offset :: "(string \<times> block \<times> int) list \<Rightarrow> nat \<Rightarrow> int \<Rightarrow> int" where
  "slot_offset ps j i = plan_offset ps j + i * slot_size (plan_block ps j) (plan_slots ps j)"

definition plans_ok :: "int \<Rightarrow> int \<Rightarrow> (string \<times> block \<times> int) list \<Rightarrow> bool" where
  "plans_ok base d ps \<longleftrightarrow>
     distinct (map fst ps)
     \<and> (\<forall>j<length ps. bl_first (plan_block ps j) = base + plan_offset ps j * d
          \<and> bl_step (plan_block ps j) = d \<and> 0 < bl_count (plan_block ps j)
          \<and> bigint_range (bl_first (plan_block ps j))
          \<and> bigint_range (bl_first (plan_block ps j) + d * (bl_count (plan_block ps j) - 1)))"

definition cursor_ok :: "(string \<times> block \<times> int) list \<Rightarrow> string \<Rightarrow> string \<times> int \<times> string \<Rightarrow> cursor \<Rightarrow> bool" where
  "cursor_ok ps n k c \<longleftrightarrow>
     (\<exists>j i. j < length ps \<and> k = (fst (ps ! j), i, n)
        \<and> block_slot (plan_block ps j) i (plan_slots ps j) = Inr (cu_block c)
        \<and> 0 \<le> cu_used c \<and> cu_used c \<le> bl_count (cu_block c))"

text \<open>The value numbered \<open>k\<close> was given out: its slot's cursor is past it.\<close>

definition drawn :: "string \<Rightarrow> identity_run \<Rightarrow> int \<Rightarrow> bool" where
  "drawn n w k \<longleftrightarrow>
     (\<exists>j i c. j < length (ir_plans w) \<and> ir_cursors w (fst (ir_plans w ! j), i, n) = Some c
        \<and> slot_offset (ir_plans w) j i \<le> k \<and> k < slot_offset (ir_plans w) j i + cu_used c)"

definition run_ok :: "string \<Rightarrow> int \<Rightarrow> int \<Rightarrow> identity_run \<Rightarrow> bool" where
  "run_ok n base d w \<longleftrightarrow>
     distinct (map col_name (schema_cols (ir_table w)))
     \<and> (\<exists>s. column_spec (schema_cols (ir_table w)) n = Some s \<and> is_step s = d
          \<and> first_free s = base + plan_offset (ir_plans w) (length (ir_plans w)) * d)
     \<and> plans_ok base d (ir_plans w)
     \<and> (\<forall>k c. ir_cursors w k = Some c \<longrightarrow> cursor_ok (ir_plans w) n k c)
     \<and> (\<exists>ks. ir_values w = map (\<lambda>k. base + k * d) ks \<and> distinct ks \<and> (\<forall>k\<in>set ks. drawn n w k))"

lemma plans_ok_counts: "plans_ok base d ps \<Longrightarrow> \<forall>p\<in>set ps. 0 \<le> bl_count (fst (snd p))"
  by (fastforce simp: plans_ok_def in_set_conv_nth)

text \<open>Two slots share no value.\<close>

lemma slots_disjoint:
  assumes "plans_ok base d ps" "j < length ps" "j' < length ps"
    and "block_slot (plan_block ps j) i (plan_slots ps j) = Inr s" "block_slot (plan_block ps j') i' (plan_slots ps j') = Inr s'"
    and "slot_offset ps j i \<le> k" "k < slot_offset ps j i + bl_count s"
    and "slot_offset ps j' i' \<le> k" "k < slot_offset ps j' i' + bl_count s'"
  shows "j = j' \<and> i = i'"
proof -
  have c: "0 \<le> bl_count (plan_block ps j)" "0 \<le> bl_count (plan_block ps j')"
    using plans_ok_counts [OF assms(1)] assms(2,3) by auto
  note s = block_slotD [OF assms(4) c(1)] and s' = block_slotD [OF assms(5) c(2)]
  let ?z = "slot_size (plan_block ps j) (plan_slots ps j)" and ?z' = "slot_size (plan_block ps j') (plan_slots ps j')"
  have k: "plan_offset ps j \<le> k" "k < plan_offset ps j + bl_count (plan_block ps j)"
    using assms(6,7) s(3,7) mult_nonneg_nonneg [OF s(1,6)] unfolding slot_offset_def by linarith+
  have k': "plan_offset ps j' \<le> k" "k < plan_offset ps j' + bl_count (plan_block ps j')"
    using assms(8,9) s'(3,7) mult_nonneg_nonneg [OF s'(1,6)] unfolding slot_offset_def by linarith+
  have j: "j = j'"
  proof (rule ccontr)
    assume "j \<noteq> j'"
    then consider "j < j'" | "j' < j" by linarith
    then show False
      by cases (use plan_offset_mono [OF plans_ok_counts [OF assms(1)]] assms(2,3) k k' in \<open>fastforce\<close>)+
  qed
  have less: False if "a < b" "b * z \<le> m" "m < a * z + z" "0 \<le> z" for a b z m :: int
  proof -
    have "(a + 1) * z \<le> b * z" using that by (intro mult_right_mono) auto
    then show False using that by (simp add: algebra_simps)
  qed
  have "i = i'"
  proof (rule ccontr)
    assume "i \<noteq> i'"
    then consider "i < i'" | "i' < i" by linarith
    then show False
      by cases (use less [of i i' ?z "k - plan_offset ps j"] less [of i' i ?z "k - plan_offset ps j"] assms(6-9) s s' j
          in \<open>auto simp: slot_offset_def\<close>)
  qed
  with j show ?thesis ..
qed

lemma start_ok:
  assumes "column_spec (schema_cols st) n = Some s" "distinct (map col_name (schema_cols st))"
  shows "run_ok n (first_free s) (is_step s) \<lparr>ir_table = st, ir_plans = [], ir_cursors = (\<lambda>k. None), ir_values = []\<rparr>"
  using assms by (simp add: run_ok_def plans_ok_def plan_offset_def)

lemma reserve_ok:
  assumes "run_ok n base d w" "reserve_identity (ir_table w) counts = Inr (ch, blocks)"
    and "build_actions (ir_table w) ch now = Inr co" "map_of blocks n = Some b" "plan \<notin> fst ` set (ir_plans w)"
  shows "run_ok n base d (w\<lparr>ir_table := committed (ir_table w) co, ir_plans := ir_plans w @ [(plan, b, slots)]\<rparr>)"
proof -
  let ?fs = "schema_cols (ir_table w)" and ?ps = "ir_plans w"
  let ?qs = "?ps @ [(plan, b, slots)]"
  obtain s where s: "column_spec ?fs n = Some s" "is_step s = d" "first_free s = base + plan_offset ?ps (length ?ps) * d"
    and dist: "distinct (map col_name ?fs)" and plans: "plans_ok base d ?ps"
    and cursors: "\<And>k c. ir_cursors w k = Some c \<Longrightarrow> cursor_ok ?ps n k c"
    using assms(1) by (auto simp: run_ok_def)
  obtain gs where g: "reserve_fields counts ?fs [] = Inr (gs, blocks)"
    and ch: "ch_meta ch = Some (with_schema gs (ts_meta (ir_table w)))"
    using assms(2,4) by (auto simp: reserve_identity_def Let_def no_change_def elim!: bind_result_InrE split: if_split_asm)
  note r = reserve_fields_block [OF g assms(4) _ dist s(1), simplified]
  have schema: "schema_cols (committed (ir_table w) co) = gs"
    using committed_parts(3) [OF assms(3)] ch by (simp add: applied_def)
  have len: "plan_offset ?qs (Suc (length ?ps)) = plan_offset ?ps (length ?ps) + bl_count b"
    using plan_offset_Suc [of "length ?ps" ?qs] plan_offset_append [of "length ?ps" ?ps "[(plan, b, slots)]"] by simp
  have spec: "column_spec gs n = Some (s\<lparr>is_mark := Some (first_free s + is_step s * (count_of counts n - 1))\<rparr>)"
    and b: "b = \<lparr>bl_first = first_free s, bl_step = d, bl_count = count_of counts n\<rparr>" "0 < count_of counts n"
    "bigint_range (first_free s)" "bigint_range (first_free s + d * (count_of counts n - 1))"
    using r s(2) by auto
  have free: "first_free (s\<lparr>is_mark := Some (first_free s + is_step s * (count_of counts n - 1))\<rparr>)
      = base + plan_offset ?qs (length ?qs) * d"
    using s(2,3) b(1) len by (simp add: first_free_def algebra_simps)
  have "plans_ok base d ?qs"
    using plans assms(5) b s(3) unfolding plans_ok_def
    by (auto simp: nth_append plan_offset_append less_Suc_eq split: if_split_asm)
  moreover have "cursor_ok ?qs n k c" if "cursor_ok ?ps n k c" for k c
    using that unfolding cursor_ok_def by (metis (no_types, lifting) length_append nth_append trans_less_add1)
  moreover have "drawn n (w\<lparr>ir_table := t, ir_plans := ?qs\<rparr>) k" if dr: "drawn n w k" for k t
  proof -
    obtain j i c where 1: "j < length ?ps" "ir_cursors w (fst (?ps ! j), i, n) = Some c"
      "slot_offset ?ps j i \<le> k" "k < slot_offset ?ps j i + cu_used c" using dr by (auto simp: drawn_def)
    moreover have "slot_offset ?qs j i = slot_offset ?ps j i" "?qs ! j = ?ps ! j" "j < length ?qs"
      using 1(1) plan_offset_append [of j ?ps] by (simp_all add: slot_offset_def nth_append)
    ultimately show ?thesis
      unfolding drawn_def by (intro exI [of _ j] exI [of _ i] exI [of _ c]) simp
  qed
  moreover have "distinct (map col_name gs)" using reserve_fields_names [OF g] dist by simp
  ultimately show ?thesis
    using assms(1) spec free s(2) schema cursors unfolding run_ok_def by auto
qed

text \<open>A draw takes the numbers after the last one its slot gave out.\<close>

lemma draw_ok:
  assumes "run_ok n base d w" "(plan, b, slots) \<in> set (ir_plans w)" "draw n plan b slots i rows w = Inr w'"
  shows "run_ok n base d w'"
proof -
  let ?ps = "ir_plans w" and ?key = "(plan, i, n)"
  obtain ks where plans: "plans_ok base d ?ps"
    and cursors: "\<And>k c. ir_cursors w k = Some c \<Longrightarrow> cursor_ok ?ps n k c"
    and ks: "ir_values w = map (\<lambda>k. base + k * d) ks" "distinct ks" "\<And>k. k \<in> set ks \<Longrightarrow> drawn n w k"
    using assms(1) by (auto simp: run_ok_def)
  obtain j where j: "j < length ?ps" "?ps ! j = (plan, b, slots)" using assms(2) by (auto simp: in_set_conv_nth)
  have unique: "j' = j" if "j' < length ?ps" "fst (?ps ! j') = plan" for j'
    using plans that j nth_eq_iff_index_eq [of "map fst ?ps" j' j] by (simp add: plans_ok_def)
  have first: "bl_first b = base + plan_offset ?ps j * d" "bl_step b = d" and pos: "0 \<le> bl_count b"
    using plans j by (auto simp: plans_ok_def)
  obtain s where s: "block_slot b i slots = Inr s" using assms(3) by (auto simp: draw_def elim!: bind_result_InrE)
  note sl = block_slotD [OF s pos]
  obtain c cs where c: "slot_cursor ?key s (ir_cursors w) = (c, cs)" by fastforce
  have cu: "cu_block c = s \<and> 0 \<le> cu_used c \<and> (\<forall>k. k \<noteq> ?key \<longrightarrow> cs k = ir_cursors w k)
      \<and> (\<forall>c0. ir_cursors w ?key = Some c0 \<longrightarrow> c = c0)"
  proof (cases "ir_cursors w ?key")
    case None
    then show ?thesis using c by (auto simp: slot_cursor_def new_cursor_def)
  next
    case (Some c0)
    from cursors [OF this] obtain j' where "j' < length ?ps" "plan = fst (?ps ! j')"
      "block_slot (plan_block ?ps j') i (plan_slots ?ps j') = Inr (cu_block c0)" "0 \<le> cu_used c0"
      by (auto simp: cursor_ok_def)
    moreover from this have "j' = j" using unique by simp
    ultimately have "cu_block c0 = s" "0 \<le> cu_used c0" using s j by auto
    then show ?thesis using c Some by (auto simp: slot_cursor_def)
  qed
  obtain f c' where t: "take_values n c (int rows) = Inr (f, c')"
    and w': "w' = w\<lparr>ir_cursors := cs(?key \<mapsto> c'), ir_values := ir_values w @ value_range f (bl_step s) rows\<rparr>"
    using assms(3) s c by (auto simp: draw_def elim!: bind_result_InrE)
  have used: "cu_block c' = s" "cu_used c' = cu_used c + int rows" "cu_used c' \<le> bl_count s" "f = bl_first s + cu_used c * d"
    using t cu sl(4) first(2) by (auto simp: take_values_def split: if_split_asm)
  let ?lo = "slot_offset ?ps j i"
  define new where "new = map (\<lambda>r. ?lo + cu_used c + int r) [0..<rows]"
  have lo: "?lo = plan_offset ?ps j + i * slot_size b slots" by (simp add: slot_offset_def j(2))
  have "value_range f (bl_step s) rows = map (\<lambda>k. base + k * d) new"
    using used(4) sl(4,5) first lo by (simp add: value_range_def new_def algebra_simps)
  then have vals: "ir_values w' = map (\<lambda>k. base + k * d) (ks @ new)" using ks(1) by (simp add: w')
  have same: "ir_plans w' = ?ps" "ir_table w' = ir_table w" by (simp_all add: w')
  have key: "ir_cursors w' k = (if k = ?key then Some c' else ir_cursors w k)" for k
    using cu by (cases k) (auto simp: w')
  have ok: "cursor_ok ?ps n k x" if "ir_cursors w' k = Some x" for k x
  proof (cases "k = ?key")
    case True
    then have "x = c'" using that key by simp
    then show ?thesis
      using True j s used cu unfolding cursor_ok_def by (intro exI [of _ j] exI [of _ i]) simp
  qed (use that key cursors in simp)
  have old: "drawn n w' k" if dr: "drawn n w k" for k
  proof -
    obtain j' i' x where 1: "j' < length ?ps" "ir_cursors w (fst (?ps ! j'), i', n) = Some x"
      "slot_offset ?ps j' i' \<le> k" "k < slot_offset ?ps j' i' + cu_used x" using dr by (auto simp: drawn_def)
    show ?thesis
    proof (cases "(fst (?ps ! j'), i', n) = ?key")
      case True
      then have "x = c" using 1(2) cu by auto
      then show ?thesis
        using 1 True used(2) unfolding drawn_def same key by (intro exI [of _ j'] exI [of _ i'] exI [of _ c']) auto
    next
      case False
      then show ?thesis
        using 1 False unfolding drawn_def same key by (intro exI [of _ j'] exI [of _ i'] exI [of _ x]) auto
    qed
  qed
  have fresh: "drawn n w' k \<and> k \<notin> set ks" if k: "k \<in> set new" for k
  proof -
    have b: "?lo + cu_used c \<le> k" "k < ?lo + cu_used c'" using k used(2) by (auto simp: new_def)
    have "drawn n w' k"
      using b cu j unfolding drawn_def same key by (intro exI [of _ j] exI [of _ i] exI [of _ c']) auto
    moreover have "\<not> drawn n w k"
    proof
      assume "drawn n w k"
      then obtain j' i' x where 1: "j' < length ?ps" "ir_cursors w (fst (?ps ! j'), i', n) = Some x"
        "slot_offset ?ps j' i' \<le> k" "k < slot_offset ?ps j' i' + cu_used x" by (auto simp: drawn_def)
      obtain j2 i2 where 2: "j2 < length ?ps" "fst (?ps ! j2) = fst (?ps ! j')" "i2 = i'"
        "block_slot (plan_block ?ps j2) i2 (plan_slots ?ps j2) = Inr (cu_block x)" "cu_used x \<le> bl_count (cu_block x)"
        using cursors [OF 1(2)] by (auto simp: cursor_ok_def)
      have "j2 = j'" using plans 1(1) 2(1,2) nth_eq_iff_index_eq [of "map fst ?ps" j2 j'] by (simp add: plans_ok_def)
      then have "j = j' \<and> i = i'"
        using slots_disjoint [OF plans j(1) 1(1), of i s i' "cu_block x" k] j s 1 2 b used(3) cu by auto
      then have "x = c" using 1(2) j cu by auto
      then show False using 1 b(1) \<open>j = j' \<and> i = i'\<close> by simp
    qed
    ultimately show ?thesis using ks(3) by blast
  qed
  have "distinct (ks @ new)" using ks(2) fresh by (auto simp: new_def distinct_map inj_on_def)
  then have "\<exists>ks. ir_values w' = map (\<lambda>k. base + k * d) ks \<and> distinct ks \<and> (\<forall>k\<in>set ks. drawn n w' k)"
    using vals old ks(3) fresh by (intro exI [of _ "ks @ new"]) auto
  then show ?thesis using assms(1) ok unfolding run_ok_def same by blast
qed

lemma identity_step_ok: "identity_step n w w' \<Longrightarrow> run_ok n base d w \<Longrightarrow> run_ok n base d w'"
proof (induction rule: identity_step.induct)
  case (reserve w counts ch blocks now co b plan slots)
  then show ?case using reserve_ok by blast
next
  case (other st w)
  then show ?case by (simp add: run_ok_def drawn_def)
next
  case (use plan b slots w i rows w')
  then show ?case using draw_ok by blast
qed

lemma identity_reached_ok:
  "identity_reached n st w \<Longrightarrow> column_spec (schema_cols st) n = Some s \<Longrightarrow> distinct (map col_name (schema_cols st)) \<Longrightarrow>
     run_ok n (first_free s) (is_step s) w"
  by (induction rule: identity_reached.induct) (use start_ok identity_step_ok in blast)+

section \<open>No value twice\<close>

lemma drawn_interval:
  assumes "run_ok n base d w" "drawn n w k"
  obtains j where "j < length (ir_plans w)" "plan_offset (ir_plans w) j \<le> k"
    "k < plan_offset (ir_plans w) j + bl_count (plan_block (ir_plans w) j)"
proof -
  let ?ps = "ir_plans w"
  have plans: "plans_ok base d ?ps" using assms(1) by (simp add: run_ok_def)
  obtain j i c where 1: "j < length ?ps" "ir_cursors w (fst (?ps ! j), i, n) = Some c"
    "slot_offset ?ps j i \<le> k" "k < slot_offset ?ps j i + cu_used c" using assms(2) by (auto simp: drawn_def)
  have "cursor_ok ?ps n (fst (?ps ! j), i, n) c" using assms(1) 1(2) by (simp add: run_ok_def)
  then obtain j2 where 2: "j2 < length ?ps" "fst (?ps ! j2) = fst (?ps ! j)"
    "block_slot (plan_block ?ps j2) i (plan_slots ?ps j2) = Inr (cu_block c)" "cu_used c \<le> bl_count (cu_block c)"
    by (auto simp: cursor_ok_def)
  have "j2 = j" using plans 1(1) 2(1,2) nth_eq_iff_index_eq [of "map fst ?ps" j2 j] by (simp add: plans_ok_def)
  moreover have "0 \<le> bl_count (plan_block ?ps j)" using plans_ok_counts [OF plans] 1(1) by simp
  ultimately have b: "0 \<le> i * slot_size (plan_block ?ps j) (plan_slots ?ps j)"
    "i * slot_size (plan_block ?ps j) (plan_slots ?ps j) + cu_used c \<le> bl_count (plan_block ?ps j)"
    using block_slotD [of "plan_block ?ps j" i "plan_slots ?ps j" "cu_block c"] 2(3,4) by auto
  show ?thesis
    by (rule that [OF 1(1)]) (use 1(3,4) b in \<open>auto simp: slot_offset_def\<close>)
qed

lemma plan_offset_nonneg: "\<forall>p\<in>set ps. 0 \<le> bl_count (fst (snd p)) \<Longrightarrow> 0 \<le> plan_offset ps j"
  unfolding plan_offset_def by (rule sum_list_nonneg) (auto dest: in_set_takeD)

lemma between_ends:
  assumes "bigint_range a" "bigint_range (a + d * (c - 1))" "0 \<le> k" "k < c"
  shows "bigint_range (a + k * d)"
proof (cases "0 \<le> d")
  case True
  then have "0 \<le> k * d" "k * d \<le> (c - 1) * d" using assms(3,4) by (auto intro: mult_right_mono)
  then show ?thesis using assms(1,2) by (simp add: bigint_range_def algebra_simps)
next
  case False
  then have "k * d \<le> 0" "(c - 1) * d \<le> k * d" using assms(3,4) by (auto intro: mult_right_mono_neg mult_nonneg_nonpos)
  then show ?thesis using assms(1,2) by (simp add: bigint_range_def algebra_simps)
qed

text \<open>C5: however reservations, other commits and the tasks of distributed writes interleave, no two
  rows get one identity value: the values given out are distinct, each is a BIGINT of the
  column's sequence after the mark there was, and the table's mark has moved past it, so every
  later writer starts beyond them.\<close>

theorem identity_values_unique:
  assumes "identity_reached n st w" "column_spec (schema_cols st) n = Some s" "is_step s \<noteq> 0"
    and "distinct (map col_name (schema_cols st))"
  shows "distinct (ir_values w)
    \<and> (\<exists>s'. column_spec (schema_cols (ir_table w)) n = Some s' \<and> is_step s' = is_step s
        \<and> list_all (\<lambda>v. bigint_range v \<and> (v - first_free s) mod is_step s = 0
             \<and> (if 0 < is_step s then first_free s \<le> v \<and> v < first_free s'
                else v \<le> first_free s \<and> first_free s' < v)) (ir_values w))"
proof -
  let ?d = "is_step s" and ?a = "first_free s" and ?ps = "ir_plans w"
  have ok: "run_ok n ?a ?d w" by (rule identity_reached_ok [OF assms(1,2,4)])
  obtain s' ks where s': "column_spec (schema_cols (ir_table w)) n = Some s'" "is_step s' = ?d"
      "first_free s' = ?a + plan_offset ?ps (length ?ps) * ?d"
    and plans: "plans_ok ?a ?d ?ps"
    and ks: "ir_values w = map (\<lambda>k. ?a + k * ?d) ks" "distinct ks" "\<And>k. k \<in> set ks \<Longrightarrow> drawn n w k"
    using ok by (auto simp: run_ok_def)
  have v: "bigint_range (?a + k * ?d) \<and> 0 \<le> k \<and> k < plan_offset ?ps (length ?ps)" if k: "k \<in> set ks" for k
  proof -
    obtain j where j: "j < length ?ps" "plan_offset ?ps j \<le> k" "k < plan_offset ?ps j + bl_count (plan_block ?ps j)"
      using drawn_interval [OF ok ks(3) [OF k]] .
    let ?b = "plan_block ?ps j"
    have b: "bl_first ?b = ?a + plan_offset ?ps j * ?d" "bigint_range (bl_first ?b)"
      "bigint_range (bl_first ?b + ?d * (bl_count ?b - 1))" using plans j(1) by (auto simp: plans_ok_def)
    have "bigint_range (bl_first ?b + (k - plan_offset ?ps j) * ?d)"
      by (rule between_ends [OF b(2,3)]) (use j in auto)
    moreover have "bl_first ?b + (k - plan_offset ?ps j) * ?d = ?a + k * ?d" using b(1) by (simp add: algebra_simps)
    moreover have "0 \<le> k" using plan_offset_nonneg [OF plans_ok_counts [OF plans], of j] j(2) by simp
    moreover have "k < plan_offset ?ps (length ?ps)"
      using plan_offset_mono [OF plans_ok_counts [OF plans] j(1) order.refl] j(3) by simp
    ultimately show ?thesis by simp
  qed
  have "distinct (ir_values w)" using ks(1,2) assms(3) by (simp add: distinct_map inj_on_def)
  moreover have "bigint_range x \<and> (x - ?a) mod ?d = 0
      \<and> (if 0 < ?d then ?a \<le> x \<and> x < first_free s' else x \<le> ?a \<and> first_free s' < x)" if x: "x \<in> set (ir_values w)" for x
  proof -
    obtain k where k: "k \<in> set ks" "x = ?a + k * ?d" using x ks(1) by auto
    note b = v [OF k(1)]
    have "if 0 < ?d then 0 \<le> k * ?d \<and> k * ?d < plan_offset ?ps (length ?ps) * ?d
      else k * ?d \<le> 0 \<and> plan_offset ?ps (length ?ps) * ?d < k * ?d"
      using b assms(3) by (auto simp: mult_nonneg_nonpos intro: mult_strict_right_mono mult_strict_right_mono_neg)
    then show ?thesis using b k(2) s'(3) by (auto split: if_split_asm)
  qed
  ultimately show ?thesis using s'(1,2) by (auto simp: list_all_iff)
qed

definition identity_table :: table_state where
  "identity_table =
     \<lparr>ts_version = 3,
      ts_protocol = \<lparr>pr_reader = 1, pr_writer = 6, pr_reader_features = None, pr_writer_features = None\<rparr>,
      ts_meta = \<lparr>md_schema = [Column ''id'' (Prim ''long'') True
          [(identity_start_key, JInt 0), (identity_step_key, JInt 10), (identity_mark_key, JInt 30)]],
        md_partitions = [], md_configuration = [], md_description = None, md_other = []\<rparr>,
      ts_timestamp = None, ts_clustering = None\<rparr>"

definition reserve_step :: "identity_run \<Rightarrow> (string \<times> int) list \<Rightarrow> string \<Rightarrow> string \<Rightarrow> int \<Rightarrow> int \<Rightarrow> identity_run option" where
  "reserve_step w counts n plan slots now =
     (case reserve_identity (ir_table w) counts of Inl e \<Rightarrow> None
      | Inr (ch, blocks) \<Rightarrow> (case (build_actions (ir_table w) ch now, map_of blocks n) of
          (Inr co, Some b) \<Rightarrow> if plan \<in> fst ` set (ir_plans w) then None
            else Some (w\<lparr>ir_table := committed (ir_table w) co, ir_plans := ir_plans w @ [(plan, b, slots)]\<rparr>)
        | _ \<Rightarrow> None))"

definition use_step :: "identity_run \<Rightarrow> string \<Rightarrow> string \<Rightarrow> int \<Rightarrow> nat \<Rightarrow> identity_run option" where
  "use_step w n plan i rows =
     (case map_of (ir_plans w) plan of None \<Rightarrow> None
      | Some (b, slots) \<Rightarrow> (case draw n plan b slots i rows w of Inl e \<Rightarrow> None | Inr w' \<Rightarrow> Some w'))"

lemma reserve_step_reached:
  "identity_reached n st w \<Longrightarrow> reserve_step w counts n plan slots now = Some w' \<Longrightarrow> identity_reached n st w'"
  by (rule identity_reached.step, assumption)
    (auto simp: reserve_step_def intro: identity_step.reserve split: sum.splits option.splits if_split_asm)

lemma use_step_reached:
  "identity_reached n st w \<Longrightarrow> use_step w n plan i rows = Some w' \<Longrightarrow> identity_reached n st w'"
  by (rule identity_reached.step, assumption)
    (auto simp: use_step_def intro: identity_step.use dest: map_of_SomeD split: sum.splits option.splits)

definition sample_identity_run :: "identity_run option" where
  "sample_identity_run =
     Option.bind (reserve_step \<lparr>ir_table = identity_table, ir_plans = [], ir_cursors = (\<lambda>k. None), ir_values = []\<rparr>
         [(''id'', 4)] ''id'' ''p'' 2 0)
       (\<lambda>w. Option.bind (use_step w ''id'' ''p'' 1 1) (\<lambda>w. Option.bind (use_step w ''id'' ''p'' 0 2)
         (\<lambda>w. use_step w ''id'' ''p'' 1 1)))"

theorem identity_values_unique_witness:
  "\<exists>w. identity_reached ''id'' identity_table w \<and> ir_values w = [60, 40, 50, 70] \<and> distinct (ir_values w)"
proof -
  have "case sample_identity_run of None \<Rightarrow> False | Some w \<Rightarrow> ir_values w = [60, 40, 50, 70]" by code_simp
  then obtain w where w: "sample_identity_run = Some w" "ir_values w = [60, 40, 50, 70]" by (auto split: option.splits)
  let ?w0 = "\<lparr>ir_table = identity_table, ir_plans = [], ir_cursors = (\<lambda>k. None), ir_values = []\<rparr>"
  obtain w1 w2 w3 where steps: "reserve_step ?w0 [(''id'', 4)] ''id'' ''p'' 2 0 = Some w1"
    "use_step w1 ''id'' ''p'' 1 1 = Some w2" "use_step w2 ''id'' ''p'' 0 2 = Some w3" "use_step w3 ''id'' ''p'' 1 1 = Some w"
    using w(1) [unfolded sample_identity_run_def Option.bind_eq_Some_conv] by blast
  have r: "identity_reached ''id'' identity_table w"
    by (rule use_step_reached [OF use_step_reached [OF use_step_reached
          [OF reserve_step_reached [OF identity_reached.start steps(1)] steps(2)] steps(3)] steps(4)])
  have s: "column_spec (schema_cols identity_table) ''id''
      = Some \<lparr>is_name = ''id'', is_start = 0, is_step = 10, is_mark = Some 30, is_explicit = False\<rparr>" by code_simp
  have "distinct (map col_name (schema_cols identity_table))" by code_simp
  then show ?thesis using identity_values_unique [OF r s] r w(2) by auto
qed

end
