(* ===== verification/Py_Datetime.thy ===== *)
theory Py_Datetime
  imports Py_Numbers
begin

text \<open>
  The \<open>datetime\<close> values the sources build, and \<open>fromisoformat\<close> as Python 3.11 reads it.
  A time zone is its offset from UTC in microseconds; \<open>None\<close> is a naive value.
\<close>

section \<open>Dates\<close>

datatype pydate = YMD (d_year: int) (d_month: int) (d_day: int)

definition leap_year :: "int \<Rightarrow> bool" where
  "leap_year y \<longleftrightarrow> y mod 4 = 0 \<and> (y mod 100 \<noteq> 0 \<or> y mod 400 = 0)"

definition days_in_month :: "int \<Rightarrow> int \<Rightarrow> int" where
  "days_in_month y m =
     (if m = 2 then (if leap_year y then 29 else 28)
      else if m \<in> {4, 6, 9, 11} then 30 else 31)"

text \<open>\<open>datetime.date(y, m, d)\<close>: \<open>None\<close> is a \<open>ValueError\<close>.\<close>

definition mk_date :: "int \<Rightarrow> int \<Rightarrow> int \<Rightarrow> pydate option" where
  "mk_date y m d =
     (if 1 \<le> y \<and> y \<le> 9999 \<and> 1 \<le> m \<and> m \<le> 12 \<and> 1 \<le> d \<and> d \<le> days_in_month y m
      then Some (YMD y m d) else None)"

definition days_before_year :: "int \<Rightarrow> int" where
  "days_before_year y = (y - 1) * 365 + (y - 1) div 4 - (y - 1) div 100 + (y - 1) div 400"

definition days_before_month :: "int \<Rightarrow> int \<Rightarrow> int" where
  "days_before_month y m = sum_list (map (\<lambda>k. days_in_month y (int k)) [1..<nat m])"

definition to_ordinal :: "pydate \<Rightarrow> int" where
  "to_ordinal d = days_before_year (d_year d) + days_before_month (d_year d) (d_month d) + d_day d"

text \<open>Dates are compared as (year, month, day) tuples.\<close>

definition date_less :: "pydate \<Rightarrow> pydate \<Rightarrow> bool" where
  "date_less a b \<longleftrightarrow>
     d_year a < d_year b
     \<or> d_year a = d_year b \<and> (d_month a < d_month b \<or> d_month a = d_month b \<and> d_day a < d_day b)"

text \<open>The Gregorian date of an ordinal: the year and month are found by counting up.\<close>

fun find_month :: "int \<Rightarrow> int \<Rightarrow> nat \<Rightarrow> int \<Rightarrow> int \<times> int" where
  "find_month y m 0 r = (m, r)"
| "find_month y m (Suc k) r =
     (if r \<le> days_in_month y m then (m, r) else find_month y (m + 1) k (r - days_in_month y m))"

definition date_of_ordinal :: "int \<Rightarrow> pydate option" where
  "date_of_ordinal n =
     (let guess = (n - 1) * 400 div 146097 + 1;
          y = (if days_before_year (guess + 1) < n then guess + 1
               else if n \<le> days_before_year guess then guess - 1 else guess);
          (m, d) = find_month y 1 11 (n - days_before_year y)
      in mk_date y m d)"

section \<open>ISO weeks\<close>

definition iso_week1_monday :: "int \<Rightarrow> int" where
  "iso_week1_monday y =
     (let first = days_before_year y + 1; weekday = (first + 6) mod 7; monday = first - weekday
      in if 3 < weekday then monday + 7 else monday)"

definition date_of_isoweek :: "int \<Rightarrow> int \<Rightarrow> int \<Rightarrow> pydate option" where
  "date_of_isoweek y w d =
     (let weekday1 = (days_before_year y + 7) mod 7;
          long_year = (weekday1 = 3 \<or> (weekday1 = 2 \<and> leap_year y))
      in if y < 1 \<or> 9999 < y then None
         else if \<not> (1 \<le> w \<and> w \<le> 52 \<or> w = 53 \<and> long_year) then None
         else if \<not> (1 \<le> d \<and> d \<le> 7) then None
         else date_of_ordinal (iso_week1_monday y + (w - 1) * 7 + (d - 1)))"

section \<open>\<open>date.fromisoformat\<close>\<close>

text \<open>\<open>n\<close> digits at position \<open>i\<close>, as a number.\<close>

definition digits_at :: "string \<Rightarrow> nat \<Rightarrow> nat \<Rightarrow> int option" where
  "digits_at s i n =
     (let t = take n (drop i s) in
      if length t = n \<and> list_all ascii_digit t then Some (int (digits_val t)) else None)"

definition char_at :: "string \<Rightarrow> nat \<Rightarrow> string" where
  "char_at s i = take 1 (drop i s)"

definition iso_date_week :: "string \<Rightarrow> nat \<Rightarrow> bool \<Rightarrow> int \<Rightarrow> pydate option" where
  "iso_date_week s pos has_sep y =
     Option.bind (digits_at s (pos + 1) 2) (\<lambda>w.
       if length s \<le> pos + 3 then date_of_isoweek y w 1
       else if (char_at s (pos + 3) = ''-'') \<noteq> has_sep then None
       else let p = pos + 3 + (if has_sep then 1 else 0) in
            if length s \<noteq> p + 1 then None
            else Option.bind (digits_at s p 1) (date_of_isoweek y w))"

definition iso_date_parse :: "string \<Rightarrow> pydate option" where
  "iso_date_parse s =
     Option.bind (digits_at s 0 4) (\<lambda>y.
       let has_sep = (char_at s 4 = ''-''); pos = (if has_sep then 5 else 4) in
       if char_at s pos = ''W'' then iso_date_week s pos has_sep y
       else Option.bind (digits_at s pos 2) (\<lambda>m.
         if (char_at s (pos + 2) = ''-'') \<noteq> has_sep then None
         else let p = pos + 2 + (if has_sep then 1 else 0) in
              if length s \<noteq> p + 2 then None
              else Option.bind (digits_at s p 2) (mk_date y m)))"

definition date_fromisoformat :: "string \<Rightarrow> pydate option" where
  "date_fromisoformat s = (if length s \<in> {7, 8, 10} then iso_date_parse s else None)"

section \<open>Times of day and \<open>datetime.fromisoformat\<close>\<close>

record pydatetime =
  dt_date :: pydate
  dt_micro :: int
  dt_offset :: "int option"

definition micros_per_day :: int where "micros_per_day = 86400000000"

definition fraction_micros :: "string \<Rightarrow> int option" where
  "fraction_micros f =
     (if f = [] \<or> \<not> list_all ascii_digit f then None
      else Some (int (digits_val (take 6 f)) * 10 ^ (6 - min 6 (length f))))"

text \<open>The rest of a time after the hour: minutes, seconds and a fraction, all optional.\<close>

definition time_fraction :: "string \<Rightarrow> int option" where
  "time_fraction s =
     (case s of [] \<Rightarrow> Some 0
      | c # f \<Rightarrow> if c = CHR ''.'' \<or> c = CHR 0x2C then fraction_micros f else None)"

definition time_parts :: "string \<Rightarrow> (int \<times> int \<times> int \<times> int) option" where
  "time_parts s =
     Option.bind (digits_at s 0 2) (\<lambda>hh.
       let sep = (char_at s 2 = '':''); skip = (if sep then 1 else 0) in
       if length s = 2 then Some (hh, 0, 0, 0)
       else Option.bind (digits_at s (2 + skip) 2) (\<lambda>mm.
         let p = 4 + skip in
         if length s = p then Some (hh, mm, 0, 0)
         else if sep \<and> char_at s p \<noteq> '':'' then None
         else Option.bind (digits_at s (p + skip) 2) (\<lambda>ss.
           Option.bind (time_fraction (drop (p + skip + 2) s)) (\<lambda>us. Some (hh, mm, ss, us)))))"

definition time_micros :: "int \<times> int \<times> int \<times> int \<Rightarrow> int" where
  "time_micros t = (case t of (h, m, s, u) \<Rightarrow> ((h * 60 + m) * 60 + s) * 1000000 + u)"

definition time_in_range :: "int \<times> int \<times> int \<times> int \<Rightarrow> bool" where
  "time_in_range t = (case t of (h, m, s, u) \<Rightarrow> h < 24 \<and> m < 60 \<and> s < 60)"

definition zone_offset :: "bool \<Rightarrow> string \<Rightarrow> int option" where
  "zone_offset neg z =
     (if length z \<in> {0, 1, 3} then None
      else Option.bind (time_parts z) (\<lambda>t.
        let off = time_micros t in
        if micros_per_day \<le> off then None else Some (if neg then - off else off)))"

definition zone_mark :: "string \<Rightarrow> char option" where
  "zone_mark t =
     (if CHR ''-'' \<in> set t then Some (CHR ''-'') else if CHR ''+'' \<in> set t then Some (CHR ''+'')
      else if CHR ''Z'' \<in> set t then Some (CHR ''Z'') else None)"

definition iso_time :: "string \<Rightarrow> (int \<times> int option) option" where
  "iso_time t =
     (case zone_mark t of
        None \<Rightarrow> Option.bind (time_parts t) (\<lambda>p.
          if time_in_range p then Some (time_micros p, None) else None)
      | Some mark \<Rightarrow>
          (let (clock, z) = partition_on mark t in
           Option.bind (time_parts clock) (\<lambda>p.
             if \<not> time_in_range p then None
             else if mark = CHR ''Z'' \<and> z = [] then Some (time_micros p, Some 0)
             else if mark = CHR ''Z'' then None
             else Option.bind (zone_offset (mark = CHR ''-'') z) (\<lambda>off. Some (time_micros p, Some off)))))"

definition digit_run_end :: "string \<Rightarrow> nat \<Rightarrow> nat" where
  "digit_run_end s i = i + length (takeWhile ascii_digit (drop i s))"

definition separator_location :: "string \<Rightarrow> nat" where
  "separator_location s =
     (if length s = 7 then 7
      else if char_at s 4 = ''-'' then
        (if char_at s 5 = ''W'' then
           (if 8 < length s \<and> char_at s 8 = ''-'' then
              (if 10 < length s \<and> list_all ascii_digit (char_at s 10) then 8 else 10)
            else 8)
         else 10)
      else if char_at s 4 = ''W'' then
        (let idx = digit_run_end s 7 in
         if idx < 9 then idx else if idx mod 2 = 0 then 7 else 8)
      else 8)"

definition datetime_fromisoformat :: "string \<Rightarrow> pydatetime option" where
  "datetime_fromisoformat s =
     (if length s < 7 then None
      else
        let loc = separator_location s; t = drop (loc + 1) s in
        Option.bind (iso_date_parse (take loc s)) (\<lambda>d.
          if t = [] then Some \<lparr>dt_date = d, dt_micro = 0, dt_offset = None\<rparr>
          else Option.bind (iso_time t) (\<lambda>(us, off).
            Some \<lparr>dt_date = d, dt_micro = us, dt_offset = off\<rparr>)))"

text \<open>
  Comparison: two naive values by their fields, two aware ones by the instant; the mixed
  comparison raises in Python and is not made by the sources.
\<close>

definition dt_local :: "pydatetime \<Rightarrow> int" where
  "dt_local t = to_ordinal (dt_date t) * micros_per_day + dt_micro t"

definition dt_instant :: "pydatetime \<Rightarrow> int" where
  "dt_instant t = dt_local t - (case dt_offset t of None \<Rightarrow> 0 | Some off \<Rightarrow> off)"

definition as_utc :: "pydatetime \<Rightarrow> pydatetime" where
  "as_utc t = (case dt_offset t of None \<Rightarrow> t\<lparr>dt_offset := Some 0\<rparr> | Some _ \<Rightarrow> t)"

definition replace_z :: "string \<Rightarrow> string" where
  "replace_z s = concat (map (\<lambda>c. if c = CHR ''Z'' then ''+00:00'' else [c]) s)"

section \<open>Dates are ordered as their ordinals\<close>

definition valid_date :: "pydate \<Rightarrow> bool" where
  "valid_date d \<longleftrightarrow>
     1 \<le> d_year d \<and> 1 \<le> d_month d \<and> d_month d \<le> 12 \<and> 1 \<le> d_day d
     \<and> d_day d \<le> days_in_month (d_year d) (d_month d)"

lemma days_in_month_pos: "0 \<le> days_in_month y m"
  by (simp add: days_in_month_def)

lemma days_before_month_Suc:
  "1 \<le> m \<Longrightarrow> days_before_month y (m + 1) = days_before_month y m + days_in_month y m"
proof -
  assume "1 \<le> m"
  then have "nat (m + 1) = Suc (nat m)" "1 \<le> nat m" "int (nat m) = m" by linarith+
  then show ?thesis by (simp add: days_before_month_def)
qed

lemma days_before_month_step:
  assumes "1 \<le> m" "m < m'"
  shows "days_before_month y m + days_in_month y m \<le> days_before_month y m'"
proof -
  have "days_before_month y (m + 1) \<le> days_before_month y (m + 1 + int k)" for k
  proof (induction k)
    case (Suc k)
    then show ?case
      using days_before_month_Suc [of "m + 1 + int k" y] assms days_in_month_pos [of y "m + 1 + int k"]
      by (simp add: algebra_simps)
  qed simp
  from this [of "nat (m' - m - 1)"] show ?thesis
    using assms days_before_month_Suc [of m y] by simp
qed

lemma days_before_month_year:
  "days_before_month y 12 + days_in_month y 12 = 365 + (if leap_year y then 1 else 0)"
  by (simp add: days_before_month_def days_in_month_def upt_rec)

lemma div_step: "0 < n \<Longrightarrow> (y::int) div n = (y - 1) div n + (if y mod n = 0 then 1 else 0)"
proof -
  assume n: "0 < n"
  show ?thesis
  proof (cases "y mod n = 0")
    case True
    then obtain k where "y = n * k" by (auto elim: dvdE)
    moreover have "(n * k - 1) div n = k - 1"
      using n by (intro int_div_pos_eq [where r = "n - 1"]) (auto simp: algebra_simps)
    ultimately show ?thesis using n True by simp
  next
    case False
    define q r where "q = y div n" and "r = y mod n"
    have "y - 1 = n * q + (r - 1)" "0 \<le> r - 1" "r - 1 < n"
      using n False by (auto simp: q_def r_def) (smt (verit) pos_mod_bound pos_mod_sign)+
    then have "(y - 1) div n = q"
      by (metis int_div_pos_eq)
    then show ?thesis using False by (simp add: q_def)
  qed
qed

lemma year_arith:
  fixes A B C a b c y :: int
  assumes "A = a + (if p then 1 else 0)" "B = b + (if q then 1 else 0)" "C = c + (if r then 1 else 0)"
    and "r \<Longrightarrow> q" "q \<Longrightarrow> p"
  shows "y * 365 + A - B + C = (y - 1) * 365 + a - b + c + 365 + (if p \<and> (\<not> q \<or> r) then 1 else 0)"
  using assms by (cases p; cases q; cases r) simp_all

lemma days_before_year_Suc:
  "days_before_year (y + 1) = days_before_year y + 365 + (if leap_year y then 1 else 0)"
proof -
  have m: "y mod 400 = 0 \<Longrightarrow> y mod 100 = 0" "y mod 100 = 0 \<Longrightarrow> y mod 4 = 0"
    using mod_mod_cancel [of 100 400 y] mod_mod_cancel [of 4 100 y] by simp_all
  have z: "0 < (4::int)" "0 < (100::int)" "0 < (400::int)" by simp_all
  show ?thesis
    unfolding days_before_year_def leap_year_def add_diff_cancel_right'
      de_Morgan_conj [symmetric] not_not
    by (rule year_arith [OF div_step [OF z(1)] div_step [OF z(2)] div_step [OF z(3)]]) (fact m)+
qed

lemma days_before_year_step:
  assumes "y < y'"
  shows "days_before_year y + 365 + (if leap_year y then 1 else 0) \<le> days_before_year y'"
proof -
  have "days_before_year (y + 1) \<le> days_before_year (y + 1 + int k)" for k
  proof (induction k)
    case (Suc k)
    then show ?case using days_before_year_Suc [of "y + 1 + int k"]
      by (simp add: algebra_simps split: if_splits)
  qed simp
  from this [of "nat (y' - y - 1)"] show ?thesis using assms days_before_year_Suc [of y] by simp
qed

lemma day_of_year_bound:
  assumes "valid_date d"
  shows "0 < days_before_month (d_year d) (d_month d) + d_day d"
    and "days_before_month (d_year d) (d_month d) + d_day d \<le> 365 + (if leap_year (d_year d) then 1 else 0)"
proof -
  have "0 \<le> days_before_month (d_year d) (d_month d)"
    by (auto simp: days_before_month_def days_in_month_pos intro!: sum_list_nonneg)
  then show "0 < days_before_month (d_year d) (d_month d) + d_day d"
    using assms by (simp add: valid_date_def)
  show "days_before_month (d_year d) (d_month d) + d_day d \<le> 365 + (if leap_year (d_year d) then 1 else 0)"
  proof (cases "d_month d = 12")
    case True
    then show ?thesis using assms days_before_month_year [of "d_year d"] by (simp add: valid_date_def)
  next
    case False
    then show ?thesis
      using assms days_before_month_step [of "d_month d" 12 "d_year d"] days_before_month_year [of "d_year d"]
        days_in_month_pos [of "d_year d" 12]
      by (simp add: valid_date_def)
  qed
qed

lemma date_less_ordinal:
  assumes "valid_date a" "valid_date b" "date_less a b"
  shows "to_ordinal a < to_ordinal b"
proof -
  consider (year) "d_year a < d_year b"
    | (month) "d_year a = d_year b" "d_month a < d_month b"
    | (day) "d_year a = d_year b" "d_month a = d_month b" "d_day a < d_day b"
    using assms(3) by (auto simp: date_less_def)
  then show ?thesis
  proof cases
    case year
    then show ?thesis
      using days_before_year_step [OF year] day_of_year_bound [OF assms(1)] day_of_year_bound [OF assms(2)]
      by (simp add: to_ordinal_def)
  next
    case month
    then show ?thesis
      using assms days_before_month_step [of "d_month a" "d_month b" "d_year b"]
      by (simp add: to_ordinal_def valid_date_def)
  qed (simp add: to_ordinal_def)
qed

lemma not_date_less_ordinal:
  assumes "valid_date a" "valid_date b" "\<not> date_less a b"
  shows "to_ordinal b \<le> to_ordinal a"
proof (cases "date_less b a")
  case True
  then show ?thesis using date_less_ordinal [OF assms(2,1)] by simp
next
  case False
  then have "a = b" using assms(3) by (cases a; cases b) (auto simp: date_less_def)
  then show ?thesis by simp
qed

lemma mk_date_valid: "mk_date y m d = Some t \<Longrightarrow> valid_date t"
  by (auto simp: mk_date_def valid_date_def split: if_splits)

lemma iso_date_valid: "iso_date_parse s = Some d \<Longrightarrow> valid_date d"
proof -
  have o: "valid_date d" if "date_of_ordinal n = Some d" for n
    using that by (auto simp: date_of_ordinal_def Let_def mk_date_valid split: prod.splits)
  have w: "valid_date d" if "date_of_isoweek y w k = Some d" for y w k
  proof -
    have "date_of_ordinal (iso_week1_monday y + (w - 1) * 7 + (k - 1)) = Some d"
      using that unfolding date_of_isoweek_def Let_def by (simp only: split: if_split_asm) simp_all
    then show ?thesis by (rule o)
  qed
  assume "iso_date_parse s = Some d"
  then show ?thesis
    unfolding iso_date_parse_def iso_date_week_def Let_def
    by (auto simp: bind_eq_Some_conv mk_date_valid w split: if_split_asm)
qed

lemma date_fromisoformat_valid: "date_fromisoformat s = Some d \<Longrightarrow> valid_date d"
  by (auto simp: date_fromisoformat_def iso_date_valid split: if_splits)

end
