(* ===== verification/Pred_Syntax.thy ===== *)
theory Pred_Syntax
  imports Py_Datetime
begin

text \<open>
  \<open>predicate.py\<close>, first half: the lexer, the recursive-descent parser and the AST of SQL
  predicates.  SQL text is a \<open>string\<close>; the value of a string literal is a list of code
  points (\<open>utext\<close>), since an escape such as a backslash, \<open>u\<close> and four hex digits reaches
  beyond U+00FF.
\<close>

section \<open>The AST\<close>

type_synonym utext = "nat list"

datatype lit_val =
    LNone | LBool bool | LInt int | LDec decimal | LFloat pyfloat | LStr utext
  | LDate pydate | LDateTime pydatetime

datatype operand = Column "string list" | Literal lit_val string

datatype cmp_op = Eq | Ne | Lt | Le | Gt | Ge

datatype node =
    NAnd "node list" | NOr "node list" | NNot node
  | NCmp cmp_op operand operand
  | NEqNullSafe operand operand
  | NIsNull operand | NIsNotNull operand
  | NIn operand "operand list" bool
  | NBetween operand operand operand bool
  | NLike bool operand operand bool
  | NTrue | NFalse
  | NColumn operand

text \<open>
  \<open>PredicateError\<close>, one constructor per raise site, and its \<open>beyond_grammar\<close> flag.
  \<open>OutOfFuel\<close> is the model's own: it stands for no value of the source and never
  occurs (\<open>parse_never_out_of_fuel\<close>).
\<close>

datatype pred_error =
    SemicolonOutside | CannotTokenize nat | EndsUnexpectedly
  | ExpectedSymbol string "string option" | ExpectedKeyword string "string option"
  | UnexpectedTrailing string | LikeNeedsPattern | EscapeNeedsChar | NotBoolean
  | UnexpectedKeyword string | FunctionCall string | BadColumnRef | UnexpectedToken string
  | BadBigint string | BigintRange string | BadTyped string utext | EmptyPredicate
  | NotPlainValue bool | IsExpression | OutOfFuel

fun beyond_grammar :: "pred_error \<Rightarrow> bool" where
  "beyond_grammar (CannotTokenize _) = True"
| "beyond_grammar LikeNeedsPattern = True"
| "beyond_grammar NotBoolean = True"
| "beyond_grammar (UnexpectedKeyword _) = True"
| "beyond_grammar (FunctionCall _) = True"
| "beyond_grammar (NotPlainValue b) = b"
| "beyond_grammar IsExpression = True"
| "beyond_grammar _ = False"

section \<open>The lexer\<close>

datatype tok_kind = KNumber | KString | KDString | KQuoted | KOp | KWord

datatype tok = Tok (tok_kind: tok_kind) (tok_text: string)

abbreviation squote :: char where "squote \<equiv> CHR 0x27"
abbreviation dquote :: char where "dquote \<equiv> CHR 0x22"
abbreviation newline :: char where "newline \<equiv> CHR 0x0A"

definition word_char :: "char \<Rightarrow> bool" where
  "word_char c \<longleftrightarrow> py_isalnum c \<or> c = CHR ''_''"

definition word_start :: "char \<Rightarrow> bool" where
  "word_start c \<longleftrightarrow> word_char c \<and> \<not> ascii_digit c"

type_synonym matched = "(string \<times> string) option"

definition span :: "('a \<Rightarrow> bool) \<Rightarrow> 'a list \<Rightarrow> 'a list \<times> 'a list" where
  "span p s = (takeWhile p s, dropWhile p s)"

definition match_sign :: "string \<Rightarrow> string \<times> string" where
  "match_sign s = (if s \<noteq> [] \<and> (hd s = CHR ''-'' \<or> hd s = CHR ''+'') then ([hd s], tl s) else ([], s))"

text \<open>\<open>\d+\.\d*|\.\d+|\d+\<close>.\<close>

definition match_mantissa :: "string \<Rightarrow> matched" where
  "match_mantissa s =
     (let (ds, r) = span ascii_digit s in
      if ds \<noteq> [] then
        (if r \<noteq> [] \<and> hd r = dot then
           (let (fs, r') = span ascii_digit (tl r) in Some (ds @ dot # fs, r'))
         else Some (ds, r))
      else if r \<noteq> [] \<and> hd r = dot then
        (let (fs, r') = span ascii_digit (tl r) in if fs \<noteq> [] then Some (dot # fs, r') else None)
      else None)"

definition match_exponent :: "string \<Rightarrow> string \<times> string" where
  "match_exponent s =
     (if s \<noteq> [] \<and> exponent_mark (hd s) then
        (let (sg, r) = match_sign (tl s); (ds, r') = span ascii_digit r in
         if ds \<noteq> [] then (hd s # sg @ ds, r') else ([], s))
      else ([], s))"

definition match_suffix :: "string \<Rightarrow> string \<times> string" where
  "match_suffix s = (if s \<noteq> [] \<and> hd s \<in> set ''LlDdFf'' then ([hd s], tl s) else ([], s))"

definition match_number :: "string \<Rightarrow> matched" where
  "match_number s =
     (let (sg, r) = match_sign s in
      case match_mantissa r of
        None \<Rightarrow> None
      | Some (m, r1) \<Rightarrow>
          (let (e, r2) = match_exponent r1; (x, r3) = match_suffix r2 in Some (sg @ m @ e @ x, r3)))"

text \<open>A quoted string after its opening quote: a backslash takes any character but a newline with it.\<close>

fun scan_string :: "char \<Rightarrow> string \<Rightarrow> matched" where
  "scan_string q [] = None"
| "scan_string q (c # cs) =
     (if c = q then Some ([q], cs)
      else if c = backslash then
        (case cs of
           [] \<Rightarrow> None
         | d # ds \<Rightarrow>
             if d = newline then None
             else map_option (\<lambda>(t, r). (c # d # t, r)) (scan_string q ds))
      else map_option (\<lambda>(t, r). (c # t, r)) (scan_string q cs))"

definition match_quote :: "char \<Rightarrow> string \<Rightarrow> matched" where
  "match_quote q s =
     (case s of [] \<Rightarrow> None
      | c # cs \<Rightarrow> if c = q then map_option (\<lambda>(t, r). (c # t, r)) (scan_string q cs) else None)"

text \<open>
  A backquoted name after its opening backtick, at least one item before the closing one.
  A doubled backtick is tried as an item first; when the text then never closes, the
  matcher backs up and closes at its first half.
\<close>

fun scan_quoted :: "bool \<Rightarrow> string \<Rightarrow> matched" where
  "scan_quoted some [] = None"
| "scan_quoted some (c # cs) =
     (if c = bt then
        (case cs of
           d # ds \<Rightarrow>
             if d = bt then
               (case scan_quoted True ds of
                  Some (t, r) \<Rightarrow> Some (bt # bt # t, r)
                | None \<Rightarrow> if some then Some ([bt], cs) else None)
             else if some then Some ([bt], cs) else None
         | [] \<Rightarrow> if some then Some ([bt], []) else None)
      else map_option (\<lambda>(t, r). (c # t, r)) (scan_quoted True cs))"

definition match_quoted :: "string \<Rightarrow> matched" where
  "match_quoted s =
     (case s of [] \<Rightarrow> None
      | c # cs \<Rightarrow> if c = bt then map_option (\<lambda>(t, r). (c # t, r)) (scan_quoted False cs) else None)"

definition op_texts :: "string list" where
  "op_texts = [''<=>'', ''<='', ''>='', ''<>'', ''!='', ''=='', ''='', ''<'', ''>'', ''('', '')'', [CHR 0x2C], ''.'']"

definition match_op :: "string \<Rightarrow> matched" where
  "match_op s =
     (case filter (starts_with s) op_texts of [] \<Rightarrow> None | t # _ \<Rightarrow> Some (t, drop (length t) s))"

definition match_word :: "string \<Rightarrow> matched" where
  "match_word s = (if s \<noteq> [] \<and> word_start (hd s) then Some (span word_char s) else None)"

fun first_match :: "(tok_kind \<times> matched) list \<Rightarrow> (tok \<times> string) option" where
  "first_match [] = None"
| "first_match ((k, m) # ms) =
     (case m of Some (t, r) \<Rightarrow> Some (Tok k t, r) | None \<Rightarrow> first_match ms)"

definition token_at :: "string \<Rightarrow> (tok \<times> string) option" where
  "token_at s =
     first_match
       [(KNumber, match_number s), (KString, match_quote squote s), (KDString, match_quote dquote s),
        (KQuoted, match_quoted s), (KOp, match_op s), (KWord, match_word s)]"

subsection \<open>Every token consumes text\<close>

definition consumes :: "string \<Rightarrow> matched \<Rightarrow> bool" where
  "consumes s m \<longleftrightarrow> (\<forall>t r. m = Some (t, r) \<longrightarrow> t \<noteq> [] \<and> s = t @ r)"

lemma scan_string_text: "scan_string q s = Some (t, r) \<Longrightarrow> s = t @ r"
  by (induction q s arbitrary: t rule: scan_string.induct) (auto split: if_splits list.splits)

lemma scan_quoted_text: "scan_quoted b s = Some (t, r) \<Longrightarrow> s = t @ r"
  by (induction b s arbitrary: t r rule: scan_quoted.induct)
    (auto split: if_splits list.splits option.splits)

lemma match_sign_text: "match_sign s = (t, r) \<Longrightarrow> s = t @ r"
  by (cases s) (auto simp: match_sign_def split: if_splits)

lemma match_exponent_text: "match_exponent s = (t, r) \<Longrightarrow> s = t @ r"
  by (cases s) (auto simp: match_exponent_def span_def Let_def split: prod.splits if_splits
      dest!: match_sign_text)

lemma match_suffix_text: "match_suffix s = (t, r) \<Longrightarrow> s = t @ r"
  by (cases s) (auto simp: match_suffix_def split: if_splits)

lemma span_text: "span p s = (t, r) \<Longrightarrow> s = t @ r"
  by (auto simp: span_def)

lemma match_mantissa_text:
  assumes m: "match_mantissa s = Some (t, r)"
  shows "t \<noteq> [] \<and> s = t @ r"
proof -
  obtain ds u where sp: "span ascii_digit s = (ds, u)" by fastforce
  have "t \<noteq> [] \<and> ds @ u = t @ r"
    using m unfolding match_mantissa_def sp
    by (cases u; cases ds) (auto split: prod.splits if_splits dest!: span_text)
  moreover have "s = ds @ u" by (rule span_text [OF sp])
  ultimately show ?thesis by metis
qed

lemma match_number_consumes: "consumes s (match_number s)"
  by (auto simp: consumes_def match_number_def Let_def split: prod.splits option.splits
      dest!: match_sign_text match_exponent_text match_suffix_text match_mantissa_text)

lemma match_quote_consumes: "consumes s (match_quote q s)"
  by (auto simp: consumes_def match_quote_def split: list.splits if_splits dest!: scan_string_text)

lemma match_quoted_consumes: "consumes s (match_quoted s)"
  by (auto simp: consumes_def match_quoted_def split: list.splits if_splits dest!: scan_quoted_text)

lemma match_op_consumes: "consumes s (match_op s)"
proof -
  have "t \<noteq> [] \<and> s = t @ drop (length t) s" if "filter (starts_with s) op_texts = t # ts" for t ts
  proof -
    have "t \<in> set (filter (starts_with s) op_texts)" using that by simp
    moreover have "[] \<notin> set op_texts" by (simp add: op_texts_def)
    ultimately show ?thesis by (auto simp: starts_with_iff)
  qed
  then show ?thesis by (fastforce simp: consumes_def match_op_def split: list.splits)
qed

lemma match_word_consumes: "consumes s (match_word s)"
  by (cases s) (auto simp: consumes_def match_word_def span_def word_start_def)

lemma first_match_consumes:
  "\<forall>m\<in>set ms. consumes s (snd m) \<Longrightarrow> first_match ms = Some (t, r) \<Longrightarrow> tok_text t \<noteq> [] \<and> s = tok_text t @ r"
  by (induction ms) (auto simp: consumes_def split: option.splits)

lemma token_at_consumes:
  assumes "token_at s = Some (t, r)"
  shows "tok_text t \<noteq> [] \<and> s = tok_text t @ r"
  by (rule first_match_consumes [OF _ assms [unfolded token_at_def]])
    (simp add: match_number_consumes match_quote_consumes match_quoted_consumes
      match_op_consumes match_word_consumes)

subsection \<open>Tokenizing\<close>

definition next_token :: "string \<Rightarrow> (tok \<times> string) option" where
  "next_token s = token_at (dropWhile py_isspace s)"

lemma next_token_shorter [termination_simp]: "next_token s = Some (t, r) \<Longrightarrow> length r < length s"
proof -
  assume "next_token s = Some (t, r)"
  then have "tok_text t \<noteq> []" "dropWhile py_isspace s = tok_text t @ r"
    unfolding next_token_def using token_at_consumes by blast+
  then have "length r < length (dropWhile py_isspace s)" by (cases "tok_text t") auto
  also have "\<dots> \<le> length s" by (rule length_dropWhile_le)
  finally show ?thesis .
qed

fun tokenize_from :: "nat \<Rightarrow> string \<Rightarrow> pred_error + tok list" where
  "tokenize_from pos s =
     (if s = [] then Inr []
      else case next_token s of
        None \<Rightarrow> Inl (if hd s = CHR 0x3B then SemicolonOutside else CannotTokenize pos)
      | Some (t, r) \<Rightarrow>
          bind_result (tokenize_from (pos + (length s - length r)) r) (\<lambda>ts. Inr (t # ts)))"

declare tokenize_from.simps [simp del]

definition tokenize :: "string \<Rightarrow> pred_error + tok list" where
  "tokenize t = tokenize_from 0 (rstrip_by py_isspace t)"

end
