(* ===== verification/Pred_Parse.thy ===== *)
theory Pred_Parse
  imports Pred_Syntax
begin

text \<open>
  \<open>predicate.py\<close>: the recursive-descent parser \<open>_Parser\<close>.  Its cursor is the list of
  the tokens not read yet, so \<open>self.i += 1\<close> is \<open>tl\<close> and \<open>peek(k)\<close> looks at
  \<open>drop k\<close>.  \<open>value_p\<close> recurses on that list; the boolean grammar recurses on a fuel that
  \<open>parse\<close> sets high enough (\<open>parse_never_out_of_fuel\<close>).  Python's own stack limit
  (the \<open>RecursionError\<close> branch of \<open>parse\<close>) is not modelled.
\<close>

section \<open>Literals\<close>

definition hex_digit :: "char \<Rightarrow> bool" where
  "hex_digit c \<longleftrightarrow> ascii_digit c \<or> (97 \<le> code c \<and> code c \<le> 102) \<or> (65 \<le> code c \<and> code c \<le> 70)"

definition hex_val :: "char \<Rightarrow> nat" where
  "hex_val c = (if ascii_digit c then code c - 48 else if 97 \<le> code c then code c - 87 else code c - 55)"

definition octal_escape :: "string \<Rightarrow> bool" where
  "octal_escape s \<longleftrightarrow>
     length s = 3 \<and> hd s \<in> set ''0123'' \<and> list_all (\<lambda>c. c \<in> set ''01234567'') s"

definition octal_val :: "string \<Rightarrow> nat" where
  "octal_val s = foldl (\<lambda>n c. 8 * n + digit_val c) 0 s"

definition hex4 :: "string \<Rightarrow> bool" where
  "hex4 s \<longleftrightarrow> length s = 4 \<and> list_all hex_digit s"

definition hex4_val :: "string \<Rightarrow> nat" where
  "hex4_val s = foldl (\<lambda>n c. 16 * n + hex_val c) 0 s"

definition spark_escape :: "char \<Rightarrow> utext" where
  "spark_escape c =
     (if c = CHR ''b'' then [8] else if c = CHR ''n'' then [10] else if c = CHR ''r'' then [13]
      else if c = CHR ''t'' then [9] else if c = CHR ''Z'' then [26] else if c = CHR ''0'' then [0]
      else if c = CHR 0x25 then [92, 37] else if c = CHR ''_'' then [92, 95]
      else [code c])"

fun unescape_body :: "string \<Rightarrow> utext" where
  "unescape_body [] = []"
| "unescape_body [c] = [code c]"
| "unescape_body (c # nxt # rest) =
     (if c \<noteq> backslash then code c # unescape_body (nxt # rest)
      else if octal_escape (take 3 (nxt # rest))
      then octal_val (take 3 (nxt # rest)) # unescape_body (drop 2 rest)
      else if nxt = CHR ''u'' \<and> hex4 (take 4 rest)
      then hex4_val (take 4 rest) # unescape_body (drop 4 rest)
      else spark_escape nxt @ unescape_body rest)"

definition unescape :: "string \<Rightarrow> utext" where
  "unescape token = unescape_body (inner_text token)"

text \<open>\<open>_backslash_escaped\<close>, on code points (92 is the backslash).\<close>

fun escape_loop :: "nat \<Rightarrow> utext \<Rightarrow> utext" where
  "escape_loop esc [] = []"
| "escape_loop esc [c] = (if c = 92 then [92, 92] else [c])"
| "escape_loop esc (c # d # rest) =
     (if c = esc then 92 # d # escape_loop esc rest
      else (if c = 92 then [92, 92] else [c]) @ escape_loop esc (d # rest))"

definition backslash_escaped :: "utext \<Rightarrow> nat \<Rightarrow> utext" where
  "backslash_escaped pattern esc = (if esc = 92 then pattern else escape_loop esc pattern)"

definition has_point_or_exp :: "string \<Rightarrow> bool" where
  "has_point_or_exp s \<longleftrightarrow> list_ex (\<lambda>c. c = dot \<or> exponent_mark c) s"

definition number :: "string \<Rightarrow> pred_error + operand" where
  "number t =
     (let suffix = (if t \<noteq> [] \<and> latin1_alpha (last t) \<and> \<not> exponent_mark (last t)
                    then py_upper [last t] else []);
          body = (if suffix \<noteq> [] then butlast t else t)
      in if suffix = ''L'' then
           (if has_point_or_exp body then Inl (BadBigint t)
            else let v = int_of_text body in
              if long_min \<le> v \<and> v \<le> long_max then Inr (Literal (LInt v) ''long'')
              else Inl (BigintRange t))
         else if suffix = ''D'' \<or> suffix = ''F'' \<or> has_point_or_exp body then
           (if suffix = [] \<and> dot \<in> set body \<and> \<not> list_ex exponent_mark body
            then Inr (Literal (LDec (decimal_of_text body)) ''decimal'')
            else Inr (Literal (LFloat (float_of_text body)) ''double''))
         else let v = int_of_text body in
           if long_min \<le> v \<and> v \<le> long_max then Inr (Literal (LInt v) ''long'')
           else Inr (Literal (LDec (decimal_of_text body)) ''decimal''))"

subsection \<open>Typed literals\<close>

text \<open>The \<open>Z\<close>, \<open>UTC\<close> and \<open>GMT\<close> endings, with the space before them.\<close>

definition utc_suffix :: "string \<Rightarrow> string option" where
  "utc_suffix t =
     (let drop_end = (\<lambda>n. rstrip_by py_isspace (take (length t - n) t));
          end3 = drop (length t - 3) t
      in if t \<noteq> [] \<and> last t \<in> set ''Zz'' then Some (drop_end 1)
         else if end3 \<in> set [''UTC'', ''utc'', ''GMT'', ''gmt''] then Some (drop_end 3)
         else None)"

definition parse_datetime :: "string \<Rightarrow> pydatetime option" where
  "parse_datetime rw =
     (let t = py_strip rw in
      datetime_fromisoformat (case utc_suffix t of Some u \<Rightarrow> u @ ''+00:00'' | None \<Rightarrow> t))"

definition digit_run :: "string \<Rightarrow> nat \<Rightarrow> nat \<Rightarrow> bool" where
  "digit_run s lo hi \<longleftrightarrow> lo \<le> length s \<and> length s \<le> hi \<and> list_all ascii_digit s"

text \<open>Spark's unpadded date, four digits, one or two, one or two.\<close>

definition unpadded_date :: "string \<Rightarrow> pydate option" where
  "unpadded_date t =
     (case split_on (CHR ''-'') t of
        [y, m, d] \<Rightarrow>
          if digit_run y 4 4 \<and> digit_run m 1 2 \<and> digit_run d 1 2
          then mk_date (int (digits_val y)) (int (digits_val m)) (int (digits_val d)) else None
      | _ \<Rightarrow> None)"

definition parse_date :: "string \<Rightarrow> pydate option" where
  "parse_date rw =
     (let t = py_strip rw in
      case date_fromisoformat t of Some d \<Rightarrow> Some d | None \<Rightarrow> unpadded_date t)"

text \<open>A literal's text as a \<open>string\<close>; none of the formats above holds a code point past U+00FF.\<close>

definition latin1_text :: "utext \<Rightarrow> string option" where
  "latin1_text u = (if list_all (\<lambda>n. n < 256) u then Some (map char_of u) else None)"

definition typed :: "string \<Rightarrow> utext \<Rightarrow> pred_error + operand" where
  "typed knd rw =
     (let bad = Inl (BadTyped knd rw) in
      if knd = ''DATE'' then
        (case Option.bind (latin1_text rw) parse_date of
           Some d \<Rightarrow> Inr (Literal (LDate d) ''date'') | None \<Rightarrow> bad)
      else
        (case Option.bind (latin1_text rw) parse_datetime of
           None \<Rightarrow> bad
         | Some t \<Rightarrow>
             if knd = ''TIMESTAMP_NTZ''
             then Inr (Literal (LDateTime (t\<lparr>dt_offset := None\<rparr>)) ''timestamp_ntz'')
             else Inr (Literal (LDateTime (as_utc t)) ''timestamp'')))"

section \<open>Looking at the next tokens\<close>

type_synonym 'a parsed = "pred_error + ('a \<times> tok list)"

definition reserved_words :: "string list" where
  "reserved_words = [''AND'', ''OR'', ''NOT'', ''IS'', ''NULL'', ''IN'', ''BETWEEN'', ''LIKE'', ''ILIKE'',
     ''TRUE'', ''FALSE'']"

definition typed_literals :: "string list" where
  "typed_literals = [''DATE'', ''TIMESTAMP'', ''TIMESTAMP_NTZ'', ''TIMESTAMP_LTZ'']"

fun is_keyword :: "string \<Rightarrow> tok list \<Rightarrow> bool" where
  "is_keyword w (Tok k t # ts) \<longleftrightarrow> k = KWord \<and> py_upper t = w"
| "is_keyword w [] \<longleftrightarrow> False"

fun is_symbol :: "string \<Rightarrow> tok list \<Rightarrow> bool" where
  "is_symbol s (Tok k t # ts) \<longleftrightarrow> k = KOp \<and> t = s"
| "is_symbol s [] \<longleftrightarrow> False"

fun is_string_tok :: "tok list \<Rightarrow> bool" where
  "is_string_tok (Tok k t # ts) \<longleftrightarrow> k = KString \<or> k = KDString"
| "is_string_tok [] \<longleftrightarrow> False"

fun got :: "tok list \<Rightarrow> string option" where
  "got [] = None"
| "got (Tok k t # ts) = Some t"

definition expect_symbol :: "string \<Rightarrow> tok list \<Rightarrow> pred_error + tok list" where
  "expect_symbol s ts = (if is_symbol s ts then Inr (tl ts) else Inl (ExpectedSymbol s (got ts)))"

definition expect_keyword :: "string \<Rightarrow> tok list \<Rightarrow> pred_error + tok list" where
  "expect_keyword w ts = (if is_keyword w ts then Inr (tl ts) else Inl (ExpectedKeyword w (got ts)))"

fun comparison_of :: "string \<Rightarrow> (operand \<Rightarrow> operand \<Rightarrow> node) option" where
  "comparison_of t =
     (if t = ''='' \<or> t = ''=='' then Some (NCmp Eq)
      else if t = ''!='' \<or> t = ''<>'' then Some (NCmp Ne)
      else if t = ''<'' then Some (NCmp Lt) else if t = ''<='' then Some (NCmp Le)
      else if t = ''>'' then Some (NCmp Gt) else if t = ''>='' then Some (NCmp Ge)
      else if t = ''<=>'' then Some NEqNullSafe else None)"

declare comparison_of.simps [simp del]

fun comparison_tok :: "tok list \<Rightarrow> (operand \<Rightarrow> operand \<Rightarrow> node) option" where
  "comparison_tok (Tok k t # ts) = (if k = KOp then comparison_of t else None)"
| "comparison_tok [] = None"

section \<open>Values\<close>

fun ident :: "tok_kind \<Rightarrow> string \<Rightarrow> string" where
  "ident k t = (if k = KQuoted then undouble bt (inner_text t) else t)"

fun path_rest :: "string list \<Rightarrow> tok list \<Rightarrow> operand parsed" where
  "path_rest path (Tok k t # ts) =
     (if k = KOp \<and> t = ''.'' then
        (case ts of
           [] \<Rightarrow> Inl EndsUnexpectedly
         | Tok k' t' # ts' \<Rightarrow>
             if k' = KWord \<or> k' = KQuoted then path_rest (path @ [ident k' t']) ts'
             else Inl BadColumnRef)
      else Inr (Column path, Tok k t # ts))"
| "path_rest path [] = Inr (Column path, [])"

fun string_run :: "utext \<Rightarrow> tok list \<Rightarrow> operand \<times> tok list" where
  "string_run acc (Tok k t # ts) =
     (if k = KString \<or> k = KDString then string_run (acc @ unescape t) ts
      else (Literal (LStr acc) ''string'', Tok k t # ts))"
| "string_run acc [] = (Literal (LStr acc) ''string'', [])"

definition name_value :: "tok_kind \<Rightarrow> string \<Rightarrow> tok list \<Rightarrow> operand parsed" where
  "name_value k t ts =
     (let upper = (if k = KWord then py_upper t else []) in
      if upper = ''TRUE'' \<or> upper = ''FALSE'' then Inr (Literal (LBool (upper = ''TRUE'')) ''boolean'', ts)
      else if upper = ''NULL'' then Inr (Literal LNone ''null'', ts)
      else if upper \<in> set typed_literals \<and> is_string_tok ts then
        bind_result (typed upper (unescape (tok_text (hd ts)))) (\<lambda>v. Inr (v, tl ts))
      else if k = KWord \<and> upper \<in> set reserved_words then Inl (UnexpectedKeyword t)
      else if is_symbol ''('' ts then Inl (FunctionCall t)
      else path_rest [ident k t] ts)"

fun value_p :: "tok list \<Rightarrow> operand parsed" where
  "value_p [] = Inl EndsUnexpectedly"
| "value_p (Tok k t # ts) =
     (if k = KNumber then bind_result (number t) (\<lambda>v. Inr (v, ts))
      else if k = KString \<or> k = KDString then Inr (string_run (unescape t) ts)
      else if k = KOp \<and> t = ''('' then
        bind_result (value_p ts) (\<lambda>(inner, ts1).
          bind_result (expect_symbol '')'' ts1) (\<lambda>ts2. Inr (inner, ts2)))
      else if k = KWord \<or> k = KQuoted then name_value k t ts
      else Inl (UnexpectedToken t))"

lemma expect_symbol_shorter: "expect_symbol s ts = Inr ts' \<Longrightarrow> length ts' < length ts"
  by (cases ts) (auto simp: expect_symbol_def split: if_splits)

lemma expect_keyword_shorter: "expect_keyword w ts = Inr ts' \<Longrightarrow> length ts' < length ts"
  by (cases ts) (auto simp: expect_keyword_def split: if_splits)

lemma path_rest_shorter: "path_rest p ts = Inr (x, ts') \<Longrightarrow> length ts' \<le> length ts"
  by (induction p ts rule: path_rest.induct) (auto split: if_splits list.splits tok.splits)

lemma string_run_shorter: "string_run a ts = (x, ts') \<Longrightarrow> length ts' \<le> length ts"
  by (induction a ts rule: string_run.induct) (auto split: if_splits)

lemma name_value_shorter: "name_value k t ts = Inr (x, ts') \<Longrightarrow> length ts' \<le> length ts"
  by (cases ts) (auto simp: name_value_def Let_def split: if_splits
      elim!: bind_result_InrE dest!: path_rest_shorter)

lemma value_shorter: "value_p ts = Inr (x, ts') \<Longrightarrow> length ts' < length ts"
proof (induction ts arbitrary: x ts' rule: value_p.induct)
  case (2 k t ts)
  then show ?case
    by (fastforce split: if_splits prod.splits elim!: bind_result_InrE
        dest: name_value_shorter string_run_shorter expect_symbol_shorter)
qed simp

section \<open>The boolean grammar\<close>

fun flatten_or :: "node list \<Rightarrow> node list" where
  "flatten_or [] = []"
| "flatten_or (NOr qs # ps) = qs @ flatten_or ps"
| "flatten_or (p # ps) = p # flatten_or ps"

fun flatten_and :: "node list \<Rightarrow> node list" where
  "flatten_and [] = []"
| "flatten_and (NAnd qs # ps) = qs @ flatten_and ps"
| "flatten_and (p # ps) = p # flatten_and ps"

definition mk_or :: "node list \<Rightarrow> node" where
  "mk_or parts = (case parts of [p] \<Rightarrow> p | _ \<Rightarrow> NOr (flatten_or parts))"

definition mk_and :: "node list \<Rightarrow> node" where
  "mk_and parts = (case parts of [p] \<Rightarrow> p | _ \<Rightarrow> NAnd (flatten_and parts))"

text \<open>\<open>IS [NOT] NULL\<close>, \<open>IS [NOT] TRUE/FALSE\<close>, \<open>IS [NOT] DISTINCT FROM\<close>, after \<open>IS\<close>.\<close>

definition is_tail :: "operand \<Rightarrow> tok list \<Rightarrow> node parsed" where
  "is_tail left ts =
     (let negated = is_keyword ''NOT'' ts; ts1 = (if negated then tl ts else ts) in
      if is_keyword ''DISTINCT'' ts1 then
        bind_result (expect_keyword ''FROM'' (tl ts1)) (\<lambda>ts2.
          bind_result (value_p ts2) (\<lambda>(v, ts3).
            let same = NEqNullSafe left v in Inr (if negated then same else NNot same, ts3)))
      else if is_keyword ''TRUE'' ts1 \<or> is_keyword ''FALSE'' ts1 then
        (let same = NEqNullSafe left (Literal (LBool (is_keyword ''TRUE'' ts1)) ''boolean'')
         in Inr (if negated then NNot same else same, tl ts1))
      else
        bind_result (expect_keyword ''NULL'' ts1) (\<lambda>ts2.
          Inr (if negated then NIsNotNull left else NIsNull left, ts2)))"

function in_items :: "operand list \<Rightarrow> tok list \<Rightarrow> operand list parsed" where
  "in_items items ts =
     (if is_symbol [CHR 0x2C] ts then
        (case value_p (tl ts) of Inl e \<Rightarrow> Inl e | Inr (v, ts1) \<Rightarrow> in_items (items @ [v]) ts1)
      else Inr (items, ts))"
  by pat_completeness auto
termination
proof (relation "measure (\<lambda>(items, ts). length ts)", goal_cases)
  case (2 items ts p v ts1)
  then show ?case using value_shorter [of "tl ts" v ts1] by (cases ts) auto
qed simp

declare in_items.simps [simp del]

fun is_double :: "operand \<Rightarrow> bool" where
  "is_double (Literal v ty) \<longleftrightarrow> ty = ''double''"
| "is_double (Column p) \<longleftrightarrow> False"

fun item_as_double :: "operand \<Rightarrow> operand" where
  "item_as_double (Literal v ty) =
     (if ty = ''long'' \<or> ty = ''decimal'' then
        (case v of
           LInt i \<Rightarrow> Literal (LFloat (float_of_int i)) ''double''
         | LDec d \<Rightarrow> Literal (LFloat (float_of_decimal d)) ''double''
         | _ \<Rightarrow> Literal v ty)
      else Literal v ty)"
| "item_as_double (Column p) = Column p"

definition in_tail :: "operand \<Rightarrow> bool \<Rightarrow> tok list \<Rightarrow> node parsed" where
  "in_tail left negated ts =
     bind_result (expect_symbol ''('' ts) (\<lambda>ts1.
       bind_result (value_p ts1) (\<lambda>(v, ts2).
         bind_result (in_items [v] ts2) (\<lambda>(items, ts3).
           bind_result (expect_symbol '')'' ts3) (\<lambda>ts4.
             let items' = (if list_ex is_double items then map item_as_double items else items)
             in Inr (NIn left items' negated, ts4)))))"

definition between_tail :: "operand \<Rightarrow> bool \<Rightarrow> tok list \<Rightarrow> node parsed" where
  "between_tail left negated ts =
     bind_result (value_p ts) (\<lambda>(low, ts1).
       bind_result (expect_keyword ''AND'' ts1) (\<lambda>ts2.
         bind_result (value_p ts2) (\<lambda>(high, ts3). Inr (NBetween left low high negated, ts3))))"

definition like_tail :: "operand \<Rightarrow> bool \<Rightarrow> bool \<Rightarrow> tok list \<Rightarrow> node parsed" where
  "like_tail left ilike negated ts =
     bind_result (value_p ts) (\<lambda>(pattern, ts1).
       case pattern of
         Literal (LStr pat) ty \<Rightarrow>
           (if is_keyword ''ESCAPE'' ts1 then
              bind_result (value_p (tl ts1)) (\<lambda>(esc, ts2).
                case esc of
                  Literal (LStr [e]) _ \<Rightarrow>
                    Inr (NLike ilike left (Literal (LStr (backslash_escaped pat e)) ''string'') negated, ts2)
                | _ \<Rightarrow> Inl EscapeNeedsChar)
            else Inr (NLike ilike left pattern negated, ts1))
       | _ \<Rightarrow> Inl LikeNeedsPattern)"

definition negatable :: "tok list \<Rightarrow> bool" where
  "negatable ts \<longleftrightarrow>
     is_keyword ''IN'' ts \<or> is_keyword ''BETWEEN'' ts \<or> is_keyword ''LIKE'' ts \<or> is_keyword ''ILIKE'' ts"

definition bare_node :: "operand \<Rightarrow> pred_error + node" where
  "bare_node left =
     (case left of
        Column p \<Rightarrow> Inr (NColumn left)
      | Literal (LBool b) ty \<Rightarrow> Inr (if b then NTrue else NFalse)
      | _ \<Rightarrow> Inl NotBoolean)"

text \<open>The rest of a predicate after its left operand.\<close>

definition predicate_tail :: "operand \<Rightarrow> tok list \<Rightarrow> node parsed" where
  "predicate_tail left ts0 =
     (if is_keyword ''IS'' ts0 then is_tail left (tl ts0)
      else
        let negated = (is_keyword ''NOT'' ts0 \<and> negatable (drop 1 ts0));
            ts = (if negated then tl ts0 else ts0)
        in if is_keyword ''IN'' ts then in_tail left negated (tl ts)
           else if is_keyword ''BETWEEN'' ts then between_tail left negated (tl ts)
           else if is_keyword ''LIKE'' ts \<or> is_keyword ''ILIKE'' ts
           then like_tail left (is_keyword ''ILIKE'' ts) negated (tl ts)
           else case comparison_tok ts of
             Some mk \<Rightarrow> bind_result (value_p (tl ts)) (\<lambda>(right, ts1). Inr (mk left right, ts1))
           | None \<Rightarrow> bind_result (bare_node left) (\<lambda>n. Inr (n, ts)))"

text \<open>\<open>_matching_paren\<close>: how far the closing parenthesis is; the end of the tokens if there is none.\<close>

fun matching_from :: "int \<Rightarrow> nat \<Rightarrow> tok list \<Rightarrow> nat" where
  "matching_from depth j [] = j"
| "matching_from depth j (Tok k t # ts) =
     (if k = KOp \<and> t = ''('' then matching_from (depth + 1) (j + 1) ts
      else if k = KOp \<and> t = '')'' then
        (if depth - 1 = 0 then j else matching_from (depth - 1) (j + 1) ts)
      else matching_from depth (j + 1) ts)"

definition matching_paren :: "tok list \<Rightarrow> nat" where
  "matching_paren ts = matching_from 0 0 ts"

definition continues_comparison :: "tok list \<Rightarrow> bool" where
  "continues_comparison ts \<longleftrightarrow>
     ts \<noteq> [] \<and>
     (comparison_tok ts \<noteq> None \<or> is_keyword ''IS'' ts \<or> negatable ts
      \<or> (is_keyword ''NOT'' ts \<and> negatable (drop 1 ts)))"

function (sequential) or_expr :: "nat \<Rightarrow> tok list \<Rightarrow> node parsed"
  and or_rest :: "nat \<Rightarrow> node list \<Rightarrow> tok list \<Rightarrow> node parsed"
  and and_expr :: "nat \<Rightarrow> tok list \<Rightarrow> node parsed"
  and and_rest :: "nat \<Rightarrow> node list \<Rightarrow> tok list \<Rightarrow> node parsed"
  and not_expr :: "nat \<Rightarrow> tok list \<Rightarrow> node parsed"
  and predicate :: "nat \<Rightarrow> tok list \<Rightarrow> node parsed"
where
  "or_expr 0 ts = Inl OutOfFuel"
| "or_expr (Suc n) ts = bind_result (and_expr n ts) (\<lambda>(p, ts1). or_rest n [p] ts1)"
| "or_rest 0 parts ts = Inl OutOfFuel"
| "or_rest (Suc n) parts ts =
     (if is_keyword ''OR'' ts
      then bind_result (and_expr n (tl ts)) (\<lambda>(p, ts1). or_rest n (parts @ [p]) ts1)
      else Inr (mk_or parts, ts))"
| "and_expr 0 ts = Inl OutOfFuel"
| "and_expr (Suc n) ts = bind_result (not_expr n ts) (\<lambda>(p, ts1). and_rest n [p] ts1)"
| "and_rest 0 parts ts = Inl OutOfFuel"
| "and_rest (Suc n) parts ts =
     (if is_keyword ''AND'' ts
      then bind_result (not_expr n (tl ts)) (\<lambda>(p, ts1). and_rest n (parts @ [p]) ts1)
      else Inr (mk_and parts, ts))"
| "not_expr 0 ts = Inl OutOfFuel"
| "not_expr (Suc n) ts =
     (if is_keyword ''NOT'' ts
      then bind_result (not_expr n (tl ts)) (\<lambda>(p, ts1). Inr (NNot p, ts1))
      else predicate n ts)"
| "predicate 0 ts = Inl OutOfFuel"
| "predicate (Suc n) ts =
     (if is_symbol ''('' ts \<and> \<not> continues_comparison (drop (matching_paren ts + 1) ts)
      then bind_result (or_expr n (tl ts)) (\<lambda>(inner, ts1).
        bind_result (expect_symbol '')'' ts1) (\<lambda>ts2. Inr (inner, ts2)))
      else bind_result (value_p ts) (\<lambda>(left, ts1). predicate_tail left ts1))"
  by pat_completeness auto
termination
  by (relation "measure (case_sum
        (case_sum (\<lambda>(n, ts). n) (case_sum (\<lambda>(n, ps, ts). n) (\<lambda>(n, ts). n)))
        (case_sum (\<lambda>(n, ps, ts). n) (case_sum (\<lambda>(n, ts). n) (\<lambda>(n, ts). n))))") simp_all

definition parse_fuel :: "tok list \<Rightarrow> nat" where
  "parse_fuel ts = 8 * (length ts + 1)"

definition parse_tokens :: "tok list \<Rightarrow> pred_error + node" where
  "parse_tokens ts =
     bind_result (or_expr (parse_fuel ts) ts) (\<lambda>(n, rest).
       case got rest of None \<Rightarrow> Inr n | Some t \<Rightarrow> Inl (UnexpectedTrailing t))"

definition parse :: "string \<Rightarrow> pred_error + node" where
  "parse t =
     (if py_strip t = [] then Inl EmptyPredicate
      else bind_result (tokenize t) parse_tokens)"

definition parse_value :: "string \<Rightarrow> pred_error + operand" where
  "parse_value t =
     (if py_strip t = [] then Inl EmptyPredicate
      else case bind_result (tokenize t) value_p of
        Inl e \<Rightarrow> Inl (NotPlainValue (beyond_grammar e))
      | Inr (v, rest) \<Rightarrow> if rest \<noteq> [] then Inl IsExpression else Inr v)"

fun operand_columns :: "operand \<Rightarrow> string list set" where
  "operand_columns (Column p) = {p}"
| "operand_columns (Literal v ty) = {}"

fun columns_of :: "node \<Rightarrow> string list set" where
  "columns_of (NAnd ps) = (\<Union>p\<in>set ps. columns_of p)"
| "columns_of (NOr ps) = (\<Union>p\<in>set ps. columns_of p)"
| "columns_of (NNot p) = columns_of p"
| "columns_of (NCmp op a b) = operand_columns a \<union> operand_columns b"
| "columns_of (NEqNullSafe a b) = operand_columns a \<union> operand_columns b"
| "columns_of (NIsNull a) = operand_columns a"
| "columns_of (NIsNotNull a) = operand_columns a"
| "columns_of (NIn a items neg) = operand_columns a \<union> (\<Union>i\<in>set items. operand_columns i)"
| "columns_of (NBetween a lo hi neg) = operand_columns a \<union> operand_columns lo \<union> operand_columns hi"
| "columns_of (NLike il a b neg) = operand_columns a \<union> operand_columns b"
| "columns_of NTrue = {}"
| "columns_of NFalse = {}"
| "columns_of (NColumn a) = operand_columns a"

section \<open>Lemmas: every rule consumes tokens\<close>

lemma is_keyword_shorter: "is_keyword w ts \<Longrightarrow> length (tl ts) < length ts"
  by (cases ts) auto

lemma is_symbol_shorter: "is_symbol s ts \<Longrightarrow> length (tl ts) < length ts"
  by (cases ts) auto

lemma comparison_tok_shorter: "comparison_tok ts = Some mk \<Longrightarrow> length (tl ts) < length ts"
  by (cases ts) auto

lemma in_items_shorter: "in_items items ts = Inr (x, ts') \<Longrightarrow> length ts' \<le> length ts"
proof (induction items ts arbitrary: x ts' rule: in_items.induct)
  case (1 items ts)
  then show ?case
    by (fastforce simp: in_items.simps [of items ts] split: if_splits sum.splits prod.splits
        dest: value_shorter is_symbol_shorter)
qed

lemmas shorter = value_shorter in_items_shorter expect_symbol_shorter expect_keyword_shorter
  is_keyword_shorter is_symbol_shorter comparison_tok_shorter

lemma is_tail_shorter: "is_tail l ts = Inr (x, r) \<Longrightarrow> length r \<le> length ts"
  by (cases ts) (fastforce simp: is_tail_def Let_def split: if_splits elim!: bind_result_InrE dest: shorter)+

lemma in_tail_shorter: "in_tail l neg ts = Inr (x, r) \<Longrightarrow> length r \<le> length ts"
  by (fastforce simp: in_tail_def Let_def split: if_splits elim!: bind_result_InrE dest: shorter)

lemma between_tail_shorter: "between_tail l neg ts = Inr (x, r) \<Longrightarrow> length r \<le> length ts"
  by (fastforce simp: between_tail_def elim!: bind_result_InrE dest: shorter)

lemma like_tail_shorter: "like_tail l il neg ts = Inr (x, r) \<Longrightarrow> length r \<le> length ts"
  by (fastforce simp: like_tail_def split: if_splits operand.splits lit_val.splits list.splits
      elim!: bind_result_InrE dest: shorter)

lemma predicate_tail_shorter:
  assumes "predicate_tail l ts = Inr (x, r)"
  shows "length r \<le> length ts"
proof -
  have tl: "length (tl us) \<le> length us" for us :: "tok list" by simp
  note bounds = is_tail_shorter [of l "tl _"] in_tail_shorter [of l _ "tl _"]
    between_tail_shorter [of l _ "tl _"] like_tail_shorter [of l _ _ "tl _"]
  show ?thesis
    using assms unfolding predicate_tail_def Let_def
    by (auto split: if_splits option.splits elim!: bind_result_InrE
        dest!: bounds value_shorter; linarith)
qed

lemma parser_shorter:
  "or_expr n ts = Inr (x, r) \<Longrightarrow> length r < length ts"
  "or_rest n ps ts = Inr (x, r) \<Longrightarrow> length r \<le> length ts"
  "and_expr n ts = Inr (x, r) \<Longrightarrow> length r < length ts"
  "and_rest n ps ts = Inr (x, r) \<Longrightarrow> length r \<le> length ts"
  "not_expr n ts = Inr (x, r) \<Longrightarrow> length r < length ts"
  "predicate n ts = Inr (x, r) \<Longrightarrow> length r < length ts"
proof (induction n ts and n ps ts and n ts and n ps ts and n ts and n ts arbitrary: x r and x r and x r and x r and x r and x r
    rule: or_expr_or_rest_and_expr_and_rest_not_expr_predicate.induct)
qed (fastforce split: if_splits elim!: bind_result_InrE
    dest: shorter predicate_tail_shorter)+

section \<open>Lemmas: the fuel is enough\<close>

lemma bind_result_fuel:
  "bind_result r f \<noteq> Inl OutOfFuel \<longleftrightarrow> r \<noteq> Inl OutOfFuel \<and> (\<forall>a. r = Inr a \<longrightarrow> f a \<noteq> Inl OutOfFuel)"
  by (cases r) auto

lemma number_fuel [simp]: "number t \<noteq> Inl OutOfFuel"
  by (auto simp: number_def Let_def)

lemma typed_fuel [simp]: "typed k u \<noteq> Inl OutOfFuel"
  by (auto simp: typed_def Let_def split: option.splits)

lemma path_rest_fuel [simp]: "path_rest p ts \<noteq> Inl OutOfFuel"
  by (induction p ts rule: path_rest.induct) (auto split: list.splits tok.splits)

lemma name_value_fuel [simp]: "name_value k t ts \<noteq> Inl OutOfFuel"
  by (auto simp: name_value_def Let_def bind_result_fuel)

lemma expect_fuel [simp]: "expect_symbol s ts \<noteq> Inl OutOfFuel" "expect_keyword s ts \<noteq> Inl OutOfFuel"
  by (auto simp: expect_symbol_def expect_keyword_def)

lemma value_fuel [simp]: "value_p ts \<noteq> Inl OutOfFuel"
  by (induction ts rule: value_p.induct) (auto simp: bind_result_fuel)

lemma in_items_fuel [simp]: "in_items items ts \<noteq> Inl OutOfFuel"
proof (induction items ts rule: in_items.induct)
  case (1 items ts)
  then show ?case
    by (simp add: in_items.simps [of items ts] split: sum.splits)
      (metis Inr_inject prod.inject value_fuel)
qed

lemma tails_fuel [simp]:
  "is_tail l ts \<noteq> Inl OutOfFuel" "in_tail l neg ts \<noteq> Inl OutOfFuel"
  "between_tail l neg ts \<noteq> Inl OutOfFuel" "like_tail l il neg ts \<noteq> Inl OutOfFuel"
  "bare_node l \<noteq> Inl OutOfFuel"
  by (auto simp: is_tail_def in_tail_def between_tail_def like_tail_def bare_node_def Let_def bind_result_fuel
      split: operand.splits lit_val.splits list.splits)

lemma predicate_tail_fuel [simp]: "predicate_tail l ts \<noteq> Inl OutOfFuel"
  by (auto simp: predicate_tail_def Let_def bind_result_fuel split: option.splits)

lemma parser_enough_fuel:
  "6 * length ts + 5 \<le> n \<Longrightarrow> or_expr n ts \<noteq> Inl OutOfFuel"
  "6 * length ts + 1 \<le> n \<Longrightarrow> or_rest n ps ts \<noteq> Inl OutOfFuel"
  "6 * length ts + 4 \<le> n \<Longrightarrow> and_expr n ts \<noteq> Inl OutOfFuel"
  "6 * length ts + 1 \<le> n \<Longrightarrow> and_rest n ps ts \<noteq> Inl OutOfFuel"
  "6 * length ts + 3 \<le> n \<Longrightarrow> not_expr n ts \<noteq> Inl OutOfFuel"
  "6 * length ts + 2 \<le> n \<Longrightarrow> predicate n ts \<noteq> Inl OutOfFuel"
proof (induction n ts and n ps ts and n ts and n ps ts and n ts and n ts
    rule: or_expr_or_rest_and_expr_and_rest_not_expr_predicate.induct)
  case (2 n ts)
  have "or_rest n [p] r \<noteq> Inl OutOfFuel" if "and_expr n ts = Inr (p, r)" for p r
    using 2 parser_shorter(3) [OF that] by simp
  then show ?case using 2 by (auto simp: bind_result_fuel)
next
  case (4 n parts ts)
  have "or_rest n (parts @ [p]) r \<noteq> Inl OutOfFuel" if "and_expr n (tl ts) = Inr (p, r)" "is_keyword ''OR'' ts" for p r
    using 4 that(2) parser_shorter(3) [OF that(1)] by simp
  then show ?case using 4 by (cases ts) (auto simp: bind_result_fuel)
next
  case (6 n ts)
  have "and_rest n [p] r \<noteq> Inl OutOfFuel" if "not_expr n ts = Inr (p, r)" for p r
    using 6 parser_shorter(5) [OF that] by simp
  then show ?case using 6 by (auto simp: bind_result_fuel)
next
  case (8 n parts ts)
  have "and_rest n (parts @ [p]) r \<noteq> Inl OutOfFuel" if "not_expr n (tl ts) = Inr (p, r)" "is_keyword ''AND'' ts" for p r
    using 8 that(2) parser_shorter(5) [OF that(1)] by simp
  then show ?case using 8 by (cases ts) (auto simp: bind_result_fuel)
next
  case (10 n ts)
  then show ?case by (cases ts) (auto simp: bind_result_fuel)
next
  case (12 n ts)
  then show ?case by (cases ts) (auto simp: bind_result_fuel)
qed simp_all

lemma parser_fuel_mono:
  "or_expr n ts \<noteq> Inl OutOfFuel \<Longrightarrow> n \<le> m \<Longrightarrow> or_expr m ts = or_expr n ts"
  "or_rest n ps ts \<noteq> Inl OutOfFuel \<Longrightarrow> n \<le> m \<Longrightarrow> or_rest m ps ts = or_rest n ps ts"
  "and_expr n ts \<noteq> Inl OutOfFuel \<Longrightarrow> n \<le> m \<Longrightarrow> and_expr m ts = and_expr n ts"
  "and_rest n ps ts \<noteq> Inl OutOfFuel \<Longrightarrow> n \<le> m \<Longrightarrow> and_rest m ps ts = and_rest n ps ts"
  "not_expr n ts \<noteq> Inl OutOfFuel \<Longrightarrow> n \<le> m \<Longrightarrow> not_expr m ts = not_expr n ts"
  "predicate n ts \<noteq> Inl OutOfFuel \<Longrightarrow> n \<le> m \<Longrightarrow> predicate m ts = predicate n ts"
proof (induction n ts and n ps ts and n ts and n ps ts and n ts and n ts arbitrary: m and m and m and m and m and m
    rule: or_expr_or_rest_and_expr_and_rest_not_expr_predicate.induct)
  case (2 n ts)
  obtain m' where m: "m = Suc m'" "n \<le> m'" using "2.prems"(2) by (cases m) auto
  show ?case
    using "2.IH"(1) [where m = m'] "2.IH"(2) [where m = m'] "2.prems"(1) m by (cases "and_expr n ts") (auto simp: bind_result_fuel)
next
  case (4 n parts ts)
  obtain m' where m: "m = Suc m'" "n \<le> m'" using "4.prems"(2) by (cases m) auto
  show ?case
    using "4.IH"(1) [where m = m'] "4.IH"(2) [where m = m'] "4.prems"(1) m by (cases "and_expr n (tl ts)") (auto simp: bind_result_fuel)
next
  case (6 n ts)
  obtain m' where m: "m = Suc m'" "n \<le> m'" using "6.prems"(2) by (cases m) auto
  show ?case
    using "6.IH"(1) [where m = m'] "6.IH"(2) [where m = m'] "6.prems"(1) m by (cases "not_expr n ts") (auto simp: bind_result_fuel)
next
  case (8 n parts ts)
  obtain m' where m: "m = Suc m'" "n \<le> m'" using "8.prems"(2) by (cases m) auto
  show ?case
    using "8.IH"(1) [where m = m'] "8.IH"(2) [where m = m'] "8.prems"(1) m by (cases "not_expr n (tl ts)") (auto simp: bind_result_fuel)
next
  case (10 n ts)
  obtain m' where m: "m = Suc m'" "n \<le> m'" using "10.prems"(2) by (cases m) auto
  show ?case
    using "10.IH"(1) [where m = m'] "10.IH"(2) [where m = m'] "10.prems"(1) m by (cases "not_expr n (tl ts)") (auto simp: bind_result_fuel)
next
  case (12 n ts)
  obtain m' where m: "m = Suc m'" "n \<le> m'" using "12.prems"(2) by (cases m) auto
  show ?case
    using "12.IH" [where m = m'] "12.prems"(1) m by (cases "or_expr n (tl ts)") (auto simp: bind_result_fuel)
qed simp_all

lemma tokenize_fuel: "tokenize t \<noteq> Inl OutOfFuel"
proof -
  have "tokenize_from pos s \<noteq> Inl OutOfFuel" for pos s
    by (induction pos s rule: tokenize_from.induct)
      (subst tokenize_from.simps, auto simp: bind_result_fuel split: option.splits)
  then show ?thesis by (simp add: tokenize_def)
qed

text \<open>
  C40: the parser always has enough fuel: whatever the text, \<open>parse\<close> ends with a predicate
  or with one of the source's own errors.  Every grammar rule consumes tokens, so the
  recursive descent ends.
\<close>

theorem parse_never_out_of_fuel: "parse t \<noteq> Inl OutOfFuel"
proof -
  have "or_expr (parse_fuel ts) ts \<noteq> Inl OutOfFuel" for ts
    by (rule parser_enough_fuel) (simp add: parse_fuel_def)
  then have "parse_tokens ts \<noteq> Inl OutOfFuel" for ts
    by (auto simp: parse_tokens_def bind_result_fuel split: option.splits)
  then show ?thesis by (simp add: parse_def bind_result_fuel tokenize_fuel)
qed

end
