(* ===== verification/Pred_Roundtrip.thy ===== *)
theory Pred_Roundtrip
  imports Pred_Parse
begin

text \<open>
  The parser against a printer.  \<open>show_node\<close> writes a predicate as tokens with the
  fewest parentheses SQL's precedence needs (\<open>NOT\<close> over \<open>AND\<close> over \<open>OR\<close>); its operands are
  written by any \<open>sp\<close> whose tokens \<open>value_p\<close> reads back (\<open>spells\<close>).  \<open>wf_node\<close> are the
  predicates the parser builds: flattened, with two or more operands.
\<close>

section \<open>Printing\<close>

abbreviation kw :: "string \<Rightarrow> tok" where "kw w \<equiv> Tok KWord w"
abbreviation sy :: "string \<Rightarrow> tok" where "sy s \<equiv> Tok KOp s"

fun cmp_text :: "cmp_op \<Rightarrow> string" where
  "cmp_text Eq = ''=''" | "cmp_text Ne = ''<>''" | "cmp_text Lt = ''<''"
| "cmp_text Le = ''<=''" | "cmp_text Gt = ''>''" | "cmp_text Ge = ''>=''"

definition parens :: "bool \<Rightarrow> tok list \<Rightarrow> tok list" where
  "parens b ts = (if b then sy ''('' # ts @ [sy '')''] else ts)"

definition not_kw :: "bool \<Rightarrow> tok list" where
  "not_kw b = (if b then [kw ''NOT''] else [])"

fun show_node :: "(operand \<Rightarrow> tok list) \<Rightarrow> nat \<Rightarrow> node \<Rightarrow> tok list" where
  "show_node sp l (NOr ps) = parens (0 < l) (join_with (kw ''OR'') (map (show_node sp 1) ps))"
| "show_node sp l (NAnd ps) = parens (1 < l) (join_with (kw ''AND'') (map (show_node sp 2) ps))"
| "show_node sp l (NNot p) = kw ''NOT'' # show_node sp 2 p"
| "show_node sp l (NCmp op a b) = sp a @ sy (cmp_text op) # sp b"
| "show_node sp l (NEqNullSafe a b) = sp a @ sy ''<=>'' # sp b"
| "show_node sp l (NIsNull a) = sp a @ [kw ''IS'', kw ''NULL'']"
| "show_node sp l (NIsNotNull a) = sp a @ [kw ''IS'', kw ''NOT'', kw ''NULL'']"
| "show_node sp l (NIn a items neg) =
     sp a @ not_kw neg @ kw ''IN'' # sy ''('' # join_with (sy [CHR 0x2C]) (map sp items) @ [sy '')'']"
| "show_node sp l (NBetween a lo hi neg) =
     sp a @ not_kw neg @ kw ''BETWEEN'' # sp lo @ kw ''AND'' # sp hi"
| "show_node sp l (NLike il a pat neg) =
     sp a @ not_kw neg @ kw (if il then ''ILIKE'' else ''LIKE'') # sp pat"
| "show_node sp l NTrue = [kw ''TRUE'']"
| "show_node sp l NFalse = [kw ''FALSE'']"
| "show_node sp l (NColumn a) = sp a"

fun is_or :: "node \<Rightarrow> bool" where "is_or (NOr ps) = True" | "is_or _ = False"
fun is_and :: "node \<Rightarrow> bool" where "is_and (NAnd ps) = True" | "is_and _ = False"
fun is_column :: "operand \<Rightarrow> bool" where "is_column (Column p) = True" | "is_column _ = False"
fun is_text_lit :: "operand \<Rightarrow> bool" where "is_text_lit (Literal (LStr s) ty) = True" | "is_text_lit _ = False"

fun wf_node :: "node \<Rightarrow> bool" where
  "wf_node (NOr ps) \<longleftrightarrow> 2 \<le> length ps \<and> (\<forall>p\<in>set ps. \<not> is_or p \<and> wf_node p)"
| "wf_node (NAnd ps) \<longleftrightarrow> 2 \<le> length ps \<and> (\<forall>p\<in>set ps. \<not> is_and p \<and> wf_node p)"
| "wf_node (NNot p) \<longleftrightarrow> wf_node p"
| "wf_node (NIn a items neg) \<longleftrightarrow> items \<noteq> [] \<and> (list_ex is_double items \<longrightarrow> map item_as_double items = items)"
| "wf_node (NLike il a pat neg) \<longleftrightarrow> is_text_lit pat"
| "wf_node (NColumn a) \<longleftrightarrow> is_column a"
| "wf_node _ \<longleftrightarrow> True"

fun operands_of :: "node \<Rightarrow> operand list" where
  "operands_of (NOr ps) = concat (map operands_of ps)"
| "operands_of (NAnd ps) = concat (map operands_of ps)"
| "operands_of (NNot p) = operands_of p"
| "operands_of (NCmp op a b) = [a, b]"
| "operands_of (NEqNullSafe a b) = [a, b]"
| "operands_of (NIsNull a) = [a]"
| "operands_of (NIsNotNull a) = [a]"
| "operands_of (NIn a items neg) = a # items"
| "operands_of (NBetween a lo hi neg) = [a, lo, hi]"
| "operands_of (NLike il a pat neg) = [a, pat]"
| "operands_of NTrue = []"
| "operands_of NFalse = []"
| "operands_of (NColumn a) = [a]"

definition boundary :: "tok list \<Rightarrow> bool" where
  "boundary rest \<longleftrightarrow> \<not> is_string_tok rest \<and> \<not> is_symbol ''.'' rest \<and> \<not> is_symbol ''('' rest"

definition paren_tok :: "tok \<Rightarrow> bool" where
  "paren_tok t \<longleftrightarrow> tok_kind t = KOp \<and> (tok_text t = ''('' \<or> tok_text t = '')'')"

definition spells :: "tok list \<Rightarrow> operand \<Rightarrow> bool" where
  "spells ts v \<longleftrightarrow> list_all (\<lambda>t. \<not> paren_tok t) ts
     \<and> (\<forall>rest. boundary rest \<longrightarrow> value_p (ts @ rest) = Inr (v, rest))"

section \<open>Parentheses balance\<close>

definition balanced :: "tok list \<Rightarrow> bool" where
  "balanced ts \<longleftrightarrow> (\<forall>d j rest. 1 \<le> d \<longrightarrow> matching_from d j (ts @ rest) = matching_from d (j + length ts) rest)"

lemma balanced_plain: "list_all (\<lambda>t. \<not> paren_tok t) ts \<Longrightarrow> balanced ts"
proof -
  have "matching_from d j (ts @ rest) = matching_from d (j + length ts) rest"
    if "list_all (\<lambda>t. \<not> paren_tok t) ts" for d j rest
    using that
  proof (induction ts arbitrary: j)
    case (Cons t ts) then show ?case by (cases t) (auto simp: paren_tok_def)
  qed simp
  then show "list_all (\<lambda>t. \<not> paren_tok t) ts \<Longrightarrow> balanced ts" by (simp add: balanced_def)
qed

lemma balanced_append: "balanced ts \<Longrightarrow> balanced us \<Longrightarrow> balanced (ts @ us)"
  by (simp add: balanced_def add.assoc)

lemma balanced_Cons: "\<not> paren_tok t \<Longrightarrow> balanced us \<Longrightarrow> balanced (t # us)"
  using balanced_append [of "[t]" us] balanced_plain [of "[t]"] by simp

lemma balanced_parens: "balanced ts \<Longrightarrow> balanced (sy ''('' # ts @ [sy '')''])"
  by (auto simp: balanced_def)

lemma balanced_join: "\<not> paren_tok s \<Longrightarrow> \<forall>p\<in>set ps. balanced p \<Longrightarrow> balanced (join_with s ps)"
proof (induction ps)
  case Nil show ?case by (simp add: balanced_plain)
next
  case (Cons p ps)
  then show ?case by (cases ps) (auto intro!: balanced_append balanced_Cons)
qed

lemma paren_tok_kw [simp]: "\<not> paren_tok (kw w)" by (simp add: paren_tok_def)
lemma paren_tok_cmp [simp]: "\<not> paren_tok (sy (cmp_text op))" by (cases op) (simp_all add: paren_tok_def)
lemma paren_tok_sy [simp]: "\<not> paren_tok (sy ''<=>'')" "\<not> paren_tok (sy [CHR 0x2C])"
  by (simp_all add: paren_tok_def)

lemma balanced_not_kw: "balanced (not_kw b)"
  by (simp add: not_kw_def balanced_plain)

lemma balanced_Nil: "balanced []"
  by (simp add: balanced_plain)

lemma balanced_wrap: "balanced ts \<Longrightarrow> balanced (parens b ts)"
  by (simp add: parens_def balanced_parens)

lemma spells_balanced: "spells ts v \<Longrightarrow> balanced ts"
  by (simp add: spells_def balanced_plain)

lemmas balanced_intros = balanced_append balanced_Cons balanced_join balanced_wrap balanced_not_kw
  balanced_Nil paren_tok_kw paren_tok_cmp paren_tok_sy

lemma balanced_show:
  assumes "\<forall>v\<in>set (operands_of p). spells (sp v) v"
  shows "balanced (show_node sp l p)"
  using assms
proof (induction sp l p rule: show_node.induct)
  case (8 sp l a items neg)
  have "balanced (sy ''('' # join_with (sy [CHR 0x2C]) (map sp items) @ [sy '')''])"
    using 8 by (intro balanced_parens balanced_join) (auto intro: spells_balanced)
  then have "balanced (kw ''IN'' # sy ''('' # join_with (sy [CHR 0x2C]) (map sp items) @ [sy '')''])"
    by (rule balanced_Cons [OF paren_tok_kw])
  moreover have "balanced (sp a)" using 8 by (auto intro: spells_balanced)
  ultimately show ?case by (simp add: balanced_append balanced_not_kw)
qed (auto intro!: balanced_intros intro: spells_balanced)

lemma matching_paren_parens:
  "balanced ts \<Longrightarrow> drop (matching_paren (sy ''('' # ts @ sy '')'' # rest) + 1) (sy ''('' # ts @ sy '')'' # rest) = rest"
  by (simp add: matching_paren_def balanced_def)

section \<open>What may follow a predicate\<close>

fun stop :: "nat \<Rightarrow> tok list \<Rightarrow> bool" where
  "stop l [] \<longleftrightarrow> True"
| "stop l (t # ts) \<longleftrightarrow> t = sy '')'' \<or> (0 < l \<and> t = kw ''OR'') \<or> (1 < l \<and> t = kw ''AND'')"

lemma stop_mono: "stop l ts \<Longrightarrow> l \<le> m \<Longrightarrow> stop m ts"
  by (cases ts) auto

lemma upper_keywords [simp]:
  "py_upper ''AND'' = ''AND''" "py_upper ''OR'' = ''OR''" "py_upper ''NOT'' = ''NOT''" "py_upper ''IS'' = ''IS''"
  "py_upper ''NULL'' = ''NULL''" "py_upper ''IN'' = ''IN''" "py_upper ''BETWEEN'' = ''BETWEEN''"
  "py_upper ''LIKE'' = ''LIKE''" "py_upper ''ILIKE'' = ''ILIKE''" "py_upper ''TRUE'' = ''TRUE''"
  "py_upper ''FALSE'' = ''FALSE''"
  by code_simp+

lemma comparison_of_simps [simp]:
  "comparison_of (cmp_text op) = Some (NCmp op)" "comparison_of ''<=>'' = Some NEqNullSafe"
  "comparison_of ''('' = None" "comparison_of '')'' = None"
  by (cases op) (simp_all add: comparison_of.simps)

lemma stop_not:
  assumes "stop 2 ts"
  shows "boundary ts" "\<not> continues_comparison ts" "\<not> is_keyword ''NOT'' ts" "\<not> is_keyword ''IS'' ts"
    "\<not> negatable ts" "comparison_tok ts = None" "\<not> is_keyword ''ESCAPE'' ts" "\<not> is_symbol [CHR 0x2C] ts"
  using assms by (cases ts; auto simp: boundary_def continues_comparison_def negatable_def; fail)+

lemma stop_less: "stop 1 ts \<Longrightarrow> \<not> is_keyword ''AND'' ts" "stop 0 ts \<Longrightarrow> \<not> is_keyword ''OR'' ts"
  by (cases ts; auto)+


lemma boundary_toks [simp]: "boundary (kw w # ts)" "boundary (sy (cmp_text op) # ts)" "boundary (sy ''<=>'' # ts)"
  "boundary (sy [CHR 0x2C] # ts)" "boundary (sy '')'' # ts)" "boundary []"
  by (cases op; simp add: boundary_def)+

definition spells_all :: "(operand \<Rightarrow> tok list) \<Rightarrow> operand list \<Rightarrow> bool" where
  "spells_all sp vs \<longleftrightarrow> (\<forall>v\<in>set vs. spells (sp v) v)"

lemma spelled: "spells_all sp vs \<Longrightarrow> v \<in> set vs \<Longrightarrow> boundary rest \<Longrightarrow> value_p (sp v @ rest) = Inr (v, rest)"
  by (auto simp: spells_def spells_all_def)

lemma negatable_kw [simp]:
  "negatable (kw ''IN'' # ts)" "negatable (kw ''BETWEEN'' # ts)" "negatable (kw ''LIKE'' # ts)" "negatable (kw ''ILIKE'' # ts)"
  by (simp_all add: negatable_def)

lemma in_items_shown:
  assumes "spells_all sp items"
  shows "in_items acc (concat (map (\<lambda>v. sy [CHR 0x2C] # sp v) items) @ sy '')'' # rest)
    = Inr (acc @ items, sy '')'' # rest)"
  using assms
proof (induction items arbitrary: acc)
  case Nil then show ?case by (simp add: in_items.simps)
next
  case (Cons v vs)
  let ?r = "concat (map (\<lambda>v. sy [CHR 0x2C] # sp v) vs) @ sy '')'' # rest"
  have "boundary ?r" by (cases vs) simp_all
  then have "value_p (sp v @ ?r) = Inr (v, ?r)" using spelled [OF Cons.prems] by simp
  moreover have "spells_all sp vs" using Cons.prems by (simp add: spells_all_def)
  ultimately show ?case using Cons.IH by (subst in_items.simps) simp
qed

lemma join_with_concat: "join_with s (p # ps) = p @ concat (map (\<lambda>q. s # q) ps)"
  by (induction ps arbitrary: p) auto

lemma in_tail_shown:
  assumes "items \<noteq> []" "spells_all sp items"
    "list_ex is_double items \<longrightarrow> map item_as_double items = items"
  shows "in_tail a neg (sy ''('' # join_with (sy [CHR 0x2C]) (map sp items) @ sy '')'' # rest) = Inr (NIn a items neg, rest)"
proof -
  obtain v vs where items: "items = v # vs" using assms(1) by (cases items) auto
  let ?r = "concat (map (\<lambda>v. sy [CHR 0x2C] # sp v) vs) @ sy '')'' # rest"
  have "boundary ?r" by (cases vs) simp_all
  then have v: "value_p (sp v @ ?r) = Inr (v, ?r)" using spelled [OF assms(2)] items by simp
  have i: "in_items [v] ?r = Inr (items, sy '')'' # rest)"
    using in_items_shown [of sp vs "[v]" rest] assms(2) items by (simp add: spells_all_def)
  have j: "join_with (sy [CHR 0x2C]) (map sp items) @ sy '')'' # rest = sp v @ ?r"
    by (simp only: items list.map join_with_concat append_assoc) (simp add: o_def map_concat)
  have "in_tail a neg (sy ''('' # sp v @ ?r) = Inr (NIn a items neg, rest)"
    using assms(3) by (auto simp: in_tail_def expect_symbol_def v i Let_def)
  then show ?thesis using j by simp
qed

text \<open>An atomic predicate is read as its left operand and a tail.\<close>

fun atom :: "node \<Rightarrow> bool" where
  "atom (NOr ps) = False" | "atom (NAnd ps) = False" | "atom (NNot p) = False" | "atom _ = True"

lemma value_true_false [simp]:
  "name_value KWord ''TRUE'' ts = Inr (Literal (LBool True) ''boolean'', ts)"
  "name_value KWord ''FALSE'' ts = Inr (Literal (LBool False) ''boolean'', ts)"
  by (simp_all add: name_value_def)

lemmas tail_defs = predicate_tail_def is_tail_def between_tail_def like_tail_def bare_node_def
  expect_keyword_def not_kw_def Let_def

lemma stop_negatable [simp]: "stop 2 rest \<Longrightarrow> \<not> is_keyword ''IN'' rest \<and> \<not> is_keyword ''BETWEEN'' rest
   \<and> \<not> is_keyword ''LIKE'' rest \<and> \<not> is_keyword ''ILIKE'' rest"
  using stop_not(5) by (auto simp: negatable_def)

lemma stop_boundary: "stop 2 rest \<Longrightarrow> boundary rest" by (rule stop_not)

lemma atom_value:
  assumes "atom p" "wf_node p" "spells_all sp (operands_of p)" "stop 2 rest"
  shows "\<exists>v ts. value_p (show_node sp l p @ rest) = Inr (v, ts) \<and> predicate_tail v ts = Inr (p, rest)"
proof -
  note sp = spelled [OF assms(3)]
  note st = stop_not [OF assms(4)] stop_negatable [OF assms(4)]
  show ?thesis
  proof (cases p)
    case (NIn a items neg)
    have "spells_all sp items" using assms(3) NIn by (simp add: spells_all_def)
    then have it: "in_tail a neg (sy ''('' # join_with (sy [CHR 0x2C]) (map sp items) @ sy '')'' # rest) = Inr (p, rest)"
      using in_tail_shown [of items sp a neg rest] assms(2) NIn by simp
    have "value_p (sp a @ us) = Inr (a, us)" if "boundary us" for us using NIn that by (intro sp) auto
    then show ?thesis using NIn it by (auto simp: predicate_tail_def not_kw_def Let_def)
  next
    case (NCmp op a b)
    then show ?thesis using st by (auto simp: sp tail_defs)
  next
    case (NEqNullSafe a b)
    then show ?thesis using st by (auto simp: sp tail_defs)
  next
    case (NIsNull a)
    then show ?thesis using st by (auto simp: sp tail_defs)
  next
    case (NIsNotNull a)
    then show ?thesis using st by (auto simp: sp tail_defs)
  next
    case (NBetween a lo hi neg)
    then show ?thesis using st by (auto simp: sp tail_defs)
  next
    case (NLike il a pat neg)
    then obtain s ty where "pat = Literal (LStr s) ty"
      using assms(2) by (cases pat rule: is_text_lit.cases) auto
    then show ?thesis using NLike st by (cases il; cases neg) (simp_all add: sp tail_defs)
  next
    case (NColumn a)
    then show ?thesis using assms(2) st by (cases a) (auto simp: sp tail_defs)
  next
    case NTrue
    have "predicate_tail (Literal (LBool True) ''boolean'') rest = Inr (p, rest)"
      using st NTrue by (simp add: predicate_tail_def bare_node_def)
    then show ?thesis using NTrue by simp
  next
    case NFalse
    have "predicate_tail (Literal (LBool False) ''boolean'') rest = Inr (p, rest)"
      using st NFalse by (simp add: predicate_tail_def bare_node_def)
    then show ?thesis using NFalse by simp
  qed (use assms(1) in simp_all)
qed


section \<open>Reading a shown predicate\<close>

abbreviation ev :: "(nat \<Rightarrow> bool) \<Rightarrow> bool" where "ev Q \<equiv> eventually Q sequentially"

lemma ev_Suc: "ev (\<lambda>n. Q (Suc n)) \<Longrightarrow> ev Q"
  by (simp only: eventually_sequentially_Suc)

definition reads2 :: "tok list \<Rightarrow> node \<Rightarrow> bool" where
  "reads2 ts p \<longleftrightarrow> (\<forall>rest. stop 2 rest \<longrightarrow> ev (\<lambda>n. not_expr n (ts @ rest) = Inr (p, rest)))"

definition reads1 :: "tok list \<Rightarrow> node \<Rightarrow> bool" where
  "reads1 ts p \<longleftrightarrow> (\<forall>rest. stop 1 rest \<longrightarrow> ev (\<lambda>n. and_expr n (ts @ rest) = Inr (p, rest)))"

definition reads0 :: "tok list \<Rightarrow> node \<Rightarrow> bool" where
  "reads0 ts p \<longleftrightarrow> (\<forall>rest. stop 0 rest \<longrightarrow> ev (\<lambda>n. or_expr n (ts @ rest) = Inr (p, rest)))"

lemma mk_single [simp]: "mk_or [p] = p" "mk_and [p] = p"
  by (simp_all add: mk_or_def mk_and_def)

lemma and_rest_shown:
  assumes "\<forall>q\<in>set qs. reads2 (f q) q" "stop 1 rest"
  shows "ev (\<lambda>n. and_rest n acc (concat (map (\<lambda>q. kw ''AND'' # f q) qs) @ rest) = Inr (mk_and (acc @ qs), rest))"
  using assms(1)
proof (induction qs arbitrary: acc)
  case Nil
  have "ev (\<lambda>n. and_rest (Suc n) acc rest = Inr (mk_and acc, rest))"
    using stop_less(1) [OF assms(2)] by simp
  then show ?case by (simp only: list.map concat.simps append_Nil append_Nil2) (rule ev_Suc)
next
  case (Cons q qs)
  let ?r = "concat (map (\<lambda>q. kw ''AND'' # f q) qs) @ rest"
  have "stop 2 ?r" using stop_mono [OF assms(2), of 2] by (cases qs) auto
  then have "ev (\<lambda>n. not_expr n (f q @ ?r) = Inr (q, ?r))"
    using Cons.prems by (simp add: reads2_def)
  moreover have "ev (\<lambda>n. and_rest n (acc @ [q]) ?r = Inr (mk_and (acc @ q # qs), rest))"
    using Cons.IH [of "acc @ [q]"] Cons.prems by simp
  ultimately have "ev (\<lambda>n. and_rest (Suc n) acc (kw ''AND'' # f q @ ?r) = Inr (mk_and (acc @ q # qs), rest))"
    by eventually_elim simp
  then have "ev (\<lambda>n. and_rest n acc (kw ''AND'' # f q @ ?r) = Inr (mk_and (acc @ q # qs), rest))"
    by (rule ev_Suc)
  then show ?case by simp
qed

lemma or_rest_shown:
  assumes "\<forall>q\<in>set qs. reads1 (f q) q" "stop 0 rest"
  shows "ev (\<lambda>n. or_rest n acc (concat (map (\<lambda>q. kw ''OR'' # f q) qs) @ rest) = Inr (mk_or (acc @ qs), rest))"
  using assms(1)
proof (induction qs arbitrary: acc)
  case Nil
  have "ev (\<lambda>n. or_rest (Suc n) acc rest = Inr (mk_or acc, rest))"
    using stop_less(2) [OF assms(2)] by simp
  then show ?case by (simp only: list.map concat.simps append_Nil append_Nil2) (rule ev_Suc)
next
  case (Cons q qs)
  let ?r = "concat (map (\<lambda>q. kw ''OR'' # f q) qs) @ rest"
  have "stop 1 ?r" using stop_mono [OF assms(2), of 1] by (cases qs) auto
  then have "ev (\<lambda>n. and_expr n (f q @ ?r) = Inr (q, ?r))"
    using Cons.prems by (simp add: reads1_def)
  moreover have "ev (\<lambda>n. or_rest n (acc @ [q]) ?r = Inr (mk_or (acc @ q # qs), rest))"
    using Cons.IH [of "acc @ [q]"] Cons.prems by simp
  ultimately have "ev (\<lambda>n. or_rest (Suc n) acc (kw ''OR'' # f q @ ?r) = Inr (mk_or (acc @ q # qs), rest))"
    by eventually_elim simp
  then have "ev (\<lambda>n. or_rest n acc (kw ''OR'' # f q @ ?r) = Inr (mk_or (acc @ q # qs), rest))"
    by (rule ev_Suc)
  then show ?case by simp
qed

lemma reads1_join:
  assumes "\<forall>q\<in>set (p # qs). reads2 (f q) q"
  shows "reads1 (join_with (kw ''AND'') (map f (p # qs))) (mk_and (p # qs))"
  unfolding reads1_def
proof (intro allI impI)
  fix rest assume st: "stop 1 rest"
  let ?r = "concat (map (\<lambda>q. kw ''AND'' # f q) qs) @ rest"
  have "stop 2 ?r" using stop_mono [OF st, of 2] by (cases qs) auto
  then have "ev (\<lambda>n. not_expr n (f p @ ?r) = Inr (p, ?r))" using assms by (simp add: reads2_def)
  moreover have "ev (\<lambda>n. and_rest n [p] ?r = Inr (mk_and (p # qs), rest))"
    using and_rest_shown [OF _ st, of qs f "[p]"] assms by simp
  ultimately have "ev (\<lambda>n. and_expr (Suc n) (f p @ ?r) = Inr (mk_and (p # qs), rest))"
    by eventually_elim simp
  then have "ev (\<lambda>n. and_expr n (f p @ ?r) = Inr (mk_and (p # qs), rest))" by (rule ev_Suc)
  then show "ev (\<lambda>n. and_expr n (join_with (kw ''AND'') (map f (p # qs)) @ rest) = Inr (mk_and (p # qs), rest))"
    by (simp add: join_with_concat o_def)
qed

lemma reads0_join:
  assumes "\<forall>q\<in>set (p # qs). reads1 (f q) q"
  shows "reads0 (join_with (kw ''OR'') (map f (p # qs))) (mk_or (p # qs))"
  unfolding reads0_def
proof (intro allI impI)
  fix rest assume st: "stop 0 rest"
  let ?r = "concat (map (\<lambda>q. kw ''OR'' # f q) qs) @ rest"
  have "stop 1 ?r" using stop_mono [OF st, of 1] by (cases qs) auto
  then have "ev (\<lambda>n. and_expr n (f p @ ?r) = Inr (p, ?r))" using assms by (simp add: reads1_def)
  moreover have "ev (\<lambda>n. or_rest n [p] ?r = Inr (mk_or (p # qs), rest))"
    using or_rest_shown [OF _ st, of qs f "[p]"] assms by simp
  ultimately have "ev (\<lambda>n. or_expr (Suc n) (f p @ ?r) = Inr (mk_or (p # qs), rest))"
    by eventually_elim simp
  then have "ev (\<lambda>n. or_expr n (f p @ ?r) = Inr (mk_or (p # qs), rest))" by (rule ev_Suc)
  then show "ev (\<lambda>n. or_expr n (join_with (kw ''OR'') (map f (p # qs)) @ rest) = Inr (mk_or (p # qs), rest))"
    by (simp add: join_with_concat o_def)
qed

lemma reads1_of_reads2: "reads2 ts p \<Longrightarrow> reads1 ts p"
  using reads1_join [of p "[]" "\<lambda>_. ts"] by simp

lemma reads0_of_reads1: "reads1 ts p \<Longrightarrow> reads0 ts p"
  using reads0_join [of p "[]" "\<lambda>_. ts"] by simp

lemma reads2_parens:
  assumes "reads0 ts p" "balanced ts"
  shows "reads2 (sy ''('' # ts @ [sy '')'']) p"
  unfolding reads2_def
proof (intro allI impI)
  fix rest assume st: "stop 2 rest"
  let ?all = "sy ''('' # ts @ sy '')'' # rest"
  have nc: "\<not> continues_comparison (drop (matching_paren ?all + 1) ?all)"
    unfolding matching_paren_parens [OF assms(2)] by (rule stop_not(2) [OF st])
  have "ev (\<lambda>n. or_expr n (ts @ sy '')'' # rest) = Inr (p, sy '')'' # rest))"
    using assms(1) by (simp add: reads0_def)
  then have "ev (\<lambda>n. predicate (Suc n) ?all = Inr (p, rest))"
    by eventually_elim (use nc in \<open>simp add: expect_symbol_def\<close>)
  then have "ev (\<lambda>n. predicate n ?all = Inr (p, rest))" by (rule ev_Suc)
  then have "ev (\<lambda>n. not_expr (Suc n) ?all = Inr (p, rest))" by eventually_elim simp
  then have "ev (\<lambda>n. not_expr n ?all = Inr (p, rest))" by (rule ev_Suc)
  then show "ev (\<lambda>n. not_expr n ((sy ''('' # ts @ [sy '')'']) @ rest) = Inr (p, rest))" by simp
qed

lemma reads2_not:
  assumes "reads2 ts p"
  shows "reads2 (kw ''NOT'' # ts) (NNot p)"
  unfolding reads2_def
proof (intro allI impI)
  fix rest assume "stop 2 rest"
  then have "ev (\<lambda>n. not_expr n (ts @ rest) = Inr (p, rest))" using assms by (simp add: reads2_def)
  then have "ev (\<lambda>n. not_expr (Suc n) ((kw ''NOT'' # ts) @ rest) = Inr (NNot p, rest))"
    by eventually_elim simp
  then show "ev (\<lambda>n. not_expr n ((kw ''NOT'' # ts) @ rest) = Inr (NNot p, rest))" by (rule ev_Suc)
qed

lemma value_not_keyword: "value_p ts = Inr (v, r) \<Longrightarrow> \<not> is_keyword ''NOT'' ts"
  by (cases ts rule: value_p.cases)
    (auto simp: name_value_def reserved_words_def typed_literals_def Let_def)

lemma no_paren_head: "list_all (\<lambda>t. \<not> paren_tok t) ts \<Longrightarrow> ts \<noteq> [] \<Longrightarrow> \<not> is_symbol ''('' (ts @ us)"
  by (cases ts; cases "hd ts") (auto simp: paren_tok_def)

lemma flatten_id: "\<forall>p\<in>set ps. \<not> is_or p \<Longrightarrow> flatten_or ps = ps" "\<forall>p\<in>set ps. \<not> is_and p \<Longrightarrow> flatten_and ps = ps"
  by (induction ps rule: flatten_or.induct; simp) (induction ps rule: flatten_and.induct; simp)

lemma mk_wf: "wf_node (NOr ps) \<Longrightarrow> mk_or ps = NOr ps" "wf_node (NAnd ps) \<Longrightarrow> mk_and ps = NAnd ps"
  by (auto simp: mk_or_def mk_and_def flatten_id split: list.splits)


lemma spells_head: "spells ts v \<Longrightarrow> \<not> is_symbol ''('' (ts @ us)"
proof -
  assume "spells ts v"
  then have "value_p (ts @ []) = Inr (v, [])" "list_all (\<lambda>t. \<not> paren_tok t) ts"
    unfolding spells_def by (blast intro: boundary_toks)+
  then show ?thesis using no_paren_head [of ts us] by (cases ts) auto
qed

lemma atom_head:
  assumes "atom p" "spells_all sp (operands_of p)"
  shows "\<not> is_symbol ''('' (show_node sp l p @ rest)"
proof -
  have h: "\<not> is_symbol ''('' (sp v @ us)" if "v \<in> set (operands_of p)" for v us
    using assms(2) that spells_head by (auto simp: spells_all_def)
  show ?thesis using assms(1) h by (cases p) auto
qed

lemma reads2_atom:
  assumes "atom p" "wf_node p" "spells_all sp (operands_of p)"
  shows "reads2 (show_node sp l p) p"
  unfolding reads2_def
proof (intro allI impI)
  fix rest assume "stop 2 rest"
  then obtain v ts where v: "value_p (show_node sp l p @ rest) = Inr (v, ts)"
      "predicate_tail v ts = Inr (p, rest)"
    using atom_value [OF assms] by blast
  have "not_expr (Suc (Suc n)) (show_node sp l p @ rest) = Inr (p, rest)" for n
    using v value_not_keyword [OF v(1)] atom_head [OF assms(1,3), of l rest] by simp
  then have "ev (\<lambda>n. not_expr (Suc (Suc n)) (show_node sp l p @ rest) = Inr (p, rest))" by simp
  then show "ev (\<lambda>n. not_expr n (show_node sp l p @ rest) = Inr (p, rest))"
    by (intro ev_Suc [of "\<lambda>n. not_expr n (show_node sp l p @ rest) = Inr (p, rest)"]
        ev_Suc [of "\<lambda>n. not_expr (Suc n) (show_node sp l p @ rest) = Inr (p, rest)"])
qed

lemma reads_of_reads2:
  assumes "reads2 ts p"
  shows "reads2 ts p \<and> reads1 ts p \<and> reads0 ts p"
  using assms reads1_of_reads2 reads0_of_reads1 by blast

lemma spells_all_sub: "spells_all sp (concat (map operands_of ps)) \<Longrightarrow> q \<in> set ps \<Longrightarrow> spells_all sp (operands_of q)"
  by (auto simp: spells_all_def)

lemma reads_show:
  "wf_node p \<Longrightarrow> spells_all sp (operands_of p) \<Longrightarrow>
   reads2 (show_node sp 2 p) p \<and> reads1 (show_node sp 1 p) p \<and> reads0 (show_node sp 0 p) p"
proof (induction p)
  case (NAnd ps)
  obtain q qs where ps: "ps = q # qs" using NAnd.prems(1) by (cases ps) auto
  have "\<forall>r\<in>set ps. reads2 (show_node sp 2 r) r" using NAnd spells_all_sub by fastforce
  then have r1: "reads1 (show_node sp 1 (NAnd ps)) (NAnd ps)"
    using reads1_join [of q qs "show_node sp 2"] mk_wf(2) [OF NAnd.prems(1)] ps by (simp add: parens_def)
  then have r0: "reads0 (show_node sp 0 (NAnd ps)) (NAnd ps)"
    using reads0_of_reads1 by (simp add: parens_def)
  have "balanced (show_node sp 0 (NAnd ps))"
    using NAnd.prems(2) by (intro balanced_show) (simp add: spells_all_def)
  with r0 have "reads2 (show_node sp 2 (NAnd ps)) (NAnd ps)"
    using reads2_parens by (simp add: parens_def)
  with r0 r1 show ?case by blast
next
  case (NOr ps)
  obtain q qs where ps: "ps = q # qs" using NOr.prems(1) by (cases ps) auto
  have "\<forall>r\<in>set ps. reads1 (show_node sp 1 r) r" using NOr spells_all_sub by fastforce
  then have r0: "reads0 (show_node sp 0 (NOr ps)) (NOr ps)"
    using reads0_join [of q qs "show_node sp 1"] mk_wf(1) [OF NOr.prems(1)] ps by (simp add: parens_def)
  have "balanced (show_node sp 0 (NOr ps))"
    using NOr.prems(2) by (intro balanced_show) (simp add: spells_all_def)
  with r0 have r2: "reads2 (show_node sp 2 (NOr ps)) (NOr ps)"
    using reads2_parens by (simp add: parens_def)
  then have "reads1 (show_node sp 1 (NOr ps)) (NOr ps)"
    using reads1_of_reads2 by (simp add: parens_def)
  with r0 r2 show ?case by blast
next
  case (NNot p)
  then have "reads2 (show_node sp 2 p) p" by simp
  from reads_of_reads2 [OF reads2_not [OF this]] show ?case by simp
qed (use reads2_atom reads_of_reads2 in \<open>simp_all del: show_node.simps(4-)\<close>)

section \<open>Spellings of operands\<close>

definition quoted_tok :: "string \<Rightarrow> tok" where
  "quoted_tok p = Tok KQuoted (bt # double_backticks p @ [bt])"

fun spell :: "operand \<Rightarrow> tok list" where
  "spell (Column path) = join_with (sy ''.'') (map (\<lambda>p. [quoted_tok p]) path)"
| "spell (Literal LNone ty) = [kw ''NULL'']"
| "spell (Literal (LBool b) ty) = [kw (if b then ''TRUE'' else ''FALSE'')]"
| "spell _ = []"

lemma undouble_Cons: "c \<noteq> q \<Longrightarrow> undouble q (c # s) = c # undouble q s"
  by (cases s) auto

lemma double_backticks_Cons:
  "double_backticks (c # p) = (if c = bt then bt # bt # double_backticks p else c # double_backticks p)"
  by (simp add: double_backticks_def)

lemma undouble_double: "undouble bt (double_backticks p) = p"
  by (induction p) (auto simp: double_backticks_Cons undouble_Cons double_backticks_def [of "[]"])

lemma ident_quoted [simp]: "ident KQuoted (bt # double_backticks p @ [bt]) = p"
  by (simp add: inner_text_def undouble_double)

lemma path_rest_shown:
  "\<not> is_symbol ''.'' rest \<Longrightarrow>
   path_rest acc (concat (map (\<lambda>p. [sy ''.'', quoted_tok p]) ps) @ rest) = Inr (Column (acc @ ps), rest)"
proof (induction ps arbitrary: acc)
  case Nil
  then show ?case by (cases rest; cases "hd rest") auto
next
  case (Cons p ps)
  then show ?case by (simp add: quoted_tok_def del: ident.simps)
qed

lemma spells_column: "path \<noteq> [] \<Longrightarrow> spells (spell (Column path)) (Column path)"
proof -
  assume "path \<noteq> []"
  then obtain p ps where path: "path = p # ps" by (cases path) auto
  let ?t = "concat (map (\<lambda>p. [sy ''.'', quoted_tok p]) ps)"
  have j: "spell (Column path) = quoted_tok p # ?t"
    by (simp add: path join_with_concat o_def)
  have "value_p ((quoted_tok p # ?t) @ rest) = Inr (Column path, rest)" if b: "boundary rest" for rest
  proof -
    have "\<not> is_symbol ''('' (?t @ rest)" using b by (cases ps) (auto simp: boundary_def)
    moreover have "\<not> is_symbol ''.'' rest" using b by (simp add: boundary_def)
    ultimately show ?thesis
      using path_rest_shown [of rest "[p]" ps]
      by (simp add: quoted_tok_def name_value_def typed_literals_def path del: ident.simps)
  qed
  moreover have "list_all (\<lambda>t. \<not> paren_tok t) (quoted_tok p # ?t)"
    by (induction ps) (auto simp: paren_tok_def quoted_tok_def)
  ultimately show ?thesis unfolding j spells_def by blast
qed

lemma spells_null: "spells (spell (Literal LNone ''null'')) (Literal LNone ''null'')"
  by (simp add: spells_def name_value_def)

lemma spells_bool: "spells (spell (Literal (LBool b) ''boolean'')) (Literal (LBool b) ''boolean'')"
  by (cases b) (simp_all add: spells_def)

section \<open>Text\<close>

text \<open>Tokens written with a blank between them are the tokens read: each is one the lexer finds again,
  whatever follows the blank.\<close>

definition lexes :: "tok \<Rightarrow> bool" where
  "lexes t \<longleftrightarrow> tok_text t \<noteq> [] \<and> \<not> py_isspace (hd (tok_text t)) \<and> \<not> py_isspace (last (tok_text t))
     \<and> (\<forall>r. r = [] \<or> hd r = CHR '' '' \<longrightarrow> token_at (tok_text t @ r) = Some (t, r))"

fun sql_text :: "tok list \<Rightarrow> string" where
  "sql_text [] = []"
| "sql_text [t] = tok_text t"
| "sql_text (t # u # ts) = tok_text t @ CHR '' '' # sql_text (u # ts)"

lemma space_space: "py_isspace (CHR '' '')"
  by (simp add: py_isspace_def code_def)

lemma next_token_lexes:
  assumes "lexes t" "r = [] \<or> hd r = CHR '' ''"
  shows "next_token (tok_text t @ r) = Some (t, r)" "next_token (CHR '' '' # tok_text t @ r) = Some (t, r)"
proof -
  have "dropWhile py_isspace (tok_text t @ r) = tok_text t @ r"
    using assms(1) by (cases "tok_text t") (auto simp: lexes_def)
  moreover have "token_at (tok_text t @ r) = Some (t, r)" using assms unfolding lexes_def by blast
  ultimately show "next_token (tok_text t @ r) = Some (t, r)" "next_token (CHR '' '' # tok_text t @ r) = Some (t, r)"
    using space_space by (simp_all add: next_token_def)
qed

lemma tokenize_sql_text:
  assumes "list_all lexes ts" "ts \<noteq> []"
  shows "tokenize_from pos (sql_text ts) = Inr ts \<and> tokenize_from pos (CHR '' '' # sql_text ts) = Inr ts"
  using assms
proof (induction ts arbitrary: pos rule: sql_text.induct)
  case (2 t)
  have n: "next_token (tok_text t) = Some (t, [])" "next_token (CHR '' '' # tok_text t) = Some (t, [])"
    using next_token_lexes [of t "[]"] 2 by simp_all
  have "tok_text t \<noteq> []" using 2 by (simp add: lexes_def)
  then show ?case
    by (simp add: tokenize_from.simps [of _ "tok_text t"] tokenize_from.simps [of _ "CHR '' '' # tok_text t"]
        tokenize_from.simps [of _ "[]"] n)
next
  case (3 t u ts)
  let ?r = "CHR '' '' # sql_text (u # ts)"
  have n: "next_token (tok_text t @ ?r) = Some (t, ?r)" "next_token (CHR '' '' # tok_text t @ ?r) = Some (t, ?r)"
    using next_token_lexes [of t ?r] 3 by simp_all
  have "tokenize_from q ?r = Inr (u # ts)" for q using 3 by simp
  then show ?case
    by (simp add: tokenize_from.simps [of _ "tok_text t @ ?r"] tokenize_from.simps [of _ "CHR '' '' # tok_text t @ ?r"] n)
qed simp

lemma sql_text_ends:
  "list_all lexes ts \<Longrightarrow> ts \<noteq> [] \<Longrightarrow> sql_text ts \<noteq> [] \<and> \<not> py_isspace (last (sql_text ts))"
  by (induction ts rule: sql_text.induct) (auto simp: lexes_def)

lemma tokenize_spaced: "list_all lexes ts \<Longrightarrow> ts \<noteq> [] \<Longrightarrow> tokenize (sql_text ts) = Inr ts \<and> py_strip (sql_text ts) \<noteq> []"
proof -
  assume ts: "list_all lexes ts" "ts \<noteq> []"
  note e = sql_text_ends [OF ts]
  have "rstrip_by py_isspace (sql_text ts) = sql_text ts"
    using e by (cases "sql_text ts" rule: rev_cases) (simp_all add: rstrip_by_def)
  moreover have "py_strip (sql_text ts) \<noteq> []"
    using e by (cases "sql_text ts" rule: rev_cases) (auto simp: py_strip_def strip_by_def rstrip_by_def lstrip_by_def dropWhile_append3)
  ultimately show ?thesis using tokenize_sql_text [OF ts, of 0] by (simp add: tokenize_def)
qed

text \<open>The words, marks and quoted names of a printed predicate are such tokens.\<close>

lemma other_matchers:
  assumes "\<not> ascii_digit c" "c \<notin> set ''+-.''" "c \<noteq> squote" "c \<noteq> dquote" "c \<noteq> bt"
  shows "match_number (c # s) = None" "match_quote squote (c # s) = None" "match_quote dquote (c # s) = None"
    "match_quoted (c # s) = None"
  using assms by (auto simp: match_number_def match_sign_def match_mantissa_def span_def match_quote_def match_quoted_def Let_def)

lemma lexes_word:
  assumes "list_all ascii_alpha w" "w \<noteq> []"
  shows "lexes (kw w)"
proof -
  obtain c cs where w: "w = c # cs" using assms(2) by (cases w) auto
  have "ascii_alpha c" "ascii_alpha (last w)" using assms by (auto simp: w list_all_iff)
  then have a: "\<not> ascii_digit c" "c \<notin> set ''+-.''" "c \<noteq> squote" "c \<noteq> dquote" "c \<noteq> bt" "c \<notin> set ''<>=!(),.''"
    "\<not> py_isspace c" "\<not> py_isspace (last w)"
    by (auto simp: ascii_alpha_def ascii_digit_def py_isspace_def code_def)
  have op: "match_op (c # s) = None" for s
    using a(6) by (simp add: match_op_def op_texts_def)
  have sp: "\<not> word_char (CHR '' '')" by code_simp
  have wc: "list_all word_char w"
    using assms(1) by (auto simp: list_all_iff word_char_def py_isalnum_def latin1_alpha_def ascii_alpha_def)
  have "token_at (w @ r) = Some (kw w, r)" if "r = [] \<or> hd r = CHR '' ''" for r
  proof -
    have "takeWhile word_char (w @ r) = w" "dropWhile word_char (w @ r) = r"
      using that wc sp by (cases r; auto simp: list_all_iff)+
    then have "match_word (w @ r) = Some (w, r)"
      using wc a(1) by (simp add: match_word_def span_def word_start_def w)
    then show ?thesis using other_matchers [OF a(1-5)] op by (simp add: token_at_def w)
  qed
  then show ?thesis using a(7,8) assms(2) by (simp add: lexes_def w)
qed

lemma match_dot: "r = [] \<or> hd r = CHR '' '' \<Longrightarrow> match_number (CHR ''.'' # r) = None"
  by (cases r) (simp_all add: match_number_def match_sign_def match_mantissa_def span_def ascii_digit_def code_def)

lemma match_op_spaced:
  assumes "s \<in> set [''('', '')'', [CHR 0x2C], ''.'', ''='', ''<>'', ''<'', ''<='', ''>'', ''>='', ''<=>'']"
    and "r = [] \<or> hd r = CHR '' ''"
  shows "match_op (s @ r) = Some (s, r)"
proof -
  have "list_all (\<lambda>s. match_op s = Some (s, []))
      [''('', '')'', [CHR 0x2C], ''.'', ''='', ''<>'', ''<'', ''<='', ''>'', ''>='', ''<=>'']" by code_simp
  then have "match_op s = Some (s, [])" using assms(1) by (simp only: list_all_iff)
  moreover have "match_op (s @ CHR '' '' # q) = Some (s, CHR '' '' # q)" for q
    using assms(1) unfolding list.set insert_iff empty_iff match_op_def op_texts_def by (elim disjE) simp_all
  ultimately show ?thesis using assms(2) by (cases r) auto
qed

lemma lexes_symbol:
  assumes "s \<in> set [''('', '')'', [CHR 0x2C], ''.'', ''='', ''<>'', ''<'', ''<='', ''>'', ''>='', ''<=>'']"
  shows "lexes (sy s)"
proof -
  have f: "list_all (\<lambda>s. s \<noteq> [] \<and> \<not> py_isspace (hd s) \<and> \<not> py_isspace (last s) \<and> \<not> ascii_digit (hd s)
        \<and> hd s \<notin> set ''+-'' \<and> hd s \<noteq> squote \<and> hd s \<noteq> dquote \<and> hd s \<noteq> bt \<and> (hd s = CHR ''.'' \<longrightarrow> s = ''.''))
      [''('', '')'', [CHR 0x2C], ''.'', ''='', ''<>'', ''<'', ''<='', ''>'', ''>='', ''<=>'']" by code_simp
  then have h: "s \<noteq> []" "\<not> py_isspace (hd s)" "\<not> py_isspace (last s)" "\<not> ascii_digit (hd s)"
    "hd s \<notin> set ''+-''" "hd s \<noteq> squote" "hd s \<noteq> dquote" "hd s \<noteq> bt" "hd s = CHR ''.'' \<longrightarrow> s = ''.''"
    using assms by (simp_all only: list_all_iff) blast+
  then obtain c cs where s: "s = c # cs" by (cases s) auto
  have "token_at (s @ r) = Some (sy s, r)" if r: "r = [] \<or> hd r = CHR '' ''" for r
  proof -
    have "match_number (s @ r) = None"
    proof (cases "c = CHR ''.''")
      case True
      then show ?thesis using h(9) match_dot [OF r] by (simp add: s)
    next
      case False
      then show ?thesis using other_matchers(1) [of c "cs @ r"] h by (simp add: s)
    qed
    moreover have "match_quote squote (s @ r) = None" "match_quote dquote (s @ r) = None" "match_quoted (s @ r) = None"
      using h by (simp_all add: s match_quote_def match_quoted_def)
    ultimately show ?thesis using match_op_spaced [OF assms r] by (simp add: token_at_def)
  qed
  then show ?thesis using h by (simp add: lexes_def)
qed

lemma scan_quoted_doubled:
  assumes "r = [] \<or> hd r \<noteq> bt"
  shows "b \<or> p \<noteq> [] \<Longrightarrow> scan_quoted b (double_backticks p @ bt # r) = Some (double_backticks p @ [bt], r)"
proof (induction p arbitrary: b)
  case Nil
  then show ?case using assms by (cases r) (auto simp: double_backticks_def)
next
  case (Cons c p)
  then show ?case by (simp add: double_backticks_Cons)
qed

lemma lexes_quoted: "p \<noteq> [] \<Longrightarrow> lexes (quoted_tok p)"
proof -
  assume p: "p \<noteq> []"
  have "token_at (tok_text (quoted_tok p) @ r) = Some (quoted_tok p, r)" if "r = [] \<or> hd r = CHR '' ''" for r
  proof -
    have "r = [] \<or> hd r \<noteq> bt" using that by auto
    from scan_quoted_doubled [OF this, of False p] p
    have "match_quoted (tok_text (quoted_tok p) @ r) = Some (tok_text (quoted_tok p), r)"
      by (simp add: match_quoted_def quoted_tok_def)
    moreover have "match_number (bt # s) = None" for s
      by (simp add: match_number_def match_sign_def match_mantissa_def span_def ascii_digit_def code_def)
    ultimately show ?thesis by (simp add: token_at_def quoted_tok_def match_quote_def)
  qed
  moreover have "\<not> py_isspace bt" by (simp add: py_isspace_def code_def)
  ultimately show ?thesis by (simp add: lexes_def quoted_tok_def)
qed

lemma lexes_join: "lexes t \<Longrightarrow> \<forall>p\<in>set ps. list_all lexes p \<Longrightarrow> list_all lexes (join_with t ps)"
  by (induction t ps rule: join_with.induct) auto

lemma lexes_keywords:
  "lexes (kw ''OR'')" "lexes (kw ''AND'')" "lexes (kw ''NOT'')" "lexes (kw ''IS'')" "lexes (kw ''NULL'')" "lexes (kw ''IN'')"
  "lexes (kw ''BETWEEN'')" "lexes (kw ''LIKE'')" "lexes (kw ''ILIKE'')" "lexes (kw ''TRUE'')" "lexes (kw ''FALSE'')"
  by (rule lexes_word; code_simp)+

lemma lexes_marks:
  "lexes (sy ''('')" "lexes (sy '')'')" "lexes (sy [CHR 0x2C])" "lexes (sy ''.'')" "lexes (sy (cmp_text op))" "lexes (sy ''<=>'')"
  by (cases op; rule lexes_symbol; simp)+

lemma lexes_show:
  "\<forall>v\<in>set (operands_of p). list_all lexes (sp v) \<Longrightarrow> list_all lexes (show_node sp l p)"
  by (induction sp l p rule: show_node.induct)
    (auto simp: parens_def not_kw_def lexes_keywords lexes_marks intro!: lexes_join)

lemma lexes_column: "\<forall>p\<in>set path. p \<noteq> [] \<Longrightarrow> list_all lexes (spell (Column path))"
  by (auto simp: lexes_quoted intro!: lexes_join lexes_marks)

lemma lexes_null: "list_all lexes (spell (Literal LNone ty))"
  by (simp add: lexes_keywords)

text \<open>
  C23: the parser recovers every predicate from its printed text, with exactly SQL's
  precedences: \<open>OR\<close> of \<open>AND\<close>s of \<open>NOT\<close>s needs no parentheses, every other nesting is
  recovered through them, and a parenthesis is never mistaken for a parenthesised operand.  The
  text has a blank between tokens; its operands are written in any way that the lexer and the
  operand parser read back, as quoted column paths (\<open>spells_column\<close>, \<open>lexes_column\<close>), \<open>NULL\<close>,
  \<open>TRUE\<close> and \<open>FALSE\<close> are.
\<close>

theorem parse_show_node:
  assumes "wf_node p" "spells_all sp (operands_of p)" "\<forall>v\<in>set (operands_of p). list_all lexes (sp v)"
  shows "parse (sql_text (show_node sp 0 p)) = Inr p"
proof -
  let ?ts = "show_node sp 0 p"
  have ts: "parse_tokens ?ts = Inr p"
  proof -
    have "ev (\<lambda>n. or_expr n (?ts @ []) = Inr (p, []))"
      using reads_show [OF assms(1,2)] unfolding reads0_def by (metis stop.simps(1))
    then obtain N where N: "or_expr n ?ts = Inr (p, [])" if "N \<le> n" for n
      by (auto simp: eventually_sequentially)
    have "or_expr (parse_fuel ?ts) ?ts \<noteq> Inl OutOfFuel"
      by (rule parser_enough_fuel) (simp add: parse_fuel_def)
    then have "or_expr (max N (parse_fuel ?ts)) ?ts = or_expr (parse_fuel ?ts) ?ts"
      by (rule parser_fuel_mono) simp
    then have "or_expr (parse_fuel ?ts) ?ts = Inr (p, [])" using N [of "max N (parse_fuel ?ts)"] by simp
    then show ?thesis by (simp add: parse_tokens_def)
  qed
  have "\<not> isl (parse_tokens ?ts)" "isl (parse_tokens [])" unfolding ts by (simp, code_simp)
  then have "?ts \<noteq> []" by metis
  then show ?thesis using tokenize_spaced [OF lexes_show [OF assms(3)]] ts by (simp add: parse_def)
qed

text \<open>\<open>NOT `a``b` . `c` IS NULL OR `d` AND ( TRUE OR `e` = NULL )\<close>.\<close>

lemma parse_show_node_witness:
  "parse (sql_text (show_node spell 0
      (NOr [NNot (NIsNull (Column [''a`b'', ''c''])),
            NAnd [NColumn (Column [''d'']), NOr [NTrue, NCmp Eq (Column [''e'']) (Literal LNone ''null'')]]])))
   = Inr (NOr [NNot (NIsNull (Column [''a`b'', ''c''])),
            NAnd [NColumn (Column [''d'']), NOr [NTrue, NCmp Eq (Column [''e'']) (Literal LNone ''null'')]]])"
  by (rule parse_show_node)
    (simp_all add: spells_all_def spells_column spells_null lexes_column lexes_null del: spell.simps)

end
