(* ===== verification/Pred_Skip.thy ===== *)
theory Pred_Skip
  imports Pred_Parse
begin

text \<open>
  \<open>predicate.py\<close>, the file-skipping half: the predicate handed to the kernel
  (\<open>to_kernel_json\<close>).  The kernel form is the datatype \<open>kpred\<close>; the JSON spelling of its
  literals (ISO text, positional decimals) is not modelled, only which literals have one.
  A node is \<open>None\<close> where skipping must not be attempted.
\<close>

section \<open>Arrow types and schemas\<close>

text \<open>The Arrow types the sources tell apart; a schema is its fields in order.\<close>

datatype atype =
    TNull | TBool
  | TInt nat bool
  | TFloat nat
  | TDecimal nat nat int
  | TText nat
  | TBinary nat
  | TDate nat
  | TTimestamp string "string option"
  | TStruct "(string \<times> atype) list"
  | TList atype | TMap atype atype
  | TDictionary atype
  | TOther string

type_synonym schema = "(string \<times> atype) list"

fun is_integer :: "atype \<Rightarrow> bool" where "is_integer (TInt w s) = True" | "is_integer _ = False"
fun is_floating :: "atype \<Rightarrow> bool" where "is_floating (TFloat w) = True" | "is_floating _ = False"
fun is_decimal :: "atype \<Rightarrow> bool" where "is_decimal (TDecimal w p s) = True" | "is_decimal _ = False"
fun is_text :: "atype \<Rightarrow> bool" where "is_text (TText k) = True" | "is_text _ = False"

text \<open>\<open>_resolve_path\<close>: an exact name wins, then a unique name up to case; two are an error.\<close>

datatype path_error = AmbiguousColumn "string list" "string list"

definition field_matches :: "schema \<Rightarrow> string \<Rightarrow> schema" where
  "field_matches flds name =
     (let exact = filter (\<lambda>f. fst f = name) flds in
      if exact \<noteq> [] then exact else filter (\<lambda>f. py_lower (fst f) = py_lower name) flds)"

fun resolve_from :: "string list \<Rightarrow> string list \<Rightarrow> schema \<Rightarrow> string list \<Rightarrow> path_error + (string list \<times> atype) option" where
  "resolve_from whole resolved flds [] = Inr None"
| "resolve_from whole resolved flds (name # rest) =
     (case field_matches flds name of
        [] \<Rightarrow> Inr None
      | [f] \<Rightarrow>
          (if rest = [] then Inr (Some (resolved @ [fst f], snd f))
           else (case snd f of
                   TStruct sub \<Rightarrow> resolve_from whole (resolved @ [fst f]) sub rest
                 | _ \<Rightarrow> Inr None))
      | fs \<Rightarrow> Inl (AmbiguousColumn whole (map fst fs)))"

definition resolve_path :: "schema \<Rightarrow> string list \<Rightarrow> path_error + (string list \<times> atype) option" where
  "resolve_path sch p = resolve_from p [] sch p"

text \<open>\<open>column_type\<close> of \<open>_prepare_skipping\<close>: the type of a column, an error counting as unknown.\<close>

fun column_type :: "schema \<Rightarrow> operand \<Rightarrow> atype option" where
  "column_type sch (Column p) =
     (case resolve_path sch p of Inr (Some (q, t)) \<Rightarrow> Some t | _ \<Rightarrow> None)"
| "column_type sch (Literal v ty) = None"

section \<open>Columns whose statistics cannot decide\<close>

datatype unsafe_kind = UFloat | UDecimal

fun unsafe_walk :: "string list \<Rightarrow> schema \<Rightarrow> (string list \<times> unsafe_kind) list" where
  "unsafe_walk prefix [] = []"
| "unsafe_walk prefix ((name, t) # flds) =
     (let p = prefix @ [py_lower name] in
      (case t of
         TFloat w \<Rightarrow> [(p, UFloat)]
       | TDecimal w prec s \<Rightarrow> (if 15 < prec then [(p, UDecimal)] else [])
       | TStruct sub \<Rightarrow> unsafe_walk p sub
       | _ \<Rightarrow> []))
     @ unsafe_walk prefix flds"

text \<open>The dict: a path written twice keeps its last kind.\<close>

definition unsafe_columns :: "schema \<Rightarrow> string list \<Rightarrow> unsafe_kind option" where
  "unsafe_columns sch = map_of (rev (unsafe_walk [] sch))"

section \<open>The kernel predicate\<close>

datatype kexpr = KColumn "string list" | KLit lit_val string

datatype kpred =
    KCmp cmp_op kexpr kexpr
  | KIsNull kexpr | KIsNotNull kexpr
  | KAnd "kpred list" | KOr "kpred list" | KNot kpred

text \<open>\<open>_literal_json\<close>: a literal with no JSON form (\<open>_Unrenderable\<close>) is \<open>None\<close>.\<close>

fun expr_json :: "operand \<Rightarrow> kexpr option" where
  "expr_json (Column p) = Some (KColumn p)"
| "expr_json (Literal v ty) =
     (case v of
        LFloat f \<Rightarrow> if float_finite f then Some (KLit v ty) else None
      | LDate d \<Rightarrow> Some (KLit v ''date'')
      | LDec d \<Rightarrow> Some (KLit v ''decimal'')
      | _ \<Rightarrow> Some (KLit v ty))"

fun is_null_literal :: "operand \<Rightarrow> bool" where
  "is_null_literal (Literal LNone ty) = True"
| "is_null_literal _ = False"

fun is_col :: "operand \<Rightarrow> bool" where
  "is_col (Column p) = True" | "is_col (Literal v ty) = False"

definition cmp_json :: "cmp_op \<Rightarrow> operand \<Rightarrow> operand \<Rightarrow> kpred option" where
  "cmp_json op a b =
     (case (expr_json a, expr_json b) of (Some x, Some y) \<Rightarrow> Some (KCmp op x y) | _ \<Rightarrow> None)"

fun all_some :: "'a option list \<Rightarrow> 'a list option" where
  "all_some [] = Some []"
| "all_some (None # xs) = None"
| "all_some (Some x # xs) = map_option (Cons x) (all_some xs)"

definition negate_if :: "bool \<Rightarrow> kpred \<Rightarrow> kpred" where
  "negate_if neg p = (if neg then KNot p else p)"

text \<open>\<open>_skip_leaf\<close>: \<open>_skip_leaf_unchecked\<close> with \<open>_Unrenderable\<close> caught.\<close>

fun skip_leaf :: "node \<Rightarrow> kpred option" where
  "skip_leaf (NCmp op a b) =
     (if is_null_literal a \<or> is_null_literal b then None else cmp_json op a b)"
| "skip_leaf (NIsNull a) = (if is_col a then map_option KIsNull (expr_json a) else None)"
| "skip_leaf (NIsNotNull a) = (if is_col a then map_option KIsNotNull (expr_json a) else None)"
| "skip_leaf (NIn a items neg) =
     (if \<not> is_col a \<or> list_ex (\<lambda>i. is_col i \<or> is_null_literal i) items then None
      else map_option (\<lambda>ps. negate_if neg (KOr ps)) (all_some (map (cmp_json Eq a) items)))"
| "skip_leaf (NBetween a lo hi neg) =
     map_option (\<lambda>ps. negate_if neg (KAnd ps)) (all_some [cmp_json Ge a lo, cmp_json Le a hi])"
| "skip_leaf _ = None"

fun is_nan_free :: "operand \<Rightarrow> bool" where
  "is_nan_free (Literal v ty) =
     (case v of LNone \<Rightarrow> True | LInt i \<Rightarrow> True | LDec d \<Rightarrow> True | LFloat f \<Rightarrow> f \<noteq> FNan | _ \<Rightarrow> False)"
| "is_nan_free (Column p) = False"

definition kind_used :: "(string list \<Rightarrow> unsafe_kind option) \<Rightarrow> node \<Rightarrow> unsafe_kind \<Rightarrow> bool" where
  "kind_used unsafe n k \<longleftrightarrow> (\<exists>c\<in>columns_of n. unsafe (map py_lower c) = Some k)"

definition nan_side_safe :: "node \<Rightarrow> bool" where
  "nan_side_safe n =
     (case n of
        NCmp Eq a b \<Rightarrow> is_col a \<noteq> is_col b \<and> (is_col a \<or> is_nan_free a) \<and> (is_col b \<or> is_nan_free b)
      | NCmp op a b \<Rightarrow>
          if op = Ne then False
          else if is_col a \<and> (op = Lt \<or> op = Le) then is_nan_free b
          else if is_col b \<and> (op = Gt \<or> op = Ge) then is_nan_free a
          else False
      | NIn a items neg \<Rightarrow> \<not> neg \<and> is_col a \<and> list_all is_nan_free items
      | NBetween a lo hi neg \<Rightarrow> \<not> neg \<and> is_col a \<and> is_nan_free lo \<and> is_nan_free hi
      | _ \<Rightarrow> False)"

definition stats_can_decide :: "node \<Rightarrow> bool \<Rightarrow> (string list \<Rightarrow> unsafe_kind option) \<Rightarrow> bool" where
  "stats_can_decide n exact unsafe =
     (if (\<not> kind_used unsafe n UFloat \<and> \<not> kind_used unsafe n UDecimal)
         \<or> (case n of NIsNull a \<Rightarrow> True | NIsNotNull a \<Rightarrow> True | _ \<Rightarrow> False) then True
      else if kind_used unsafe n UDecimal \<or> exact then False
      else nan_side_safe n)"

text \<open>
  \<open>_skip\<close>: \<open>exact\<close> is carried beneath a NOT.  An AND drops what has no form (not when
  exact); an OR needs all of it.
\<close>

fun the_list :: "'a option list \<Rightarrow> 'a list" where
  "the_list [] = []"
| "the_list (None # xs) = the_list xs"
| "the_list (Some x # xs) = x # the_list xs"

fun skip :: "(string list \<Rightarrow> unsafe_kind option) \<Rightarrow> bool \<Rightarrow> node \<Rightarrow> kpred option" where
  "skip unsafe exact (NAnd ps) =
     (let rendered = map (skip unsafe exact) ps in
      if exact \<and> list_ex (\<lambda>p. p = None) rendered then None
      else case the_list rendered of [] \<Rightarrow> None | [p] \<Rightarrow> Some p | qs \<Rightarrow> Some (KAnd qs))"
| "skip unsafe exact (NOr ps) = map_option KOr (all_some (map (skip unsafe exact) ps))"
| "skip unsafe exact (NNot p) = map_option KNot (skip unsafe True p)"
| "skip unsafe exact n = (if stats_can_decide n exact unsafe then skip_leaf n else None)"

section \<open>Aligning literals and prefixes with the schema\<close>

fun flipped :: "cmp_op \<Rightarrow> cmp_op" where
  "flipped Lt = Gt" | "flipped Le = Ge" | "flipped Gt = Lt" | "flipped Ge = Le"
| "flipped Eq = Eq" | "flipped Ne = Ne"

definition integral :: "rat \<Rightarrow> bool" where
  "integral r \<longleftrightarrow> of_int \<lfloor>r\<rfloor> = r"

definition as_long :: "cmp_op \<Rightarrow> int \<Rightarrow> (operand \<times> cmp_op) option" where
  "as_long op i =
     (if long_min \<le> i \<and> i \<le> long_max then Some (Literal (LInt i) ''long'', op) else None)"

definition integer_literal :: "rat \<Rightarrow> cmp_op \<Rightarrow> (operand \<times> cmp_op) option" where
  "integer_literal r op =
     (if integral r then as_long op \<lfloor>r\<rfloor>
      else if op = Lt \<or> op = Le then as_long Le \<lfloor>r\<rfloor>
      else if op = Gt \<or> op = Ge then as_long Ge \<lceil>r\<rceil>
      else None)"

text \<open>
  \<open>_skip_literal\<close>.  \<open>cast\<close> is Arrow's decimal-to-double cast, \<open>None\<close> where it raises.
\<close>

definition skip_literal :: "(decimal \<Rightarrow> pyfloat option) \<Rightarrow> lit_val \<Rightarrow> atype \<Rightarrow> cmp_op \<Rightarrow> (operand \<times> cmp_op) option" where
  "skip_literal cast v t op =
     (case v of
        LFloat f \<Rightarrow>
          if \<not> float_finite f \<or> \<not> is_integer t \<or> 2 ^ 53 \<le> \<bar>float_value f\<bar> then None
          else integer_literal (float_value f) op
      | LDec d \<Rightarrow>
          if t = TFloat 64 then map_option (\<lambda>f. (Literal (LFloat f) ''double'', op)) (cast d)
          else if \<not> is_integer t then None
          else integer_literal (dec_value d) op
      | _ \<Rightarrow> None)"

text \<open>\<open>_like_prefix\<close>: the literal prefix of a pattern, and whether the pattern is only that.\<close>

fun like_prefix_from :: "utext \<Rightarrow> utext \<Rightarrow> (utext \<times> bool) option" where
  "like_prefix_from out [] = Some (out, True)"
| "like_prefix_from out (c # d # rest) =
     (if c = 92 then like_prefix_from (out @ [d]) rest
      else if c = 37 \<or> c = 95 then (if out \<noteq> [] then Some (out, False) else None)
      else like_prefix_from (out @ [c]) (d # rest))"
| "like_prefix_from out [c] =
     (if c = 37 \<or> c = 95 then (if out \<noteq> [] then Some (out, False) else None)
      else Some (out @ [c], True))"

definition like_prefix :: "utext \<Rightarrow> (utext \<times> bool) option" where
  "like_prefix pattern = like_prefix_from [] pattern"

text \<open>\<open>_after_prefix\<close>, on the reversed prefix: the last character that can be bumped is.\<close>

fun after_prefix_rev :: "utext \<Rightarrow> utext option" where
  "after_prefix_rev [] = None"
| "after_prefix_rev (c # cs) =
     (let n = (if c + 1 = 0xD800 then 0xE000 else c + 1) in
      if n \<le> 0x10FFFF then Some (rev (n # cs)) else after_prefix_rev cs)"

definition after_prefix :: "utext \<Rightarrow> utext option" where
  "after_prefix prefix = after_prefix_rev (rev prefix)"

definition fix_item :: "(decimal \<Rightarrow> pyfloat option) \<Rightarrow> atype \<Rightarrow> operand \<times> cmp_op \<Rightarrow> operand \<times> cmp_op" where
  "fix_item cast t iw =
     (case iw of
        (Literal v ty, want) \<Rightarrow>
          (case skip_literal cast v t want of None \<Rightarrow> iw | Some fixed \<Rightarrow> fixed)
      | _ \<Rightarrow> iw)"

definition prepare_cmp :: "(decimal \<Rightarrow> pyfloat option) \<Rightarrow> schema \<Rightarrow> cmp_op \<Rightarrow> operand \<Rightarrow> operand \<Rightarrow> node" where
  "prepare_cmp cast sch op left right =
     (let flip = (\<not> is_col left \<and> is_col right);
          (column, lit) = (if flip then (right, left) else (left, right));
          wanted = (if flip then flipped op else op)
      in case (column_type sch column, lit) of
           (Some t, Literal v ty) \<Rightarrow>
             (case skip_literal cast v t wanted of
                Some (lit', op') \<Rightarrow> NCmp op' column lit'
              | None \<Rightarrow> NCmp op left right)
         | _ \<Rightarrow> NCmp op left right)"

definition prepare_like :: "schema \<Rightarrow> operand \<Rightarrow> operand \<Rightarrow> node" where
  "prepare_like sch target pattern =
     (let keep = NLike False target pattern False in
      case (column_type sch target, pattern) of
        (Some t, Literal (LStr pat) ty) \<Rightarrow>
          if \<not> is_text t then keep
          else (case like_prefix pat of
            None \<Rightarrow> keep
          | Some (prefix, whole) \<Rightarrow>
              if whole then NCmp Eq target (Literal (LStr prefix) ''string'')
              else let low = NCmp Ge target (Literal (LStr prefix) ''string'') in
                (case after_prefix prefix of
                   None \<Rightarrow> low
                 | Some upper \<Rightarrow> NAnd [low, NCmp Lt target (Literal (LStr upper) ''string'')]))
      | _ \<Rightarrow> keep)"

fun prepare_skipping :: "(decimal \<Rightarrow> pyfloat option) \<Rightarrow> schema \<Rightarrow> bool \<Rightarrow> node \<Rightarrow> node" where
  "prepare_skipping cast sch exact (NAnd ps) = NAnd (map (prepare_skipping cast sch exact) ps)"
| "prepare_skipping cast sch exact (NOr ps) = NOr (map (prepare_skipping cast sch exact) ps)"
| "prepare_skipping cast sch exact (NNot p) = NNot (prepare_skipping cast sch True p)"
| "prepare_skipping cast sch exact (NCmp op a b) = prepare_cmp cast sch op a b"
| "prepare_skipping cast sch exact (NIn a items neg) =
     (case column_type sch a of
        None \<Rightarrow> NIn a items neg
      | Some t \<Rightarrow>
          let fixed = map (\<lambda>i. fix_item cast t (i, Eq)) items in
          if list_ex (\<lambda>f. snd f \<noteq> Eq) fixed then NIn a items neg
          else NIn a (map fst fixed) neg)"
| "prepare_skipping cast sch exact (NBetween a lo hi neg) =
     (case column_type sch a of
        None \<Rightarrow> NBetween a lo hi neg
      | Some t \<Rightarrow> NBetween a (fst (fix_item cast t (lo, Ge))) (fst (fix_item cast t (hi, Le))) neg)"
| "prepare_skipping cast sch exact (NLike ilike a pat neg) =
     (if \<not> ilike \<and> \<not> neg \<and> \<not> exact then prepare_like sch a pat else NLike ilike a pat neg)"
| "prepare_skipping cast sch exact n = n"

definition to_kernel_json :: "(decimal \<Rightarrow> pyfloat option) \<Rightarrow> schema option \<Rightarrow> node \<Rightarrow> kpred option" where
  "to_kernel_json cast sch n =
     (case sch of
        None \<Rightarrow> skip (\<lambda>_. None) False n
      | Some s \<Rightarrow> skip (unsafe_columns s) False (prepare_skipping cast s False n))"

end
