(* ===== verification/Pred_Semantics.thy ===== *)
theory Pred_Semantics
  imports Pred_Skip "HOL-Library.Product_Lexorder" "HOL-Library.List_Lexorder"
begin

text \<open>
  The reference semantics of a predicate: SQL's three-valued logic over one row
  (\<open>bool option\<close>, \<open>None\<close> for NULL) with Spark's comparisons, and what file statistics can
  say of the same row.  It is the specification both consumers of \<open>predicate.py\<close>'s AST
  are held to: file skipping (\<open>Pred_Skip_Sound\<close>) and the exact row filter (\<open>Pred_Filter\<close>).
\<close>

section \<open>Ordering values\<close>

datatype ord3 = Less | Equal | Greater

definition ord_of :: "'a::linorder \<Rightarrow> 'a \<Rightarrow> ord3" where
  "ord_of a b = (if a < b then Less else if a = b then Equal else Greater)"

fun op_holds :: "cmp_op \<Rightarrow> ord3 \<Rightarrow> bool" where
  "op_holds Eq r \<longleftrightarrow> r = Equal"
| "op_holds Ne r \<longleftrightarrow> r \<noteq> Equal"
| "op_holds Lt r \<longleftrightarrow> r = Less"
| "op_holds Le r \<longleftrightarrow> r \<noteq> Greater"
| "op_holds Gt r \<longleftrightarrow> r = Greater"
| "op_holds Ge r \<longleftrightarrow> r \<noteq> Less"

text \<open>Spark's order of doubles: \<open>-0.0\<close> is \<open>0.0\<close>, and NaN equals itself, above everything.\<close>

definition float_key :: "pyfloat \<Rightarrow> int \<times> rat" where
  "float_key f =
     (case f of FInf neg \<Rightarrow> (if neg then - 1 else 1, 0) | FNan \<Rightarrow> (2, 0)
      | FNegZero \<Rightarrow> (0, 0) | FFin r \<Rightarrow> (0, r))"

text \<open>\<open>cast\<close> is Arrow's decimal-to-double cast, \<open>None\<close> where it raises.\<close>

fun as_float :: "(decimal \<Rightarrow> pyfloat option) \<Rightarrow> lit_val \<Rightarrow> pyfloat option" where
  "as_float cast (LFloat f) = Some f"
| "as_float cast (LInt i) = Some (float_of_int i)"
| "as_float cast (LDec d) = cast d"
| "as_float cast _ = None"

fun exact_number :: "lit_val \<Rightarrow> rat option" where
  "exact_number (LInt i) = Some (of_int i)"
| "exact_number (LDec d) = Some (dec_value d)"
| "exact_number _ = None"

fun is_lfloat :: "lit_val \<Rightarrow> bool" where "is_lfloat (LFloat f) = True" | "is_lfloat _ = False"

definition order_by :: "('v \<Rightarrow> 'k::linorder option) \<Rightarrow> 'v \<Rightarrow> 'v \<Rightarrow> ord3 option" where
  "order_by key v w =
     (case (key v, key w) of (Some a, Some b) \<Rightarrow> Some (ord_of a b) | _ \<Rightarrow> None)"

fun text_key :: "lit_val \<Rightarrow> utext option" where "text_key (LStr s) = Some s" | "text_key _ = None"
fun bool_key :: "lit_val \<Rightarrow> bool option" where "bool_key (LBool b) = Some b" | "bool_key _ = None"

fun time_key :: "lit_val \<Rightarrow> int option" where
  "time_key (LDate d) = Some (to_ordinal d * micros_per_day)"
| "time_key (LDateTime t) = Some (dt_instant t)"
| "time_key _ = None"

text \<open>
  Numbers compare as doubles where either is one, and exactly otherwise; a pair of values of
  no common type has no order.
\<close>

definition value_order :: "(decimal \<Rightarrow> pyfloat option) \<Rightarrow> lit_val \<Rightarrow> lit_val \<Rightarrow> ord3 option" where
  "value_order cast v w =
     (if is_lfloat v \<or> is_lfloat w then order_by (\<lambda>x. map_option float_key (as_float cast x)) v w
      else if exact_number v \<noteq> None then order_by exact_number v w
      else if text_key v \<noteq> None then order_by text_key v w
      else if bool_key v \<noteq> None then order_by bool_key v w
      else order_by time_key v w)"

fun flip3 :: "ord3 \<Rightarrow> ord3" where "flip3 Less = Greater" | "flip3 Equal = Equal" | "flip3 Greater = Less"

section \<open>LIKE\<close>

text \<open>
  A pattern in the escaped form the parser stores: a backslash takes the next character
  literally, \<open>%\<close> matches any text and \<open>_\<close> one character.
\<close>

fun like_match :: "utext \<Rightarrow> utext \<Rightarrow> bool" where
  "like_match [] s \<longleftrightarrow> s = []"
| "like_match [c] s \<longleftrightarrow>
     (if c = 37 then True else if c = 95 then length s = 1 else s = [c])"
| "like_match (c # d # rest) s \<longleftrightarrow>
     (if c = 92 then (case s of [] \<Rightarrow> False | x # xs \<Rightarrow> x = d \<and> like_match rest xs)
      else if c = 37 then list_ex (\<lambda>i. like_match (d # rest) (drop i s)) [0..<Suc (length s)]
      else if c = 95 then (case s of [] \<Rightarrow> False | x # xs \<Rightarrow> like_match (d # rest) xs)
      else (case s of [] \<Rightarrow> False | x # xs \<Rightarrow> x = c \<and> like_match (d # rest) xs))"

section \<open>Three-valued evaluation\<close>

definition conj3 :: "bool option list \<Rightarrow> bool option" where
  "conj3 xs = (if Some False \<in> set xs then Some False else if None \<in> set xs then None else Some True)"

definition disj3 :: "bool option list \<Rightarrow> bool option" where
  "disj3 xs = (if Some True \<in> set xs then Some True else if None \<in> set xs then None else Some False)"

abbreviation not3 :: "bool option \<Rightarrow> bool option" where "not3 \<equiv> map_option Not"

type_synonym row = "string list \<Rightarrow> lit_val"

fun operand_value :: "row \<Rightarrow> operand \<Rightarrow> lit_val" where
  "operand_value env (Column p) = env p"
| "operand_value env (Literal v ty) = v"

definition cmp3 :: "(decimal \<Rightarrow> pyfloat option) \<Rightarrow> cmp_op \<Rightarrow> lit_val \<Rightarrow> lit_val \<Rightarrow> bool option" where
  "cmp3 cast op v w = map_option (op_holds op) (value_order cast v w)"

definition negated3 :: "bool \<Rightarrow> bool option \<Rightarrow> bool option" where
  "negated3 neg b = (if neg then not3 b else b)"

text \<open>
  \<open>like'\<close> gives ILIKE, and LIKE on a column that is not text (Spark compares its text):
  the case folding and the printing of values are Arrow's.
\<close>

definition like3 :: "(bool \<Rightarrow> lit_val \<Rightarrow> lit_val \<Rightarrow> bool option) \<Rightarrow> bool \<Rightarrow> lit_val \<Rightarrow> lit_val \<Rightarrow> bool option" where
  "like3 like' ilike v pat =
     (case (ilike, v, pat) of
        (False, LStr s, LStr p) \<Rightarrow> Some (like_match p s)
      | (_, LNone, _) \<Rightarrow> None
      | _ \<Rightarrow> like' ilike v pat)"

fun sql_eval :: "(decimal \<Rightarrow> pyfloat option) \<Rightarrow> (bool \<Rightarrow> lit_val \<Rightarrow> lit_val \<Rightarrow> bool option) \<Rightarrow> row
    \<Rightarrow> node \<Rightarrow> bool option" where
  "sql_eval cast like' env (NAnd ps) = conj3 (map (sql_eval cast like' env) ps)"
| "sql_eval cast like' env (NOr ps) = disj3 (map (sql_eval cast like' env) ps)"
| "sql_eval cast like' env (NNot p) = not3 (sql_eval cast like' env p)"
| "sql_eval cast like' env (NCmp op a b) = cmp3 cast op (operand_value env a) (operand_value env b)"
| "sql_eval cast like' env (NEqNullSafe a b) =
     (let v = operand_value env a; w = operand_value env b in
      if v = LNone \<and> w = LNone then Some True
      else Some (cmp3 cast Eq v w = Some True))"
| "sql_eval cast like' env (NIsNull a) = Some (operand_value env a = LNone)"
| "sql_eval cast like' env (NIsNotNull a) = Some (operand_value env a \<noteq> LNone)"
| "sql_eval cast like' env (NIn a items neg) =
     negated3 neg (disj3 (map (\<lambda>i. cmp3 cast Eq (operand_value env a) (operand_value env i)) items))"
| "sql_eval cast like' env (NBetween a lo hi neg) =
     negated3 neg (conj3 [cmp3 cast Ge (operand_value env a) (operand_value env lo),
                          cmp3 cast Le (operand_value env a) (operand_value env hi)])"
| "sql_eval cast like' env (NLike ilike a pat neg) =
     negated3 neg (like3 like' ilike (operand_value env a) (operand_value env pat))"
| "sql_eval cast like' env NTrue = Some True"
| "sql_eval cast like' env NFalse = Some False"
| "sql_eval cast like' env (NColumn a) = bool_key (operand_value env a)"

section \<open>What statistics say of a row\<close>

text \<open>
  A row as min/max statistics record it: a NaN is left out of them, and those of a
  \<open>blind\<close> column (a wide decimal, written as a double) decide nothing.
\<close>

fun stat_value :: "(string list \<Rightarrow> bool) \<Rightarrow> row \<Rightarrow> kexpr \<Rightarrow> lit_val" where
  "stat_value blind env (KColumn p) = (if blind p \<or> env p = LFloat FNan then LNone else env p)"
| "stat_value blind env (KLit v ty) = v"

fun null_value :: "row \<Rightarrow> kexpr \<Rightarrow> lit_val" where
  "null_value env (KColumn p) = env p"
| "null_value env (KLit v ty) = v"

fun stat_eval :: "(decimal \<Rightarrow> pyfloat option) \<Rightarrow> (string list \<Rightarrow> bool) \<Rightarrow> row \<Rightarrow> kpred \<Rightarrow> bool option" where
  "stat_eval cast blind env (KCmp op a b) = cmp3 cast op (stat_value blind env a) (stat_value blind env b)"
| "stat_eval cast blind env (KIsNull a) = Some (null_value env a = LNone)"
| "stat_eval cast blind env (KIsNotNull a) = Some (null_value env a \<noteq> LNone)"
| "stat_eval cast blind env (KAnd ps) = conj3 (map (stat_eval cast blind env) ps)"
| "stat_eval cast blind env (KOr ps) = disj3 (map (stat_eval cast blind env) ps)"
| "stat_eval cast blind env (KNot p) = not3 (stat_eval cast blind env p)"

section \<open>Lemmas on the three-valued connectives\<close>

lemma disj3_Nil [simp]: "disj3 [] = Some False" by (simp add: disj3_def)

lemma conj3_True [simp]: "conj3 xs = Some True \<longleftrightarrow> (\<forall>x\<in>set xs. x = Some True)"
proof -
  have tv: "x = Some True \<longleftrightarrow> x \<noteq> Some False \<and> x \<noteq> None" for x :: "bool option"
    by (cases x) auto
  have "(\<forall>x\<in>set xs. x = Some True) \<longleftrightarrow> Some False \<notin> set xs \<and> None \<notin> set xs"
    using tv by metis
  then show ?thesis by (simp add: conj3_def del: ball_simps)
qed

lemma disj3_True [simp]: "disj3 xs = Some True \<longleftrightarrow> Some True \<in> set xs"
  by (simp add: disj3_def)

lemma conj3_single [simp]: "conj3 [x] = x"
  by (cases x) (auto simp: conj3_def)

lemma value_order_null: "value_order cast LNone w = None" "value_order cast v LNone = None"
  subgoal by (cases w) (simp_all add: value_order_def order_by_def)
  subgoal by (cases v) (simp_all add: value_order_def order_by_def)
  done

lemma cmp3_null [simp]: "cmp3 cast op LNone w = None" "cmp3 cast op v LNone = None"
  by (simp_all add: cmp3_def value_order_null)

lemma ord_of_flip: "ord_of b a = flip3 (ord_of a b)"
  by (auto simp: ord_of_def)

lemma op_holds_flip: "op_holds (flipped op) (flip3 r) = op_holds op r"
  by (cases op; cases r) simp_all

lemma order_by_flip: "order_by key w v = map_option flip3 (order_by key v w)"
  by (auto simp: order_by_def ord_of_flip [symmetric] split: option.splits)

lemma value_order_flip: "value_order cast w v = map_option flip3 (value_order cast v w)"
proof (cases "is_lfloat v \<or> is_lfloat w")
  case True
  then have "is_lfloat w \<or> is_lfloat v" by blast
  with True show ?thesis unfolding value_order_def by (simp only: if_True order_by_flip [of _ w v])
next
  case False
  then show ?thesis
    by (cases v; cases w) (simp_all add: value_order_def order_by_def ord_of_flip [symmetric])
qed

lemma cmp3_flip: "cmp3 cast (flipped op) w v = cmp3 cast op v w"
  by (simp add: cmp3_def value_order_flip [of cast w v] option.map_comp o_def op_holds_flip)

end
