(* ===== verification/Pred_Skip_Sound.thy ===== *)
theory Pred_Skip_Sound
  imports Pred_Semantics
begin

text \<open>
  File skipping never loses a row: where \<open>to_kernel_json\<close> hands the kernel a predicate, a
  row the query keeps also satisfies it on the statistics.  First \<open>_skip\<close> on its own, for
  any choice of unsafe columns, then \<open>_prepare_skipping\<close>'s rewrites (literals, LIKE
  prefixes), then the whole function and a scan that uses it.
\<close>

section \<open>NaN\<close>

lemma float_of_rat_not_nan [simp]: "float_of_rat r \<noteq> FNan"
  by (auto simp: float_of_rat_def Let_def)

text \<open>What is assumed of Arrow's cast of a decimal: it gives no NaN.\<close>

definition cast_no_nan :: "(decimal \<Rightarrow> pyfloat option) \<Rightarrow> bool" where
  "cast_no_nan cast \<longleftrightarrow> (\<forall>d. cast d \<noteq> Some FNan)"

lemma key_below_nan: "f \<noteq> FNan \<Longrightarrow> float_key f < (2, 0)"
  by (cases f) (auto simp: float_key_def)

lemma nan_free_order:
  assumes "cast_no_nan cast" "is_nan_free (Literal v ty)"
  shows "value_order cast (LFloat FNan) v \<in> {None, Some Greater}"
proof -
  have "f \<noteq> FNan" if "as_float cast v = Some f" for f
    using assms that by (cases v) (auto simp: cast_no_nan_def float_of_int_def)
  then have "float_key f < (2, 0)" if "as_float cast v = Some f" for f
    using key_below_nan that by blast
  then show ?thesis
    by (auto simp: value_order_def order_by_def ord_of_def float_key_def [of FNan] split: option.splits)
qed

lemma nan_never:
  assumes "cast_no_nan cast" "is_nan_free a"
  shows "op \<in> {Eq, Lt, Le} \<Longrightarrow> cmp3 cast op (LFloat FNan) (operand_value env a) \<noteq> Some True"
    and "op \<in> {Eq, Gt, Ge} \<Longrightarrow> cmp3 cast op (operand_value env a) (LFloat FNan) \<noteq> Some True"
proof -
  obtain v ty where a: "a = Literal v ty" using assms(2) by (cases a) auto
  have ord: "value_order cast (LFloat FNan) v \<in> {None, Some Greater}"
    using nan_free_order assms a by blast
  show "op \<in> {Eq, Lt, Le} \<Longrightarrow> cmp3 cast op (LFloat FNan) (operand_value env a) \<noteq> Some True"
    using ord by (auto simp: cmp3_def a)
  show "op \<in> {Eq, Gt, Ge} \<Longrightarrow> cmp3 cast op (operand_value env a) (LFloat FNan) \<noteq> Some True"
    using ord by (auto simp: cmp3_def a value_order_flip [of cast v "LFloat FNan"])
qed

section \<open>A leaf\<close>

text \<open>The columns of a node have statistics that mean what they say, in this row.\<close>

definition clean :: "(string list \<Rightarrow> bool) \<Rightarrow> row \<Rightarrow> node \<Rightarrow> bool" where
  "clean blind env n \<longleftrightarrow> (\<forall>c\<in>columns_of n. \<not> blind c \<and> env c \<noteq> LFloat FNan)"

text \<open>The unsafe map names every column that may hold a NaN, and every blind one.\<close>

definition covers :: "(string list \<Rightarrow> unsafe_kind option) \<Rightarrow> (string list \<Rightarrow> bool) \<Rightarrow> row \<Rightarrow> bool" where
  "covers unsafe blind env \<longleftrightarrow>
     (\<forall>c. (env c = LFloat FNan \<longrightarrow> unsafe (map py_lower c) = Some UFloat)
        \<and> (blind c \<longrightarrow> unsafe (map py_lower c) = Some UDecimal))"

lemma expr_json_value:
  assumes "expr_json a = Some e" "\<forall>c\<in>operand_columns a. \<not> blind c \<and> env c \<noteq> LFloat FNan"
  shows "stat_value blind env e = operand_value env a"
proof (cases a)
  case (Column p)
  with assms show ?thesis by auto
next
  case (Literal v ty)
  with assms(1) show ?thesis by (cases v) (auto split: if_splits)
qed

lemma cmp_json_value:
  assumes "cmp_json op a b = Some k"
    "\<forall>c\<in>operand_columns a \<union> operand_columns b. \<not> blind c \<and> env c \<noteq> LFloat FNan"
  shows "stat_eval cast blind env k = cmp3 cast op (operand_value env a) (operand_value env b)"
  using assms
  by (auto simp: cmp_json_def expr_json_value split: option.splits)

lemma all_some_map:
  "all_some xs = Some ys \<longleftrightarrow> xs = map Some ys"
proof (induction xs arbitrary: ys)
  case Nil
  then show ?case by auto
next
  case (Cons x xs)
  then show ?case by (cases x; cases ys) auto
qed

lemma cmp_json_list:
  assumes "all_some (map (cmp_json Eq a) items) = Some ks"
    "\<forall>c\<in>operand_columns a \<union> (\<Union>i\<in>set items. operand_columns i). \<not> blind c \<and> env c \<noteq> LFloat FNan"
  shows "map (stat_eval cast blind env) ks
    = map (\<lambda>i. cmp3 cast Eq (operand_value env a) (operand_value env i)) items"
  using assms
proof (induction items arbitrary: ks)
  case Nil
  then show ?case by simp
next
  case (Cons i items)
  then obtain k ks' where k: "cmp_json Eq a i = Some k" "ks = k # ks'"
    "all_some (map (cmp_json Eq a) items) = Some ks'"
    by (auto simp: all_some_map)
  then show ?case using Cons cmp_json_value [OF k(1), of blind env cast] by auto
qed

lemma stat_eval_negate: "stat_eval cast blind env (negate_if neg k) = negated3 neg (stat_eval cast blind env k)"
  by (simp add: negate_if_def negated3_def)

lemma null_leaf_exact:
  assumes "expr_json a = Some e" "is_col a"
  shows "null_value env e = operand_value env a"
  using assms by (cases a) auto

lemma skip_leaf_exact:
  assumes "skip_leaf n = Some k" "clean blind env n"
  shows "stat_eval cast blind env k = sql_eval cast lk env n"
  using assms
proof (cases n)
  case (NCmp op a b)
  then show ?thesis
    using assms cmp_json_value [of op a b k blind env cast] by (auto simp: clean_def split: if_splits)
next
  case (NIn a items neg)
  then obtain ks where ks: "all_some (map (cmp_json Eq a) items) = Some ks" "k = negate_if neg (KOr ks)"
    using assms by (auto split: if_splits)
  then show ?thesis
    using NIn assms(2) cmp_json_list [OF ks(1), of blind env cast]
    by (simp add: clean_def stat_eval_negate)
next
  case (NBetween a lo hi neg)
  then obtain k1 k2 where ks: "cmp_json Ge a lo = Some k1" "cmp_json Le a hi = Some k2"
    "k = negate_if neg (KAnd [k1, k2])"
    using assms(1) by (auto simp: all_some_map)
  have "stat_eval cast blind env k1 = cmp3 cast Ge (operand_value env a) (operand_value env lo)"
    using NBetween assms(2) by (intro cmp_json_value [OF ks(1)]) (auto simp: clean_def)
  moreover have "stat_eval cast blind env k2 = cmp3 cast Le (operand_value env a) (operand_value env hi)"
    using NBetween assms(2) by (intro cmp_json_value [OF ks(2)]) (auto simp: clean_def)
  ultimately show ?thesis using NBetween ks(3) by (simp add: stat_eval_negate)
qed (auto simp: null_leaf_exact split: if_splits)

lemma safe_leaf_not_nan:
  assumes cast: "cast_no_nan cast" and safe: "nan_side_safe n"
    and holds: "sql_eval cast lk env n = Some True" and c: "c \<in> columns_of n"
  shows "env c \<noteq> LFloat FNan"
proof
  assume nan: "env c = LFloat FNan"
  note never = nan_never [OF cast, of _ _ env]
  show False
  proof (cases n)
    case (NCmp op a b)
    have "is_col a \<and> is_nan_free b \<and> op \<in> {Eq, Lt, Le} \<or> is_col b \<and> is_nan_free a \<and> op \<in> {Eq, Gt, Ge}"
      using safe NCmp by (cases op; cases a; cases b) (auto simp: nan_side_safe_def split: if_splits)
    then show False
    proof
      assume h: "is_col a \<and> is_nan_free b \<and> op \<in> {Eq, Lt, Le}"
      then have "a = Column c" using c NCmp by (cases a; cases b) auto
      then show False using h holds nan never(1) [of b op] by (simp add: NCmp)
    next
      assume h: "is_col b \<and> is_nan_free a \<and> op \<in> {Eq, Gt, Ge}"
      then have "b = Column c" using c NCmp by (cases a; cases b) auto
      then show False using h holds nan never(2) [of a op] by (simp add: NCmp)
    qed
  next
    case (NIn a items neg)
    then have h: "\<not> neg" "is_col a" "list_all is_nan_free items"
      using safe by (auto simp: nan_side_safe_def)
    then have "operand_columns i = {}" if "i \<in> set items" for i
      using that by (cases i) (auto simp: list_all_iff)
    then have "a = Column c" using c NIn h by (cases a) auto
    moreover obtain i where "i \<in> set items" "cmp3 cast Eq (operand_value env a) (operand_value env i) = Some True"
      using holds NIn h by (auto simp: negated3_def)
    ultimately show False using never(1) [of i Eq] nan h by (simp add: list_all_iff)
  next
    case (NBetween a lo hi neg)
    then have h: "\<not> neg" "is_col a" "is_nan_free lo" "is_nan_free hi"
      using safe by (auto simp: nan_side_safe_def)
    then have "a = Column c" using c NBetween by (cases a; cases lo; cases hi) auto
    then show False
      using never(1) [of hi Le] holds NBetween h nan by (simp add: negated3_def)
  qed (use safe in \<open>auto simp: nan_side_safe_def\<close>)
qed

lemma unused_clean:
  assumes "covers unsafe blind env" "\<not> kind_used unsafe n UDecimal"
    "\<forall>c\<in>columns_of n. env c \<noteq> LFloat FNan"
  shows "clean blind env n"
  using assms by (auto simp: clean_def covers_def kind_used_def)

lemma leaf_sound:
  assumes cast: "cast_no_nan cast" and cov: "covers unsafe blind env"
    and dec: "stats_can_decide n exact unsafe" and k: "skip_leaf n = Some k"
  shows "(exact \<longrightarrow> stat_eval cast blind env k = sql_eval cast lk env n)
    \<and> (sql_eval cast lk env n = Some True \<longrightarrow> stat_eval cast blind env k = Some True)"
proof -
  consider (null) a where "n = NIsNull a \<or> n = NIsNotNull a"
    | (unused) "\<not> kind_used unsafe n UFloat" "\<not> kind_used unsafe n UDecimal"
    | (safe) "\<not> kind_used unsafe n UDecimal" "\<not> exact" "nan_side_safe n"
    using dec by (auto simp: stats_can_decide_def split: if_splits node.splits)
  then show ?thesis
  proof cases
    case null
    then show ?thesis using k by (auto simp: null_leaf_exact split: if_splits)
  next
    case unused
    then have "clean blind env n"
      by (intro unused_clean [OF cov]) (use cov in \<open>auto simp: covers_def kind_used_def\<close>)
    then show ?thesis using skip_leaf_exact [OF k, of blind env cast lk] by simp
  next
    case safe
    have "stat_eval cast blind env k = Some True" if "sql_eval cast lk env n = Some True"
      using skip_leaf_exact [OF k unused_clean [OF cov safe(1)], of cast lk]
        safe_leaf_not_nan [OF cast safe(3) that] that by simp
    then show ?thesis using safe(2) by blast
  qed
qed

section \<open>\<open>_skip\<close>\<close>

lemma the_list_set: "k \<in> set (the_list xs) \<longleftrightarrow> Some k \<in> set xs"
  by (induction xs rule: the_list.induct) auto

lemma the_list_map_Some [simp]: "the_list (map Some ks) = ks"
  by (induction ks) auto

lemma no_None_map_Some: "\<not> list_ex (\<lambda>p. p = None) xs \<Longrightarrow> xs = map Some (the_list xs)"
  by (induction xs rule: the_list.induct) auto

text \<open>\<open>P exact n\<close>: what \<open>_skip\<close> renders of \<open>n\<close> is right for the row.\<close>

definition renders :: "(decimal \<Rightarrow> pyfloat option) \<Rightarrow> (bool \<Rightarrow> lit_val \<Rightarrow> lit_val \<Rightarrow> bool option)
    \<Rightarrow> (string list \<Rightarrow> bool) \<Rightarrow> row \<Rightarrow> bool \<Rightarrow> node \<Rightarrow> kpred \<Rightarrow> bool" where
  "renders cast lk blind env exact n k \<longleftrightarrow>
     (exact \<longrightarrow> stat_eval cast blind env k = sql_eval cast lk env n)
     \<and> (sql_eval cast lk env n = Some True \<longrightarrow> stat_eval cast blind env k = Some True)"

lemma renders_and:
  assumes IH: "\<And>p k. p \<in> set ps \<Longrightarrow> skip u exact p = Some k \<Longrightarrow> renders cast lk blind env exact p k"
    and k: "skip u exact (NAnd ps) = Some k"
  shows "renders cast lk blind env exact (NAnd ps) k"
proof -
  let ?rs = "map (skip u exact) ps"
  let ?ks = "the_list ?rs"
  have ex: "exact \<Longrightarrow> \<not> list_ex (\<lambda>p. p = None) ?rs" using k by (auto simp: Let_def)
  have k': "?ks \<noteq> []" "k = (if length ?ks = 1 then hd ?ks else KAnd ?ks)"
    using k by (auto simp: Let_def split: if_splits list.splits)
  have val: "stat_eval cast blind env k = conj3 (map (stat_eval cast blind env) ?ks)"
    using k' by (cases ?ks) auto
  have "stat_eval cast blind env k = sql_eval cast lk env (NAnd ps)" if exact
  proof -
    have rs: "?rs = map Some ?ks" by (rule no_None_map_Some [OF ex [OF that]])
    have "map (stat_eval cast blind env) ?ks = map (sql_eval cast lk env) ps"
    proof (rule nth_equalityI)
      show "length (map (stat_eval cast blind env) ?ks) = length (map (sql_eval cast lk env) ps)"
        using arg_cong [OF rs, of length] by simp
      fix i
      assume i: "i < length (map (stat_eval cast blind env) ?ks)"
      then have i': "i < length ps" using arg_cong [OF rs, of length] by simp
      have "skip u exact (ps ! i) = Some (?ks ! i)"
        using arg_cong [OF rs, of "\<lambda>l. l ! i"] i i' by simp
      then show "map (stat_eval cast blind env) ?ks ! i = map (sql_eval cast lk env) ps ! i"
        using IH [of "ps ! i"] i i' that by (simp add: renders_def)
    qed
    then show ?thesis by (simp add: val)
  qed
  moreover have "stat_eval cast blind env k = Some True" if "sql_eval cast lk env (NAnd ps) = Some True"
  proof -
    have "stat_eval cast blind env q = Some True" if q: "q \<in> set ?ks" for q
    proof -
      obtain p where "p \<in> set ps" "skip u exact p = Some q"
        using q by (auto simp: the_list_set)
      then show ?thesis
        using IH \<open>sql_eval cast lk env (NAnd ps) = Some True\<close> by (auto simp: renders_def)
    qed
    then show ?thesis by (simp add: val)
  qed
  ultimately show ?thesis by (simp add: renders_def)
qed

lemma renders_or:
  assumes IH: "\<And>p k. p \<in> set ps \<Longrightarrow> skip u exact p = Some k \<Longrightarrow> renders cast lk blind env exact p k"
    and k: "skip u exact (NOr ps) = Some k"
  shows "renders cast lk blind env exact (NOr ps) k"
proof -
  obtain ks where ks: "map (skip u exact) ps = map Some ks" "k = KOr ks"
    using k by (auto simp: all_some_map)
  then have "list_all2 (\<lambda>p k. p \<in> set ps \<and> skip u exact p = Some k) ps ks"
    by (auto simp: list_all2_conv_all_nth list_eq_iff_nth_eq)
  then have all: "list_all2 (renders cast lk blind env exact) ps ks"
    by (rule list_all2_mono) (use IH in blast)
  then have "exact \<Longrightarrow> map (stat_eval cast blind env) ks = map (sql_eval cast lk env) ps"
    by (auto simp: list_all2_conv_all_nth list_eq_iff_nth_eq renders_def)
  moreover have "Some True \<in> set (map (stat_eval cast blind env) ks)"
    if some: "Some True \<in> set (map (sql_eval cast lk env) ps)"
  proof -
    obtain p where p: "p \<in> set ps" "sql_eval cast lk env p = Some True"
      using some by auto
    then obtain i where i: "i < length ps" "sql_eval cast lk env (ps ! i) = Some True"
      by (auto simp: in_set_conv_nth)
    then have "i < length ks" "stat_eval cast blind env (ks ! i) = Some True"
      using all by (auto simp: list_all2_conv_all_nth renders_def)
    then show ?thesis by (metis length_map nth_map nth_mem)
  qed
  ultimately show ?thesis using ks(2) by (auto simp: renders_def)
qed

lemma skip_renders:
  assumes "cast_no_nan cast" "covers u blind env"
  shows "skip u exact n = Some k \<Longrightarrow> renders cast lk blind env exact n k"
proof (induction n arbitrary: exact k)
  case (NAnd ps)
  then show ?case using renders_and by blast
next
  case (NOr ps)
  then show ?case using renders_or by blast
next
  case (NNot p)
  then obtain k' where "skip u True p = Some k'" "k = KNot k'" by auto
  then show ?case using NNot.IH [of True k'] by (auto simp: renders_def)
qed (unfold renders_def, (rule leaf_sound [OF assms]; simp split: if_splits)+)

end
