(* ===== verification/Pred_Align.thy ===== *)
theory Pred_Align
  imports Pred_Skip_Sound
begin

text \<open>
  The rewrites \<open>_prepare_skipping\<close> makes before skipping: a LIKE with a literal prefix
  becomes a range of strings, and a literal becomes one of its column's type.  The ranges
  are the tightest ones, and the comparisons move no boundary.
\<close>

section \<open>The prefix of a pattern\<close>

lemma like_prefix_from_match:
  "like_prefix_from out pat = Some (pre, whole) \<Longrightarrow>
     \<exists>ext. pre = out @ ext \<and> (whole \<longrightarrow> (\<forall>s. like_match pat s \<longleftrightarrow> s = ext))
         \<and> (\<forall>s. like_match pat s \<longrightarrow> (\<exists>t. s = ext @ t))"
proof (induction out pat rule: like_prefix_from.induct)
  case (1 out)
  then show ?case by auto
next
  case (2 out c d rest)
  show ?case
  proof (cases "c = 92")
    case True
    then obtain ext where "pre = (out @ [d]) @ ext" "whole \<longrightarrow> (\<forall>s. like_match rest s \<longleftrightarrow> s = ext)"
      "\<forall>s. like_match rest s \<longrightarrow> (\<exists>t. s = ext @ t)"
      using "2.IH"(1) "2.prems" by auto
    with True show ?thesis
      by (intro exI [of _ "d # ext"]) (auto split: list.splits)
  next
    case False
    show ?thesis
    proof (cases "c = 37 \<or> c = 95")
      case True
      with False "2.prems" show ?thesis by (auto split: if_splits)
    next
      case lit: False
      then obtain ext where "pre = (out @ [c]) @ ext" "whole \<longrightarrow> (\<forall>s. like_match (d # rest) s \<longleftrightarrow> s = ext)"
        "\<forall>s. like_match (d # rest) s \<longrightarrow> (\<exists>t. s = ext @ t)"
        using "2.IH"(2) "2.prems" False by auto
      with False lit show ?thesis
        by (intro exI [of _ "c # ext"]) (auto split: list.splits)
    qed
  qed
next
  case (3 out c)
  then show ?case by (auto split: if_splits)
qed

lemma like_prefix_match:
  assumes "like_prefix pat = Some (pre, whole)"
  shows "whole \<Longrightarrow> like_match pat s \<longleftrightarrow> s = pre" and "like_match pat s \<Longrightarrow> \<exists>t. s = pre @ t"
  using like_prefix_from_match [of "[]" pat pre whole] assms by (auto simp: like_prefix_def)

section \<open>The string after a prefix\<close>

lemma append_less_append [simp]: "(p @ a < p @ b) = (a < (b :: utext))"
  by (induction p) auto

lemma append_less_self [simp]: "(p < p @ a) = (a \<noteq> ([] :: utext))"
  by (induction p) (simp_all, cases a, simp_all)

lemma prefix_le: "p \<le> p @ (t :: utext)"
  by (induction p) auto

lemma after_prefix_rev_upper: "after_prefix_rev cs = Some u \<Longrightarrow> rev cs @ t < u"
proof (induction cs arbitrary: t)
  case (Cons c cs)
  show ?case
  proof (cases "(if c + 1 = 0xD800 then 0xE000 else c + 1) \<le> 0x10FFFF")
    case True
    with Cons.prems have "u = rev cs @ [if c + 1 = 0xD800 then 0xE000 else c + 1]"
      by (auto simp: Let_def split: if_splits)
    then show ?thesis by auto
  next
    case False
    with Cons.prems have "after_prefix_rev cs = Some u" by (auto simp: Let_def split: if_splits)
    from Cons.IH [OF this, of "c # t"] show ?thesis by simp
  qed
qed simp

lemma after_prefix_upper: "after_prefix pre = Some u \<Longrightarrow> pre @ t < u"
  using after_prefix_rev_upper [of "rev pre" u t] by (simp add: after_prefix_def)

definition scalar_text :: "utext \<Rightarrow> bool" where
  "scalar_text s \<longleftrightarrow> list_all (\<lambda>c. c \<le> 0x10FFFF \<and> \<not> (0xD800 \<le> c \<and> c \<le> 0xDFFF)) s"

lemma between_prefixes:
  fixes p v :: utext
  shows "p @ a < v \<Longrightarrow> v < p @ b \<Longrightarrow> \<exists>w. v = p @ w \<and> a < w \<and> w < b"
proof (induction p arbitrary: v)
  case (Cons x p)
  then obtain w where "v = x # w" by (cases v) auto
  with Cons show ?case by auto
qed simp

lemma after_prefix_rev_least:
  assumes "scalar_text (rev cs)" "scalar_text v" "\<forall>t. scalar_text t \<longrightarrow> rev cs @ t < v"
  shows "\<exists>u. after_prefix_rev cs = Some u \<and> u \<le> v"
  using assms
proof (induction cs)
  case Nil
  from Nil(3) [rule_format, OF Nil(2)] show ?case by simp
next
  case (Cons c cs)
  define n where "n = (if c + 1 = 0xD800 then 0xE000 else c + 1)"
  note above = Cons.prems(3)
  have c: "c \<le> 0x10FFFF" "scalar_text (rev cs)" using Cons.prems(1) by (auto simp: scalar_text_def)
  show ?case
  proof (cases "n \<le> 0x10FFFF")
    case True
    have "\<not> v < rev cs @ [n]"
    proof
      assume less: "v < rev cs @ [n]"
      have "rev cs @ [c] < v" using above [rule_format, of "[]"] by (simp add: scalar_text_def)
      from between_prefixes [OF this less]
      obtain w where w: "v = rev cs @ w" "[c] < w" "w < [n]" by blast
      then obtain c' w' where w': "w = c' # w'" by (cases w) auto
      with w Cons.prems(2) have "c' = c" "scalar_text w'"
        by (auto simp: n_def scalar_text_def split: if_splits)
      with above w w' show False by auto
    qed
    with True show ?thesis by (auto simp: Let_def n_def)
  next
    case False
    then have top: "c = 0x10FFFF" using c by (auto simp: n_def split: if_splits)
    have "rev cs @ t < v" if t: "scalar_text t" for t
    proof (cases t)
      case Nil
      then have "rev cs @ t < rev cs @ [c]" by simp
      also have "\<dots> < v" using above [rule_format, of "[]"] by (simp add: scalar_text_def)
      finally show ?thesis .
    next
      case (Cons x xs)
      then have x: "x < c \<or> x = c" "scalar_text xs" using t top by (auto simp: scalar_text_def)
      then show ?thesis
      proof (elim disjE)
        assume "x < c"
        then have "rev cs @ t < rev cs @ [c]" using Cons by simp
        also have "\<dots> < v" using above [rule_format, of "[]"] by (simp add: scalar_text_def)
        finally show ?thesis .
      qed (use above x Cons in auto)
    qed
    with Cons.IH [OF c(2) Cons.prems(2)] False show ?thesis by (auto simp: Let_def n_def)
  qed
qed

section \<open>Rounding an integer to a double\<close>

lemma nat_bits_bounds: "0 < n \<Longrightarrow> 0 < nat_bits n \<and> 2 ^ (nat_bits n - 1) \<le> n \<and> n < 2 ^ nat_bits n"
proof (induction n rule: nat_bits.induct)
  case (1 n)
  show ?case
  proof (cases "n = 1")
    case True
    then show ?thesis by (simp add: nat_bits.simps [of "Suc 0"] nat_bits.simps [of 0])
  next
    case False
    then have half: "0 < n div 2" using "1.prems" by auto
    then have IH: "0 < nat_bits (n div 2)" "2 ^ (nat_bits (n div 2) - 1) \<le> n div 2"
      "n div 2 < 2 ^ nat_bits (n div 2)"
      using 1 by auto
    have eq: "nat_bits n = Suc (nat_bits (n div 2))" using "1.prems" by (subst nat_bits.simps) simp
    obtain k where k: "nat_bits (n div 2) = Suc k" using IH(1) by (cases "nat_bits (n div 2)") auto
    define x where "x = (2::nat) ^ k"
    have "x \<le> n div 2" "n div 2 < 2 * x" using IH(2,3) by (simp_all add: k x_def)
    then have "2 * x \<le> n" "n < 4 * x" by presburger+
    then show ?thesis by (simp add: eq k x_def)
  qed
qed

lemma round_half_even_int [simp]: "round_half_even (of_int i) = i"
  by (simp add: round_half_even_def)

lemma round_half_even_ge: "of_int m \<le> x \<Longrightarrow> m \<le> round_half_even x"
proof -
  assume "of_int m \<le> x"
  then have "m \<le> \<lfloor>x\<rfloor>" by (simp add: le_floor_iff)
  then show ?thesis by (auto simp: round_half_even_def Let_def)
qed

lemma rat_pow_nat: "rat_pow 2 (int k) = 2 ^ k" by (simp add: rat_pow_def)

lemma binary_exponent_int:
  assumes "0 < n"
  shows "binary_exponent (of_nat n) = int (nat_bits n - 1)"
proof -
  have q: "quotient_of (of_nat n) = (int n, 1)"
    using quotient_of_int [of "int n"] by simp
  have one: "nat_bits (Suc 0) = 1" by (simp add: nat_bits.simps [of "Suc 0"] nat_bits.simps [of 0])
  have e: "int (nat_bits n) - 1 = int (nat_bits n - 1)" using nat_bits_bounds [OF assms] by simp
  have "(2::rat) ^ (nat_bits n - 1) \<le> of_nat n"
    using nat_bits_bounds [OF assms] by (metis of_nat_le_iff of_nat_numeral of_nat_power)
  then show ?thesis by (simp add: binary_exponent_def q one e rat_pow_nat)
qed

lemma float_of_rat_at:
  assumes "r \<noteq> 0" "max (binary_exponent \<bar>r\<bar> - 52) (- 1074) = q"
    "of_int (round_half_even (\<bar>r\<bar> / rat_pow 2 q)) * rat_pow 2 q = v" "0 < v"
  shows "float_of_rat r = (if 2 ^ 1024 \<le> v then FInf (r < 0) else FFin (if r < 0 then - v else v))"
proof -
  have "v \<noteq> 0" using assms(4) by simp
  then show ?thesis unfolding float_of_rat_def Let_def assms(2,3) using assms(1) by (simp only: if_False)
qed

text \<open>Below \<open>2 ^ 53\<close> an integer is its own double; from there on, rounding stays there.\<close>

lemma float_of_small_int:
  assumes "\<bar>i\<bar> < 2 ^ 53"
  shows "float_of_int i = FFin (of_int i)"
proof (cases "i = 0")
  case False
  define n where "n = nat \<bar>i\<bar>"
  have n: "0 < n" "n < 2 ^ 53" "\<bar>of_int i\<bar> = (of_nat n :: rat)" using False assms by (auto simp: n_def)
  note b = nat_bits_bounds [OF n(1)]
  then have "(2::nat) ^ (nat_bits n - 1) < 2 ^ 53" using n(2) by linarith
  then have "nat_bits n - 1 < 53" by (rule power_less_imp_less_exp [rotated]) simp
  then obtain m where m: "int (nat_bits n - 1) - 52 = - int m" "m \<le> 52"
    by (intro that [of "52 - (nat_bits n - 1)"]) auto
  have pw: "rat_pow 2 (- int m) = 1 / 2 ^ m" by (auto simp: rat_pow_def)
  have "\<bar>of_int i\<bar> / rat_pow 2 (- int m) = (of_int (int n * 2 ^ m) :: rat)"
    by (simp add: n(3) pw)
  then have "of_int (round_half_even (\<bar>of_int i\<bar> / rat_pow 2 (- int m))) * rat_pow 2 (- int m) = (of_nat n :: rat)"
    by (simp only: round_half_even_int) (simp add: pw)
  moreover have "max (binary_exponent \<bar>of_int i\<bar> - 52) (- 1074) = - int m"
    using m by (simp add: n(3) binary_exponent_int [OF n(1)])
  moreover have "\<not> (2 ^ 1024 \<le> (of_nat n :: rat))"
  proof -
    have "(of_nat n :: rat) < of_nat (2 ^ 53)" using n(2) by (simp only: of_nat_less_iff)
    also have "\<dots> \<le> 2 ^ 1024" by simp
    finally show ?thesis by simp
  qed
  ultimately have "float_of_rat (of_int i) = FFin (if (of_int i :: rat) < 0 then - of_nat n else of_nat n)"
    using float_of_rat_at [of "of_int i" "- int m" "of_nat n"] False n(1) by (simp only: if_False of_nat_0_less_iff of_int_eq_0_iff simp_thms)
  then show ?thesis by (simp add: float_of_int_def n_def)
qed (simp add: float_of_int_def float_of_rat_def)

lemma float_of_big_int:
  assumes "2 ^ 53 \<le> \<bar>i\<bar>"
  shows "if 0 < i then (0, 2 ^ 53) \<le> float_key (float_of_int i) else float_key (float_of_int i) \<le> (0, - (2 ^ 53))"
proof -
  define n where "n = nat \<bar>i\<bar>"
  have n: "0 < n" "2 ^ 53 \<le> n" "\<bar>of_int i\<bar> = (of_nat n :: rat)" "i \<noteq> 0"
    using assms by (auto simp: n_def)
  note b = nat_bits_bounds [OF n(1)]
  have "(2::nat) ^ 53 < 2 ^ nat_bits n" using b n(2) by linarith
  then have big: "53 < nat_bits n" by (rule power_less_imp_less_exp [rotated]) simp
  define k where "k = nat_bits n - 1 - 52"
  have k: "int (nat_bits n - 1) - 52 = int k" "nat_bits n - 1 = k + 52" "1 \<le> k" using big by (auto simp: k_def)
  have q: "max (binary_exponent \<bar>of_int i\<bar> - 52) (- 1074) = int k"
    using k(1) by (simp add: n(3) binary_exponent_int [OF n(1)])
  define v :: rat where "v = of_int (round_half_even (\<bar>of_int i\<bar> / rat_pow 2 (int k))) * rat_pow 2 (int k)"
  have "(2 ^ (k + 52) :: rat) \<le> of_nat n"
    using b k(2) by (metis of_nat_le_iff of_nat_numeral of_nat_power)
  then have "of_int (2 ^ 52) \<le> \<bar>of_int i\<bar> / rat_pow 2 (int k)"
    by (simp add: n(3) rat_pow_nat power_add field_simps)
  then have "2 ^ 52 \<le> round_half_even (\<bar>of_int i\<bar> / rat_pow 2 (int k))"
    by (rule round_half_even_ge)
  then have "(of_int (2 ^ 52) :: rat) \<le> of_int (round_half_even (\<bar>of_int i\<bar> / rat_pow 2 (int k)))"
    by (simp only: of_int_le_iff)
  then have "(2 ^ 52 :: rat) * 2 ^ k \<le> v"
    unfolding v_def rat_pow_nat by (intro mult_right_mono) auto
  moreover have "(2 :: rat) ^ 1 \<le> 2 ^ k" using k(3) by (intro power_increasing) auto
  ultimately have v: "2 ^ 53 \<le> v" by simp
  have "float_of_int i = (if 2 ^ 1024 \<le> v then FInf (i < 0) else FFin (if i < 0 then - v else v))"
    using float_of_rat_at [OF _ q v_def [symmetric]] n(4) v by (simp add: float_of_int_def del: of_int_power)
  then show ?thesis using v n(4) by (auto simp: float_key_def)
qed

lemma ord_of_less: "a < b \<Longrightarrow> ord_of a b = Less" and ord_of_greater: "b < a \<Longrightarrow> ord_of a b = Greater"
  by (auto simp: ord_of_def)

text \<open>
  The row filter compares an integer column with a double as doubles; with a double below
  \<open>2 ^ 53\<close> that is the exact comparison, although the column's values may round.
\<close>

lemma int_double_order:
  assumes "float_finite f" "\<bar>float_value f\<bar> < 2 ^ 53"
  shows "value_order cast (LInt i) (LFloat f) = Some (ord_of (of_int i) (float_value f))"
proof -
  define r where "r = float_value f"
  have f: "float_key f = (0, r)" using assms(1)
    by (auto simp: float_finite_def float_key_def r_def float_value_def split: pyfloat.splits)
  have r: "- (2 ^ 53) < r" "r < 2 ^ 53" using assms(2) unfolding r_def by linarith+
  have "ord_of (float_key (float_of_int i)) (0, r) = ord_of (of_int i) r"
  proof (cases "\<bar>i\<bar> < 2 ^ 53")
    case True
    then show ?thesis by (simp add: float_of_small_int float_key_def ord_of_def)
  next
    case False
    show ?thesis
    proof (cases "0 < i")
      case True
      have "(0, r) < float_key (float_of_int i)"
        using float_of_big_int [of i] False True r by (auto intro: less_le_trans [rotated])
      moreover have "r < of_int i"
      proof -
        have "2 ^ 53 \<le> i" using False True by linarith
        then have "of_int (2 ^ 53) \<le> (of_int i :: rat)" by (simp only: of_int_le_iff)
        then show ?thesis using r by simp
      qed
      ultimately show ?thesis by (simp add: ord_of_greater)
    next
      case neg: False
      have "float_key (float_of_int i) < (0, r)"
        using float_of_big_int [of i] False neg r by (auto intro: le_less_trans)
      moreover have "of_int i < r"
      proof -
        have "i \<le> - (2 ^ 53)" using False neg by linarith
        then have "of_int i \<le> (of_int (- (2 ^ 53)) :: rat)" by (simp only: of_int_le_iff)
        then show ?thesis using r by simp
      qed
      ultimately show ?thesis by (simp add: ord_of_less)
    qed
  qed
  then show ?thesis by (simp add: value_order_def order_by_def f r_def)
qed

end
