(* ===== verification/Pred_Kernel.thy ===== *)
theory Pred_Kernel
  imports Pred_Align
begin

text \<open>
  \<open>to_kernel_json\<close> as a whole: the rewrites of \<open>_prepare_skipping\<close> keep every row of the
  table's types, and a scan that drops the files the kernel rules out returns what a scan
  of all of them returns.
\<close>

section \<open>Rows of a schema\<close>

fun has_type :: "atype \<Rightarrow> lit_val \<Rightarrow> bool" where
  "has_type t LNone = True"
| "has_type (TBool) (LBool b) = True"
| "has_type (TInt w s) (LInt i) = True"
| "has_type (TFloat w) (LFloat f) = True"
| "has_type (TDecimal w p s) (LDec d) = True"
| "has_type (TText k) (LStr s) = True"
| "has_type (TDate k) (LDate d) = True"
| "has_type (TTimestamp u z) (LDateTime d) = True"
| "has_type _ _ = False"

definition typed_row :: "schema \<Rightarrow> row \<Rightarrow> bool" where
  "typed_row sch env \<longleftrightarrow>
     (\<forall>p. case column_type sch (Column p) of Some t \<Rightarrow> has_type t (env p) | None \<Rightarrow> env p = LNone)"

text \<open>Columns of wide decimals: their statistics are written as doubles.\<close>

definition wide_decimal :: "schema \<Rightarrow> string list \<Rightarrow> bool" where
  "wide_decimal sch p =
     (case column_type sch (Column p) of Some (TDecimal w prec s) \<Rightarrow> 15 < prec | _ \<Rightarrow> False)"

lemma has_type_cases:
  assumes "has_type t v"
  shows "v = LNone \<or> (is_integer t \<and> (\<exists>i. v = LInt i)) \<or> (\<exists>w f. t = TFloat w \<and> v = LFloat f)
    \<or> (is_text t \<and> (\<exists>s. v = LStr s)) \<or> \<not> (is_integer t \<or> is_floating t \<or> is_text t)"
  using assms by (cases "(t, v)" rule: has_type.cases) auto

section \<open>Literals\<close>

lemma nonintegral:
  assumes "\<not> integral r"
  shows "ord_of (of_int i) r \<noteq> Equal"
    "ord_of (of_int i) r = Less \<longleftrightarrow> i \<le> \<lfloor>r\<rfloor>" "ord_of (of_int i) r = Greater \<longleftrightarrow> \<not> i \<le> \<lfloor>r\<rfloor>"
    "\<lceil>r\<rceil> \<le> i \<longleftrightarrow> \<not> i \<le> \<lfloor>r\<rfloor>"
proof -
  have ne: "of_int i \<noteq> r" using assms by (auto simp: integral_def)
  then have le: "of_int i < r \<longleftrightarrow> i \<le> \<lfloor>r\<rfloor>" "r \<le> of_int i \<longleftrightarrow> \<not> i \<le> \<lfloor>r\<rfloor>"
    by (auto simp: le_floor_iff)
  show "ord_of (of_int i) r \<noteq> Equal" using ne by (simp add: ord_of_def)
  show "ord_of (of_int i) r = Less \<longleftrightarrow> i \<le> \<lfloor>r\<rfloor>" "ord_of (of_int i) r = Greater \<longleftrightarrow> \<not> i \<le> \<lfloor>r\<rfloor>"
    using ne by (simp_all add: ord_of_def le(1))
  show "\<lceil>r\<rceil> \<le> i \<longleftrightarrow> \<not> i \<le> \<lfloor>r\<rfloor>" by (simp add: ceiling_le_iff le(2))
qed

lemma ord_of_rat: "ord_of (of_int i :: rat) (of_int j) = ord_of i j"
  by (simp add: ord_of_def)

lemma ord_of_le: "ord_of a b \<noteq> Greater \<longleftrightarrow> a \<le> b" and ord_of_ge: "ord_of a b \<noteq> Less \<longleftrightarrow> b \<le> a"
  and ord_of_eq: "ord_of a b = Equal \<longleftrightarrow> a = b"
  by (auto simp: ord_of_def)

lemma integer_literal_order:
  assumes "integer_literal r op = Some (lit, op')"
  shows "\<exists>w. lit = Literal (LInt w) ''long'' \<and>
    (\<forall>i. op_holds op' (ord_of i w) = op_holds op (ord_of (of_int i) r))"
proof (cases "integral r")
  case True
  then obtain w where r: "r = of_int w" by (metis integral_def)
  with assms True show ?thesis by (auto simp: integer_literal_def as_long_def ord_of_rat split: if_splits)
next
  case False
  note ne = nonintegral [OF False]
  show ?thesis
    using assms False
    by (auto simp: integer_literal_def as_long_def ne ord_of_le ord_of_ge
        simp del: not_less not_le split: if_splits)
qed

lemma skip_literal_exact:
  assumes lit: "skip_literal cast v t op = Some (lit, op')" and x: "has_type t x"
  shows "cmp3 cast op' x (operand_value env lit) = cmp3 cast op x v"
proof -
  have int: "cmp3 cast op' x (operand_value env lit) = cmp3 cast op x v"
    if int: "is_integer t" and whole: "integer_literal r op = Some (lit, op')"
      and order: "\<And>i. value_order cast (LInt i) v = Some (ord_of (of_int i) r)" for r
  proof -
    obtain w where w: "lit = Literal (LInt w) ''long''"
      "\<And>i. op_holds op' (ord_of i w) = op_holds op (ord_of (of_int i) r)"
      using integer_literal_order [OF whole] by blast
    have "x = LNone \<or> (\<exists>i. x = LInt i)" using x int by (cases "(t, x)" rule: has_type.cases) auto
    then show ?thesis
    proof
      assume "\<exists>i. x = LInt i"
      then obtain i where i: "x = LInt i" by blast
      have "value_order cast (LInt i) (LInt w) = Some (ord_of i w)"
        by (simp add: value_order_def order_by_def ord_of_rat)
      then show ?thesis by (simp add: i w cmp3_def order)
    qed simp
  qed
  show ?thesis
  proof (cases v)
    case (LFloat f)
    then have "is_integer t" "integer_literal (float_value f) op = Some (lit, op')"
      "float_finite f" "\<bar>float_value f\<bar> < 2 ^ 53"
      using lit by (auto simp: skip_literal_def split: if_splits)
    then show ?thesis using int int_double_order LFloat by blast
  next
    case (LDec d)
    show ?thesis
    proof (cases "t = TFloat 64")
      case True
      then obtain f where f: "cast d = Some f" "lit = Literal (LFloat f) ''double''" "op' = op"
        using lit LDec by (auto simp: skip_literal_def)
      have "x = LNone \<or> (\<exists>g. x = LFloat g)" using x True by (cases "(t, x)" rule: has_type.cases) auto
      then show ?thesis using f LDec by (auto simp: cmp3_def value_order_def order_by_def)
    next
      case False
      then have "is_integer t" "integer_literal (dec_value d) op = Some (lit, op')"
        using lit LDec by (auto simp: skip_literal_def split: if_splits)
      moreover have "value_order cast (LInt i) v = Some (ord_of (of_int i) (dec_value d))" for i
        by (simp add: LDec value_order_def order_by_def)
      ultimately show ?thesis using int by blast
    qed
  qed (use lit in \<open>auto simp: skip_literal_def\<close>)
qed

lemma skip_literal_op:
  assumes "skip_literal cast v t op = Some (lit, op')"
  shows "op \<in> {Ge, Le} \<Longrightarrow> op' = op"
  using assms
  by (auto simp: skip_literal_def integer_literal_def as_long_def split: lit_val.splits if_splits)

lemma fix_item_exact:
  assumes "has_type t (operand_value env a)" "snd (fix_item cast t (i, op)) = op"
  shows "cmp3 cast op (operand_value env a) (operand_value env (fst (fix_item cast t (i, op))))
    = cmp3 cast op (operand_value env a) (operand_value env i)"
proof (cases i)
  case (Literal v ty)
  then show ?thesis
    using assms skip_literal_exact [of cast v t op _ op "operand_value env a" env]
    by (auto simp: fix_item_def split: option.splits prod.splits)
qed (simp add: fix_item_def)

lemma fix_item_between:
  assumes "op = Ge \<or> op = Le"
  shows "snd (fix_item cast t (i, op)) = op"
  using assms skip_literal_op [of cast _ t op] by (auto simp: fix_item_def split: operand.splits option.splits)

section \<open>\<open>_prepare_skipping\<close>\<close>

lemma typed_operand:
  assumes "typed_row sch env" "column_type sch a = Some t"
  shows "has_type t (operand_value env a)"
proof (cases a)
  case (Column p)
  then show ?thesis using assms unfolding typed_row_def by (auto dest: spec [of _ p])
qed (use assms in simp)

lemma prepare_cmp_exact:
  assumes row: "typed_row sch env"
  shows "sql_eval cast lk env (prepare_cmp cast sch op a b) = sql_eval cast lk env (NCmp op a b)"
proof -
  have right: "cmp3 cast op' (env p) (operand_value env lit)
      = cmp3 cast op (env p) v"
    if "column_type sch (Column p) = Some t" "skip_literal cast v t op = Some (lit, op')" for p t v lit op'
    using skip_literal_exact [OF that(2) typed_operand [OF row that(1)], of env] by simp
  have left: "cmp3 cast op' (env p) (operand_value env lit)
      = cmp3 cast op v (env p)"
    if "column_type sch (Column p) = Some t" "skip_literal cast v t (flipped op) = Some (lit, op')"
    for p t v lit op'
    using skip_literal_exact [OF that(2) typed_operand [OF row that(1)], of env] by (simp add: cmp3_flip)
  show ?thesis
    by (cases a; cases b)
      (auto simp: prepare_cmp_def left right simp del: column_type.simps(1) split: option.splits)
qed

lemma map_fix_exact:
  assumes "typed_row sch env" "column_type sch a = Some t"
    "\<not> list_ex (\<lambda>f. snd f \<noteq> Eq) (map (\<lambda>i. fix_item cast t (i, Eq)) items)"
  shows "map (\<lambda>i. cmp3 cast Eq (operand_value env a) (operand_value env i))
      (map fst (map (\<lambda>i. fix_item cast t (i, Eq)) items))
    = map (\<lambda>i. cmp3 cast Eq (operand_value env a) (operand_value env i)) items"
  using assms(3) fix_item_exact [OF typed_operand [OF assms(1,2)], of cast _ Eq]
  by (auto simp: list_ex_iff)

lemma prepare_like_weaker:
  assumes row: "typed_row sch env"
    and holds: "sql_eval cast lk env (NLike False a pat False) = Some True"
  shows "sql_eval cast lk env (prepare_like sch a pat) = Some True"
proof (cases "prepare_like sch a pat = NLike False a pat False")
  case False
  then obtain t k p ty pre whole where t: "column_type sch a = Some t" "is_text t"
    "pat = Literal (LStr p) ty" "like_prefix p = Some (pre, whole)"
    by (auto simp: prepare_like_def Let_def split: option.splits operand.splits lit_val.splits if_splits)
  then have "has_type t (operand_value env a)" using typed_operand row by blast
  then obtain s where s: "operand_value env a = LStr s" "like_match p s"
    using holds t(2,3) by (cases "(t, operand_value env a)" rule: has_type.cases)
      (auto simp: negated3_def like3_def)
  obtain x where x: "s = pre @ x" using like_prefix_match(2) [OF t(4) s(2)] by blast
  have order: "value_order cast (LStr s') (LStr u) = Some (ord_of s' u)" for s' u
    by (simp add: value_order_def order_by_def)
  have low: "cmp3 cast Ge (operand_value env a) (LStr pre) = Some True"
    using prefix_le [of pre x] by (simp add: s cmp3_def order x ord_of_ge)
  show ?thesis
  proof (cases whole)
    case True
    then have "s = pre" using like_prefix_match(1) [OF t(4)] s(2) by blast
    then show ?thesis using True t by (simp add: prepare_like_def cmp3_def s order ord_of_eq)
  next
    case False
    have "cmp3 cast Lt (operand_value env a) (LStr u) = Some True" if "after_prefix pre = Some u" for u
      using after_prefix_upper [OF that, of x] by (simp add: s cmp3_def order x ord_of_less)
    with False t low show ?thesis
      by (auto simp: prepare_like_def Let_def split: option.splits)
  qed
qed (use holds in simp)

lemma prepare_like_stays: "exact \<or> ilike \<or> neg \<Longrightarrow>
    prepare_skipping cast sch exact (NLike ilike a pat neg) = NLike ilike a pat neg"
  by auto

lemma prepare_skipping_sound:
  assumes row: "typed_row sch env"
  shows "(exact \<longrightarrow> sql_eval cast lk env (prepare_skipping cast sch exact n) = sql_eval cast lk env n)
    \<and> (sql_eval cast lk env n = Some True
        \<longrightarrow> sql_eval cast lk env (prepare_skipping cast sch exact n) = Some True)"
proof (induction n arbitrary: exact)
  case (NAnd ps)
  have "map (sql_eval cast lk env) (map (prepare_skipping cast sch exact) ps) = map (sql_eval cast lk env) ps"
    if exact using NAnd that by auto
  moreover have "sql_eval cast lk env (prepare_skipping cast sch exact p) = Some True"
    if "p \<in> set ps" "sql_eval cast lk env p = Some True" for p using NAnd that by blast
  ultimately show ?case by (auto simp del: map_map)
next
  case (NOr ps)
  have "map (sql_eval cast lk env) (map (prepare_skipping cast sch exact) ps) = map (sql_eval cast lk env) ps"
    if exact using NOr that by auto
  moreover have "sql_eval cast lk env (prepare_skipping cast sch exact p) = Some True"
    if "p \<in> set ps" "sql_eval cast lk env p = Some True" for p using NOr that by blast
  ultimately show ?case by (auto simp: image_iff simp del: map_map) (metis+)?
next
  case (NNot p)
  then show ?case by simp
next
  case (NCmp op a b)
  then show ?case using prepare_cmp_exact [OF row, of cast lk op a b] by simp
next
  case (NIn a items neg)
  then show ?case using map_fix_exact [OF row] by (auto simp: Let_def simp del: map_map split: option.splits)
next
  case (NBetween a lo hi neg)
  then show ?case
    using fix_item_exact [OF typed_operand [OF row]] fix_item_between
    by (auto split: option.splits)
next
  case (NLike ilike a pat neg)
  then show ?case
  proof (cases "exact \<or> ilike \<or> neg")
    case False
    then show ?thesis using prepare_like_weaker [OF row, of cast lk a pat] by auto
  qed auto
qed auto

section \<open>The unsafe columns of a schema\<close>

lemma field_matches_mem:
  "f \<in> set (field_matches flds name) \<Longrightarrow> f \<in> set flds \<and> py_lower (fst f) = py_lower name"
  by (auto simp: field_matches_def Let_def split: if_splits)

lemma unsafe_walk_member:
  assumes "(name, t) \<in> set flds"
  shows "t = TFloat w \<Longrightarrow> (pre @ [py_lower name], UFloat) \<in> set (unsafe_walk pre flds)"
    and "t = TDecimal w prec sc \<Longrightarrow> 15 < prec \<Longrightarrow> (pre @ [py_lower name], UDecimal) \<in> set (unsafe_walk pre flds)"
    and "t = TStruct sub \<Longrightarrow> set (unsafe_walk (pre @ [py_lower name]) sub) \<subseteq> set (unsafe_walk pre flds)"
  using assms by (induction flds) (auto simp: Let_def)

lemma resolve_unsafe:
  assumes "resolve_from whole res flds p = Inr (Some (q, t))"
  shows "t = TFloat w \<Longrightarrow> (pre @ map py_lower p, UFloat) \<in> set (unsafe_walk pre flds)"
    and "t = TDecimal w prec sc \<Longrightarrow> 15 < prec \<Longrightarrow> (pre @ map py_lower p, UDecimal) \<in> set (unsafe_walk pre flds)"
proof -
  have "(t = TFloat w \<longrightarrow> (pre @ map py_lower p, UFloat) \<in> set (unsafe_walk pre flds)) \<and>
    (t = TDecimal w prec sc \<longrightarrow> 15 < prec \<longrightarrow> (pre @ map py_lower p, UDecimal) \<in> set (unsafe_walk pre flds))"
    using assms
  proof (induction whole res flds p arbitrary: pre rule: resolve_from.induct)
    case (2 whole res flds name rest)
    then obtain f where f: "field_matches flds name = [f]"
      by (auto split: list.splits)
    then have mem: "(fst f, snd f) \<in> set flds" and low: "py_lower (fst f) = py_lower name"
      using field_matches_mem [of f flds name] by auto
    show ?case
    proof (cases "rest = []")
      case True
      with "2.prems" f have "snd f = t" by auto
      then show ?thesis using unsafe_walk_member [OF mem, where pre = pre] low True by auto
    next
      case False
      with "2.prems" f obtain sub where sub: "snd f = TStruct sub"
        "resolve_from whole (res @ [fst f]) sub rest = Inr (Some (q, t))"
        by (auto split: atype.splits)
      have "set (unsafe_walk (pre @ [py_lower name]) sub) \<subseteq> set (unsafe_walk pre flds)"
        using unsafe_walk_member(3) [OF mem sub(1), where pre = pre] low by simp
      moreover note "2.IH" [OF f _ False sub(1) sub(2), of "pre @ [py_lower name]"]
      ultimately show ?thesis using f by auto
    qed
  qed simp
  then show "t = TFloat w \<Longrightarrow> (pre @ map py_lower p, UFloat) \<in> set (unsafe_walk pre flds)"
    and "t = TDecimal w prec sc \<Longrightarrow> 15 < prec \<Longrightarrow> (pre @ map py_lower p, UDecimal) \<in> set (unsafe_walk pre flds)"
    by auto
qed

lemma unsafe_columns_eq:
  assumes "distinct (map fst (unsafe_walk [] sch))" "(p, k) \<in> set (unsafe_walk [] sch)"
  shows "unsafe_columns sch p = Some k"
  using assms by (auto simp: unsafe_columns_def rev_map [symmetric] intro!: map_of_is_SomeI)

lemma unsafe_columns_cover:
  assumes row: "typed_row sch env" and distinct: "distinct (map fst (unsafe_walk [] sch))"
  shows "covers (unsafe_columns sch) (wide_decimal sch) env"
proof -
  have float: "unsafe_columns sch (map py_lower c) = Some UFloat" if nan: "env c = LFloat FNan" for c
  proof -
    obtain t where t: "column_type sch (Column c) = Some t" "has_type t (LFloat FNan)"
      using row nan unfolding typed_row_def by (auto dest!: spec [of _ c] split: option.splits)
    then obtain w where w: "t = TFloat w" by (cases "(t, LFloat FNan)" rule: has_type.cases) auto
    obtain q where "resolve_from c [] sch c = Inr (Some (q, t))"
      using t(1) by (auto simp: resolve_path_def split: sum.splits option.splits)
    from resolve_unsafe(1) [OF this w, of "[]"] show ?thesis by (simp add: unsafe_columns_eq [OF distinct])
  qed
  have dec: "unsafe_columns sch (map py_lower c) = Some UDecimal" if wide: "wide_decimal sch c" for c
  proof -
    obtain t w prec sc where t: "column_type sch (Column c) = Some t" "t = TDecimal w prec sc" "15 < prec"
      using wide by (auto simp: wide_decimal_def split: option.splits atype.splits)
    obtain q where "resolve_from c [] sch c = Inr (Some (q, t))"
      using t(1) by (auto simp: resolve_path_def split: sum.splits option.splits)
    from resolve_unsafe(2) [OF this t(2,3), of "[]"] show ?thesis by (simp add: unsafe_columns_eq [OF distinct])
  qed
  show ?thesis using float dec by (simp add: covers_def)
qed

section \<open>Properties\<close>

definition skipping_scan :: "(kpred \<Rightarrow> row list \<Rightarrow> bool) \<Rightarrow> kpred option \<Rightarrow> row list list \<Rightarrow> row list list" where
  "skipping_scan survives pred files = (case pred of None \<Rightarrow> files | Some k \<Rightarrow> filter (survives k) files)"

lemma kernel_keeps:
  assumes "cast_no_nan cast" "typed_row sch env" "distinct (map fst (unsafe_walk [] sch))"
    and k: "to_kernel_json cast (Some sch) n = Some k" and holds: "sql_eval cast lk env n = Some True"
  shows "stat_eval cast (wide_decimal sch) env k = Some True"
proof -
  have "sql_eval cast lk env (prepare_skipping cast sch False n) = Some True"
    using prepare_skipping_sound [OF assms(2)] holds by blast
  moreover have "renders cast lk (wide_decimal sch) env False (prepare_skipping cast sch False n) k"
    using skip_renders [OF assms(1) unsafe_columns_cover [OF assms(2,3)]] k
    by (simp add: to_kernel_json_def)
  ultimately show ?thesis by (simp add: renders_def)
qed

text \<open>
  C14: File skipping keeps every row.  Where \<open>to_kernel_json\<close> renders a predicate for a table's schema, a row of
  that schema for which the SQL predicate is TRUE satisfies the rendered one as the
  statistics see the row (NaN and wide decimals left out).
\<close>

theorem to_kernel_json_keeps_rows:
  assumes "cast_no_nan cast" "typed_row sch env" "distinct (map fst (unsafe_walk [] sch))"
    and "to_kernel_json cast (Some sch) n = Some k" "sql_eval cast lk env n = Some True"
  shows "stat_eval cast (wide_decimal sch) env k = Some True"
  using kernel_keeps [OF assms] .

definition sample_schema :: schema where
  "sample_schema = [(''x'', TFloat 64), (''n'', TInt 64 True), (''s'', TText 0)]"

definition sample_row :: row where
  "sample_row p = (if p = [''x''] then LFloat FNan else if p = [''n''] then LInt 3
     else if p = [''S''] then LStr [97, 98, 99] else LNone)"

definition sample_node :: node where
  "sample_node = NAnd
     [NCmp Lt (Column [''n'']) (Literal (LDec (Dec False 35 (- 1))) ''decimal''),
      NLike False (Column [''S'']) (Literal (LStr [97, 98, 37]) ''string'') False,
      NCmp Gt (Column [''x'']) (Literal (LInt 2) ''long'')]"

lemma sample_row_typed: "typed_row sample_schema sample_row"
proof -
  have "case column_type sample_schema (Column p) of Some t \<Rightarrow> has_type t (sample_row p) | None \<Rightarrow> sample_row p = LNone"
    for p
  proof -
    consider "p = [''x'']" | "p = [''n'']" | "p = [''S'']" | "p \<noteq> [''x'']" "p \<noteq> [''n'']" "p \<noteq> [''S'']" by blast
    then show ?thesis
    proof cases
      case 1 show ?thesis unfolding 1 by code_simp
    next
      case 2 show ?thesis unfolding 2 by code_simp
    next
      case 3 show ?thesis unfolding 3 by code_simp
    next
      case 4
      then have "sample_row p = LNone" by (simp add: sample_row_def)
      then show ?thesis by (simp split: option.splits)
    qed
  qed
  then show ?thesis by (simp add: typed_row_def)
qed

definition sample_kernel :: kpred where
  "sample_kernel = KAnd [KCmp Le (KColumn [''n'']) (KLit (LInt 3) ''long''),
     KAnd [KCmp Ge (KColumn [''S'']) (KLit (LStr [97, 98]) ''string''),
           KCmp Lt (KColumn [''S'']) (KLit (LStr [97, 99]) ''string'')]]"

lemma sample_literal:
  "skip_literal cast (LDec (Dec False 35 (- 1))) (TInt 64 True) Lt = Some (Literal (LInt 3) ''long'', Le)"
proof -
  have f: "\<lfloor>7 / 2 :: rat\<rfloor> = 3" by (rule floor_unique) simp_all
  show ?thesis
    by (simp add: skip_literal_def dec_value_def rat_pow_def integer_literal_def integral_def f
        as_long_def long_min_def long_max_def)
qed

lemma sample_columns:
  "column_type sample_schema (Column [''n'']) = Some (TInt 64 True)"
  "column_type sample_schema (Column [''S'']) = Some (TText 0)"
  "column_type sample_schema (Column [''x'']) = Some (TFloat 64)"
  by code_simp+

lemma sample_prepared:
  "prepare_skipping cast sample_schema False sample_node = NAnd
     [NCmp Le (Column [''n'']) (Literal (LInt 3) ''long''),
      NAnd [NCmp Ge (Column [''S'']) (Literal (LStr [97, 98]) ''string''),
            NCmp Lt (Column [''S'']) (Literal (LStr [97, 99]) ''string'')],
      NCmp Gt (Column [''x'']) (Literal (LInt 2) ''long'')]"
  by (simp add: sample_node_def prepare_cmp_def sample_columns sample_literal prepare_like_def
      like_prefix_def after_prefix_def skip_literal_def [of _ "LInt 2"] del: column_type.simps)

lemma sample_rendered: "to_kernel_json cast (Some sample_schema) sample_node = Some sample_kernel"
  unfolding to_kernel_json_def option.case sample_prepared by code_simp

theorem to_kernel_json_keeps_rows_witness:
  "stat_eval (\<lambda>d. Some (float_of_decimal d)) (wide_decimal sample_schema) sample_row sample_kernel = Some True"
proof (rule to_kernel_json_keeps_rows [where n = sample_node and lk = "\<lambda>_ _ _. None"])
  show "cast_no_nan (\<lambda>d. Some (float_of_decimal d))"
    by (simp add: cast_no_nan_def float_of_decimal_def)
  show "distinct (map fst (unsafe_walk [] sample_schema))" by code_simp
  show "to_kernel_json (\<lambda>d. Some (float_of_decimal d)) (Some sample_schema) sample_node = Some sample_kernel"
    by (rule sample_rendered)
  show "sql_eval (\<lambda>d. Some (float_of_decimal d)) (\<lambda>_ _ _. None) sample_row sample_node = Some True"
    by (simp add: sample_node_def sample_row_def cmp3_def value_order_def order_by_def ord_of_def
        float_of_small_int float_key_def dec_value_def rat_pow_def negated3_def like3_def)
qed (rule sample_row_typed)

text \<open>
  C26: A scan that drops the files the kernel rules out and then applies the predicate to
  the rows returns the rows, in order, that a scan of every file returns, provided the kernel keeps a
  file in which some row satisfies the pushed predicate on its statistics.
\<close>

theorem skipping_scan_same_rows:
  assumes "cast_no_nan cast" "distinct (map fst (unsafe_walk [] sch))"
    and "\<forall>rws\<in>set files. \<forall>env\<in>set rws. typed_row sch env"
    and "\<forall>rws\<in>set files. \<forall>k env. env \<in> set rws \<longrightarrow> stat_eval cast (wide_decimal sch) env k = Some True
          \<longrightarrow> survives k rws"
  shows "filter (\<lambda>env. sql_eval cast lk env n = Some True)
      (concat (skipping_scan survives (to_kernel_json cast (Some sch) n) files))
    = filter (\<lambda>env. sql_eval cast lk env n = Some True) (concat files)"
proof (cases "to_kernel_json cast (Some sch) n")
  case (Some k)
  have none: "filter (\<lambda>env. sql_eval cast lk env n = Some True) rws = []"
    if "rws \<in> set files" "\<not> survives k rws" for rws
    using that assms(3,4) kernel_keeps [OF assms(1) _ assms(2) Some, of _ lk]
    by (fastforce simp: filter_empty_conv)
  have "filter q (concat (filter s fs)) = filter q (concat fs)"
    if "\<And>f. f \<in> set fs \<Longrightarrow> \<not> s f \<Longrightarrow> filter q f = []" for q s and fs :: "row list list"
    using that by (induction fs) auto
  then show ?thesis using none by (simp add: skipping_scan_def Some)
qed (simp add: skipping_scan_def)

theorem skipping_scan_same_rows_witness:
  "filter (\<lambda>env. sql_eval (\<lambda>d. None) (\<lambda>_ _ _. None) env sample_node = Some True)
      (concat (skipping_scan (\<lambda>k rws. list_ex (\<lambda>env. stat_eval (\<lambda>d. None) (wide_decimal sample_schema) env k = Some True) rws)
         (to_kernel_json (\<lambda>d. None) (Some sample_schema) sample_node) [[sample_row, \<lambda>_. LNone], [\<lambda>_. LNone]]))
    = filter (\<lambda>env. sql_eval (\<lambda>d. None) (\<lambda>_ _ _. None) env sample_node = Some True)
        (concat [[sample_row, \<lambda>_. LNone], [\<lambda>_. LNone]])"
proof (rule skipping_scan_same_rows)
  show "cast_no_nan (\<lambda>d. None)" by (simp add: cast_no_nan_def)
  show "distinct (map fst (unsafe_walk [] sample_schema))" by code_simp
  have "typed_row sample_schema (\<lambda>_. LNone)" by (auto simp: typed_row_def split: option.splits)
  then show "\<forall>rws\<in>set [[sample_row, \<lambda>_. LNone], [\<lambda>_. LNone]]. \<forall>env\<in>set rws. typed_row sample_schema env"
    using sample_row_typed by simp
qed (auto simp: list_ex_iff)

text \<open>
  A node that \<open>_skip\<close> renders with \<open>exact\<close> set, as it does beneath a NOT, has on the
  statistics the three-valued value SQL gives it: TRUE, FALSE and NULL alike.
\<close>

theorem skip_exact_value:
  assumes "cast_no_nan cast" "covers unsafe blind env" "skip unsafe True n = Some k"
  shows "stat_eval cast blind env k = sql_eval cast lk env n"
  using skip_renders [OF assms, of lk] by (simp add: renders_def)

theorem skip_exact_value_witness:
  "stat_eval (\<lambda>d. None) (\<lambda>p. False) (\<lambda>p. LInt 4)
      (KNot (KOr [KCmp Eq (KColumn [''n'']) (KLit (LInt 3) ''long'')]))
   = sql_eval (\<lambda>d. None) (\<lambda>_ _ _. None) (\<lambda>p. LInt 4)
       (NIn (Column [''n'']) [Literal (LInt 3) ''long''] True)"
proof (rule skip_exact_value)
  show "skip (\<lambda>_. None) True (NIn (Column [''n'']) [Literal (LInt 3) ''long''] True)
    = Some (KNot (KOr [KCmp Eq (KColumn [''n'']) (KLit (LInt 3) ''long'')]))" by code_simp
qed (simp_all add: cast_no_nan_def covers_def)

text \<open>
  The literal \<open>_skip_literal\<close> puts in place of another moves no boundary: for every
  value of the column's type the comparison it makes is the row filter's, a DOUBLE literal
  against an integer column included, where the filter rounds the column to a double.
\<close>

theorem skip_literal_same_comparison:
  assumes "skip_literal cast v t op = Some (lit, op')" "has_type t x"
  shows "cmp3 cast op' x (operand_value env lit) = cmp3 cast op x v"
  using skip_literal_exact [OF assms] .

theorem skip_literal_same_comparison_witness:
  "cmp3 (\<lambda>d. None) Le (LInt 9007199254740993) (operand_value (\<lambda>p. LNone) (Literal (LInt 9007199254740990) ''long''))
   = cmp3 (\<lambda>d. None) Lt (LInt 9007199254740993) (LFloat (FFin (18014398509481981 / 2)))"
proof (rule skip_literal_same_comparison [where t = "TInt 64 True"])
  have f: "\<lfloor>18014398509481981 / 2 :: rat\<rfloor> = 9007199254740990" by (rule floor_unique) simp_all
  show "skip_literal (\<lambda>d. None) (LFloat (FFin (18014398509481981 / 2))) (TInt 64 True) Lt
    = Some (Literal (LInt 9007199254740990) ''long'', Le)"
    by (simp add: skip_literal_def float_finite_def float_value_def integer_literal_def integral_def
        as_long_def long_min_def long_max_def f)
qed simp

text \<open>
  \<open>_after_prefix\<close> is the least upper bound: it lies above every string with the prefix,
  no string of Unicode scalar values above all of those lies below it, and where it has no
  answer there is no such string.
\<close>

theorem after_prefix_least:
  assumes "scalar_text pre"
  shows "case after_prefix pre of
      Some u \<Rightarrow> (\<forall>t. pre @ t < u) \<and> (\<forall>v. scalar_text v \<and> (\<forall>t. scalar_text t \<longrightarrow> pre @ t < v) \<longrightarrow> u \<le> v)
    | None \<Rightarrow> \<not> (\<exists>v. scalar_text v \<and> (\<forall>t. scalar_text t \<longrightarrow> pre @ t < v))"
proof -
  have least: "\<exists>u. after_prefix pre = Some u \<and> u \<le> v"
    if "scalar_text v" "\<forall>t. scalar_text t \<longrightarrow> pre @ t < v" for v
    using after_prefix_rev_least [of "rev pre" v] assms that by (simp add: after_prefix_def)
  show ?thesis
  proof (cases "after_prefix pre")
    case (Some u)
    then show ?thesis using after_prefix_upper [OF Some] least by fastforce
  qed (use least in auto)
qed

theorem after_prefix_least_witness:
  "after_prefix [97, 0xD7FF, 0x10FFFF] = Some [97, 0xE000] \<and> [97, 0xD7FF, 0x10FFFF] @ [99] < [97, 0xE000::nat]"
proof -
  have u: "after_prefix [97, 0xD7FF, 0x10FFFF] = Some [97, 0xE000]" by (simp add: after_prefix_def)
  show ?thesis using after_prefix_least [of "[97, 0xD7FF, 0x10FFFF]"] unfolding u by (simp add: scalar_text_def)
qed

end
