(* ===== verification/Router.thy ===== *)
theory Router
  imports Router_Rules
begin

text \<open>
  \<open>router.py\<close>, the class \<open>Router\<close>: the refusals the catalog's metadata alone decides, the
  verdict of each engine in turn, and \<open>engine_for\<close>.  The engines are the record \<open>engine\<close>
  of what the router asks of one; a method an engine may lack is an option.
\<close>

section \<open>Engines and connections\<close>

text \<open>A check that can raise gives \<open>Inl\<close> the exception's text, or the file names it found.\<close>

type_synonym file_check = "string + string list"

record engine =
  e_supports :: "operation \<Rightarrow> resolved_table \<Rightarrow> shape \<Rightarrow> capability"
  e_has_need :: "string \<Rightarrow> bool"
  e_need_refusal :: "string set \<Rightarrow> resolved_table \<Rightarrow> string option"
  e_past_constraints :: bool
  e_has_invariants :: "resolved_table \<Rightarrow> bool"
  e_legacy_calendar :: "(resolved_table \<Rightarrow> int option \<times> string option \<Rightarrow> file_check) option"
  e_early_files :: "(resolved_table \<Rightarrow> file_check) option"
  e_writes_itself :: "operation \<Rightarrow> resolved_table \<Rightarrow> shape \<Rightarrow> bool"
  e_read_sql :: bool
  e_dml_sql :: bool

record router =
  r_engines :: "engine_kind \<Rightarrow> engine option"
  r_fallback :: bool
  r_warehouse :: bool
  r_native :: "string \<Rightarrow> bool"

section \<open>Blockers\<close>

definition log_write_blocker :: "resolved_table \<Rightarrow> engine \<Rightarrow> reason option" where
  "log_write_blocker t e =
     (let exempt = (if e_past_constraints e then value_constraint_features else {});
          writer = (case t_min_writer t of None \<Rightarrow> 0 | Some v \<Rightarrow> v);
          unwritable = {n \<in> t_writer_features t.
            case feature_from_wire n of
              None \<Rightarrow> True
            | Some f \<Rightarrow> f \<notin> exempt \<and> (kernel_write (feature_support f) = No \<or> f = FCheckConstraints)}
      in if 3 \<le> writer \<and> writer \<le> 6 \<and> exempt = {} then Some (LegacyWriterLog writer)
         else if unwritable \<noteq> {} then Some (UnwritableLog unwritable)
         else if FInvariants \<notin> exempt \<and> (writer = 2 \<or> ''invariants'' \<in> t_writer_features t)
                 \<and> e_has_invariants e t
         then Some InvariantsPresent
         else None)"

definition operation_blocker :: "engine_kind \<Rightarrow> operation \<Rightarrow> resolved_table \<Rightarrow> engine \<Rightarrow> reason option" where
  "operation_blocker k op t e =
     (let hit = operation_feature_blockers k op \<inter> active_features t in
      if direct_engine k \<and> op \<in> append_only_forbidden \<and> append_only t then Some AppendOnly
      else if direct_engine k \<and> op \<in> uniform_stale_writes
           \<and> contains ''iceberg'' (py_lower (property t ''delta.universalFormat.enabledFormats'' []))
      then Some (if is_managed_iceberg t then ManagedIcebergWrite else UniformStale)
      else if direct_engine k \<and> op \<in> column_mapping_required \<and> FColumnMapping \<notin> active_features t
      then Some NeedsColumnMapping
      else if direct_engine k \<and> op = OpAlterColumnType \<and> \<not> property_true t ''delta.enableTypeWidening''
      then Some NeedsTypeWidening
      else if hit \<noteq> {} then Some (FeatureBlocks (feature_name ` hit))
      else if k = Kernel \<and> op \<in> kernel_log_write_operations then log_write_blocker t e
      else None)"

text \<open>\<open>_direct_refusal\<close>: why no direct engine may touch the table.\<close>

definition direct_refusal :: "operation \<Rightarrow> resolved_table \<Rightarrow> reason option" where
  "direct_refusal op t =
     (if is_shared t then None
      else if \<not> is_delta t then Some NotDelta
      else if is_view_like t \<and> \<not> (t_external_read t = Some True \<and> present (t_location t))
      then Some ViewWithoutFiles
      else if t_type t = Some Foreign then Some ForeignTable
      else if is_uc_hive_metastore t then Some HiveMetastore
      else if is_catalog_managed t \<and> op \<in> catalog_managed_alter_ops then Some CatalogManagedAlter
      else if t_open_error t \<noteq> None \<and> op \<notin> no_log_yet then Some (LogUnreadable (or_empty (t_open_error t)))
      else None)"

definition unvendable_reason :: "resolved_table \<Rightarrow> reason" where
  "unvendable_reason t =
     (if t_external_read t = Some False then
        (if present (t_access_policy t) then PolicyNoVending (or_empty (t_access_policy t)) else NoExternalRead)
      else NoExternalWrite)"

definition vendable :: "operation \<Rightarrow> resolved_table \<Rightarrow> bool" where
  "vendable op t \<longleftrightarrow>
     t_external_read t \<noteq> Some False
     \<and> \<not> (op \<notin> read_operations \<and> t_external_write t = Some False)"

definition warehouse_only :: "operation \<Rightarrow> resolved_table \<Rightarrow> reason option" where
  "warehouse_only op t =
     (if t_type t = Some Foreign then Some ForeignTable
      else if is_uc_hive_metastore t then Some HiveMetastore
      else if is_catalog_managed t \<and> op \<in> catalog_managed_alter_ops then Some CatalogManagedAlter
      else None)"

definition warehouse_names :: "router \<Rightarrow> resolved_table \<Rightarrow> bool" where
  "warehouse_names r t \<longleftrightarrow> r_warehouse r \<and> warehouse_can_name t"

definition fallback_remedy :: "router \<Rightarrow> resolved_table \<Rightarrow> remedy" where
  "fallback_remedy r t = (if warehouse_names r t then EnableFallback else NoRemedy)"

definition sql_reachable :: "router \<Rightarrow> bool" where
  "sql_reachable r \<longleftrightarrow> r_fallback r \<and> r_warehouse r \<and> r_engines r Sql \<noteq> None"

section \<open>Refusals from the catalog's metadata\<close>

definition non_delta_block :: "router \<Rightarrow> operation \<Rightarrow> resolved_table \<Rightarrow> capability option" where
  "non_delta_block r op t =
     (if is_iceberg t \<and> r_engines r Iceberg \<noteq> None \<and> present (t_iceberg_rest_uri t) then None
      else if sql_reachable r then None
      else if is_iceberg t
      then Some (refuse op [IcebergUnavailable (present (t_iceberg_rest_uri t))] InstallIceberg)
      else Some (refuse op [WrongFormat (if present (t_format t) then or_empty (t_format t) else ''unknown'')]
             (if warehouse_names r t then ConnectCanQuery else NoRemedy)))"

definition view_block :: "router \<Rightarrow> operation \<Rightarrow> resolved_table \<Rightarrow> capability option" where
  "view_block r op t =
     (if sql_reachable r then None
      else Some (refuse op [NoFileSurface (t_external_read t = Some True)] (fallback_remedy r t)))"

text \<open>
  From the append-only property on: the refusals of a table direct engines could read.
  What the table itself forbids; what only the warehouse gets around; and the operations
  only Databricks has.
\<close>

definition policy_block :: "operation \<Rightarrow> resolved_table \<Rightarrow> capability option" where
  "policy_block op t =
     (if op \<in> append_only_forbids \<and> append_only t
      then Some (refuse op [AppendOnlyForbids] UnsetAppendOnly)
      else if present (t_access_policy t) \<and> op \<in> access_policy_forbids
      then Some (refuse op [PolicyForbids (or_empty (t_access_policy t))] NoRemedy)
      else None)"

definition reach_block :: "router \<Rightarrow> operation \<Rightarrow> resolved_table \<Rightarrow> capability option" where
  "reach_block r op t =
     (if sql_reachable r then None
      else if warehouse_only op t \<noteq> None
      then Some (refuse op [the (warehouse_only op t)] (fallback_remedy r t))
      else if t_external_read t = Some False
      then Some (refuse op [unvendable_reason t] (fallback_remedy r t))
      else if op \<notin> read_operations \<and> t_external_write t = Some False
      then Some (refuse op [NoExternalWrite] (fallback_remedy r t))
      else if t_open_error t \<noteq> None \<and> op \<notin> no_log_yet
      then Some (refuse op
             [if geospatial t then GeospatialColumn else LogUnreadable (or_empty (t_open_error t))]
             (open_error_remedy t (r_warehouse r)))
      else None)"

definition databricks_block :: "router \<Rightarrow> operation \<Rightarrow> resolved_table \<Rightarrow> capability option" where
  "databricks_block r op t =
     (if \<not> databricks_only op then None
      else if \<not> r_warehouse r \<and> kind (t_ref t) = CATALOG
      then Some (refuse op [DatabricksElsewhere] NoRemedy)
      else if \<not> warehouse_can_name t
      then Some (refuse op [DatabricksNoName] RegisterTable)
      else if \<not> r_fallback r
      then Some (refuse op [DatabricksOnly] (fallback_remedy r t))
      else None)"

definition first_block :: "capability option list \<Rightarrow> capability option" where
  "first_block cs = (case filter (\<lambda>c. c \<noteq> None) cs of [] \<Rightarrow> None | c # _ \<Rightarrow> c)"

definition access_block :: "router \<Rightarrow> operation \<Rightarrow> resolved_table \<Rightarrow> capability option" where
  "access_block r op t = first_block [policy_block op t, reach_block r op t, databricks_block r op t]"

definition catalog_level_block :: "router \<Rightarrow> operation \<Rightarrow> resolved_table \<Rightarrow> capability option" where
  "catalog_level_block r op t =
     (if is_shared t then
        (if r_engines r Sharing \<noteq> None then None else Some (refuse op [SharingMissing] InstallSharing))
      else if \<not> is_delta t then non_delta_block r op t
      else if query_defined (t_type t) \<and> op \<in> data_writes
      then Some (refuse op [QueryDefined (the (t_type t))] (WriteSources (t_type t = Some MaterializedView)))
      else if is_view_like t \<and> \<not> (t_external_read t = Some True \<and> present (t_location t))
      then view_block r op t
      else access_block r op t)"

section \<open>Asking the engines\<close>

definition kernel_evaluates_sql :: "engine_kind \<Rightarrow> operation \<Rightarrow> string set \<Rightarrow> engine \<Rightarrow> bool" where
  "kernel_evaluates_sql k op needs e \<longleftrightarrow>
     k = Kernel \<and> op \<in> duckdb_dml \<and> ''duckdb_sql'' \<in> needs \<and> ''spark_sql'' \<notin> needs \<and> e_dml_sql e"

definition calendar_refusal :: "router \<Rightarrow> resolved_table \<Rightarrow> operation \<Rightarrow> shape \<Rightarrow> reason option" where
  "calendar_refusal r t op sh =
     (if \<not> t_has_datetime_columns t then None
      else
        (case Option.bind (r_engines r Kernel) e_legacy_calendar of
           None \<Rightarrow> None
         | Some check \<Rightarrow>
             let reading = (op \<notin> file_rewrites) in
             (case check t (if reading then (sh_version sh, sh_timestamp sh) else (None, None)) of
                Inl exc \<Rightarrow> if reading then None else Some (CalendarUnchecked exc)
              | Inr [] \<Rightarrow> None
              | Inr (f # fs) \<Rightarrow> Some (CalendarShifted reading))))"

definition footerless_rewrite :: "router \<Rightarrow> resolved_table \<Rightarrow> operation \<Rightarrow> shape \<Rightarrow> engine \<Rightarrow> reason option" where
  "footerless_rewrite r t op sh e =
     (if \<not> t_has_datetime_columns t then None
      else
        (case Option.bind (r_engines r Kernel) e_early_files of
           None \<Rightarrow> None
         | Some early \<Rightarrow>
             if \<not> e_writes_itself e op t sh then None
             else (case early t of
                Inl exc \<Rightarrow> Some (FooterUnchecked exc)
              | Inr [] \<Rightarrow> None
              | Inr (f # fs) \<Rightarrow> Some FooterShifts)))"

definition kernel_filters_sql :: "router \<Rightarrow> engine_kind \<Rightarrow> operation \<Rightarrow> resolved_table \<Rightarrow> string set
    \<Rightarrow> engine \<Rightarrow> shape \<Rightarrow> bool" where
  "kernel_filters_sql r k op t needs e sh \<longleftrightarrow>
     k = Kernel \<and> op \<in> {OpScan, OpTimeTravel} \<and> ''distributed_scan'' \<notin> needs \<and> e_read_sql e
     \<and> calendar_refusal r t op sh \<noteq> None"

definition missing_needs :: "engine \<Rightarrow> string set \<Rightarrow> string set" where
  "missing_needs e needs = {n \<in> needs - router_hints. \<not> e_has_need e n}"

definition unmet_needs :: "router \<Rightarrow> engine_kind \<Rightarrow> operation \<Rightarrow> resolved_table \<Rightarrow> string set
    \<Rightarrow> engine \<Rightarrow> shape \<Rightarrow> string set" where
  "unmet_needs r k op t needs e sh =
     (let missing = missing_needs e needs in
      if missing = {''sql_expressions''}
         \<and> (kernel_filters_sql r k op t needs e sh \<or> kernel_evaluates_sql k op needs e)
      then {} else missing)"

text \<open>What the router itself says of an engine, before the engine is asked.\<close>

definition skip_reason :: "router \<Rightarrow> operation \<Rightarrow> resolved_table \<Rightarrow> string set \<Rightarrow> engine_kind set \<Rightarrow> engine_kind
    \<Rightarrow> reason option" where
  "skip_reason r op t needs excl k =
     (if k \<in> excl then Some AlreadyTried
      else if k = Sql \<and> \<not> r_warehouse r then Some NotWorkspaceCatalog
      else if k = Sql \<and> \<not> warehouse_can_name t then Some NoUnityName
      else if k = Sql \<and> \<not> r_fallback r then Some FallbackDisabled
      else if r_engines r k = None then Some NotConfigured
      else None)"

definition direct_reason :: "router \<Rightarrow> operation \<Rightarrow> resolved_table \<Rightarrow> shape \<Rightarrow> reason option" where
  "direct_reason r op t sh =
     (case direct_refusal op t of Some x \<Rightarrow> Some x | None \<Rightarrow> strands_legacy_table (r_native r) op t sh)"

definition request_reason :: "router \<Rightarrow> operation \<Rightarrow> resolved_table \<Rightarrow> string set \<Rightarrow> shape \<Rightarrow> engine_kind
    \<Rightarrow> engine \<Rightarrow> reason option" where
  "request_reason r op t needs sh k e =
     (let unmet = unmet_needs r k op t needs e sh;
          refused = (if needs = {} then None else e_need_refusal e needs t) in
      if direct_engine k \<and> direct_reason r op t sh \<noteq> None then direct_reason r op t sh
      else if direct_engine k \<and> \<not> vendable op t then Some (unvendable_reason t)
      else if unmet \<noteq> {} then Some (LacksNeeds unmet)
      else if refused \<noteq> None then map_option Text refused
      else if ''predicates'' \<in> needs \<and> ''collation_free'' \<notin> needs \<and> direct_engine k
           \<and> features t \<inter> collations \<noteq> {}
      then Some CollatedColumns
      else if direct_engine k \<and> op \<in> data_reads \<and> ''variant_free'' \<notin> needs \<and> shreds_variants t
      then Some ShreddedVariants
      else operation_blocker k op t e)"

text \<open>What is checked of delta-rs once it has said yes.\<close>

definition deltars_reason :: "router \<Rightarrow> operation \<Rightarrow> resolved_table \<Rightarrow> shape \<Rightarrow> engine_kind \<Rightarrow> engine
    \<Rightarrow> reason option" where
  "deltars_reason r op t sh k e =
     (let shifted = (if k = Deltars \<and> op \<in> calendar_bound then calendar_refusal r t op sh else None) in
      if shifted \<noteq> None then shifted
      else if k = Deltars \<and> op \<in> file_rewrites then footerless_rewrite r t op sh e
      else None)"

text \<open>An engine's refusal is one entry of the list, even where it says nothing.\<close>

definition engine_reasons :: "capability \<Rightarrow> reason list" where
  "engine_reasons c = (if c_reasons c = [] then [Text []] else c_reasons c)"

text \<open>One turn of the loop: a capability, or the reasons and the SQL engine's remedy.\<close>

definition ask :: "router \<Rightarrow> operation \<Rightarrow> resolved_table \<Rightarrow> string set \<Rightarrow> engine_kind set \<Rightarrow> shape
    \<Rightarrow> engine_kind \<Rightarrow> (reason list \<times> remedy) + capability" where
  "ask r op t needs excl sh k =
     (case skip_reason r op t needs excl k of
        Some x \<Rightarrow> Inl ([By k x], NoRemedy)
      | None \<Rightarrow>
          (case r_engines r k of
             None \<Rightarrow> Inl ([By k NotConfigured], NoRemedy)
           | Some e \<Rightarrow>
               (case request_reason r op t needs sh k e of
                  Some x \<Rightarrow> Inl ([By k x], NoRemedy)
                | None \<Rightarrow>
                    let result = e_supports e op (exempted k op t sh) sh in
                    if c_ok result then
                      (case deltars_reason r op t sh k e of
                         Some x \<Rightarrow> Inl ([By k x], NoRemedy)
                       | None \<Rightarrow> Inr result)
                    else Inl (map (By k) (engine_reasons result),
                              if k = Sql then c_remedy result else NoRemedy))))"

fun ask_all :: "router \<Rightarrow> operation \<Rightarrow> resolved_table \<Rightarrow> string set \<Rightarrow> engine_kind set \<Rightarrow> shape
    \<Rightarrow> engine_kind list \<Rightarrow> reason list \<Rightarrow> remedy \<Rightarrow> (reason list \<times> remedy) + capability" where
  "ask_all r op t needs excl sh [] rs m = Inl (rs, m)"
| "ask_all r op t needs excl sh (k # ks) rs m =
     (case ask r op t needs excl sh k of
        Inr c \<Rightarrow> Inr c
      | Inl (rs', m') \<Rightarrow> ask_all r op t needs excl sh ks (rs @ rs') (if m' = NoRemedy then m else m'))"

definition final_remedy :: "router \<Rightarrow> resolved_table \<Rightarrow> engine_kind list \<Rightarrow> remedy \<Rightarrow> remedy" where
  "final_remedy r t ks m =
     (if Sql \<in> set ks \<and> \<not> is_shared t then
        (if \<not> r_warehouse r \<and> kind (t_ref t) = CATALOG then NoRemedy
         else if \<not> warehouse_can_name t then RegisterTable
         else if \<not> r_fallback r then ConnectWouldRoute
         else m)
      else m)"

text \<open>Refusals of the request itself.\<close>

definition request_block :: "operation \<Rightarrow> resolved_table \<Rightarrow> string set \<Rightarrow> capability option" where
  "request_block op t needs =
     (if ''identity_insert'' \<in> needs then Some (refuse op [IdentityInsert] LeaveOutIdentity)
      else if ''identity_update'' \<in> needs then Some (refuse op [IdentityUpdate] DropIdentity)
      else if ''removes_rows'' \<in> needs \<and> append_only t then Some (refuse op [AppendOnlyMerge] InsertOnly)
      else None)"

definition raw_capability :: "router \<Rightarrow> operation \<Rightarrow> resolved_table \<Rightarrow> string set \<Rightarrow> engine_kind set \<Rightarrow> shape
    \<Rightarrow> capability" where
  "raw_capability r op t needs excl sh =
     (case catalog_level_block r op t of
        Some c \<Rightarrow> c
      | None \<Rightarrow>
     (case request_block op t needs of
        Some c \<Rightarrow> c
      | None \<Rightarrow>
     (case (is_shared t, r_engines r Sharing) of
        (True, Some sharing) \<Rightarrow>
          if missing_needs sharing needs \<noteq> {}
          then refuse op [ShareLacks (missing_needs sharing needs)] NoRemedy
          else e_supports sharing op t sh
      | _ \<Rightarrow>
     (case operation_engines op of
        None \<Rightarrow> refuse op [UnknownOperation] NoRemedy
      | Some ks \<Rightarrow>
          (case ask_all r op t needs excl sh (preference op t ks) [] NoRemedy of
             Inr c \<Rightarrow> c
           | Inl (rs, m) \<Rightarrow> refuse op (if rs = [] then [NoEngine] else rs) (final_remedy r t ks m))))))"

definition scrubbed :: "router \<Rightarrow> capability \<Rightarrow> capability" where
  "scrubbed r c =
     (if r_warehouse r \<or> \<not> names_fallback (c_remedy c) then c else c\<lparr>c_remedy := NoRemedy\<rparr>)"

definition capability_of :: "router \<Rightarrow> operation \<Rightarrow> resolved_table \<Rightarrow> string set \<Rightarrow> engine_kind set \<Rightarrow> shape
    \<Rightarrow> capability" where
  "capability_of r op t needs excl sh = scrubbed r (raw_capability r op t needs excl sh)"

datatype route_error =
    FallbackRequired operation "reason list" remedy
  | Unreachable operation "reason list" remedy
  | AcceptedElsewhere operation "engine_kind option"

definition engine_for :: "router \<Rightarrow> operation \<Rightarrow> resolved_table \<Rightarrow> string set \<Rightarrow> engine_kind set \<Rightarrow> shape
    \<Rightarrow> route_error + engine" where
  "engine_for r op t needs excl sh =
     (let c = capability_of r op t needs excl sh in
      if c_ok c then
        (case Option.bind (c_engine c) (r_engines r) of
           Some e \<Rightarrow> Inr e
         | None \<Rightarrow> Inl (AcceptedElsewhere op (c_engine c)))
      else if list_ex says_disabled (c_reasons c)
           \<or> \<not> r_fallback r \<and> names_fallback (c_remedy c) \<and> c_remedy c \<noteq> RegisterTable
      then Inl (FallbackRequired op (c_reasons c) (c_remedy c))
      else Inl (Unreachable op (c_reasons c) (c_remedy c)))"

definition plain_shape :: shape where
  "plain_shape = \<lparr>sh_features = [], sh_properties = [], sh_dry_run = False, sh_version = None,
     sh_timestamp = None\<rparr>"

definition capabilities :: "router \<Rightarrow> resolved_table \<Rightarrow> operation \<Rightarrow> capability" where
  "capabilities r t op = capability_of r op t {} {} plain_shape"

end
