(* ===== verification/Router_Props.thy ===== *)
theory Router_Props
  imports Router Router_Features
begin

text \<open>
  What the router promises: it takes the first engine of the preference order that accepts,
  it never sends a table to an engine that must not touch it, it uses the warehouse only
  with the caller's consent, it accounts for every engine it passed over, and its advice
  works where the operation has a SQL route.
\<close>

section \<open>One engine\<close>

lemma ask_Inr:
  assumes "ask r op t needs excl sh k = Inr c"
  obtains e where "r_engines r k = Some e" "skip_reason r op t needs excl k = None"
    "request_reason r op t needs sh k e = None" "deltars_reason r op t sh k e = None"
    "c = e_supports e op (exempted k op t sh) sh" "c_ok c"
  using assms
  by (cases "r_engines r k"; cases "skip_reason r op t needs excl k")
    (auto simp: ask_def Let_def split: option.splits if_splits)

lemma ask_Inl_By:
  assumes "ask r op t needs excl sh k = Inl (rs, m)"
  shows "\<exists>x xs. rs = By k x # xs"
  using assms
  by (auto simp: ask_def engine_reasons_def Let_def split: option.splits if_splits list.splits)
    (metis list.exhaust list.simps(9))+

text \<open>An engine of its own kind: it names itself when it accepts.\<close>

definition honest :: "router \<Rightarrow> bool" where
  "honest r \<longleftrightarrow>
     (\<forall>k e op t sh. r_engines r k = Some e \<longrightarrow> c_ok (e_supports e op t sh)
        \<longrightarrow> c_engine (e_supports e op t sh) = Some k)"

section \<open>The loop\<close>

lemma ask_all_Inr:
  assumes "ask_all r op t needs excl sh ks rs m = Inr c"
  shows "\<exists>pre k post. ks = pre @ k # post \<and> ask r op t needs excl sh k = Inr c
    \<and> (\<forall>j\<in>set pre. \<exists>x. ask r op t needs excl sh j = Inl x)"
  using assms
proof (induction ks arbitrary: rs m)
  case (Cons k ks)
  show ?case
  proof (cases "ask r op t needs excl sh k")
    case (Inl x)
    obtain rs' m' where x: "x = (rs', m')" by (cases x)
    with Cons Inl obtain pre j post where "ks = pre @ j # post" "ask r op t needs excl sh j = Inr c"
      "\<forall>i\<in>set pre. \<exists>x. ask r op t needs excl sh i = Inl x"
      by fastforce
    then show ?thesis using Inl by (intro exI [of _ "k # pre"]) auto
  next
    case (Inr c')
    then show ?thesis using Cons.prems by (intro exI [of _ "[]"]) auto
  qed
qed simp

lemma ask_all_some:
  assumes "k \<in> set ks" "ask r op t needs excl sh k = Inr c"
  shows "\<exists>c'. ask_all r op t needs excl sh ks rs m = Inr c'"
  using assms by (induction ks arbitrary: rs m) (auto split: sum.splits)

lemma ask_all_Inl:
  assumes "ask_all r op t needs excl sh ks rs m = Inl (rs', m')"
  shows "(\<exists>xs. rs' = rs @ xs) \<and> (\<forall>k\<in>set ks. \<exists>x. By k x \<in> set rs')"
  using assms
proof (induction ks arbitrary: rs m)
  case (Cons k ks)
  then obtain rs1 m1 where k: "ask r op t needs excl sh k = Inl (rs1, m1)"
    "ask_all r op t needs excl sh ks (rs @ rs1) (if m1 = NoRemedy then m else m1) = Inl (rs', m')"
    by (auto split: sum.splits)
  then show ?case using Cons.IH [OF k(2)] ask_Inl_By [OF k(1)] by auto
qed simp

lemma ask_all_remedy:
  assumes "ask_all r op t needs excl sh ks rs m = Inl (rs', m')" "\<not> r_fallback r" "m = NoRemedy"
  shows "m' = NoRemedy"
  using assms
proof (induction ks arbitrary: rs m)
  case (Cons k ks)
  then obtain rs1 m1 where k: "ask r op t needs excl sh k = Inl (rs1, m1)"
    "ask_all r op t needs excl sh ks (rs @ rs1) (if m1 = NoRemedy then m else m1) = Inl (rs', m')"
    by (auto split: sum.splits)
  have "m1 = NoRemedy"
    using k(1) Cons.prems(2)
    by (auto simp: ask_def skip_reason_def Let_def split: option.splits if_splits)
  then show ?case using Cons k(2) by simp
qed simp

section \<open>The decision\<close>

text \<open>Nothing stops the request before the engines are asked.\<close>

definition reaches_engines :: "router \<Rightarrow> operation \<Rightarrow> resolved_table \<Rightarrow> string set \<Rightarrow> bool" where
  "reaches_engines r op t needs \<longleftrightarrow>
     catalog_level_block r op t = None \<and> request_block op t needs = None \<and> \<not> is_shared t"

lemma refuse_simps [simp]:
  "c_ok (refuse op rs m) = False" "c_reasons (refuse op rs m) = rs" "c_remedy (refuse op rs m) = m"
  by (simp_all add: refuse_def)

lemma scrubbed_simps [simp]:
  "c_ok (scrubbed r c) = c_ok c" "c_engine (scrubbed r c) = c_engine c"
  "c_reasons (scrubbed r c) = c_reasons c"
  by (simp_all add: scrubbed_def)

definition refusing :: "capability option \<Rightarrow> bool" where
  "refusing c \<longleftrightarrow> (\<forall>x. c = Some x \<longrightarrow> \<not> c_ok x)"

lemma refusing_intros:
  "refusing None" "refusing (Some (refuse op rs m))"
  "refusing x \<Longrightarrow> refusing y \<Longrightarrow> refusing (if b then x else y)"
  by (simp_all add: refusing_def)

lemma refusing_first [simp]:
  "refusing x \<Longrightarrow> refusing (first_block cs) \<Longrightarrow> refusing (first_block (x # cs))" "refusing (first_block [])"
  by (cases x; simp add: refusing_def first_block_def)+

lemma access_blocks_refusing:
  "refusing (policy_block op t)" "refusing (reach_block r op t)" "refusing (databricks_block r op t)"
  unfolding policy_block_def reach_block_def databricks_block_def by (intro refusing_intros)+

lemma access_block_refusing: "refusing (access_block r op t)"
  by (simp add: access_block_def access_blocks_refusing)

lemma blocks_refusing: "refusing (catalog_level_block r op t)" "refusing (request_block op t needs)"
  unfolding catalog_level_block_def non_delta_block_def view_block_def request_block_def
  by (intro refusing_intros access_block_refusing)+

lemma block_refuses:
  "catalog_level_block r op t = Some c \<Longrightarrow> \<not> c_ok c" "request_block op t needs = Some c \<Longrightarrow> \<not> c_ok c"
  using blocks_refusing by (auto simp: refusing_def)

lemma raw_capability_engines:
  assumes "reaches_engines r op t needs" "operation_engines op = Some ks"
  shows "raw_capability r op t needs excl sh =
    (case ask_all r op t needs excl sh (preference op t ks) [] NoRemedy of
       Inr c \<Rightarrow> c | Inl (rs, m) \<Rightarrow> refuse op (if rs = [] then [NoEngine] else rs) (final_remedy r t ks m))"
  using assms by (simp add: raw_capability_def reaches_engines_def)

lemma raw_capability_ok:
  assumes "c_ok (raw_capability r op t needs excl sh)" "\<not> is_shared t"
  obtains ks where "reaches_engines r op t needs" "operation_engines op = Some ks"
    "ask_all r op t needs excl sh (preference op t ks) [] NoRemedy = Inr (raw_capability r op t needs excl sh)"
proof -
  have block: "catalog_level_block r op t = None" "request_block op t needs = None"
    using assms(1) block_refuses by (auto simp: raw_capability_def split: option.splits)
  then have reach: "reaches_engines r op t needs" using assms(2) by (simp add: reaches_engines_def)
  obtain ks where ks: "operation_engines op = Some ks"
    using assms block by (auto simp: raw_capability_def split: option.splits)
  have "ask_all r op t needs excl sh (preference op t ks) [] NoRemedy = Inr (raw_capability r op t needs excl sh)"
    using assms(1) raw_capability_engines [OF reach ks, of excl sh]
    by (auto split: sum.splits)
  then show thesis using that reach ks by blast
qed

section \<open>Routes\<close>

lemma set_preference [simp]: "set (preference op t ks) = set ks"
  using preference_cases [of op t ks] by (auto simp: kernel_first_def)

section \<open>The accepting engine\<close>

lemma accepting_engine:
  assumes "honest r" "\<not> is_shared t" "c_ok (capability_of r op t needs excl sh)"
  shows "\<exists>ks pre k post e. operation_engines op = Some ks \<and> preference op t ks = pre @ k # post
    \<and> (\<forall>j\<in>set pre. \<exists>x. ask r op t needs excl sh j = Inl x)
    \<and> r_engines r k = Some e \<and> c_ok (e_supports e op (exempted k op t sh) sh)
    \<and> c_engine (capability_of r op t needs excl sh) = Some k
    \<and> ask r op t needs excl sh k = Inr (raw_capability r op t needs excl sh)"
proof -
  let ?raw = "raw_capability r op t needs excl sh"
  have "c_ok ?raw" using assms(3) by (simp add: capability_of_def)
  then obtain ks where ks: "operation_engines op = Some ks"
    "ask_all r op t needs excl sh (preference op t ks) [] NoRemedy = Inr ?raw"
    using raw_capability_ok assms(2) by metis
  from ask_all_Inr [OF ks(2)] obtain pre k post where
    split: "preference op t ks = pre @ k # post" and k: "ask r op t needs excl sh k = Inr ?raw"
    and pre: "\<forall>j\<in>set pre. \<exists>x. ask r op t needs excl sh j = Inl x"
    by blast
  obtain e where e: "r_engines r k = Some e" "?raw = e_supports e op (exempted k op t sh) sh" "c_ok ?raw"
    using k by (rule ask_Inr)
  then have "c_engine ?raw = Some k" using assms(1) by (metis honest_def)
  then show ?thesis using ks(1) split pre e k by (auto simp: capability_of_def)
qed

lemma consent:
  assumes "honest r" "c_ok (capability_of r op t needs excl sh)"
    and "c_engine (capability_of r op t needs excl sh) = Some Sql"
  shows "r_fallback r \<and> r_warehouse r \<and> warehouse_can_name t \<and> Sql \<notin> excl"
proof (cases "is_shared t")
  case True
  let ?raw = "raw_capability r op t needs excl sh"
  have ok: "c_ok ?raw" and sql: "c_engine ?raw = Some Sql" using assms(2,3) by (simp_all add: capability_of_def)
  have "catalog_level_block r op t = None" "request_block op t needs = None"
    using ok block_refuses by (auto simp: raw_capability_def split: option.splits)
  moreover obtain e where e: "r_engines r Sharing = Some e"
    using True \<open>catalog_level_block r op t = None\<close> by (auto simp: catalog_level_block_def split: if_splits)
  ultimately have "?raw = e_supports e op t sh"
    using ok True by (auto simp: raw_capability_def split: if_splits)
  then have "c_engine ?raw = Some Sharing" using assms(1) e ok by (auto simp: honest_def)
  with sql show ?thesis by simp
next
  case False
  obtain ks pre k' post e where
    "c_engine (capability_of r op t needs excl sh) = Some k'"
    and ask: "ask r op t needs excl sh k' = Inr (raw_capability r op t needs excl sh)"
    using accepting_engine [OF assms(1) False assms(2)] by metis
  then have "ask r op t needs excl sh Sql = Inr (raw_capability r op t needs excl sh)" using assms(3) by simp
  then have "skip_reason r op t needs excl Sql = None" by (rule ask_Inr)
  then show ?thesis by (auto simp: skip_reason_def split: if_splits)
qed

section \<open>A sample connection\<close>

definition willing :: "engine_kind \<Rightarrow> engine" where
  "willing k = \<lparr>e_supports = (\<lambda>op t sh. \<lparr>c_operation = op, c_ok = True, c_engine = Some k,
       c_reasons = [], c_remedy = NoRemedy\<rparr>), e_has_need = (\<lambda>_. True), e_need_refusal = (\<lambda>_ _. None),
     e_past_constraints = True, e_has_invariants = (\<lambda>_. False), e_legacy_calendar = None,
     e_early_files = None, e_writes_itself = (\<lambda>_ _ _. True), e_read_sql = True, e_dml_sql = True\<rparr>"

definition connection_of :: "engine_kind list \<Rightarrow> bool \<Rightarrow> router" where
  "connection_of ks fallback = \<lparr>r_engines = (\<lambda>k. if k \<in> set ks then Some (willing k) else None),
     r_fallback = fallback, r_warehouse = True, r_native = (\<lambda>_. True)\<rparr>"

definition named_ref :: table_ref where
  "named_ref = \<lparr>kind = CATALOG, catalog = Some ''main'', schema = Some ''s'', table = Some ''t'',
     path = None, scheme = Some ''uc'', endpoint = None, raw = ''main.s.t''\<rparr>"

definition plain_table :: resolved_table where
  "plain_table = \<lparr>t_ref = named_ref, t_location = Some ''s3://b/t'', t_type = Some Managed,
     t_format = Some ''DELTA'', t_securable = None, t_id = None, t_min_reader = Some 3,
     t_min_writer = Some 7, t_reader_features = {''deletionVectors''},
     t_writer_features = {''deletionVectors'', ''appendOnly''},
     t_properties = [''delta.enableDeletionVectors'' \<mapsto> ''true''], t_partition_columns = [],
     t_has_invariants = False, t_has_check_constraints = False, t_has_generated_columns = False,
     t_has_binary_partitions = False, t_has_datetime_columns = False, t_open_error = None,
     t_uuid = None, t_etag = None, t_external_read = None, t_external_write = None,
     t_access_policy = None, t_max_catalog_version = None, t_iceberg_rest_uri = None,
     t_sharing_profile = None\<rparr>"

lemma honest_connection [simp]: "honest (connection_of ks fallback)"
  by (simp add: honest_def connection_of_def willing_def split: if_splits)

section \<open>Properties\<close>

text \<open>
  C24: An accepted request is served by the first engine, in the table's preference order,
  that accepts it: every engine before it was skipped or refused, and its own verdict is
  the one returned.
\<close>

theorem capability_first_accepting:
  assumes "honest r" "\<not> is_shared t" "c_ok (capability_of r op t needs excl sh)"
  shows "\<exists>ks pre k post e. operation_engines op = Some ks \<and> preference op t ks = pre @ k # post
    \<and> (\<forall>j\<in>set pre. \<exists>x. ask r op t needs excl sh j = Inl x)
    \<and> r_engines r k = Some e \<and> c_ok (e_supports e op (exempted k op t sh) sh)
    \<and> c_engine (capability_of r op t needs excl sh) = Some k"
  using accepting_engine [OF assms] by blast

theorem capability_first_accepting_witness:
  "\<exists>ks pre k post e. operation_engines OpDelete = Some ks \<and> preference OpDelete plain_table ks = pre @ k # post
    \<and> (\<forall>j\<in>set pre. \<exists>x. ask (connection_of [Kernel, Deltars] False) OpDelete plain_table {} {} plain_shape j = Inl x)
    \<and> r_engines (connection_of [Kernel, Deltars] False) k = Some e
    \<and> c_ok (e_supports e OpDelete (exempted k OpDelete plain_table plain_shape) plain_shape)
    \<and> c_engine (capability_of (connection_of [Kernel, Deltars] False) OpDelete plain_table {} {} plain_shape) = Some k"
proof (rule capability_first_accepting)
  show "\<not> is_shared plain_table" by code_simp
  show "c_ok (capability_of (connection_of [Kernel, Deltars] False) OpDelete plain_table {} {} plain_shape)"
    by code_simp
qed simp

text \<open>
  C20: A direct engine (the kernel or delta-rs) serves a request only where nothing bars it
  from the table's files: no refusal of the table as a whole, no metadata change that would
  strand the table, credentials the catalog vends, no removal from an append-only table,
  no write that would leave UniForm metadata stale, no byte-order comparison of collated
  columns, no shredded VARIANT to decode, and every need of the request met.
\<close>

theorem direct_engine_safe:
  assumes "honest r" "\<not> is_shared t" "c_ok (capability_of r op t needs excl sh)"
    and "c_engine (capability_of r op t needs excl sh) = Some k" "direct_engine k"
  shows "k \<notin> excl \<and> direct_refusal op t = None \<and> strands_legacy_table (r_native r) op t sh = None
    \<and> vendable op t
    \<and> \<not> (append_only t \<and> op \<in> append_only_forbidden)
    \<and> \<not> (op \<in> uniform_stale_writes
         \<and> contains ''iceberg'' (py_lower (property t ''delta.universalFormat.enabledFormats'' [])))
    \<and> (''predicates'' \<in> needs \<and> features t \<inter> collations \<noteq> {} \<longrightarrow> ''collation_free'' \<in> needs)
    \<and> (op \<in> data_reads \<and> shreds_variants t \<longrightarrow> ''variant_free'' \<in> needs)
    \<and> (\<forall>e. r_engines r k = Some e \<longrightarrow> unmet_needs r k op t needs e sh = {})"
proof -
  obtain ks pre k' post e where
    e: "r_engines r k' = Some e" "c_engine (capability_of r op t needs excl sh) = Some k'"
    and ask: "ask r op t needs excl sh k' = Inr (raw_capability r op t needs excl sh)"
    using accepting_engine [OF assms(1-3)] by metis
  then have k: "k' = k" using assms(4) by simp
  from ask obtain e' where "r_engines r k' = Some e'" "skip_reason r op t needs excl k' = None"
    "request_reason r op t needs sh k' e' = None"
    by (rule ask_Inr)
  then have skip: "skip_reason r op t needs excl k = None" and req: "request_reason r op t needs sh k e = None"
    using e k by auto
  have blocker: "operation_blocker k op t e = None" and direct: "direct_reason r op t sh = None"
    and rest: "vendable op t" "unmet_needs r k op t needs e sh = {}"
      "\<not> (''predicates'' \<in> needs \<and> ''collation_free'' \<notin> needs \<and> features t \<inter> collations \<noteq> {})"
      "\<not> (op \<in> data_reads \<and> ''variant_free'' \<notin> needs \<and> shreds_variants t)"
    using req assms(5) by (auto simp: request_reason_def Let_def split: if_splits)
  have "k \<notin> excl" using skip by (auto simp: skip_reason_def split: if_splits)
  moreover have "direct_refusal op t = None" "strands_legacy_table (r_native r) op t sh = None"
    using direct by (auto simp: direct_reason_def split: option.splits)
  moreover have "\<not> (append_only t \<and> op \<in> append_only_forbidden)"
    "\<not> (op \<in> uniform_stale_writes
         \<and> contains ''iceberg'' (py_lower (property t ''delta.universalFormat.enabledFormats'' [])))"
    using blocker assms(5) by (auto simp: operation_blocker_def Let_def split: if_splits)
  ultimately show ?thesis using rest e(1) k by auto
qed

theorem direct_engine_safe_witness:
  "Kernel \<notin> {Deltars} \<and> direct_refusal OpDelete plain_table = None
    \<and> strands_legacy_table (\<lambda>_. True) OpDelete plain_table plain_shape = None"
  using direct_engine_safe [of "connection_of [Kernel, Deltars] False" plain_table OpDelete "{}" "{Deltars}" plain_shape Kernel]
proof -
  have r: "r_native (connection_of [Kernel, Deltars] False) = (\<lambda>_. True)" by (simp add: connection_of_def)
  have "\<not> is_shared plain_table" by code_simp
  moreover have "c_ok (capability_of (connection_of [Kernel, Deltars] False) OpDelete plain_table {} {Deltars} plain_shape)"
    by code_simp
  moreover have "c_engine (capability_of (connection_of [Kernel, Deltars] False) OpDelete plain_table {} {Deltars} plain_shape)
    = Some Kernel" by code_simp
  moreover have "direct_engine Kernel" by code_simp
  ultimately show ?thesis
    using direct_engine_safe [of "connection_of [Kernel, Deltars] False" plain_table OpDelete "{}" "{Deltars}" plain_shape Kernel]
    by (simp add: r)
qed

text \<open>
  C25: The warehouse serves a request only where the caller enabled the fallback, the
  connection's catalog is the workspace it serves, and the table has a Unity Catalog name.
\<close>

theorem warehouse_by_consent:
  assumes "honest r" "c_ok (capability_of r op t needs excl sh)"
    and "c_engine (capability_of r op t needs excl sh) = Some Sql"
  shows "r_fallback r \<and> r_warehouse r \<and> warehouse_can_name t \<and> Sql \<notin> excl"
  by (rule consent [OF assms])

theorem warehouse_by_consent_witness:
  "r_fallback (connection_of [Sql] True) \<and> warehouse_can_name plain_table"
proof -
  have "c_ok (capability_of (connection_of [Sql] True) OpDropFeature plain_table {} {} plain_shape)" by code_simp
  moreover have "c_engine (capability_of (connection_of [Sql] True) OpDropFeature plain_table {} {} plain_shape) = Some Sql"
    by code_simp
  ultimately show ?thesis using warehouse_by_consent [OF honest_connection] by blast
qed

text \<open>
  On a connection whose catalog is not the Databricks workspace no verdict advises the
  fallback, and none names the warehouse as the engine.
\<close>

theorem foreign_catalog_no_fallback:
  assumes "honest r" "\<not> r_warehouse r"
  shows "\<not> names_fallback (c_remedy (capability_of r op t needs excl sh))
    \<and> (c_ok (capability_of r op t needs excl sh) \<longrightarrow> c_engine (capability_of r op t needs excl sh) \<noteq> Some Sql)"
proof
  show "\<not> names_fallback (c_remedy (capability_of r op t needs excl sh))"
    using assms(2) by (simp add: capability_of_def scrubbed_def)
next
  show "c_ok (capability_of r op t needs excl sh) \<longrightarrow> c_engine (capability_of r op t needs excl sh) \<noteq> Some Sql"
    using consent [OF assms(1)] assms(2) by blast
qed

theorem foreign_catalog_no_fallback_witness:
  "\<not> names_fallback (c_remedy (capability_of ((connection_of [] True)\<lparr>r_warehouse := False\<rparr>) OpScan plain_table {} {} plain_shape))"
proof -
  have "honest ((connection_of [] True)\<lparr>r_warehouse := False\<rparr>)" by (simp add: honest_def connection_of_def)
  moreover have "\<not> r_warehouse ((connection_of [] True)\<lparr>r_warehouse := False\<rparr>)" by simp
  ultimately show ?thesis using foreign_catalog_no_fallback by blast
qed

text \<open>A rule on the catalog or the request that refuses says why.\<close>

definition explained :: "capability option \<Rightarrow> bool" where
  "explained c \<longleftrightarrow> (\<forall>x. c = Some x \<longrightarrow> c_reasons x \<noteq> [])"

lemma explained_intros:
  "explained None" "rs \<noteq> [] \<Longrightarrow> explained (Some (refuse op rs m))"
  "explained x \<Longrightarrow> explained y \<Longrightarrow> explained (if b then x else y)"
  by (simp_all add: explained_def)

lemma explained_first [simp]:
  "explained x \<Longrightarrow> explained (first_block cs) \<Longrightarrow> explained (first_block (x # cs))" "explained (first_block [])"
  by (cases x; simp add: explained_def first_block_def)+

lemma access_blocks_explained:
  "explained (policy_block op t)" "explained (reach_block r op t)" "explained (databricks_block r op t)"
  unfolding policy_block_def reach_block_def databricks_block_def by (intro explained_intros; simp)+

lemma blocks_explained: "explained (catalog_level_block r op t)" "explained (request_block op t needs)"
  unfolding catalog_level_block_def non_delta_block_def view_block_def request_block_def access_block_def
  by ((intro explained_intros; simp add: access_blocks_explained)+)

text \<open>
  C28: Every refusal of a table that is not shared is explained.  One that comes before the
  engines are asked, from a rule on the catalog or on the request, gives a reason, and so does
  an operation no route is known for; one that comes after them has an entry of its own for
  each engine of the operation's route, whether skipped, barred or asked.
\<close>

theorem refusal_accounts_for_engines:
  assumes "\<not> c_ok (capability_of r op t needs excl sh)" "\<not> is_shared t"
  shows "c_reasons (capability_of r op t needs excl sh) \<noteq> []
    \<and> (catalog_level_block r op t = None \<and> request_block op t needs = None \<longrightarrow>
        (\<forall>ks. operation_engines op = Some ks \<longrightarrow>
           (\<forall>k\<in>set ks. \<exists>x. By k x \<in> set (c_reasons (capability_of r op t needs excl sh)))))"
proof (cases "reaches_engines r op t needs \<and> operation_engines op \<noteq> None")
  case True
  then obtain ks where reach: "reaches_engines r op t needs" "operation_engines op = Some ks" by blast
  have "\<not> c_ok c" if "ask_all r op t needs excl sh (preference op t ks) [] NoRemedy = Inr c" for c
    using that raw_capability_engines [OF reach, of excl sh] assms(1) by (simp add: capability_of_def)
  then obtain rs m where loop: "ask_all r op t needs excl sh (preference op t ks) [] NoRemedy = Inl (rs, m)"
    by (metis ask_all_Inr ask_Inr old.sum.exhaust surj_pair)
  have reasons: "c_reasons (capability_of r op t needs excl sh) = (if rs = [] then [NoEngine] else rs)"
    using raw_capability_engines [OF reach, of excl sh] loop by (simp add: capability_of_def)
  have "\<forall>k\<in>set ks. \<exists>x. By k x \<in> set rs" using ask_all_Inl [OF loop] by simp
  then show ?thesis unfolding reasons using reach(2) by auto
next
  case False
  then consider c where "catalog_level_block r op t = Some c"
    | c where "catalog_level_block r op t = None" "request_block op t needs = Some c"
    | "catalog_level_block r op t = None" "request_block op t needs = None" "operation_engines op = None"
    using assms(2) by (auto simp: reaches_engines_def)
  then show ?thesis
  proof cases
    case (1 c)
    then show ?thesis using blocks_explained(1) [of r op t] by (simp add: explained_def capability_of_def raw_capability_def)
  next
    case (2 c)
    then show ?thesis using blocks_explained(2) [of op t needs] by (simp add: explained_def capability_of_def raw_capability_def)
  next
    case 3
    then show ?thesis using assms(2) by (simp add: capability_of_def raw_capability_def)
  qed
qed

theorem refusal_accounts_for_engines_witness:
  "\<exists>x. By Sql x \<in> set (c_reasons (capability_of (connection_of [] False) OpScan plain_table {} {} plain_shape))"
proof -
  have h: "\<not> c_ok (capability_of (connection_of [] False) OpScan plain_table {} {} plain_shape)" "\<not> is_shared plain_table"
    "catalog_level_block (connection_of [] False) OpScan plain_table = None" "request_block OpScan plain_table {} = None"
    "operation_engines OpScan = Some [Kernel, Deltars, Sharing, Iceberg, Sql]"
    by code_simp+
  show ?thesis using refusal_accounts_for_engines [OF h(1,2)] h(3-5) by simp
qed

end
