(* ===== verification/Router_Advice.thy ===== *)
theory Router_Advice
  imports Router_Props
begin

text \<open>
  What following the router's advice does.  A refusal that recommends the SQL fallback is
  compared with the same request on the connection the advice describes: the fallback on
  and a SQL engine configured that takes the request.
\<close>

section \<open>Advice\<close>

text \<open>The connection after the advice is followed: the fallback on, and a SQL engine.\<close>

definition with_fallback :: "router \<Rightarrow> engine \<Rightarrow> router" where
  "with_fallback r e = r\<lparr>r_fallback := True, r_engines := (r_engines r)(Sql \<mapsto> e)\<rparr>"

text \<open>An SQL engine that takes the request.\<close>

definition serves :: "engine \<Rightarrow> operation \<Rightarrow> resolved_table \<Rightarrow> string set \<Rightarrow> shape \<Rightarrow> bool" where
  "serves e op t needs sh \<longleftrightarrow>
     missing_needs e needs = {} \<and> e_need_refusal e needs t = None \<and> c_ok (e_supports e op t sh)"

lemma sql_asked:
  assumes "serves e op t needs sh" "r_warehouse r" "warehouse_can_name t" "Sql \<notin> excl"
  shows "\<exists>c. ask (with_fallback r e) op t needs excl sh Sql = Inr c"
proof -
  have "request_reason (with_fallback r e) op t needs sh Sql e = None"
    using assms(1)
    by (simp add: request_reason_def unmet_needs_def serves_def direct_engine_def operation_blocker_def
        operation_feature_blockers_def kernel_filters_sql_def kernel_evaluates_sql_def Let_def)
  moreover have "skip_reason (with_fallback r e) op t needs excl Sql = None"
    using assms by (simp add: skip_reason_def with_fallback_def)
  moreover have "r_engines (with_fallback r e) Sql = Some e" by (simp add: with_fallback_def)
  moreover have "deltars_reason (with_fallback r e) op t sh Sql e = None" by (simp add: deltars_reason_def)
  ultimately show ?thesis using assms(1)
    by (simp add: ask_def serves_def exempted_def)
qed

lemma fallback_serves:
  assumes "serves e op t needs sh" "r_warehouse r" "warehouse_can_name t" "Sql \<notin> excl"
    and "catalog_level_block (with_fallback r e) op t = None" "request_block op t needs = None"
    and "\<not> is_shared t" "operation_engines op = Some ks" "Sql \<in> set ks"
  shows "c_ok (capability_of (with_fallback r e) op t needs excl sh)"
proof -
  obtain c where "ask (with_fallback r e) op t needs excl sh Sql = Inr c"
    using sql_asked assms by blast
  then obtain c' where c': "ask_all (with_fallback r e) op t needs excl sh (preference op t ks) [] NoRemedy = Inr c'"
    using ask_all_some [of Sql "preference op t ks"] assms(9) by fastforce
  then have "c_ok c'" using ask_all_Inr ask_Inr by metis
  moreover have "reaches_engines (with_fallback r e) op t needs" using assms by (simp add: reaches_engines_def)
  ultimately show ?thesis using raw_capability_engines [OF _ assms(8)] c' by (simp add: capability_of_def)
qed

lemma sql_reachable_with [simp]: "sql_reachable (with_fallback r e) = r_warehouse r"
  by (simp add: sql_reachable_def with_fallback_def)

lemma with_fallback_simps [simp]:
  "r_warehouse (with_fallback r e) = r_warehouse r" "r_fallback (with_fallback r e)"
  "k \<noteq> Sql \<Longrightarrow> r_engines (with_fallback r e) k = r_engines r k"
  by (simp_all add: with_fallback_def)

definition fallback_advice :: "remedy \<Rightarrow> bool" where
  "fallback_advice m \<longleftrightarrow> m \<in> {EnableFallback, ConnectCanQuery, ConnectWouldRoute}"

lemma fallback_remedy_advice: "fallback_advice (fallback_remedy r t) \<Longrightarrow> warehouse_names r t"
  by (simp add: fallback_remedy_def fallback_advice_def split: if_splits)

lemma first_block_simps [simp]:
  "first_block [] = None" "first_block (x # xs) = (case x of None \<Rightarrow> first_block xs | Some c \<Rightarrow> Some c)"
  by (cases x; simp add: first_block_def)+

lemma policy_no_advice: "policy_block op t = Some c \<Longrightarrow> \<not> fallback_advice (c_remedy c)"
  by (auto simp: policy_block_def fallback_advice_def split: if_splits)

lemma reach_advice:
  "reach_block r op t = Some c \<Longrightarrow> fallback_advice (c_remedy c) \<Longrightarrow> warehouse_names r t"
  by (auto simp: reach_block_def open_error_remedy_def fallback_remedy_def warehouse_names_def
      fallback_advice_def Let_def split: if_splits)

lemma databricks_advice:
  "databricks_block r op t = Some c \<Longrightarrow> fallback_advice (c_remedy c) \<Longrightarrow> warehouse_names r t"
  by (auto simp: databricks_block_def fallback_remedy_def fallback_advice_def split: if_splits)

lemma blocks_with_fallback:
  "r_warehouse r \<Longrightarrow> reach_block (with_fallback r e) op t = None"
  "r_warehouse r \<Longrightarrow> warehouse_can_name t \<Longrightarrow> databricks_block (with_fallback r e) op t = None"
  by (simp_all add: reach_block_def databricks_block_def)

lemma access_block_advice:
  assumes "access_block r op t = Some c" "fallback_advice (c_remedy c)"
  shows "warehouse_names r t \<and> access_block (with_fallback r e) op t = None"
proof -
  have policy: "policy_block op t = None"
    using assms policy_no_advice by (auto simp: access_block_def split: option.splits)
  then have "warehouse_names r t"
    using assms reach_advice databricks_advice by (auto simp: access_block_def split: option.splits)
  then show ?thesis
    using policy by (simp add: access_block_def warehouse_names_def blocks_with_fallback)
qed

lemma access_block_monotone:
  assumes "access_block r op t = None" "r_warehouse r"
  shows "access_block (with_fallback r e) op t = None"
proof -
  have "policy_block op t = None" "databricks_block r op t = None"
    using assms(1) by (auto simp: access_block_def split: option.splits)
  moreover have "databricks_block (with_fallback r e) op t = None"
    using \<open>databricks_block r op t = None\<close> assms(2) by (auto simp: databricks_block_def split: if_splits)
  ultimately show ?thesis using assms(2) by (simp add: access_block_def blocks_with_fallback)
qed

lemma catalog_block_advice:
  assumes "catalog_level_block r op t = Some c" "fallback_advice (c_remedy c)"
  shows "warehouse_names r t \<and> catalog_level_block (with_fallback r e) op t = None"
proof -
  have shared: "\<not> is_shared t"
    using assms by (auto simp: catalog_level_block_def fallback_advice_def split: if_splits)
  show ?thesis
  proof (cases "is_delta t")
    case False
    then have "non_delta_block r op t = Some c" using assms(1) shared by (simp add: catalog_level_block_def)
    then have "warehouse_names r t"
      using assms(2) by (auto simp: non_delta_block_def fallback_advice_def split: if_splits)
    then show ?thesis using shared False
      by (simp add: catalog_level_block_def non_delta_block_def warehouse_names_def)
  next
    case True
    have query: "\<not> (query_defined (t_type t) \<and> op \<in> data_writes)"
      using assms shared True by (auto simp: catalog_level_block_def fallback_advice_def)
    show ?thesis
    proof (cases "is_view_like t \<and> \<not> (t_external_read t = Some True \<and> present (t_location t))")
      case view: True
      then have "view_block r op t = Some c"
        using assms(1) shared True query unfolding catalog_level_block_def by (simp only: if_False if_True simp_thms)
      then have "warehouse_names r t"
        using assms(2) fallback_remedy_advice by (auto simp: view_block_def split: if_splits)
      then show ?thesis using shared True query view unfolding catalog_level_block_def
        by (simp only: if_False if_True simp_thms) (simp add: view_block_def warehouse_names_def)
    next
      case False
      then have "access_block r op t = Some c"
        using assms(1) shared True query unfolding catalog_level_block_def by (simp only: if_False if_True simp_thms)
      from access_block_advice [OF this assms(2)] show ?thesis
        using shared True query False unfolding catalog_level_block_def
        by (simp only: if_False if_True simp_thms)
    qed
  qed
qed

lemma catalog_block_monotone:
  assumes "catalog_level_block r op t = None" "r_warehouse r" "\<not> is_shared t"
  shows "catalog_level_block (with_fallback r e) op t = None"
proof -
  note defs = catalog_level_block_def
  show ?thesis
  proof (cases "is_delta t")
    case False
    with assms show ?thesis by (simp add: defs non_delta_block_def)
  next
    case True
    then have query: "\<not> (query_defined (t_type t) \<and> op \<in> data_writes)"
      using assms by (auto simp: defs)
    show ?thesis
    proof (cases "is_view_like t \<and> \<not> (t_external_read t = Some True \<and> present (t_location t))")
      case view: True
      then show ?thesis using assms(2,3) True query unfolding defs
        by (simp only: if_False if_True simp_thms) (simp add: view_block_def)
    next
      case False
      then have "access_block r op t = None"
        using assms True query unfolding defs by (simp only: if_False if_True simp_thms)
      from access_block_monotone [OF this assms(2)] show ?thesis
        using assms(3) True query False unfolding defs by (simp only: if_False if_True simp_thms)
    qed
  qed
qed

text \<open>
  C21: The advice to enable the fallback is good advice where the warehouse has a way to the
  request.  Where a connection without the fallback refuses a request on a table that is not
  shared and recommends the fallback, no rule bars the request itself, the operation has a SQL
  route the caller does not exclude, and the SQL engine would take the request, the same
  connection with the fallback on and that engine serves it.  Without the route the advice can
  be empty (\<open>advice_without_route\<close>).
\<close>

theorem fallback_advice_works:
  assumes "\<not> r_fallback r" "\<not> is_shared t" "request_block op t needs = None"
    and "operation_engines op = Some ks" "Sql \<in> set ks" "Sql \<notin> excl"
    and "\<not> c_ok (capability_of r op t needs excl sh)"
    and "fallback_advice (c_remedy (capability_of r op t needs excl sh))"
    and "serves e op t needs sh"
  shows "c_ok (capability_of (with_fallback r e) op t needs excl sh)"
proof -
  let ?raw = "raw_capability r op t needs excl sh"
  have advice: "fallback_advice (c_remedy ?raw)"
    using assms(8) by (auto simp: capability_of_def scrubbed_def fallback_advice_def split: if_splits)
  have "warehouse_names r t \<and> catalog_level_block (with_fallback r e) op t = None"
  proof (cases "catalog_level_block r op t")
    case (Some c)
    with advice show ?thesis using catalog_block_advice [of r op t c e] by (simp add: raw_capability_def)
  next
    case None
    then have reach: "reaches_engines r op t needs" using assms by (simp add: reaches_engines_def)
    have "\<not> c_ok ?raw" using assms(7) by (simp add: capability_of_def)
    then obtain rs m where loop: "ask_all r op t needs excl sh (preference op t ks) [] NoRemedy = Inl (rs, m)"
      using raw_capability_engines [OF reach assms(4), of excl sh] ask_all_Inr ask_Inr
      by (metis (no_types, lifting) old.sum.exhaust sum.case(2) surj_pair)
    have "c_remedy ?raw = final_remedy r t ks NoRemedy"
      using raw_capability_engines [OF reach assms(4), of excl sh] loop ask_all_remedy [OF loop assms(1)] by simp
    then have "fallback_advice (final_remedy r t ks NoRemedy)" using advice by simp
    then have "warehouse_can_name t" "r_warehouse r"
      by (auto simp: final_remedy_def fallback_advice_def warehouse_can_name_def split: if_splits)
    then show ?thesis using catalog_block_monotone [OF None _ assms(2)] by (simp add: warehouse_names_def)
  qed
  then show ?thesis using fallback_serves assms by (auto simp: warehouse_names_def)
qed

definition view_table :: resolved_table where
  "view_table = plain_table\<lparr>t_type := Some View, t_location := None\<rparr>"

theorem fallback_advice_works_witness:
  "c_ok (capability_of (with_fallback (connection_of [Kernel] False) (willing Sql)) OpScan view_table {} {} plain_shape)"
proof (rule fallback_advice_works)
  show "\<not> r_fallback (connection_of [Kernel] False)" "\<not> is_shared view_table"
    "request_block OpScan view_table {} = None"
    "operation_engines OpScan = Some [Kernel, Deltars, Sharing, Iceberg, Sql]"
    "\<not> c_ok (capability_of (connection_of [Kernel] False) OpScan view_table {} {} plain_shape)"
    "fallback_advice (c_remedy (capability_of (connection_of [Kernel] False) OpScan view_table {} {} plain_shape))"
    "serves (willing Sql) OpScan view_table {} plain_shape"
    by code_simp+
qed simp_all

text \<open>
  Without a SQL route the advice is empty: \<open>files()\<close> of a view is refused with the fallback
  as its remedy, and refused again once it is enabled.
\<close>

lemma advice_without_route:
  "c_remedy (capability_of (connection_of [Kernel] False) OpFiles view_table {} {} plain_shape) = EnableFallback
    \<and> \<not> c_ok (capability_of (with_fallback (connection_of [Kernel] False) (willing Sql)) OpFiles view_table {} {} plain_shape)"
  by code_simp

end
