(* ===== verification/Calendar.thy ===== *)
theory Calendar
  imports Py_Data Py_Datetime
begin

text \<open>
  \<open>engine/calendar.py\<close>: the data files whose dates and timestamps a rewrite would shift.
  A JSON value is a \<open>json\<close>, an object an association list with one entry per key; \<open>loads\<close>
  stands for \<open>json.loads\<close> on the text of a file's statistics (\<open>None\<close> is a \<open>ValueError\<close>).
  First the schema walk, then the judgement of a file by its statistics, then the
  bounded cache of verdicts.
\<close>

section \<open>The schema\<close>

definition is_datetime :: "json \<Rightarrow> bool" where
  "is_datetime d \<longleftrightarrow> d = JStr ''date'' \<or> d = JStr ''timestamp''"

text \<open>\<open>_contains_datetime\<close>: \<open>None\<close> where a field list is not one of objects (Python raises).\<close>

function contains_datetime :: "json \<Rightarrow> bool option" and any_datetime :: "json list \<Rightarrow> bool option" where
  "contains_datetime d =
     (if \<not> is_obj d then Some (is_datetime d)
      else if json_get ''type'' d = JStr ''struct''
      then (case iterated (json_get ''fields'' d) of None \<Rightarrow> None | Some fs \<Rightarrow> any_datetime fs)
      else if json_get ''type'' d = JStr ''array'' then contains_datetime (json_get ''elementType'' d)
      else if json_get ''type'' d = JStr ''map''
      then (case contains_datetime (json_get ''keyType'' d) of
              Some False \<Rightarrow> contains_datetime (json_get ''valueType'' d)
            | r \<Rightarrow> r)
      else Some False)"
| "any_datetime [] = Some False"
| "any_datetime (f # fs) =
     (if \<not> is_obj f then None
      else case contains_datetime (json_get ''type'' f) of
             Some False \<Rightarrow> any_datetime fs
           | r \<Rightarrow> r)"
  by pat_completeness auto

lemma size_fields: "is_obj d \<Longrightarrow> iterated (json_get k d) = Some xs \<Longrightarrow> size_list size xs < size d"
  using size_json_get [of d k] size_iterated [of "json_get k d" xs] by linarith

lemma size_get_sum: "is_obj f \<Longrightarrow> size (json_get k f) < Suc (size f + n)"
  using size_json_get [of f k] by linarith

termination contains_datetime
  by (relation "measure (case_sum size (size_list size))")
    (auto simp: size_fields size_json_get size_get_sum)

text \<open>The equations loop as rewrite rules; \<open>contains_at\<close> unfolds one step.\<close>

lemmas contains_at = contains_datetime.simps
declare contains_datetime.simps [simp del]

definition has_datetime_columns :: "json \<Rightarrow> bool option" where
  "has_datetime_columns sch =
     (if \<not> is_obj sch then Some True
      else case iterated (json_get ''fields'' sch) of None \<Rightarrow> None | Some fs \<Rightarrow> any_datetime fs)"

text \<open>
  \<open>str(j)\<close> for a name: text is itself, \<open>None\<close> and the booleans their Python spelling, an integer
  its digits.  The protocol's names are text; the other shapes have no spelling here.
\<close>

definition json_str :: "json \<Rightarrow> string" where
  "json_str j =
     (case j of JStr s \<Rightarrow> s | JNull \<Rightarrow> ''None'' | JBool b \<Rightarrow> (if b then ''True'' else ''False'') | _ \<Rightarrow> [])"

definition physical_name :: "bool \<Rightarrow> json \<Rightarrow> string option" where
  "physical_name mapped f =
     (let name = json_str (json_get ''name'' f); meta = json_get ''metadata'' f in
      if \<not> mapped then Some name
      else if truthy meta \<and> \<not> is_obj meta then None
      else let p = json_get ''delta.columnMapping.physicalName'' meta in
           Some (if truthy p then json_str p else name))"

type_synonym leaf = "string list \<times> string"

text \<open>\<open>for f in fields or ()\<close>, where what is no object is skipped.\<close>

definition field_list :: "json \<Rightarrow> json list option" where
  "field_list j =
     (case j of JArr xs \<Rightarrow> Some xs | JObj _ \<Rightarrow> Some [] | JStr _ \<Rightarrow> Some []
      | _ \<Rightarrow> if truthy j then None else Some [])"

lemma size_field_list: "is_obj d \<Longrightarrow> field_list (json_get k d) = Some xs \<Longrightarrow> size_list size xs < size d"
  using size_json_get [of d k] by (auto simp: field_list_def split: json.splits if_splits)

definition leaf_text :: "json \<Rightarrow> string list \<Rightarrow> leaf list" where
  "leaf_text d pth =
     (case d of JStr k \<Rightarrow> if is_datetime (JStr k) then [(pth, k)] else [] | _ \<Rightarrow> [])"

definition is_struct :: "json \<Rightarrow> bool" where
  "is_struct d \<longleftrightarrow> is_obj d \<and> json_get ''type'' d = JStr ''struct''"

function leaves :: "json list \<Rightarrow> string list \<Rightarrow> bool \<Rightarrow> (leaf list \<times> bool) option" where
  "leaves [] prefix mapped = Some ([], False)"
| "leaves (f # fs) prefix mapped =
     (if \<not> is_obj f then leaves fs prefix mapped
      else case physical_name mapped f of None \<Rightarrow> None
      | Some name \<Rightarrow>
          let d = json_get ''type'' f; pth = prefix @ [name];
              here = (if is_struct d
                      then (case field_list (json_get ''fields'' d) of None \<Rightarrow> None
                            | Some inner \<Rightarrow> leaves inner pth mapped)
                      else if is_obj d then map_option (\<lambda>b. ([], b)) (contains_datetime d)
                      else Some (leaf_text d pth, False))
          in case (here, leaves fs prefix mapped) of
               (Some (xs, a), Some (ys, b)) \<Rightarrow> Some (xs @ ys, a \<or> b)
             | _ \<Rightarrow> None)"
  by pat_completeness auto

lemma size_inner_fields:
  assumes "is_obj f" "is_struct (json_get k f)" "field_list (json_get l (json_get k f)) = Some xs"
  shows "size_list size xs < size f"
  using size_json_get [OF assms(1), of k] size_field_list [of "json_get k f" l xs] assms
  by (auto simp: is_struct_def)

lemma size_inner_sum:
  assumes "is_obj f" "is_struct (json_get k f)" "field_list (json_get l (json_get k f)) = Some xs"
  shows "size_list size xs < Suc (size f + n)"
  using size_inner_fields [OF assms] by linarith

termination leaves
  by (relation "measure (\<lambda>(fs, p, m). size_list size fs)") (auto simp: size_inner_sum)

section \<open>Statistics\<close>

record file_row =
  file_path :: string
  file_size :: int
  file_stats :: "string option"

text \<open>\<open>json.loads(row.get("stats") or "null")\<close>; text that is no JSON is \<open>None\<close>, like null.\<close>

definition stats_of :: "(string \<Rightarrow> json option) \<Rightarrow> file_row \<Rightarrow> json" where
  "stats_of loads row =
     (case file_stats row of None \<Rightarrow> JNull
      | Some s \<Rightarrow> if s = [] then JNull else case loads s of None \<Rightarrow> JNull | Some j \<Rightarrow> j)"

definition stat_at :: "json \<Rightarrow> string list \<Rightarrow> json" where
  "stat_at stats pth = fold json_get pth stats"

text \<open>Python's \<open>==\<close> on JSON: numbers by value (a boolean is 0 or 1), the rest by shape.\<close>

fun number_of :: "json \<Rightarrow> rat option" where
  "number_of (JBool b) = Some (if b then 1 else 0)"
| "number_of (JInt i) = Some (of_int i)"
| "number_of (JReal r) = Some r"
| "number_of _ = None"

definition json_equal :: "json \<Rightarrow> json \<Rightarrow> bool" where
  "json_equal a b =
     (case (number_of a, number_of b) of (Some x, Some y) \<Rightarrow> x = y | _ \<Rightarrow> a = b)"

datatype stat = SDate pydate | STime pydatetime

definition parse_stat :: "json \<Rightarrow> string \<Rightarrow> stat option" where
  "parse_stat v knd =
     (case v of
        JStr s \<Rightarrow>
          (if knd = ''date'' then map_option SDate (date_fromisoformat s)
           else map_option (\<lambda>t. STime (as_utc t)) (datetime_fromisoformat (replace_z s)))
      | _ \<Rightarrow> None)"

definition date_limit :: pydate where
  "date_limit = YMD 1582 10 15"

definition utc_midnight :: "pydate \<Rightarrow> pydatetime" where
  "utc_midnight d = \<lparr>dt_date = d, dt_micro = 0, dt_offset = Some 0\<rparr>"

definition timestamp_limit :: pydatetime where
  "timestamp_limit = utc_midnight (YMD 1900 1 1)"

definition int96_limit :: pydatetime where
  "int96_limit = utc_midnight (YMD 2262 4 10)"

definition before_limit :: "json \<Rightarrow> string \<Rightarrow> bool" where
  "before_limit v knd =
     (case parse_stat v knd of
        None \<Rightarrow> True
      | Some (SDate d) \<Rightarrow> date_less d date_limit
      | Some (STime t) \<Rightarrow> dt_instant t < dt_instant timestamp_limit)"

definition after_limit :: "json \<Rightarrow> string \<Rightarrow> bool" where
  "after_limit v knd =
     (if knd = ''date'' then False
      else case parse_stat v knd of
             None \<Rightarrow> True
           | Some (SDate d) \<Rightarrow> True
           | Some (STime t) \<Rightarrow> dt_instant int96_limit \<le> dt_instant t)"

text \<open>Every value of the column is null, by the statistics.\<close>

definition all_null :: "json \<Rightarrow> string list \<Rightarrow> bool" where
  "all_null stats pth \<longleftrightarrow>
     json_get ''numRecords'' stats \<noteq> JNull
     \<and> json_equal (stat_at (json_get ''nullCount'' stats) pth) (json_get ''numRecords'' stats)"

definition suspect :: "(string \<Rightarrow> json option) \<Rightarrow> leaf list \<Rightarrow> bool \<Rightarrow> file_row \<Rightarrow> bool" where
  "suspect loads lvs unstatted row =
     (unstatted
      \<or> (let stats = stats_of loads row in
         \<not> is_obj stats
         \<or> list_ex (\<lambda>(pth, knd).
             \<not> all_null stats pth
             \<and> (before_limit (stat_at (json_get ''minValues'' stats) pth) knd
                \<or> after_limit (stat_at (json_get ''maxValues'' stats) pth) knd)) lvs))"

definition suspects ::
  "(string \<Rightarrow> json option) \<Rightarrow> file_row list \<Rightarrow> leaf list \<Rightarrow> bool \<Rightarrow> (string \<times> int) list" where
  "suspects loads rows lvs unstatted =
     map (\<lambda>row. (file_path row, file_size row)) (filter (suspect loads lvs unstatted) rows)"

definition early_row :: "(string \<Rightarrow> json option) \<Rightarrow> leaf list \<Rightarrow> bool \<Rightarrow> file_row \<Rightarrow> bool" where
  "early_row loads lvs unstatted row =
     (let stats = (if unstatted then JNull else stats_of loads row) in
      \<not> is_obj stats
      \<or> list_ex (\<lambda>(pth, knd).
          \<not> all_null stats pth \<and> before_limit (stat_at (json_get ''minValues'' stats) pth) knd) lvs)"

definition early :: "(string \<Rightarrow> json option) \<Rightarrow> file_row list \<Rightarrow> leaf list \<Rightarrow> bool \<Rightarrow> string list" where
  "early loads rows lvs unstatted = map file_path (filter (early_row loads lvs unstatted) rows)"

section \<open>A snapshot's verdicts\<close>

text \<open>
  What the checks read of a native snapshot: \<open>snap_legacy\<close> is its footer check of some files,
  the rest its data.  The commit identity is \<open>None\<close> where it is not a text.
\<close>

record snapshot =
  snap_root :: string
  snap_version :: int
  snap_metadata_id :: string
  snap_identity :: "string option"
  snap_metadata :: json
  snap_files :: "file_row list"
  snap_legacy :: "(string \<times> int) list \<Rightarrow> string list"

type_synonym verdict_key = "string \<times> int \<times> string \<times> string"

definition cache_key :: "snapshot \<Rightarrow> verdict_key option" where
  "cache_key s =
     (case snap_identity s of
        None \<Rightarrow> None
      | Some i \<Rightarrow> if i = [] then None else Some (snap_root s, snap_version s, snap_metadata_id s, i))"

text \<open>\<open>str(c) for c in j or ()\<close>.\<close>

definition name_set :: "json \<Rightarrow> string set option" where
  "name_set j =
     (case j of JArr xs \<Rightarrow> Some (set (map json_str xs)) | JObj m \<Rightarrow> Some (set (map fst m))
      | JStr s \<Rightarrow> Some (set (map (\<lambda>c. [c]) s)) | _ \<Rightarrow> if truthy j then None else Some {})"

definition or_json :: "json \<Rightarrow> json \<Rightarrow> json" where
  "or_json a b = (if truthy a then a else b)"

definition schema_of :: "(string \<Rightarrow> json option) \<Rightarrow> json \<Rightarrow> json option" where
  "schema_of loads m =
     (case or_json (json_get ''schemaString'' m) (json_get ''schema_string'' m) of
        JStr s \<Rightarrow> loads s
      | j \<Rightarrow> Some j)"

definition mapping_on :: "json \<Rightarrow> bool" where
  "mapping_on conf =
     (case conf of
        JObj m \<Rightarrow> (case map_of m ''delta.columnMapping.mode'' of
           None \<Rightarrow> False | Some JNull \<Rightarrow> False | Some (JStr s) \<Rightarrow> py_lower s \<noteq> ''none'' | Some _ \<Rightarrow> True)
      | _ \<Rightarrow> False)"

text \<open>The fields that are in the data files: a partition column is in the log only.\<close>

definition stored_field :: "string set \<Rightarrow> json \<Rightarrow> bool" where
  "stored_field partitions f \<longleftrightarrow>
     is_obj f \<and> (case json_get ''name'' f of JStr n \<Rightarrow> n \<notin> partitions | _ \<Rightarrow> True)"

definition data_leaves :: "(string \<Rightarrow> json option) \<Rightarrow> json \<Rightarrow> (leaf list \<times> bool) option" where
  "data_leaves loads m =
     (if \<not> is_obj m then None
      else Option.bind (schema_of loads m) (\<lambda>sch.
           Option.bind (has_datetime_columns sch) (\<lambda>has.
           if \<not> has then Some ([], False)
           else let conf = json_get ''configuration'' m in
                if truthy conf \<and> \<not> is_obj conf then None
                else Option.bind (name_set (json_get ''partitionColumns'' m)) (\<lambda>partitions.
                     if truthy sch \<and> \<not> is_obj sch then None
                     else Option.bind (field_list (json_get ''fields'' sch)) (\<lambda>fs.
                          leaves (filter (stored_field partitions) fs) [] (mapping_on conf))))))"

definition legacy_found :: "(string \<Rightarrow> json option) \<Rightarrow> snapshot \<Rightarrow> string list option" where
  "legacy_found loads s =
     map_option (\<lambda>(lvs, unstatted).
         if lvs = [] \<and> \<not> unstatted then []
         else let sus = suspects loads (snap_files s) lvs unstatted in
              if sus = [] then [] else snap_legacy s sus)
       (data_leaves loads (snap_metadata s))"

definition early_found :: "(string \<Rightarrow> json option) \<Rightarrow> snapshot \<Rightarrow> string list option" where
  "early_found loads s =
     map_option (\<lambda>(lvs, unstatted).
         if lvs = [] \<and> \<not> unstatted then [] else early loads (snap_files s) lvs unstatted)
       (data_leaves loads (snap_metadata s))"

section \<open>The bounded cache\<close>

text \<open>An \<open>OrderedDict\<close>: the oldest entry first.\<close>

type_synonym 'v verdict_cache = "(verdict_key \<times> 'v) list"

definition cache_size :: nat where
  "cache_size = 64"

definition move_to_end :: "'k \<Rightarrow> ('k \<times> 'v) list \<Rightarrow> ('k \<times> 'v) list" where
  "move_to_end k c = filter (\<lambda>e. fst e \<noteq> k) c @ filter (\<lambda>e. fst e = k) c"

text \<open>\<open>while len(c) > size: c.popitem(last=False)\<close>.\<close>

fun evict :: "nat \<Rightarrow> 'a list \<Rightarrow> 'a list" where
  "evict n [] = []"
| "evict n (e # c) = (if n < length (e # c) then evict n c else e # c)"

definition store :: "'k \<Rightarrow> 'v \<Rightarrow> ('k \<times> 'v) list \<Rightarrow> ('k \<times> 'v) list" where
  "store k v c = evict cache_size (dict_set k v c)"

text \<open>The critical sections of a call: the look-up, and the store of a fresh verdict.\<close>

definition cached :: "verdict_key option \<Rightarrow> 'v verdict_cache \<Rightarrow> ('v \<times> 'v verdict_cache) option" where
  "cached key c =
     (case key of None \<Rightarrow> None
      | Some k \<Rightarrow> map_option (\<lambda>v. (v, move_to_end k c)) (map_of c k))"

definition remember :: "verdict_key option \<Rightarrow> 'v \<Rightarrow> 'v verdict_cache \<Rightarrow> 'v verdict_cache" where
  "remember key v c = (case key of None \<Rightarrow> c | Some k \<Rightarrow> store k v c)"

definition with_cache ::
  "(snapshot \<Rightarrow> 'v option) \<Rightarrow> snapshot \<Rightarrow> 'v verdict_cache \<Rightarrow> ('v \<times> 'v verdict_cache) option" where
  "with_cache found s c =
     (case cached (cache_key s) c of
        Some r \<Rightarrow> Some r
      | None \<Rightarrow> map_option (\<lambda>v. (v, remember (cache_key s) v c)) (found s))"

definition legacy_calendar_files ::
  "(string \<Rightarrow> json option) \<Rightarrow> snapshot \<Rightarrow> string list verdict_cache \<Rightarrow> (string list \<times> string list verdict_cache) option" where
  "legacy_calendar_files loads s c = with_cache (legacy_found loads) s c"

definition early_datetime_files ::
  "(string \<Rightarrow> json option) \<Rightarrow> snapshot \<Rightarrow> string list verdict_cache \<Rightarrow> (string list \<times> string list verdict_cache) option" where
  "early_datetime_files loads s c = with_cache (early_found loads) s c"

end
