(* ===== verification/Calendar_Safe.thy ===== *)
theory Calendar_Safe
  imports Calendar
begin

text \<open>
  What the calendar checks promise: a file that holds a value a rewrite would change is
  listed, whatever its statistics leave out, and the cached verdicts stay those of the
  snapshot under any interleaving of callers.
\<close>

section \<open>Where a schema has dates and timestamps\<close>

inductive datetime_within :: "json \<Rightarrow> bool" where
  dw_text: "is_datetime (JStr k) \<Longrightarrow> datetime_within (JStr k)"
| dw_struct: "is_struct d \<Longrightarrow> iterated (json_get ''fields'' d) = Some fs \<Longrightarrow> f \<in> set fs \<Longrightarrow>
    datetime_within (json_get ''type'' f) \<Longrightarrow> datetime_within d"
| dw_array: "is_obj d \<Longrightarrow> json_get ''type'' d = JStr ''array'' \<Longrightarrow>
    datetime_within (json_get ''elementType'' d) \<Longrightarrow> datetime_within d"
| dw_key: "is_obj d \<Longrightarrow> json_get ''type'' d = JStr ''map'' \<Longrightarrow>
    datetime_within (json_get ''keyType'' d) \<Longrightarrow> datetime_within d"
| dw_value: "is_obj d \<Longrightarrow> json_get ''type'' d = JStr ''map'' \<Longrightarrow>
    datetime_within (json_get ''valueType'' d) \<Longrightarrow> datetime_within d"

inductive_cases datetime_textE: "datetime_within (JStr k)"

lemma datetime_within_obj:
  assumes "is_obj d"
  shows "datetime_within d \<longleftrightarrow>
    (is_struct d \<and> (\<exists>fs. iterated (json_get ''fields'' d) = Some fs \<and> (\<exists>f\<in>set fs. datetime_within (json_get ''type'' f))))
    \<or> (json_get ''type'' d = JStr ''array'' \<and> datetime_within (json_get ''elementType'' d))
    \<or> (json_get ''type'' d = JStr ''map''
        \<and> (datetime_within (json_get ''keyType'' d) \<or> datetime_within (json_get ''valueType'' d)))"
  (is "?L = ?R")
proof
  assume ?L
  then show ?R using assms by cases (auto simp: is_datetime_def)
next
  assume ?R
  then show ?L using assms by (blast intro: datetime_within.intros)
qed

lemma datetime_within_plain: "\<not> is_obj d \<Longrightarrow> datetime_within d \<longleftrightarrow> is_datetime d"
  by (auto simp: is_struct_def is_datetime_def elim: datetime_within.cases intro: dw_text)

lemma contains_datetime_sound:
  "contains_datetime d = Some b \<Longrightarrow> b = datetime_within d"
  "any_datetime fs = Some b \<Longrightarrow> b = (\<exists>f\<in>set fs. datetime_within (json_get ''type'' f))"
proof (induction d and fs arbitrary: b and b rule: contains_datetime_any_datetime.induct)
  case (1 d)
  show ?case
  proof (cases "is_obj d")
    case False
    then show ?thesis using "1.prems" by (simp add: contains_at [of d] datetime_within_plain)
  next
    case True
    consider (struct) "json_get ''type'' d = JStr ''struct''" | (array) "json_get ''type'' d = JStr ''array''"
      | (map) "json_get ''type'' d = JStr ''map''"
      | (other) "json_get ''type'' d \<notin> {JStr ''struct'', JStr ''array'', JStr ''map''}"
      by blast
    then show ?thesis
    proof cases
      case struct
      with True "1.prems" obtain fs where fs: "iterated (json_get ''fields'' d) = Some fs" "any_datetime fs = Some b"
        by (auto simp: contains_at [of d] split: option.splits)
      then have "b = (\<exists>f\<in>set fs. datetime_within (json_get ''type'' f))"
        using "1.IH"(1) True struct by blast
      then show ?thesis using True struct fs by (simp add: datetime_within_obj is_struct_def)
    next
      case array
      then have "b = datetime_within (json_get ''elementType'' d)"
        using "1.IH"(2) "1.prems" True by (simp add: contains_at [of d])
      then show ?thesis using True array by (simp add: datetime_within_obj is_struct_def)
    next
      case map
      have key: "c = datetime_within (json_get ''keyType'' d)"
        if "contains_datetime (json_get ''keyType'' d) = Some c" for c
        using "1.IH"(3) True map that by simp
      have val: "c = datetime_within (json_get ''valueType'' d)"
        if "contains_datetime (json_get ''keyType'' d) = Some False"
          "contains_datetime (json_get ''valueType'' d) = Some c" for c
        using "1.IH"(4) [of False c] True map that by simp
      have "b = (datetime_within (json_get ''keyType'' d) \<or> datetime_within (json_get ''valueType'' d))"
        using "1.prems" True map key val
        by (simp add: contains_at [of d] split: option.splits bool.splits)
      then show ?thesis using True map by (simp add: datetime_within_obj is_struct_def)
    next
      case other
      then show ?thesis using "1.prems" True by (simp add: contains_at [of d] datetime_within_obj is_struct_def)
    qed
  qed
next
  case (3 f fs)
  then show ?case by (auto split: if_splits option.splits bool.splits)
qed simp

inductive datetime_leaf :: "bool \<Rightarrow> json list \<Rightarrow> string list \<Rightarrow> string \<Rightarrow> bool" for mapped where
  dl_here: "f \<in> set fs \<Longrightarrow> is_obj f \<Longrightarrow> physical_name mapped f = Some n \<Longrightarrow> json_get ''type'' f = JStr k \<Longrightarrow>
    is_datetime (JStr k) \<Longrightarrow> datetime_leaf mapped fs [n] k"
| dl_down: "f \<in> set fs \<Longrightarrow> is_obj f \<Longrightarrow> physical_name mapped f = Some n \<Longrightarrow> is_struct (json_get ''type'' f) \<Longrightarrow>
    field_list (json_get ''fields'' (json_get ''type'' f)) = Some inner \<Longrightarrow> datetime_leaf mapped inner p k \<Longrightarrow>
    datetime_leaf mapped fs (n # p) k"

text \<open>A date or timestamp inside an array or a map, which statistics do not describe.\<close>

inductive boxed_datetime :: "json list \<Rightarrow> bool" where
  bd_here: "f \<in> set fs \<Longrightarrow> is_obj f \<Longrightarrow> is_obj (json_get ''type'' f) \<Longrightarrow> \<not> is_struct (json_get ''type'' f) \<Longrightarrow>
    datetime_within (json_get ''type'' f) \<Longrightarrow> boxed_datetime fs"
| bd_down: "f \<in> set fs \<Longrightarrow> is_obj f \<Longrightarrow> is_struct (json_get ''type'' f) \<Longrightarrow>
    field_list (json_get ''fields'' (json_get ''type'' f)) = Some inner \<Longrightarrow> boxed_datetime inner \<Longrightarrow>
    boxed_datetime fs"

text \<open>What one field contributes to the walk.\<close>

definition field_leaves :: "json \<Rightarrow> string list \<Rightarrow> bool \<Rightarrow> (leaf list \<times> bool) option" where
  "field_leaves f pth mapped =
     (let d = json_get ''type'' f in
      if is_struct d
      then (case field_list (json_get ''fields'' d) of None \<Rightarrow> None | Some inner \<Rightarrow> leaves inner pth mapped)
      else if is_obj d then map_option (\<lambda>b. ([], b)) (contains_datetime d)
      else Some (leaf_text d pth, False))"

lemma leaves_Cons:
  "is_obj f \<Longrightarrow> leaves (f # fs) prefix mapped =
     (case physical_name mapped f of None \<Rightarrow> None
      | Some n \<Rightarrow> (case (field_leaves f (prefix @ [n]) mapped, leaves fs prefix mapped) of
           (Some (xs, a), Some (ys, b)) \<Rightarrow> Some (xs @ ys, a \<or> b)
         | _ \<Rightarrow> None))"
  by (simp only: leaves.simps(2) field_leaves_def Let_def not_True_eq_False if_False cong: option.case_cong)

lemma leaves_field:
  assumes "leaves fs prefix mapped = Some (ls, b)" "f \<in> set fs" "is_obj f"
  obtains n xs a where "physical_name mapped f = Some n" "field_leaves f (prefix @ [n]) mapped = Some (xs, a)"
    "set xs \<subseteq> set ls" "a \<Longrightarrow> b"
proof -
  have "\<exists>n xs a. physical_name mapped f = Some n \<and> field_leaves f (prefix @ [n]) mapped = Some (xs, a)
      \<and> set xs \<subseteq> set ls \<and> (a \<longrightarrow> b)"
    using assms
  proof (induction fs arbitrary: ls b)
    case (Cons g gs)
    show ?case
    proof (cases "is_obj g")
      case False
      then show ?thesis using Cons by auto
    next
      case True
      then obtain n xs a ys c where g: "physical_name mapped g = Some n"
          "field_leaves g (prefix @ [n]) mapped = Some (xs, a)" "leaves gs prefix mapped = Some (ys, c)"
          "ls = xs @ ys" "b = (a \<or> c)"
        using Cons.prems(1)
        by (simp only: leaves_Cons split: option.splits prod.splits) simp_all
      show ?thesis
      proof (cases "f = g")
        case True
        then show ?thesis using g by auto
      next
        case False
        then have "f \<in> set gs" using Cons.prems by simp
        from Cons.IH [OF g(3) this \<open>is_obj f\<close>] show ?thesis using g by auto
      qed
    qed
  qed simp
  then show thesis using that by blast
qed

lemma leaves_complete:
  "datetime_leaf mapped fs p k \<Longrightarrow> leaves fs prefix mapped = Some (ls, b) \<Longrightarrow> (prefix @ p, k) \<in> set ls"
proof (induction arbitrary: prefix ls b rule: datetime_leaf.induct)
  case (dl_here f fs n k)
  obtain m xs a where "physical_name mapped f = Some m" "field_leaves f (prefix @ [m]) mapped = Some (xs, a)" "set xs \<subseteq> set ls"
    using leaves_field [OF dl_here.prems dl_here.hyps(1,2)] by metis
  then show ?case using dl_here by (auto simp: field_leaves_def is_struct_def leaf_text_def)
next
  case (dl_down f fs n inner p k)
  obtain m xs a where "physical_name mapped f = Some m" "field_leaves f (prefix @ [m]) mapped = Some (xs, a)" "set xs \<subseteq> set ls"
    using leaves_field [OF dl_down.prems dl_down.hyps(1,2)] by metis
  then have "leaves inner (prefix @ [n]) mapped = Some (xs, a)" "set xs \<subseteq> set ls"
    using dl_down by (auto simp: field_leaves_def)
  then show ?case using dl_down.IH [of "prefix @ [n]" xs a] by auto
qed

lemma leaves_blind:
  "boxed_datetime fs \<Longrightarrow> leaves fs prefix mapped = Some (ls, b) \<Longrightarrow> b"
proof (induction arbitrary: prefix ls b rule: boxed_datetime.induct)
  case (bd_here f fs)
  then show ?case
    by (elim leaves_field) (auto simp: field_leaves_def Let_def dest!: contains_datetime_sound(1))
next
  case (bd_down f fs inner)
  obtain m xs a where "physical_name mapped f = Some m" "field_leaves f (prefix @ [m]) mapped = Some (xs, a)" "a \<Longrightarrow> b"
    using leaves_field [OF bd_down.prems bd_down.hyps(1,2)] by metis
  then show ?case using bd_down by (auto simp: field_leaves_def)
qed

section \<open>The values of a file\<close>

text \<open>
  A date is its ordinal and a timestamp its microseconds since day 0, both as the statistics'
  bounds are read.  \<open>truthful\<close> is what the Delta protocol asks of a file's statistics: a
  column counted as all null holds nothing, a minimum bounds the values from below, and a
  maximum from above up to its truncation to milliseconds.
\<close>

definition bound_value :: "stat \<Rightarrow> int" where
  "bound_value b = (case b of SDate d \<Rightarrow> to_ordinal d | STime t \<Rightarrow> dt_instant t)"

definition truthful :: "json \<Rightarrow> (leaf \<Rightarrow> int option list) \<Rightarrow> bool" where
  "truthful stats column \<longleftrightarrow>
     (\<forall>pth k v. Some v \<in> set (column (pth, k)) \<longrightarrow>
        \<not> all_null stats pth
        \<and> (\<forall>m. parse_stat (stat_at (json_get ''minValues'' stats) pth) k = Some m \<longrightarrow> bound_value m \<le> v)
        \<and> (\<forall>m. parse_stat (stat_at (json_get ''maxValues'' stats) pth) k = Some m \<longrightarrow> v < bound_value m + 1000))"

definition early_value :: "string \<Rightarrow> int \<Rightarrow> bool" where
  "early_value k v \<longleftrightarrow>
     (if k = ''date'' then v < to_ordinal date_limit else v < dt_instant timestamp_limit)"

text \<open>The last microsecond an \<open>i64\<close> of nanoseconds holds: 2262-04-11T23:47:16.854775Z.\<close>

definition int96_last :: int where
  "int96_last = dt_instant (utc_midnight (YMD 1970 1 1)) + (2 ^ 63 - 1) div 1000"

definition overflowing :: "string \<Rightarrow> int \<Rightarrow> bool" where
  "overflowing k v \<longleftrightarrow> k \<noteq> ''date'' \<and> int96_last < v"

lemma datetime_kinds: "is_datetime (JStr k) \<Longrightarrow> k = ''date'' \<or> k = ''timestamp''"
  by (auto simp: is_datetime_def)

lemma parse_stat_shape:
  assumes "parse_stat v k = Some m"
  shows "(k = ''date'' \<and> (\<exists>d. m = SDate d \<and> valid_date d)) \<or> (k \<noteq> ''date'' \<and> (\<exists>t. m = STime t))"
  using assms by (auto simp: parse_stat_def date_fromisoformat_valid split: json.splits if_splits)

lemma date_limit_valid: "valid_date date_limit"
  by (simp add: valid_date_def date_limit_def days_in_month_def)

lemma before_limit_keeps:
  assumes "early_value k v" "\<And>m. parse_stat j k = Some m \<Longrightarrow> bound_value m \<le> v"
  shows "before_limit j k"
proof (cases "parse_stat j k")
  case (Some m)
  have le: "bound_value m \<le> v" by (rule assms(2)) fact
  show ?thesis
  proof (cases "k = ''date''")
    case True
    then obtain d where d: "m = SDate d" "valid_date d" using parse_stat_shape [OF Some] by auto
    have "to_ordinal d < to_ordinal date_limit"
      using assms(1) le True d by (simp add: early_value_def bound_value_def)
    then have "date_less d date_limit"
      using not_date_less_ordinal [OF d(2) date_limit_valid] by linarith
    then show ?thesis using Some d by (simp add: before_limit_def)
  next
    case False
    then obtain t where t: "m = STime t" using parse_stat_shape [OF Some] by auto
    then show ?thesis using Some assms(1) le False by (simp add: before_limit_def early_value_def bound_value_def)
  qed
qed (simp add: before_limit_def)

lemma int96_margin: "dt_instant int96_limit \<le> int96_last - 1000"
  by code_simp

lemma after_limit_keeps:
  assumes "overflowing k v" "\<And>m. parse_stat j k = Some m \<Longrightarrow> v < bound_value m + 1000"
  shows "after_limit j k"
proof (cases "parse_stat j k")
  case (Some m)
  have le: "v < bound_value m + 1000" by (rule assms(2)) fact
  obtain t where t: "m = STime t" using parse_stat_shape [OF Some] assms(1) by (auto simp: overflowing_def)
  then have "dt_instant int96_limit \<le> dt_instant t"
    using le assms(1) int96_margin by (simp add: overflowing_def bound_value_def)
  then show ?thesis using Some t assms(1) by (simp add: after_limit_def overflowing_def)
qed (use assms(1) in \<open>simp add: after_limit_def overflowing_def\<close>)

lemma early_row_keeps:
  assumes "truthful (stats_of loads row) column" "(pth, k) \<in> set lvs"
    and "Some v \<in> set (column (pth, k))" "early_value k v"
  shows "early_row loads lvs unstatted row"
proof -
  have "before_limit (stat_at (json_get ''minValues'' (stats_of loads row)) pth) k"
    using assms by (intro before_limit_keeps [of k v]) (auto simp: truthful_def)
  moreover have "\<not> all_null (stats_of loads row) pth" using assms by (auto simp: truthful_def)
  ultimately show ?thesis using assms(2) by (force simp: early_row_def Let_def list_ex_iff)
qed

lemma suspect_keeps:
  assumes "truthful (stats_of loads row) column" "(pth, k) \<in> set lvs"
    and "Some v \<in> set (column (pth, k))" "early_value k v \<or> overflowing k v"
  shows "suspect loads lvs unstatted row"
proof -
  have "early_value k v \<Longrightarrow> before_limit (stat_at (json_get ''minValues'' (stats_of loads row)) pth) k"
    using assms by (intro before_limit_keeps [of k v]) (auto simp: truthful_def)
  moreover have "overflowing k v \<Longrightarrow> after_limit (stat_at (json_get ''maxValues'' (stats_of loads row)) pth) k"
    using assms by (intro after_limit_keeps [of k v]) (auto simp: truthful_def)
  moreover have "\<not> all_null (stats_of loads row) pth" using assms by (auto simp: truthful_def)
  ultimately show ?thesis using assms(2,4) by (force simp: suspect_def Let_def list_ex_iff)
qed

lemma unstatted_rows [simp]: "early_row loads lvs True row" "suspect loads lvs True row"
  by (simp_all add: early_row_def suspect_def)

section \<open>A snapshot lists every file it must\<close>

text \<open>The fields of a snapshot's metadata that are in its data files.\<close>

definition stored_fields :: "(string \<Rightarrow> json option) \<Rightarrow> json \<Rightarrow> json list option" where
  "stored_fields loads m =
     Option.bind (schema_of loads m) (\<lambda>sch.
     Option.bind (name_set (json_get ''partitionColumns'' m)) (\<lambda>partitions.
     Option.bind (field_list (json_get ''fields'' sch)) (\<lambda>fs.
       Some (filter (stored_field partitions) fs))))"

definition mapped_names :: "json \<Rightarrow> bool" where
  "mapped_names m = mapping_on (json_get ''configuration'' m)"

lemma datetime_leaf_within:
  "datetime_leaf mapped fs p k \<Longrightarrow> \<exists>f\<in>set fs. is_obj f \<and> datetime_within (json_get ''type'' f)"
proof (induction rule: datetime_leaf.induct)
  case (dl_here f fs n k)
  then show ?case by (metis dw_text)
next
  case (dl_down f fs n inner p k)
  then have "iterated (json_get ''fields'' (json_get ''type'' f)) = Some inner"
    by (auto simp: field_list_def split: json.splits if_splits)
  then show ?case using dl_down by (metis dw_struct)
qed

lemma boxed_datetime_within:
  "boxed_datetime fs \<Longrightarrow> \<exists>f\<in>set fs. is_obj f \<and> datetime_within (json_get ''type'' f)"
proof (induction rule: boxed_datetime.induct)
  case (bd_down f fs inner)
  then have "iterated (json_get ''fields'' (json_get ''type'' f)) = Some inner"
    by (auto simp: field_list_def split: json.splits if_splits)
  then show ?case using bd_down by (metis dw_struct)
qed blast

lemma has_datetime_columns_sound:
  assumes "has_datetime_columns sch = Some False" "field_list (json_get ''fields'' sch) = Some fs" "f \<in> set fs"
  shows "\<not> datetime_within (json_get ''type'' f)"
proof -
  have "is_obj sch" using assms(1) by (auto simp: has_datetime_columns_def split: if_splits)
  then obtain gs where gs: "iterated (json_get ''fields'' sch) = Some gs" "any_datetime gs = Some False"
    using assms(1) by (auto simp: has_datetime_columns_def split: option.splits)
  have "fs = gs \<or> fs = []"
    using gs(1) assms(2) by (auto simp: field_list_def split: json.splits if_splits)
  then show ?thesis using contains_datetime_sound(2) [OF gs(2)] assms(3) by auto
qed

lemma data_leaves_fields:
  assumes "data_leaves loads m = Some (lvs, b)" "stored_fields loads m = Some fs"
    and "datetime_leaf (mapped_names m) fs p k \<or> boxed_datetime fs"
  shows "leaves fs [] (mapped_names m) = Some (lvs, b)"
proof -
  obtain sch partitions gs where s: "schema_of loads m = Some sch"
      "name_set (json_get ''partitionColumns'' m) = Some partitions"
      "field_list (json_get ''fields'' sch) = Some gs" "fs = filter (stored_field partitions) gs"
    using assms(2) by (auto simp: stored_fields_def bind_eq_Some_conv)
  obtain f where "f \<in> set fs" "datetime_within (json_get ''type'' f)"
    using assms(3) datetime_leaf_within boxed_datetime_within by blast
  then have "has_datetime_columns sch \<noteq> Some False"
    using has_datetime_columns_sound [OF _ s(3)] s(4) by auto
  then show ?thesis
    using assms(1) s by (auto simp: data_leaves_def mapped_names_def bind_eq_Some_conv Let_def split: if_splits)
qed

text \<open>A file holds a value of kind \<open>bad\<close>, in a stored column or inside an array or map.\<close>

definition holds_value ::
  "(string \<Rightarrow> json option) \<Rightarrow> json \<Rightarrow> (string \<Rightarrow> int \<Rightarrow> bool) \<Rightarrow> (leaf \<Rightarrow> int option list) \<Rightarrow> bool \<Rightarrow> bool" where
  "holds_value loads m bad column boxed \<longleftrightarrow>
     (\<exists>fs. stored_fields loads m = Some fs
        \<and> ((\<exists>p k v. datetime_leaf (mapped_names m) fs p k \<and> Some v \<in> set (column (p, k)) \<and> bad k v)
           \<or> (boxed \<and> boxed_datetime fs)))"

lemma holds_value_leaf:
  assumes "holds_value loads m bad column boxed" "data_leaves loads m = Some (lvs, b)"
  shows "b \<or> (\<exists>p k v. (p, k) \<in> set lvs \<and> Some v \<in> set (column (p, k)) \<and> bad k v)"
proof -
  obtain fs where fs: "stored_fields loads m = Some fs"
      "(\<exists>p k v. datetime_leaf (mapped_names m) fs p k \<and> Some v \<in> set (column (p, k)) \<and> bad k v)
       \<or> (boxed \<and> boxed_datetime fs)"
    using assms(1) by (auto simp: holds_value_def)
  then have l: "leaves fs [] (mapped_names m) = Some (lvs, b)"
    using data_leaves_fields [OF assms(2) fs(1)] by blast
  show ?thesis using fs(2) leaves_complete [OF _ l] leaves_blind [OF _ l] by fastforce
qed

lemma early_found_lists:
  assumes "early_found loads s = Some found" "row \<in> set (snap_files s)"
    and "truthful (stats_of loads row) column"
    and "holds_value loads (snap_metadata s) early_value column boxed"
  shows "file_path row \<in> set found"
proof -
  obtain lvs b where l: "data_leaves loads (snap_metadata s) = Some (lvs, b)"
      "found = (if lvs = [] \<and> \<not> b then [] else early loads (snap_files s) lvs b)"
    using assms(1) by (auto simp: early_found_def)
  have "early_row loads lvs b row \<and> (lvs \<noteq> [] \<or> b)"
    using holds_value_leaf [OF assms(4) l(1)] early_row_keeps [OF assms(3)]
    by (cases b) auto
  then show ?thesis using assms(2) l(2) by (auto simp: early_def)
qed

lemma legacy_found_lists:
  assumes "legacy_found loads s = Some found" "row \<in> set (snap_files s)"
    and "truthful (stats_of loads row) column"
    and "holds_value loads (snap_metadata s) (\<lambda>k v. early_value k v \<or> overflowing k v) column boxed"
    and "\<And>fs. (file_path row, file_size row) \<in> set fs \<Longrightarrow> file_path row \<in> set (snap_legacy s fs)"
  shows "file_path row \<in> set found"
proof -
  obtain lvs b where l: "data_leaves loads (snap_metadata s) = Some (lvs, b)"
      "found = (if lvs = [] \<and> \<not> b then []
         else if suspects loads (snap_files s) lvs b = [] then []
         else snap_legacy s (suspects loads (snap_files s) lvs b))"
    using assms(1) by (auto simp: legacy_found_def Let_def)
  have "suspect loads lvs b row \<and> (lvs \<noteq> [] \<or> b)"
    using holds_value_leaf [OF assms(4) l(1)] suspect_keeps [OF assms(3)]
    by (cases b) auto
  then have "(file_path row, file_size row) \<in> set (suspects loads (snap_files s) lvs b)" "lvs \<noteq> [] \<or> b"
    using assms(2) by (auto simp: suspects_def)
  then show ?thesis using l(2) assms(5) by auto
qed

section \<open>The cache under concurrent callers\<close>

definition cache_ok :: "('k \<times> 'v) list \<Rightarrow> bool" where
  "cache_ok c \<longleftrightarrow> distinct (map fst c) \<and> length c \<le> cache_size"

lemma evict_drop: "evict n c = drop (length c - n) c"
  by (induction c) (auto simp: Suc_diff_le not_less)

lemma move_to_end_set: "set (move_to_end k c) = set c"
  by (auto simp: move_to_end_def)

lemma move_to_end_length: "length (move_to_end k c) = length c"
  by (induction c) (auto simp: move_to_end_def)

lemma distinct_one_key: "distinct (map fst c) \<Longrightarrow> distinct (map fst (filter (\<lambda>e. fst e = k) c))"
  by (simp add: distinct_map_filter)

lemma move_to_end_distinct: "distinct (map fst c) \<Longrightarrow> distinct (map fst (move_to_end k c))"
  by (auto simp: move_to_end_def distinct_map_filter)

lemma map_of_move_to_end: "distinct (map fst c) \<Longrightarrow> map_of (move_to_end k c) = map_of c"
  by (intro map_of_inject_set [THEN iffD2]) (auto simp: move_to_end_set move_to_end_distinct)

lemma dict_set_length: "length (dict_set k v c) = (if k \<in> fst ` set c then length c else Suc (length c))"
  by (induction c rule: dict_set.induct) auto

lemma dict_set_last: "k \<notin> fst ` set c \<Longrightarrow> dict_set k v c = c @ [(k, v)]"
  by (induction c rule: dict_set.induct) auto

lemma store_cases:
  assumes "cache_ok c"
  shows "store k v c = dict_set k v c \<and> length (dict_set k v c) \<le> cache_size
    \<or> store k v c = tl c @ [(k, v)] \<and> k \<notin> fst ` set c \<and> length c = cache_size"
proof -
  have n: "length c \<le> cache_size" "0 < cache_size" using assms by (simp_all add: cache_ok_def cache_size_def)
  show ?thesis
  proof (cases "length (dict_set k v c) \<le> cache_size")
    case True
    then show ?thesis by (simp add: store_def evict_drop)
  next
    case False
    then have "k \<notin> fst ` set c" "length c = cache_size"
      using n by (auto simp: dict_set_length split: if_splits)
    then show ?thesis using n by (simp add: store_def evict_drop dict_set_last drop_Suc drop_0)
  qed
qed

lemma map_of_tl: "distinct (map fst c) \<Longrightarrow> map_of (tl c) k = Some v \<Longrightarrow> map_of c k = Some v"
  by (cases c) (force dest: map_of_SomeD)+

lemma store_laws:
  assumes "cache_ok c"
  shows "cache_ok (store k v c)" "map_of (store k v c) k = Some v"
    and "k' \<noteq> k \<Longrightarrow> map_of (store k v c) k' = Some w \<Longrightarrow> map_of c k' = Some w"
proof -
  have d: "distinct (map fst c)" using assms by (simp add: cache_ok_def)
  from store_cases [OF assms, of k v]
  have "cache_ok (store k v c) \<and> map_of (store k v c) k = Some v
      \<and> (k' \<noteq> k \<longrightarrow> map_of (store k v c) k' = Some w \<longrightarrow> map_of c k' = Some w)"
  proof (elim disjE conjE)
    assume "store k v c = dict_set k v c" "length (dict_set k v c) \<le> cache_size"
    then show ?thesis using d by (simp add: cache_ok_def dict_set_distinct map_of_dict_set)
  next
    assume s: "store k v c = tl c @ [(k, v)]" "k \<notin> fst ` set c" "length c = cache_size"
    then have "k \<notin> fst ` set (tl c)" "distinct (map fst (tl c))" "length (tl c) < cache_size"
      using d by (cases c; auto simp: cache_size_def)+
    then show ?thesis using s(1) map_of_tl [OF d]
      by (auto simp: cache_ok_def map_add_Some_iff map_of_eq_None_iff [symmetric] split: if_splits)
  qed
  then show "cache_ok (store k v c)" "map_of (store k v c) k = Some v"
    and "k' \<noteq> k \<Longrightarrow> map_of (store k v c) k' = Some w \<Longrightarrow> map_of c k' = Some w"
    by blast+
qed

lemma move_to_end_laws:
  assumes "cache_ok c"
  shows "cache_ok (move_to_end k c)" "map_of (move_to_end k c) = map_of c"
  using assms by (simp_all add: cache_ok_def move_to_end_distinct move_to_end_length map_of_move_to_end)

lemma cache_ok_length: "cache_ok c \<Longrightarrow> length c \<le> cache_size"
  by (simp add: cache_ok_def)

lemma cache_ok_Nil: "cache_ok []"
  by (simp add: cache_ok_def)

interpretation verdicts: bounded_cache map_of move_to_end store cache_ok "[]" length cache_size
  by (unfold_locales; (rule cache_ok_Nil cache_ok_length store_laws(1,2) store_laws(3) move_to_end_laws(1) fun_cong [OF move_to_end_laws(2)] map_of.simps(1) [THEN fun_cong]; assumption?))

text \<open>
  Callers run interleaved: each looks up under the lock, computes without it, and stores
  under it.  A state is the cache and the snapshots being computed; a step answers a
  caller, or starts one.
\<close>

type_synonym 'v calls = "'v verdict_cache \<times> snapshot list"

inductive call_step ::
  "(snapshot \<Rightarrow> 'v option) \<Rightarrow> snapshot set \<Rightarrow> 'v calls \<Rightarrow> (snapshot \<times> 'v) option \<Rightarrow> 'v calls \<Rightarrow> bool"
  for found U where
  hit: "s \<in> U \<Longrightarrow> cached (cache_key s) c = Some (v, c') \<Longrightarrow>
    call_step found U (c, pend) (Some (s, v)) (c', pend)"
| miss: "s \<in> U \<Longrightarrow> cached (cache_key s) c = None \<Longrightarrow>
    call_step found U (c, pend) None (c, s # pend)"
| finish: "s \<in> set pend \<Longrightarrow> found s = Some v \<Longrightarrow>
    call_step found U (c, pend) (Some (s, v)) (remember (cache_key s) v c, remove1 s pend)"
| raised: "s \<in> set pend \<Longrightarrow> found s = None \<Longrightarrow>
    call_step found U (c, pend) None (c, remove1 s pend)"

inductive_cases call_stepE: "call_step found U st out st'"

inductive calls_reached :: "(snapshot \<Rightarrow> 'v option) \<Rightarrow> snapshot set \<Rightarrow> 'v calls \<Rightarrow> bool" for found U where
  start: "calls_reached found U ([], [])"
| step: "calls_reached found U st \<Longrightarrow> call_step found U st out st' \<Longrightarrow> calls_reached found U st'"

text \<open>Snapshots with one commit identity are of one table version: their contents agree.\<close>

definition same_contents :: "snapshot \<Rightarrow> snapshot \<Rightarrow> bool" where
  "same_contents a b \<longleftrightarrow>
     snap_metadata a = snap_metadata b \<and> snap_files a = snap_files b \<and> snap_legacy a = snap_legacy b"

definition keys_identify :: "snapshot set \<Rightarrow> bool" where
  "keys_identify U \<longleftrightarrow>
     (\<forall>a\<in>U. \<forall>b\<in>U. cache_key a = cache_key b \<longrightarrow> cache_key a \<noteq> None \<longrightarrow> same_contents a b)"

definition by_contents :: "(snapshot \<Rightarrow> 'v option) \<Rightarrow> bool" where
  "by_contents found \<longleftrightarrow> (\<forall>a b. same_contents a b \<longrightarrow> found a = found b)"

lemma verdicts_by_contents: "by_contents (early_found loads)" "by_contents (legacy_found loads)"
proof -
  have "early_found loads a = early_found loads b \<and> legacy_found loads a = legacy_found loads b"
    if "same_contents a b" for a b
  proof -
    have e: "snap_metadata a = snap_metadata b" "snap_files a = snap_files b" "snap_legacy a = snap_legacy b"
      using that by (simp_all add: same_contents_def)
    show ?thesis unfolding early_found_def legacy_found_def e by simp
  qed
  then show "by_contents (early_found loads)" "by_contents (legacy_found loads)"
    by (simp_all add: by_contents_def)
qed

definition calls_ok :: "(snapshot \<Rightarrow> 'v option) \<Rightarrow> snapshot set \<Rightarrow> 'v calls \<Rightarrow> bool" where
  "calls_ok found U st \<longleftrightarrow>
     cache_ok (fst st) \<and> set (snd st) \<subseteq> U
     \<and> (\<forall>k v. map_of (fst st) k = Some v \<longrightarrow> (\<forall>s\<in>U. cache_key s = Some k \<longrightarrow> found s = Some v))"

lemma cached_Some: "cached key c = Some (v, c') \<longleftrightarrow> (\<exists>k. key = Some k \<and> map_of c k = Some v \<and> c' = move_to_end k c)"
  by (auto simp: cached_def split: option.splits)

lemma call_step_ok:
  assumes "call_step found U st out st'" "calls_ok found U st" "keys_identify U" "by_contents found"
  shows "calls_ok found U st' \<and> (\<forall>s v. out = Some (s, v) \<longrightarrow> found s = Some v)"
  using assms(1)
proof cases
  case (hit s c v c' pend)
  then show ?thesis
    using assms(2) verdicts.ok_touch verdicts.touch_agrees by (auto simp: cached_Some calls_ok_def verdicts.lookup_touch)
next
  case (miss s c pend)
  then show ?thesis using assms(2) by (simp add: calls_ok_def)
next
  case (finish s pend v c)
  then have u: "s \<in> U" using assms(2) by (auto simp: calls_ok_def)
  show ?thesis
  proof (cases "cache_key s")
    case None
    then show ?thesis using finish assms(2) set_remove1_subset by (fastforce simp: calls_ok_def remember_def)
  next
    case (Some k)
    let ?R = "\<lambda>k v. \<forall>s\<in>U. cache_key s = Some k \<longrightarrow> found s = Some v"
    have "?R k v" using u Some finish assms(3,4) unfolding keys_identify_def by_contents_def by (metis option.distinct(1))
    then have "\<forall>j w. map_of (store k v c) j = Some w \<longrightarrow> ?R j w"
      using verdicts.put_agrees [of c ?R k v] assms(2) finish by (simp add: calls_ok_def)
    then show ?thesis
      using finish assms(2) Some verdicts.ok_put [of c k v] set_remove1_subset [of s pend]
      by (auto simp: calls_ok_def remember_def)
  qed
next
  case (raised s pend c)
  then show ?thesis using assms(2) set_remove1_subset [of s pend] by (auto simp: calls_ok_def)
qed

lemma calls_reached_ok:
  assumes "calls_reached found U st" "keys_identify U" "by_contents found"
  shows "calls_ok found U st"
  using assms(1)
proof induction
  case start
  then show ?case by (simp add: calls_ok_def cache_ok_def)
next
  case (step st out st')
  then show ?case using call_step_ok assms(2,3) by blast
qed

lemma with_cache_answer:
  assumes "calls_reached found U (c, pend)" "keys_identify U" "by_contents found" "s \<in> U"
    and "with_cache found s c = Some (v, c')"
  shows "found s = Some v \<and> cache_ok c'"
proof -
  have ok: "calls_ok found U (c, pend)" by (rule calls_reached_ok [OF assms(1-3)])
  show ?thesis
  proof (cases "cached (cache_key s) c")
    case (Some r)
    then have "call_step found U (c, pend) (Some (s, v)) (c', pend)"
      using assms(4,5) by (auto simp: with_cache_def intro: call_step.hit)
    from call_step_ok [OF this ok assms(2,3)] show ?thesis by (simp add: calls_ok_def)
  next
    case None
    then have m: "call_step found U (c, pend) None (c, s # pend)" and v: "found s = Some v"
      and c': "c' = remember (cache_key s) v c"
      using assms(4,5) by (auto simp: with_cache_def intro: call_step.miss)
    have "call_step found U (c, s # pend) (Some (s, v)) (c', remove1 s (s # pend))"
      unfolding c' by (rule call_step.finish) (use v in simp_all)
    moreover have "calls_ok found U (c, s # pend)" using call_step_ok [OF m ok assms(2,3)] by blast
    ultimately have "calls_ok found U (c', remove1 s (s # pend))" using call_step_ok assms(2,3) by blast
    then show ?thesis using v by (simp add: calls_ok_def)
  qed
qed

section \<open>Properties\<close>

text \<open>A schema is searched for dates and timestamps exactly where they are: in fields,
  structs, arrays, and the keys and values of maps.\<close>

theorem has_datetime_columns_exact:
  assumes "has_datetime_columns sch = Some b" "is_obj sch" "iterated (json_get ''fields'' sch) = Some fs"
  shows "b \<longleftrightarrow> (\<exists>f\<in>set fs. datetime_within (json_get ''type'' f))"
  using assms contains_datetime_sound(2) [of fs b] by (simp add: has_datetime_columns_def)

text \<open>C29: a file that holds a date before 1582-10-15 or a timestamp before 1900, in a column or
  inside an array or map, is among the files \<open>early_datetime_files\<close> answers, at whatever state
  concurrent callers left the cache; the cache stays within its bound.\<close>

theorem early_files_listed:
  assumes "calls_reached (early_found loads) U (c, pend)" "keys_identify U" "s \<in> U"
    and "early_datetime_files loads s c = Some (found, c')"
    and "row \<in> set (snap_files s)" "truthful (stats_of loads row) column"
    and "holds_value loads (snap_metadata s) early_value column boxed"
  shows "file_path row \<in> set found \<and> length c' \<le> 64"
proof -
  have "early_found loads s = Some found \<and> cache_ok c'"
    using with_cache_answer [OF assms(1,2) verdicts_by_contents(1) assms(3)] assms(4)
    by (simp add: early_datetime_files_def)
  then show ?thesis
    using early_found_lists [OF _ assms(5-7)] by (auto simp: cache_ok_def cache_size_def)
qed

text \<open>A file that holds such a value, or a timestamp an \<open>INT96\<close> column overflows on, and that
  the footer check flags is among the files \<open>legacy_calendar_files\<close> answers.\<close>

theorem legacy_files_listed:
  assumes "calls_reached (legacy_found loads) U (c, pend)" "keys_identify U" "s \<in> U"
    and "legacy_calendar_files loads s c = Some (found, c')"
    and "row \<in> set (snap_files s)" "truthful (stats_of loads row) column"
    and "holds_value loads (snap_metadata s) (\<lambda>k v. early_value k v \<or> overflowing k v) column boxed"
    and "\<And>fs. (file_path row, file_size row) \<in> set fs \<Longrightarrow> file_path row \<in> set (snap_legacy s fs)"
  shows "file_path row \<in> set found"
proof -
  have "legacy_found loads s = Some found"
    using with_cache_answer [OF assms(1,2) verdicts_by_contents(2) assms(3)] assms(4)
    by (simp add: legacy_calendar_files_def)
  then show ?thesis using legacy_found_lists [OF _ assms(5-8)] by blast
qed

text \<open>C36: however the callers interleave, every answer is the verdict on the caller's own
  snapshot, and the cache never holds more than 64 entries.\<close>

theorem concurrent_answers_fresh:
  assumes "calls_reached (early_found loads) U st" "keys_identify U"
    and "call_step (early_found loads) U st (Some (s, found)) st'"
  shows "early_found loads s = Some found \<and> length (fst st') \<le> 64 \<and> distinct (map fst (fst st'))"
  using call_step_ok [OF assms(3) calls_reached_ok [OF assms(1,2) verdicts_by_contents(1)] assms(2) verdicts_by_contents(1)]
  by (auto simp: calls_ok_def cache_ok_def cache_size_def)

section \<open>Witnesses\<close>

text \<open>A table of one date column and one file, written before 1582.\<close>

definition sample_dates :: json where
  "sample_dates = JObj [(''type'', JStr ''struct''),
     (''fields'', JArr [JObj [(''name'', JStr ''d''), (''type'', JStr ''date'')]])]"

definition sample_stats :: json where
  "sample_stats = JObj [(''numRecords'', JInt 1), (''minValues'', JObj [(''d'', JStr ''1500-06-15'')]),
     (''maxValues'', JObj [(''d'', JStr ''1500-06-15'')]), (''nullCount'', JObj [(''d'', JInt 0)])]"

definition sample_loads :: "string \<Rightarrow> json option" where
  "sample_loads t = (if t = ''stats'' then Some sample_stats else None)"

definition sample_file :: file_row where
  "sample_file = \<lparr>file_path = ''part-0'', file_size = 10, file_stats = Some ''stats''\<rparr>"

definition sample_snapshot :: snapshot where
  "sample_snapshot = \<lparr>snap_root = ''s3://b/t'', snap_version = 0, snap_metadata_id = ''id'',
     snap_identity = Some ''etag'', snap_metadata = JObj [(''schemaString'', sample_dates)],
     snap_files = [sample_file], snap_legacy = map fst\<rparr>"

definition sample_column :: "leaf \<Rightarrow> int option list" where
  "sample_column l = (if l = ([''d''], ''date'') then [Some (to_ordinal (YMD 1500 6 15))] else [])"

lemma sample_truthful: "truthful (stats_of sample_loads sample_file) sample_column"
proof -
  have "\<not> all_null (stats_of sample_loads sample_file) [''d'']"
    "parse_stat (stat_at (json_get ''minValues'' (stats_of sample_loads sample_file)) [''d'']) ''date'' = Some (SDate (YMD 1500 6 15))"
    "parse_stat (stat_at (json_get ''maxValues'' (stats_of sample_loads sample_file)) [''d'']) ''date'' = Some (SDate (YMD 1500 6 15))"
    by code_simp+
  then show ?thesis by (auto simp: truthful_def sample_column_def bound_value_def split: if_splits)
qed

lemma sample_fields: "stored_fields sample_loads (snap_metadata sample_snapshot) =
    Some [JObj [(''name'', JStr ''d''), (''type'', JStr ''date'')]]"
  by code_simp

lemma sample_leaf: "datetime_leaf False [JObj [(''name'', JStr ''d''), (''type'', JStr ''date'')]] [''d''] ''date''"
  by (rule dl_here [of "JObj [(''name'', JStr ''d''), (''type'', JStr ''date'')]"])
    (simp_all add: physical_name_def json_str_def is_datetime_def)

lemma sample_holds: "bad ''date'' (to_ordinal (YMD 1500 6 15)) \<Longrightarrow>
    holds_value sample_loads (snap_metadata sample_snapshot) bad sample_column False"
proof -
  assume bad: "bad ''date'' (to_ordinal (YMD 1500 6 15))"
  have "mapped_names (snap_metadata sample_snapshot) = False" by code_simp
  then show ?thesis
    unfolding holds_value_def using sample_fields sample_leaf bad by (auto simp: sample_column_def intro!: exI [of _ "[''d'']"] exI [of _ "''date''"])
qed

lemma sample_early: "early_value ''date'' (to_ordinal (YMD 1500 6 15))"
  by code_simp

lemma sample_identified: "keys_identify {sample_snapshot}"
  by (simp add: keys_identify_def same_contents_def)

theorem has_datetime_columns_exact_witness:
  "has_datetime_columns sample_dates = Some True
   \<and> (\<exists>f\<in>set [JObj [(''name'', JStr ''d''), (''type'', JStr ''date'')]]. datetime_within (json_get ''type'' f))"
proof -
  have h: "has_datetime_columns sample_dates = Some True" by code_simp
  then show ?thesis
    using has_datetime_columns_exact [OF h] by (simp add: sample_dates_def)
qed

theorem early_files_listed_witness:
  "\<exists>found c'. early_datetime_files sample_loads sample_snapshot [] = Some (found, c')
     \<and> ''part-0'' \<in> set found"
proof -
  have r: "early_datetime_files sample_loads sample_snapshot [] =
      Some ([''part-0''], [((''s3://b/t'', 0, ''id'', ''etag''), [''part-0''])])"
    by code_simp
  show ?thesis
    using early_files_listed [OF calls_reached.start sample_identified _ r _ sample_truthful
        sample_holds [of early_value, OF sample_early]] r
    by (simp add: sample_snapshot_def sample_file_def)
qed

theorem legacy_files_listed_witness:
  "\<exists>found c'. legacy_calendar_files sample_loads sample_snapshot [] = Some (found, c')
     \<and> ''part-0'' \<in> set found"
proof -
  have r: "legacy_calendar_files sample_loads sample_snapshot [] =
      Some ([''part-0''], [((''s3://b/t'', 0, ''id'', ''etag''), [''part-0''])])"
    by code_simp
  have native: "\<And>fs. (file_path sample_file, file_size sample_file) \<in> set fs \<Longrightarrow>
      file_path sample_file \<in> set (snap_legacy sample_snapshot fs)"
    by (force simp: sample_snapshot_def)
  show ?thesis
    using legacy_files_listed [OF calls_reached.start sample_identified _ r _ sample_truthful
        sample_holds [of "\<lambda>k v. early_value k v \<or> overflowing k v"] native] sample_early r
    by (simp add: sample_snapshot_def sample_file_def)
qed

text \<open>Two callers of one snapshot: the second starts before the first has stored.\<close>

theorem concurrent_answers_fresh_witness:
  "\<exists>st st'. call_step (early_found sample_loads) {sample_snapshot} st (Some (sample_snapshot, [''part-0''])) st'
     \<and> early_found sample_loads sample_snapshot = Some [''part-0''] \<and> length (fst st') \<le> 64"
proof -
  let ?U = "{sample_snapshot}" and ?f = "early_found sample_loads"
  have f: "?f sample_snapshot = Some [''part-0'']" by code_simp
  have none: "cached (cache_key sample_snapshot) [] = (None :: (string list \<times> string list verdict_cache) option)"
    by code_simp
  have "calls_reached ?f ?U ([], [sample_snapshot])"
    by (rule calls_reached.step [OF calls_reached.start call_step.miss [OF _ none]]) simp
  then have two: "calls_reached ?f ?U ([], [sample_snapshot, sample_snapshot])"
    by (rule calls_reached.step [OF _ call_step.miss [OF _ none]]) simp
  have st: "call_step ?f ?U ([], [sample_snapshot, sample_snapshot]) (Some (sample_snapshot, [''part-0'']))
      (remember (cache_key sample_snapshot) [''part-0''] [], remove1 sample_snapshot [sample_snapshot, sample_snapshot])"
    by (rule call_step.finish) (simp_all add: f)
  show ?thesis
    using concurrent_answers_fresh [OF two sample_identified st] st by blast
qed

text \<open>Metadata without a schema: the walk assumes dates, yet no file is judged.\<close>

lemma unknown_schema_lists_nothing:
  "has_datetime_columns JNull = Some True"
  "early_found loads (sample_snapshot\<lparr>snap_metadata := JObj []\<rparr>) = Some []"
  by (simp_all add: has_datetime_columns_def early_found_def data_leaves_def schema_of_def or_json_def
      name_set_def field_list_def)

end
