(* ===== verification/Calendar_Values.thy ===== *)
theory Calendar_Values
  imports Calendar_Safe Pred_Parse
begin

text \<open>
  \<open>engine/calendar.py\<close>, second half: the rows being written and the values assigned by an
  UPDATE or MERGE.  Arrow's types and arrays are datatypes of the shapes the code tells
  apart; an array holds its raw integers, \<open>None\<close> where null.
\<close>

section \<open>Arrow types and arrays\<close>

datatype time_unit = Second | Millisecond | Microsecond | Nanosecond

definition per_second :: "time_unit \<Rightarrow> int" where
  "per_second u = (case u of Second \<Rightarrow> 1 | Millisecond \<Rightarrow> 1000 | Microsecond \<Rightarrow> 1000000 | Nanosecond \<Rightarrow> 1000000000)"

datatype arrow_type =
    TDate32 | TDate64 | TTimestamp time_unit "string option"
  | TDictionary arrow_type | TStruct "(string \<times> arrow_type) list"
  | TMap arrow_type arrow_type | TList arrow_type | TOther string

text \<open>
  An array; of a list array the values of its non-null rows (what \<open>flatten\<close> gives), of a
  dictionary array the dictionary.
\<close>

datatype arrow_array =
    ADate32 "int option list" | ADate64 "int option list"
  | ATimestamp time_unit "string option" "int option list"
  | AChunked arrow_type "arrow_array list" | ADictionary arrow_array
  | AStruct "(string \<times> arrow_array) list"
  | AMap arrow_array arrow_array | AList arrow_array | AOther string

definition date_limit_days :: int where
  "date_limit_days = - 141427"

definition timestamp_limit_seconds :: int where
  "timestamp_limit_seconds = - 2208988800"

text \<open>\<open>pc.min\<close> of an array that is not all null.\<close>

fun values_of :: "int option list \<Rightarrow> int list" where
  "values_of [] = []"
| "values_of (None # xs) = values_of xs"
| "values_of (Some v # xs) = v # values_of xs"

definition low_before :: "int \<Rightarrow> int option list \<Rightarrow> bool" where
  "low_before limit rw =
     (if values_of rw = [] then False else Min (set (values_of rw)) < limit)"

fun array_holds_early :: "arrow_array \<Rightarrow> bool" where
  "array_holds_early (AChunked ty chunks) = list_ex array_holds_early chunks"
| "array_holds_early (ADictionary d) = array_holds_early d"
| "array_holds_early (AStruct fs) = list_ex (\<lambda>(n, a). array_holds_early a) fs"
| "array_holds_early (AMap ks vs) = (array_holds_early ks \<or> array_holds_early vs)"
| "array_holds_early (AList vs) = array_holds_early vs"
| "array_holds_early (ADate32 rw) = low_before date_limit_days rw"
| "array_holds_early (ADate64 rw) = low_before (date_limit_days * 86400000) rw"
| "array_holds_early (ATimestamp u tz rw) = low_before (timestamp_limit_seconds * per_second u) rw"
| "array_holds_early (AOther _) = False"

text \<open>In-memory data: columns, data that is no Arrow table, or columns whose inspection raises.\<close>

datatype in_memory = Columns "arrow_array list" | NotTabular | Uninspectable

definition holds_early_datetimes :: "in_memory \<Rightarrow> bool" where
  "holds_early_datetimes d =
     (case d of Columns cs \<Rightarrow> list_ex array_holds_early cs | NotTabular \<Rightarrow> False | Uninspectable \<Rightarrow> True)"

section \<open>Streams: only the schema is known\<close>

fun type_holds_datetimes :: "arrow_type \<Rightarrow> bool" where
  "type_holds_datetimes TDate32 = True"
| "type_holds_datetimes TDate64 = True"
| "type_holds_datetimes (TTimestamp u tz) = True"
| "type_holds_datetimes (TDictionary t) = type_holds_datetimes t"
| "type_holds_datetimes (TStruct fs) = list_ex (\<lambda>(n, t). type_holds_datetimes t) fs"
| "type_holds_datetimes (TMap k v) = (type_holds_datetimes k \<or> type_holds_datetimes v)"
| "type_holds_datetimes (TList t) = type_holds_datetimes t"
| "type_holds_datetimes (TOther _) = False"

definition schema_holds_datetimes :: "arrow_type list \<Rightarrow> bool" where
  "schema_holds_datetimes ts = list_ex type_holds_datetimes ts"

text \<open>The schema a stream declares, if any, and whether it exports an Arrow stream at all.\<close>

definition stream_may_hold_early_datetimes :: "arrow_type list option \<Rightarrow> bool \<Rightarrow> bool" where
  "stream_may_hold_early_datetimes declared arrow_stream =
     (case declared of None \<Rightarrow> arrow_stream | Some ts \<Rightarrow> schema_holds_datetimes ts)"

section \<open>Assigned values\<close>

datatype column_kind = KDate | KTimestamp | KNested

fun datetime_kind :: "arrow_type \<Rightarrow> column_kind option" where
  "datetime_kind TDate32 = Some KDate"
| "datetime_kind TDate64 = Some KDate"
| "datetime_kind (TTimestamp u tz) = (case tz of None \<Rightarrow> None | Some _ \<Rightarrow> Some KTimestamp)"
| "datetime_kind (TDictionary t) = datetime_kind t"
| "datetime_kind (TStruct fs) = (if list_ex (\<lambda>(n, t). datetime_kind t \<noteq> None) fs then Some KNested else None)"
| "datetime_kind (TMap k v) = (if datetime_kind k \<noteq> None \<or> datetime_kind v \<noteq> None then Some KNested else None)"
| "datetime_kind (TList t) = (if datetime_kind t \<noteq> None then Some KNested else None)"
| "datetime_kind (TOther _) = None"

datatype py_value = PNone | PStr string | PDateTime pydatetime | PDate pydate | POther

definition naive_timestamp_limit :: pydatetime where
  "naive_timestamp_limit = \<lparr>dt_date = YMD 1900 1 2, dt_micro = 0, dt_offset = None\<rparr>"

definition datetime_early :: "pydatetime \<Rightarrow> column_kind \<Rightarrow> bool" where
  "datetime_early t k =
     (if k = KDate then date_less (dt_date t) date_limit
      else if dt_offset t = None then dt_local t < dt_local naive_timestamp_limit
      else dt_instant t < dt_instant timestamp_limit)"

definition date_early :: "pydate \<Rightarrow> column_kind \<Rightarrow> bool" where
  "date_early d k =
     (if k = KDate then date_less d date_limit else date_less d (dt_date naive_timestamp_limit))"

definition text_early :: "string \<Rightarrow> column_kind \<Rightarrow> bool" where
  "text_early s k =
     (let t = py_strip s in
      if k = KDate
      then (case date_fromisoformat (take 10 t) of None \<Rightarrow> True | Some d \<Rightarrow> date_early d k)
      else (case datetime_fromisoformat (replace_z t) of None \<Rightarrow> True | Some t \<Rightarrow> datetime_early t k))"

definition value_early :: "py_value \<Rightarrow> column_kind \<Rightarrow> bool" where
  "value_early v k =
     (case v of
        PNone \<Rightarrow> False
      | _ \<Rightarrow>
         (if k = KNested then True
          else case v of
            PStr s \<Rightarrow> text_early s k
          | PDateTime t \<Rightarrow> datetime_early t k
          | PDate d \<Rightarrow> date_early d k
          | _ \<Rightarrow> True))"

text \<open>\<open>_NOW\<close>: one of the three words, and an optional pair of parentheses.\<close>

definition is_now :: "string \<Rightarrow> bool" where
  "is_now s =
     (let t = py_lower (py_strip s) in
      list_ex (\<lambda>w. starts_with t w \<and>
          (let r = lstrip_by py_isspace (drop (length w) t) in
           r = [] \<or> (hd r = CHR ''('' \<and> lstrip_by py_isspace (tl r) = '')'')))
        [''current_date'', ''current_timestamp'', ''now''])"

fun literal_value :: "lit_val \<Rightarrow> py_value" where
  "literal_value LNone = PNone"
| "literal_value (LStr u) = (case latin1_text u of Some s \<Rightarrow> PStr s | None \<Rightarrow> POther)"
| "literal_value (LDate d) = PDate d"
| "literal_value (LDateTime t) = PDateTime t"
| "literal_value _ = POther"

definition dated_literals :: "string list" where
  "dated_literals = [''date'', ''timestamp'', ''timestamp_ntz'', ''string'', ''null'']"

text \<open>\<open>column_type\<close> is the caller's: the type of a column whose own values are known to be in range.\<close>

definition assigned_early ::
  "arrow_type \<Rightarrow> py_value \<Rightarrow> bool \<Rightarrow> (string list \<Rightarrow> arrow_type option) \<Rightarrow> bool" where
  "assigned_early target v sql column_type =
     (case datetime_kind target of
        None \<Rightarrow> False
      | Some k \<Rightarrow>
         (if \<not> sql then value_early v k
          else case v of
            PStr s \<Rightarrow>
              (let t = py_strip s in
               if py_upper t = ''NULL'' then False
               else if k \<noteq> KNested \<and> is_now t then False
               else case parse_value t of
                 Inl _ \<Rightarrow> True
               | Inr (Literal l ty) \<Rightarrow>
                   if ty \<notin> set dated_literals then True else value_early (literal_value l) k
               | Inr (Column p) \<Rightarrow>
                   (case column_type p of
                      None \<Rightarrow> True
                    | Some source \<Rightarrow>
                        if source = target then False
                        else \<not> (k = KDate \<and> datetime_kind source = Some KTimestamp)))
          | _ \<Rightarrow> True))"

section \<open>The row check is exact\<close>

text \<open>
  A value somewhere in an array: a date in days, a timestamp in seconds, since the epoch.
\<close>

definition scaled :: "int \<Rightarrow> int \<Rightarrow> rat" where
  "scaled n v = of_int v / of_int n"

inductive array_value :: "arrow_array \<Rightarrow> column_kind \<Rightarrow> rat \<Rightarrow> bool" where
  av_date32: "Some v \<in> set rw \<Longrightarrow> array_value (ADate32 rw) KDate (of_int v)"
| av_date64: "Some v \<in> set rw \<Longrightarrow> array_value (ADate64 rw) KDate (scaled 86400000 v)"
| av_timestamp: "Some v \<in> set rw \<Longrightarrow> array_value (ATimestamp u tz rw) KTimestamp (scaled (per_second u) v)"
| av_chunk: "c \<in> set cs \<Longrightarrow> array_value c k x \<Longrightarrow> array_value (AChunked ty cs) k x"
| av_dictionary: "array_value d k x \<Longrightarrow> array_value (ADictionary d) k x"
| av_field: "(n, a) \<in> set fs \<Longrightarrow> array_value a k x \<Longrightarrow> array_value (AStruct fs) k x"
| av_key: "array_value ks k x \<Longrightarrow> array_value (AMap ks vs) k x"
| av_value: "array_value vs k x \<Longrightarrow> array_value (AMap ks vs) k x"
| av_element: "array_value vs k x \<Longrightarrow> array_value (AList vs) k x"

inductive_simps array_value_iffs:
  "array_value (ADate32 rw) k x" "array_value (ADate64 rw) k x" "array_value (ATimestamp u tz rw) k x"
  "array_value (AChunked ty cs) k x" "array_value (ADictionary d) k x" "array_value (AStruct fs) k x"
  "array_value (AMap ks vs) k x" "array_value (AList vs) k x" "array_value (AOther t) k x"

definition epoch :: pydatetime where
  "epoch = utc_midnight (YMD 1970 1 1)"

definition early_since_epoch :: "column_kind \<Rightarrow> rat \<Rightarrow> bool" where
  "early_since_epoch k x \<longleftrightarrow>
     (if k = KDate then x < of_int (to_ordinal date_limit - to_ordinal (dt_date epoch))
      else x * 1000000 < of_int (dt_instant timestamp_limit - dt_instant epoch))"

lemma values_of_set: "set (values_of rw) = {v. Some v \<in> set rw}"
  by (induction rw rule: values_of.induct) auto

lemma low_before_iff: "low_before limit rw \<longleftrightarrow> (\<exists>v. Some v \<in> set rw \<and> v < limit)"
proof -
  have "low_before limit rw \<longleftrightarrow> (\<exists>v\<in>set (values_of rw). v < limit)"
    by (cases "values_of rw = []") (simp_all add: low_before_def Min_less_iff)
  then show ?thesis by (simp add: values_of_set)
qed

text \<open>The offsets in the code are those of the limits in the module's head.\<close>

lemma limit_offsets:
  "to_ordinal date_limit - to_ordinal (dt_date epoch) = date_limit_days"
  "dt_instant timestamp_limit - dt_instant epoch = timestamp_limit_seconds * 1000000"
  by code_simp+

lemma per_second_pos [simp]: "0 < per_second u"
  by (cases u) (simp_all add: per_second_def)

lemma early_units:
  "early_since_epoch KDate (of_int v) \<longleftrightarrow> v < date_limit_days"
  "early_since_epoch KDate (scaled 86400000 v) \<longleftrightarrow> v < date_limit_days * 86400000"
  "early_since_epoch KTimestamp (scaled (per_second u) v) \<longleftrightarrow> v < timestamp_limit_seconds * per_second u"
proof -
  show "early_since_epoch KDate (of_int v) \<longleftrightarrow> v < date_limit_days"
    by (simp add: early_since_epoch_def limit_offsets)
  have "(of_int v / 86400000 < (of_int date_limit_days :: rat)) \<longleftrightarrow> (of_int v :: rat) < of_int (date_limit_days * 86400000)"
    by (simp add: field_simps)
  then show "early_since_epoch KDate (scaled 86400000 v) \<longleftrightarrow> v < date_limit_days * 86400000"
    unfolding early_since_epoch_def limit_offsets scaled_def by (simp only: of_int_less_iff if_True simp_thms of_int_numeral)
  have "0 < (of_int (per_second u) :: rat)" by simp
  then have "(of_int v / of_int (per_second u) * 1000000 < (of_int (timestamp_limit_seconds * 1000000) :: rat))
      \<longleftrightarrow> (of_int v :: rat) < of_int (timestamp_limit_seconds * per_second u)"
    by (simp add: field_simps)
  then show "early_since_epoch KTimestamp (scaled (per_second u) v) \<longleftrightarrow> v < timestamp_limit_seconds * per_second u"
    unfolding early_since_epoch_def limit_offsets scaled_def
    by (simp only: of_int_less_iff if_False column_kind.distinct)
qed

lemma leaf_values:
  "(\<exists>k x. array_value (ADate32 rw) k x \<and> E k x) \<longleftrightarrow> (\<exists>v. Some v \<in> set rw \<and> E KDate (of_int v))"
  "(\<exists>k x. array_value (ADate64 rw) k x \<and> E k x) \<longleftrightarrow> (\<exists>v. Some v \<in> set rw \<and> E KDate (scaled 86400000 v))"
  "(\<exists>k x. array_value (ATimestamp u tz rw) k x \<and> E k x) \<longleftrightarrow>
     (\<exists>v. Some v \<in> set rw \<and> E KTimestamp (scaled (per_second u) v))"
proof -
  have one: "(\<exists>k x. (k = K \<and> (\<exists>v. x = f v \<and> Some v \<in> set rw)) \<and> E k x) \<longleftrightarrow> (\<exists>v. Some v \<in> set rw \<and> E K (f v))"
    for K and f :: "int \<Rightarrow> rat"
    by blast
  show "(\<exists>k x. array_value (ADate32 rw) k x \<and> E k x) \<longleftrightarrow> (\<exists>v. Some v \<in> set rw \<and> E KDate (of_int v))"
    unfolding array_value_iffs by (rule one)
  show "(\<exists>k x. array_value (ADate64 rw) k x \<and> E k x) \<longleftrightarrow> (\<exists>v. Some v \<in> set rw \<and> E KDate (scaled 86400000 v))"
    unfolding array_value_iffs by (rule one)
  show "(\<exists>k x. array_value (ATimestamp u tz rw) k x \<and> E k x) \<longleftrightarrow>
     (\<exists>v. Some v \<in> set rw \<and> E KTimestamp (scaled (per_second u) v))"
    unfolding array_value_iffs by (rule one)
qed

text \<open>The check of the rows being written is exact: it holds just when some value in some
  column, however nested, is a date before 1582-10-15 or a timestamp before 1900.\<close>

theorem array_holds_early_exact:
  "array_holds_early a \<longleftrightarrow> (\<exists>k x. array_value a k x \<and> early_since_epoch k x)"
proof (induction a)
  case (ADate32 rw)
  show ?case by (simp only: array_holds_early.simps low_before_iff leaf_values early_units)
next
  case (ADate64 rw)
  show ?case by (simp only: array_holds_early.simps low_before_iff leaf_values early_units)
next
  case (ATimestamp u tz rw)
  show ?case by (simp only: array_holds_early.simps low_before_iff leaf_values early_units)
next
  case (AChunked ty cs)
  then show ?case by (auto simp: array_value_iffs list_ex_iff)
next
  case (AStruct fs)
  have "array_holds_early a \<longleftrightarrow> (\<exists>k x. array_value a k x \<and> early_since_epoch k x)"
    if "(n, a) \<in> set fs" for n a
    using AStruct.IH [of "(n, a)" a] that by simp
  then show ?case unfolding array_holds_early.simps array_value_iffs list_ex_iff by blast
next
  case (AMap ks vs)
  then show ?case by (auto simp: array_value_iffs)
qed (simp_all add: array_value_iffs)

text \<open>The type of an array; a stream is judged by it alone.\<close>

fun array_type :: "arrow_array \<Rightarrow> arrow_type" where
  "array_type (ADate32 _) = TDate32"
| "array_type (ADate64 _) = TDate64"
| "array_type (ATimestamp u tz _) = TTimestamp u tz"
| "array_type (AChunked ty _) = ty"
| "array_type (ADictionary d) = TDictionary (array_type d)"
| "array_type (AStruct fs) = TStruct (map (\<lambda>(n, a). (n, array_type a)) fs)"
| "array_type (AMap ks vs) = TMap (array_type ks) (array_type vs)"
| "array_type (AList vs) = TList (array_type vs)"
| "array_type (AOther t) = TOther t"

text \<open>Every chunk has the column's type.\<close>

fun typed_chunks :: "arrow_array \<Rightarrow> bool" where
  "typed_chunks (AChunked ty cs) \<longleftrightarrow> list_all (\<lambda>c. array_type c = ty \<and> typed_chunks c) cs"
| "typed_chunks (ADictionary d) \<longleftrightarrow> typed_chunks d"
| "typed_chunks (AStruct fs) \<longleftrightarrow> list_all (\<lambda>(n, a). typed_chunks a) fs"
| "typed_chunks (AMap ks vs) \<longleftrightarrow> typed_chunks ks \<and> typed_chunks vs"
| "typed_chunks (AList vs) \<longleftrightarrow> typed_chunks vs"
| "typed_chunks _ \<longleftrightarrow> True"

lemma early_array_type: "array_holds_early a \<Longrightarrow> typed_chunks a \<Longrightarrow> type_holds_datetimes (array_type a)"
proof (induction a)
  case (AStruct fs)
  then obtain n a where "(n, a) \<in> set fs" "array_holds_early a" "typed_chunks a"
    by (auto simp: list_ex_iff list_all_iff)
  then have "type_holds_datetimes (array_type a)" using AStruct.IH [of "(n, a)" a] by simp
  then show ?case using \<open>(n, a) \<in> set fs\<close> by (force simp: list_ex_iff)
qed (auto simp: list_ex_iff list_all_iff)

text \<open>The check of a stream, which sees only its schema, holds wherever the check of its rows
  would: streamed early values never reach the writer that shifts them.\<close>

theorem stream_check_conservative:
  assumes "holds_early_datetimes (Columns cs)" "\<forall>a\<in>set cs. typed_chunks a"
  shows "stream_may_hold_early_datetimes (Some (map array_type cs)) exports"
  using assms early_array_type
  by (auto simp: holds_early_datetimes_def stream_may_hold_early_datetimes_def schema_holds_datetimes_def list_ex_iff)

theorem stream_check_conservative_witness:
  "holds_early_datetimes (Columns [AList (ADate32 [None, Some (- 200000)])])
   \<and> stream_may_hold_early_datetimes (Some [TList TDate32]) True"
  using stream_check_conservative [of "[AList (ADate32 [None, Some (- 200000)])]" True]
  by (simp add: holds_early_datetimes_def low_before_def date_limit_days_def)

section \<open>Assigned values are in range\<close>

text \<open>
  The value a column of kind \<open>k\<close> gets from a literal, in a session whose zone is \<open>z\<close>
  microseconds ahead of UTC: its ordinal, or its microseconds.
\<close>

definition stored_datetime :: "column_kind \<Rightarrow> int \<Rightarrow> pydatetime \<Rightarrow> int" where
  "stored_datetime k z t =
     (let zoned = (if dt_offset t = None then dt_local t else dt_instant t + z) in
      if k = KDate then zoned div micros_per_day else zoned - z)"

definition stored_date :: "column_kind \<Rightarrow> int \<Rightarrow> pydate \<Rightarrow> int" where
  "stored_date k z d =
     (if k = KDate then to_ordinal d else to_ordinal d * micros_per_day - z)"

definition stored_text :: "column_kind \<Rightarrow> int \<Rightarrow> string \<Rightarrow> int option" where
  "stored_text k z s =
     (if k = KDate
      then map_option (stored_date k z) (date_fromisoformat (take 10 (py_strip s)))
      else map_option (stored_datetime k z) (datetime_fromisoformat (replace_z (py_strip s))))"

definition stored_value :: "column_kind \<Rightarrow> int \<Rightarrow> py_value \<Rightarrow> int option" where
  "stored_value k z v =
     (case v of PStr s \<Rightarrow> stored_text k z s | PDate d \<Rightarrow> Some (stored_date k z d)
      | PDateTime t \<Rightarrow> Some (stored_datetime k z t) | _ \<Rightarrow> None)"

definition kind_name :: "column_kind \<Rightarrow> string" where
  "kind_name k = (if k = KDate then ''date'' else ''timestamp'')"

text \<open>A zoned value is of its own zone's date, not the session's, when it is cut to a date.\<close>

definition zoned_to_date :: "column_kind \<Rightarrow> py_value \<Rightarrow> bool" where
  "zoned_to_date k v \<longleftrightarrow> k = KDate \<and> (case v of PDateTime t \<Rightarrow> dt_offset t \<noteq> None | _ \<Rightarrow> False)"

definition well_formed_value :: "py_value \<Rightarrow> bool" where
  "well_formed_value v \<longleftrightarrow>
     (case v of PDate d \<Rightarrow> valid_date d
      | PDateTime t \<Rightarrow> valid_date (dt_date t) \<and> 0 \<le> dt_micro t \<and> dt_micro t < micros_per_day
      | _ \<Rightarrow> True)"

lemma limit_values:
  "valid_date (dt_date naive_timestamp_limit)"
  "dt_local naive_timestamp_limit = dt_instant timestamp_limit + micros_per_day"
  "dt_local naive_timestamp_limit = to_ordinal (dt_date naive_timestamp_limit) * micros_per_day"
  by code_simp+

lemma stored_date_in_range:
  assumes "valid_date d" "\<not> date_early d k" "z \<le> micros_per_day"
  shows "\<not> early_value (kind_name k) (stored_date k z d)"
proof (cases "k = KDate")
  case True
  then have "to_ordinal date_limit \<le> to_ordinal d"
    using not_date_less_ordinal [OF assms(1) date_limit_valid] assms(2) by (simp add: date_early_def)
  then show ?thesis using True by (simp add: early_value_def kind_name_def stored_date_def)
next
  case False
  then have "to_ordinal (dt_date naive_timestamp_limit) \<le> to_ordinal d"
    using not_date_less_ordinal [OF assms(1) limit_values(1)] assms(2) by (simp add: date_early_def)
  then have "dt_local naive_timestamp_limit \<le> to_ordinal d * micros_per_day"
    by (simp add: limit_values(3) micros_per_day_def)
  then show ?thesis
    using False assms(3) by (simp add: early_value_def kind_name_def stored_date_def limit_values(2))
qed

lemma stored_datetime_in_range:
  assumes "valid_date (dt_date t)" "k = KDate \<Longrightarrow> 0 \<le> dt_micro t \<and> dt_micro t < micros_per_day"
    and "\<not> datetime_early t k" "\<not> zoned_to_date k (PDateTime t)" "z \<le> micros_per_day"
  shows "\<not> early_value (kind_name k) (stored_datetime k z t)"
proof (cases "k = KDate")
  case True
  then have n: "dt_offset t = None" "to_ordinal date_limit \<le> to_ordinal (dt_date t)"
    using not_date_less_ordinal [OF assms(1) date_limit_valid] assms(3,4)
    by (simp_all add: datetime_early_def zoned_to_date_def)
  have "dt_local t div micros_per_day = to_ordinal (dt_date t)"
    using assms(2) True by (simp add: dt_local_def micros_per_day_def)
  then show ?thesis using True n by (simp add: early_value_def kind_name_def stored_datetime_def)
next
  case False
  show ?thesis
  proof (cases "dt_offset t")
    case None
    then show ?thesis
      using False assms(3,5) limit_values(2)
      by (simp add: early_value_def kind_name_def stored_datetime_def datetime_early_def)
  next
    case (Some off)
    then show ?thesis
      using False assms(3) by (simp add: early_value_def kind_name_def stored_datetime_def datetime_early_def)
  qed
qed

lemma time_of_day:
  assumes "datetime_fromisoformat s = Some t"
  shows "valid_date (dt_date t)"
  using assms
  by (auto simp: datetime_fromisoformat_def Let_def bind_eq_Some_conv iso_date_valid split: if_split_asm)

lemma stored_text_in_range:
  assumes "\<not> text_early s k" "z \<le> micros_per_day" "stored_text k z s = Some x"
  shows "\<not> early_value (kind_name k) x"
proof (cases "k = KDate")
  case True
  then obtain d where d: "date_fromisoformat (take 10 (py_strip s)) = Some d" "x = stored_date k z d"
    using assms(3) by (auto simp: stored_text_def)
  then have "\<not> date_early d k" using assms(1) True by (simp add: text_early_def Let_def)
  then show ?thesis using stored_date_in_range [OF date_fromisoformat_valid] d assms(2) by simp
next
  case False
  then obtain t where t: "datetime_fromisoformat (replace_z (py_strip s)) = Some t" "x = stored_datetime k z t"
    using assms(3) by (auto simp: stored_text_def)
  then have "\<not> datetime_early t k" using assms(1) False by (simp add: text_early_def Let_def)
  moreover have "\<not> zoned_to_date k (PDateTime t)" using False by (simp add: zoned_to_date_def)
  ultimately have "\<not> early_value (kind_name k) (stored_datetime k z t)"
    by (intro stored_datetime_in_range time_of_day [OF t(1)]) (simp_all add: False assms(2))
  then show ?thesis using t(2) by simp
qed

lemma stored_value_in_range:
  assumes "\<not> value_early v k" "well_formed_value v" "\<not> zoned_to_date k v" "z \<le> micros_per_day"
    and "stored_value k z v = Some x"
  shows "\<not> early_value (kind_name k) x"
proof (cases v)
  case (PStr s)
  then show ?thesis
    using assms stored_text_in_range [of s k z x] by (simp add: value_early_def stored_value_def split: if_splits)
next
  case (PDateTime t)
  then show ?thesis
    using assms stored_datetime_in_range [of t k z]
    by (simp add: value_early_def stored_value_def well_formed_value_def split: if_splits)
next
  case (PDate d)
  then show ?thesis
    using assms stored_date_in_range [of d k z]
    by (simp add: value_early_def stored_value_def well_formed_value_def split: if_splits)
qed (use assms(5) in \<open>simp_all add: stored_value_def\<close>)

text \<open>A literal that may be assigned without the writer that marks its files stores no date
  before 1582-10-15 and no timestamp before 1900, whatever the session's zone (up to a day from
  UTC); the exception is a zoned timestamp cut to a date.\<close>

theorem assigned_literal_in_range:
  assumes "\<not> assigned_early target (PStr s) True column_type" "datetime_kind target = Some k"
    and "parse_value (py_strip s) = Inr (Literal l ty)" "py_upper (py_strip s) \<noteq> ''NULL''" "\<not> is_now (py_strip s)"
    and "well_formed_value (literal_value l)" "\<not> zoned_to_date k (literal_value l)"
    and "\<bar>z\<bar> \<le> micros_per_day" "stored_value k z (literal_value l) = Some x"
  shows "\<not> early_value (kind_name k) x"
proof -
  have "\<not> value_early (literal_value l) k"
    using assms(1-5) by (simp add: assigned_early_def Let_def split: if_splits)
  then show ?thesis
    using stored_value_in_range [of "literal_value l" k z x] assms(6-9) by simp
qed

definition sample_assignment :: string where
  "sample_assignment = ''DATE '' @ [squote] @ ''1600-01-01'' @ [squote]"

lemma sample_assignment_facts:
  "\<not> assigned_early TDate32 (PStr sample_assignment) True (\<lambda>_. None)"
  "parse_value (py_strip sample_assignment) = Inr (Literal (LDate (YMD 1600 1 1)) ''date'')"
  "py_upper (py_strip sample_assignment) \<noteq> ''NULL''" "\<not> is_now (py_strip sample_assignment)"
  "well_formed_value (literal_value (LDate (YMD 1600 1 1)))"
  "\<not> zoned_to_date KDate (literal_value (LDate (YMD 1600 1 1)))"
  "\<bar>0\<bar> \<le> micros_per_day" "datetime_kind TDate32 = Some KDate"
  by code_simp+

theorem assigned_literal_in_range_witness:
  "\<exists>x. stored_value KDate 0 (literal_value (LDate (YMD 1600 1 1))) = Some x \<and> \<not> early_value ''date'' x"
proof -
  have x: "stored_value KDate 0 (literal_value (LDate (YMD 1600 1 1))) = Some (to_ordinal (YMD 1600 1 1))"
    by (simp add: stored_value_def stored_date_def)
  note f = sample_assignment_facts
  show ?thesis
    using assigned_literal_in_range [OF f(1,8,2-7) x] x by (simp add: kind_name_def)
qed

text \<open>
  A zoned timestamp assigned to a date column is judged by the date of its own zone; ten hours
  east of UTC the early morning of 1582-10-15 is still the day before in a UTC session.
\<close>

definition zoned_morning :: pydatetime where
  "zoned_morning = \<lparr>dt_date = YMD 1582 10 15, dt_micro = 18000000000, dt_offset = Some 36000000000\<rparr>"

lemma zoned_timestamp_slips:
  "\<not> value_early (PDateTime zoned_morning) KDate"
  "early_value ''date'' (stored_datetime KDate 0 zoned_morning)"
  by code_simp+

end
