(* ===== verification/Storage_Options.thy ===== *)
theory Storage_Options
  imports Py_Data
begin

text \<open>
  \<open>_storage.py\<close>: storage options under one spelling and one precedence.  A dict of options is
  an association list with one entry per key, in insertion order; the process environment is
  an argument.
\<close>

section \<open>Clouds and schemes\<close>

datatype cloud = S3 | Azure | Gcs

definition s3_schemes :: "string set" where
  "s3_schemes = {''s3'', ''s3a'', ''s3n'', ''r2''}"

definition azure_schemes :: "string set" where
  "azure_schemes = {''az'', ''abfs'', ''abfss'', ''adl'', ''azure'', ''wasb'', ''wasbs''}"

definition gcs_schemes :: "string set" where
  "gcs_schemes = {''gs'', ''gcs''}"

text \<open>\<open>s.split("://", 1)\<close> when the mark is there: the text before it, and after it.\<close>

fun split_mark :: "string \<Rightarrow> (string \<times> string) option" where
  "split_mark s =
     (if starts_with s ''://'' then Some ([], drop 3 s)
      else case s of [] \<Rightarrow> None
        | c # r \<Rightarrow> map_option (\<lambda>(a, b). (c # a, b)) (split_mark r))"

definition url_scheme :: "string option \<Rightarrow> string" where
  "url_scheme loc =
     (case split_mark (case loc of None \<Rightarrow> [] | Some s \<Rightarrow> s) of
        None \<Rightarrow> [] | Some (a, b) \<Rightarrow> py_lower a)"

definition cloud_of :: "string option \<Rightarrow> cloud option" where
  "cloud_of loc =
     (let scheme = url_scheme loc in
      if scheme \<in> s3_schemes then Some S3
      else if scheme \<in> azure_schemes then Some Azure
      else if scheme \<in> gcs_schemes then Some Gcs
      else None)"

text \<open>\<open>location_refusal\<close>: whether no engine can open the location at all.\<close>

definition location_refused :: "string option \<Rightarrow> bool" where
  "location_refused loc \<longleftrightarrow> url_scheme loc \<in> {''wasb'', ''wasbs''}"

section \<open>Names of settings\<close>

definition opt_out_probe :: string where
  "opt_out_probe = ''deltaswamp_skip_put_if_absent_probe''"

definition own_keys :: "string set" where
  "own_keys = {opt_out_probe}"

definition s3_aliases :: "(string \<times> string list) list" where
  "s3_aliases =
    [(''aws_access_key_id'', [''access_key_id'']),
     (''aws_secret_access_key'', [''secret_access_key'']),
     (''aws_session_token'', [''aws_token'', ''session_token'', ''token'']),
     (''aws_region'', [''region'']),
     (''aws_default_region'', [''default_region'']),
     (''aws_bucket'', [''aws_bucket_name'', ''bucket_name'', ''bucket'']),
     (''aws_endpoint'', [''aws_endpoint_url'', ''endpoint_url'', ''endpoint'']),
     (''aws_virtual_hosted_style_request'', [''virtual_hosted_style_request'']),
     (''aws_s3_express'', [''s3_express'']),
     (''aws_imdsv1_fallback'', [''imdsv1_fallback'']),
     (''aws_metadata_endpoint'', [''metadata_endpoint'']),
     (''aws_unsigned_payload'', [''unsigned_payload'']),
     (''aws_checksum_algorithm'', [''checksum_algorithm'']),
     (''aws_role_arn'', [''role_arn'']),
     (''aws_role_session_name'', [''role_session_name'']),
     (''aws_web_identity_token_file'', [''web_identity_token_file'']),
     (''aws_endpoint_url_sts'', [''endpoint_url_sts'']),
     (''aws_skip_signature'', [''skip_signature'']),
     (''aws_copy_if_not_exists'', [''copy_if_not_exists'']),
     (''aws_conditional_put'', [''conditional_put'']),
     (''aws_disable_tagging'', [''disable_tagging'']),
     (''aws_request_payer'', [''request_payer'']),
     (''aws_server_side_encryption'', [''server_side_encryption'']),
     (''aws_sse_kms_key_id'', [''sse_kms_key_id'']),
     (''aws_sse_bucket_key_enabled'', [''sse_bucket_key_enabled'']),
     (''allow_http'', [''aws_allow_http''])]"

definition azure_aliases :: "(string \<times> string list) list" where
  "azure_aliases =
    [(''azure_storage_account_key'',
        [''azure_storage_access_key'', ''azure_storage_master_key'', ''master_key'', ''account_key'', ''access_key'']),
     (''azure_storage_account_name'', [''account_name'']),
     (''azure_storage_client_id'', [''azure_client_id'', ''client_id'']),
     (''azure_storage_client_secret'', [''azure_client_secret'', ''client_secret'']),
     (''azure_storage_tenant_id'',
        [''azure_storage_authority_id'', ''azure_tenant_id'', ''azure_authority_id'', ''tenant_id'', ''authority_id'']),
     (''azure_storage_sas_key'', [''azure_storage_sas_token'', ''sas_key'', ''sas_token'']),
     (''azure_storage_token'', [''bearer_token'', ''token'']),
     (''azure_storage_use_emulator'', [''use_emulator'']),
     (''azure_storage_endpoint'', [''azure_endpoint'', ''endpoint'']),
     (''azure_msi_endpoint'', [''azure_identity_endpoint'', ''identity_endpoint'', ''msi_endpoint'']),
     (''azure_federated_token_file'', [''federated_token_file'']),
     (''azure_use_azure_cli'', [''use_azure_cli'']),
     (''azure_skip_signature'', [''skip_signature'']),
     (''azure_container_name'', [''container_name'']),
     (''azure_disable_tagging'', [''disable_tagging'']),
     (''azure_use_fabric_endpoint'', [''use_fabric_endpoint'']),
     (''allow_http'', [''azure_allow_http''])]"

definition gcs_aliases :: "(string \<times> string list) list" where
  "gcs_aliases =
    [(''google_service_account'', [''service_account'', ''google_service_account_path'', ''service_account_path'']),
     (''google_service_account_key'', [''service_account_key'']),
     (''google_application_credentials'', [''application_credentials'']),
     (''google_bucket'', [''google_bucket_name'', ''bucket'', ''bucket_name'']),
     (''google_base_url'', [''base_url'']),
     (''google_skip_signature'', [''skip_signature'']),
     (''google_bearer_token'', [''gcp_oauth_token'', ''bearer_token''])]"

definition client_keys :: "string list" where
  "client_keys =
    [''allow_http'', ''allow_invalid_certificates'', ''connect_timeout'', ''default_content_type'',
     ''http1_only'', ''http2_only'', ''http2_keep_alive_interval'', ''http2_keep_alive_timeout'',
     ''http2_keep_alive_while_idle'', ''http2_max_frame_size'', ''pool_idle_timeout'',
     ''pool_max_idle_per_host'', ''proxy_url'', ''proxy_ca_certificate'', ''proxy_excludes'',
     ''randomize_addresses'', ''timeout'', ''user_agent'']"

definition client_prefix :: "cloud \<Rightarrow> string" where
  "client_prefix c = (case c of S3 \<Rightarrow> ''aws_'' | Azure \<Rightarrow> ''azure_'' | Gcs \<Rightarrow> ''google_'')"

text \<open>\<open>_alias_table\<close>: each canonical name maps to itself, then each alias to its name; a name met
  again takes the later value, so the table is read from its end.\<close>

definition alias_table :: "(string \<times> string list) list \<Rightarrow> (string \<times> string) list" where
  "alias_table aliases =
     map (\<lambda>(c, ns). (c, c)) aliases @ concat (map (\<lambda>(c, ns). map (\<lambda>n. (n, c)) ns) aliases)"

definition alias_of :: "cloud \<Rightarrow> string \<Rightarrow> string option" where
  "alias_of c k =
     map_of (rev (alias_table (case c of S3 \<Rightarrow> s3_aliases | Azure \<Rightarrow> azure_aliases | Gcs \<Rightarrow> gcs_aliases))) k"

definition credential_keys :: "cloud option \<Rightarrow> string set" where
  "credential_keys c =
     (case c of
        None \<Rightarrow> {}
      | Some S3 \<Rightarrow> {''aws_access_key_id'', ''aws_secret_access_key'', ''aws_session_token'', ''aws_role_arn'',
          ''aws_role_session_name'', ''aws_web_identity_token_file'', ''aws_skip_signature''}
      | Some Azure \<Rightarrow> {''azure_storage_account_key'', ''azure_storage_client_id'', ''azure_storage_client_secret'',
          ''azure_storage_tenant_id'', ''azure_storage_sas_key'', ''azure_storage_token'',
          ''azure_federated_token_file'', ''azure_use_azure_cli'', ''azure_skip_signature''}
      | Some Gcs \<Rightarrow> {''google_service_account'', ''google_service_account_key'', ''google_application_credentials'',
          ''google_bearer_token'', ''google_skip_signature''})"

definition s3_endpoint_unit :: "string set" where
  "s3_endpoint_unit = {''aws_endpoint'', ''aws_region'', ''aws_virtual_hosted_style_request''}"

definition canonical_key :: "string \<Rightarrow> cloud option \<Rightarrow> string" where
  "canonical_key k cl =
     (let lowered = py_lower k in
      if lowered \<in> own_keys then lowered
      else case cl of
        None \<Rightarrow> k
      | Some c \<Rightarrow>
          (case alias_of c lowered of
             Some n \<Rightarrow> n
           | None \<Rightarrow>
               let p = client_prefix c;
                   bare = (if starts_with lowered p then drop (length p) lowered else lowered)
               in if bare \<in> set client_keys then bare else k))"

section \<open>Merging\<close>

type_synonym options = "(string \<times> string) list"

text \<open>A setting named twice with different values: its name and the two spellings.\<close>

datatype option_error = SetTwice string

fun canonical_from :: "cloud option \<Rightarrow> options \<Rightarrow> options \<Rightarrow> option_error + options" where
  "canonical_from cl out [] = Inr out"
| "canonical_from cl out ((k, v) # m) =
     (let n = canonical_key k cl in
      case map_of out n of
        Some w \<Rightarrow> if w \<noteq> v then Inl (SetTwice n) else canonical_from cl (dict_set n v out) m
      | None \<Rightarrow> canonical_from cl (dict_set n v out) m)"

definition canonical_options :: "options \<Rightarrow> string option \<Rightarrow> option_error + options" where
  "canonical_options opts loc = canonical_from (cloud_of loc) [] opts"

definition partition_of :: "string \<Rightarrow> string" where
  "partition_of region =
     (let r = py_lower (py_strip region) in
      if starts_with r ''cn-'' then ''aws-cn''
      else if starts_with r ''us-gov-'' then ''aws-us-gov''
      else ''aws'')"

definition set_in :: "options \<Rightarrow> string \<Rightarrow> bool" where
  "set_in m k \<longleftrightarrow> (case map_of m k of None \<Rightarrow> False | Some v \<Rightarrow> v \<noteq> [])"

definition vends_credential :: "cloud option \<Rightarrow> options \<Rightarrow> bool" where
  "vends_credential cl given \<longleftrightarrow> list_ex (\<lambda>(k, v). k \<in> credential_keys cl) given"

text \<open>Whether the caller's setting gives way to the vended ones.\<close>

definition gives_way :: "cloud option \<Rightarrow> options \<Rightarrow> string \<Rightarrow> string \<Rightarrow> bool" where
  "gives_way cl given k v \<longleftrightarrow>
     (vends_credential cl given \<and> k \<in> credential_keys cl)
     \<or> (cl = Some S3 \<and> set_in given ''aws_endpoint'' \<and> k \<in> s3_endpoint_unit)
     \<or> (k = ''aws_region'' \<and> vends_credential cl given \<and> set_in given ''aws_region''
        \<and> partition_of v \<noteq> partition_of (the (map_of given ''aws_region'')))"

definition merged_options :: "cloud option \<Rightarrow> options \<Rightarrow> options \<Rightarrow> options" where
  "merged_options cl given user =
     foldl (\<lambda>m (k, v). if gives_way cl given k v then m else dict_set k v m) given user"

definition merge_options :: "options \<Rightarrow> options \<Rightarrow> string option \<Rightarrow> option_error + options" where
  "merge_options base vended loc =
     bind_result (canonical_options base loc) (\<lambda>user.
     bind_result (canonical_options vended loc) (\<lambda>given.
       Inr (if given = [] then user else merged_options (cloud_of loc) given user)))"

section \<open>The environment and the endpoint\<close>

text \<open>\<open>f"https://s3.{region}.{suffix}"\<close>.\<close>

definition regional_endpoint :: "string \<Rightarrow> bool \<Rightarrow> string" where
  "regional_endpoint region china =
     ''https://s3.'' @ region @ [dot] @ (if china then ''amazonaws.com.cn'' else ''amazonaws.com'')"

definition pin_s3_endpoint :: "options \<Rightarrow> string option \<Rightarrow> bool \<Rightarrow> options" where
  "pin_s3_endpoint opts loc vended =
     (if cloud_of loc \<noteq> Some S3 then opts
      else if \<not> set_in opts ''aws_region'' \<or> map_of opts ''aws_access_key_id'' = None
              \<or> set_in opts ''aws_endpoint'' then opts
      else let region = the (map_of opts ''aws_region''); china = starts_with (py_lower region) ''cn-'' in
           if \<not> (vended \<or> china) then opts
           else dict_set ''aws_endpoint'' (regional_endpoint region china) opts)"

text \<open>\<open>sorted(os.environ)\<close>: the environment is given sorted by name.\<close>

definition known_s3_keys :: "string set" where
  "known_s3_keys = set (map fst s3_aliases) \<union> set client_keys"

definition env_step :: "options \<Rightarrow> options \<Rightarrow> string \<times> string \<Rightarrow> options" where
  "env_step given out nv =
     (case nv of (name, v) \<Rightarrow>
        if \<not> starts_with (py_upper name) ''AWS_'' \<or> v = [] then out
        else let k = canonical_key name (Some S3) in
             if k \<notin> known_s3_keys \<or> map_of given k \<noteq> None \<or> map_of out k \<noteq> None then out
             else if vends_credential (Some S3) given \<and> k \<in> credential_keys (Some S3) then out
             else dict_set k v out)"

definition environment_options :: "options \<Rightarrow> string option \<Rightarrow> options \<Rightarrow> options" where
  "environment_options environ loc given =
     (if cloud_of loc \<noteq> Some S3 then [] else foldl (env_step given) [] environ)"

definition dict_update :: "options \<Rightarrow> options \<Rightarrow> options" where
  "dict_update m e = foldl (\<lambda>m (k, v). dict_set k v m) m e"

definition dict_without :: "string set \<Rightarrow> options \<Rightarrow> options" where
  "dict_without ks m = filter (\<lambda>(k, v). k \<notin> ks) m"

definition engine_options :: "options \<Rightarrow> options \<Rightarrow> options \<Rightarrow> string option \<Rightarrow> option_error + options" where
  "engine_options environ base vended loc =
     bind_result (merge_options base vended loc) (\<lambda>m.
       let e = environment_options environ loc m;
           e' = (if list_ex (\<lambda>(k, v). py_lower k \<in> credential_keys (Some S3)) vended
                 then dict_without {''aws_endpoint'', ''aws_virtual_hosted_style_request''} e else e)
       in Inr (pin_s3_endpoint (dict_update m e') loc (vended \<noteq> [])))"

definition store_options :: "options \<Rightarrow> options" where
  "store_options opts = filter (\<lambda>(k, v). py_lower k \<notin> own_keys) opts"

section \<open>Every result is canonical\<close>

definition canonical :: "cloud option \<Rightarrow> string \<Rightarrow> bool" where
  "canonical cl k \<longleftrightarrow> canonical_key k cl = k"

definition aliases_of :: "cloud \<Rightarrow> (string \<times> string list) list" where
  "aliases_of c = (case c of S3 \<Rightarrow> s3_aliases | Azure \<Rightarrow> azure_aliases | Gcs \<Rightarrow> gcs_aliases)"

text \<open>Of the client's settings only \<open>allow_http\<close> is also a cloud's own name, on two of them.\<close>

definition own_client_keys :: "cloud \<Rightarrow> string list" where
  "own_client_keys c = (if c = Gcs then client_keys else filter (\<lambda>k. k \<noteq> ''allow_http'') client_keys)"

lemma s3_names_distinct: "distinct (map fst (alias_table s3_aliases) @ own_client_keys S3)"
  by (simp add: alias_table_def s3_aliases_def own_client_keys_def client_keys_def)

lemma azure_names_distinct: "distinct (map fst (alias_table azure_aliases) @ own_client_keys Azure)"
  by (simp add: alias_table_def azure_aliases_def own_client_keys_def client_keys_def)

lemma gcs_names_distinct: "distinct (map fst (alias_table gcs_aliases) @ own_client_keys Gcs)"
  by (simp add: alias_table_def gcs_aliases_def own_client_keys_def client_keys_def)

lemma alias_names_distinct: "distinct (map fst (alias_table (aliases_of c)) @ own_client_keys c)"
  using s3_names_distinct azure_names_distinct gcs_names_distinct by (cases c) (simp_all add: aliases_of_def)

lemma alias_of_table: "alias_of c k = Some n \<longleftrightarrow> (k, n) \<in> set (alias_table (aliases_of c))"
proof -
  have "alias_of c k = map_of (rev (alias_table (aliases_of c))) k"
    by (cases c) (simp_all add: alias_of_def aliases_of_def)
  then show ?thesis
    using alias_names_distinct [of c] by (simp add: map_of_eq_Some_iff distinct_rev rev_map [symmetric])
qed

definition lower_name :: "string \<Rightarrow> bool" where
  "lower_name n \<longleftrightarrow> py_lower n = n \<and> n \<notin> own_keys"

definition unprefixed :: "string \<Rightarrow> bool" where
  "unprefixed n \<longleftrightarrow> \<not> starts_with n ''aws_'' \<and> \<not> starts_with n ''azure_'' \<and> \<not> starts_with n ''google_''"

definition lower_text :: "string \<Rightarrow> bool" where
  "lower_text n \<longleftrightarrow> list_all (\<lambda>c. (90 < code c \<and> code c < 192) \<or> code c < 65) n"

lemma lower_text_id: "lower_text n \<Longrightarrow> py_lower n = n"
  unfolding lower_text_def py_lower_def list_all_iff by (intro map_idI) (auto simp: lower_char_def)

lemma texts_lower:
  "list_all lower_text (map fst s3_aliases)" "list_all lower_text (map fst azure_aliases)"
  "list_all lower_text (map fst gcs_aliases)" "list_all lower_text client_keys"
  by (simp_all add: lower_text_def s3_aliases_def azure_aliases_def gcs_aliases_def client_keys_def code_def)

lemma texts_not_own:
  "list_all (\<lambda>n. n \<notin> own_keys) (map fst s3_aliases)" "list_all (\<lambda>n. n \<notin> own_keys) (map fst azure_aliases)"
  "list_all (\<lambda>n. n \<notin> own_keys) (map fst gcs_aliases)" "list_all (\<lambda>n. n \<notin> own_keys) client_keys"
  by (simp_all add: own_keys_def opt_out_probe_def s3_aliases_def azure_aliases_def gcs_aliases_def client_keys_def)

lemma client_keys_unprefixed: "list_all unprefixed client_keys"
  by (simp add: unprefixed_def client_keys_def)

lemma lower_names:
  "list_all lower_name (map fst s3_aliases)" "list_all lower_name (map fst azure_aliases)"
  "list_all lower_name (map fst gcs_aliases)" "list_all lower_name client_keys"
  "list_all unprefixed client_keys"
  using texts_lower texts_not_own client_keys_unprefixed
  unfolding list_all_iff lower_name_def by (blast intro: lower_text_id)+

lemma own_name_entry: "n \<in> fst ` set als \<Longrightarrow> (n, n) \<in> set (alias_table als)"
  by (force simp: alias_table_def)

lemma alias_of_settled: "alias_of c k = Some n \<Longrightarrow> lower_name n \<and> alias_of c n = Some n"
proof -
  assume "alias_of c k = Some n"
  then have "n \<in> fst ` set (aliases_of c)" by (force simp: alias_of_table alias_table_def)
  moreover from this have "(n, n) \<in> set (alias_table (aliases_of c))" by (rule own_name_entry)
  ultimately show ?thesis
    using lower_names(1-3) by (cases c) (auto simp: alias_of_table aliases_of_def list_all_iff)
qed

lemma allow_http_name: "c \<noteq> Gcs \<Longrightarrow> ''allow_http'' \<in> fst ` set (aliases_of c)"
  by (cases c) (simp_all add: aliases_of_def s3_aliases_def azure_aliases_def)

lemma client_key_alias:
  assumes "k \<in> set client_keys"
  shows "alias_of c k = None \<or> alias_of c k = Some k"
proof (cases "k \<in> set (own_client_keys c)")
  case True
  then have "k \<notin> fst ` set (alias_table (aliases_of c))"
    using alias_names_distinct [of c] by auto
  moreover have "k \<in> fst ` set (alias_table (aliases_of c))" if "alias_of c k = Some n" for n
    using that unfolding alias_of_table by (rule image_eqI [rotated]) simp
  ultimately show ?thesis by (cases "alias_of c k") blast+
next
  case False
  then have k: "k = ''allow_http''" "c \<noteq> Gcs"
    using assms by (auto simp: own_client_keys_def split: if_splits)
  then have "(k, k) \<in> set (alias_table (aliases_of c))"
    using allow_http_name by (intro own_name_entry) simp
  then show ?thesis using alias_of_table by blast
qed

lemma client_key_canonical:
  assumes "k \<in> set client_keys"
  shows "canonical_key k (Some c) = k"
proof -
  have "lower_name k" "\<not> starts_with k (client_prefix c)"
    using assms lower_names(4,5) by (cases c; auto simp: list_all_iff unprefixed_def client_prefix_def)+
  then show ?thesis using assms client_key_alias [OF assms, of c] by (auto simp: canonical_key_def lower_name_def)
qed

lemma canonical_key_idem: "canonical cl (canonical_key k cl)"
proof (cases "py_lower k \<in> own_keys")
  case True
  moreover have "py_lower opt_out_probe = opt_out_probe" by code_simp
  ultimately show ?thesis by (simp add: canonical_def canonical_key_def own_keys_def)
next
  case low: False
  show ?thesis
  proof (cases cl)
    case None
    then show ?thesis using low by (simp add: canonical_def canonical_key_def)
  next
    case (Some c)
    show ?thesis
    proof (cases "alias_of c (py_lower k)")
      case (Some n)
      then have "canonical_key k cl = n" using low \<open>cl = Some c\<close> by (simp add: canonical_key_def)
      then show ?thesis using alias_of_settled [OF Some] \<open>cl = Some c\<close>
        by (simp add: canonical_def canonical_key_def lower_name_def)
    next
      case None
      then have "canonical_key k cl \<in> set client_keys \<or> canonical_key k cl = k"
        using low \<open>cl = Some c\<close> by (simp add: canonical_key_def Let_def)
      then show ?thesis
        using client_key_canonical \<open>cl = Some c\<close> by (auto simp: canonical_def)
    qed
  qed
qed

definition all_canonical :: "cloud option \<Rightarrow> options \<Rightarrow> bool" where
  "all_canonical cl m \<longleftrightarrow> distinct (map fst m) \<and> (\<forall>k \<in> fst ` set m. canonical cl k)"

lemma dict_set_canonical: "all_canonical cl m \<Longrightarrow> canonical cl k \<Longrightarrow> all_canonical cl (dict_set k v m)"
  by (auto simp: all_canonical_def dict_set_distinct dict_set_keys)

lemma foldl_invariant:
  assumes "P m" "\<And>m x. P m \<Longrightarrow> x \<in> set xs \<Longrightarrow> P (f m x)"
  shows "P (foldl f m xs)"
  using assms by (induction xs arbitrary: m) auto

lemma canonical_from_canonical:
  "canonical_from cl out m = Inr r \<Longrightarrow> all_canonical cl out \<Longrightarrow> all_canonical cl r"
  by (induction cl out m rule: canonical_from.induct)
    (auto simp: Let_def dict_set_canonical canonical_key_idem split: option.splits if_splits)

lemma canonical_options_canonical: "canonical_options opts loc = Inr r \<Longrightarrow> all_canonical (cloud_of loc) r"
  unfolding canonical_options_def by (rule canonical_from_canonical) (auto simp: all_canonical_def)

lemma merged_canonical:
  assumes "all_canonical cl given" "all_canonical cl user"
  shows "all_canonical cl (merged_options cl given user)"
  unfolding merged_options_def
proof (rule foldl_invariant)
  fix m x assume m: "all_canonical cl m" and x: "x \<in> set user"
  obtain k v where kv: "x = (k, v)" by force
  then have "canonical cl k" using x assms(2) by (force simp: all_canonical_def)
  then show "all_canonical cl (case x of (k, v) \<Rightarrow> if gives_way cl given k v then m else dict_set k v m)"
    using m kv dict_set_canonical by simp
qed (rule assms(1))

lemma merge_canonical: "merge_options base vended loc = Inr m \<Longrightarrow> all_canonical (cloud_of loc) m"
  unfolding merge_options_def
  by (auto simp: bind_result_Inr_iff merged_canonical split: if_splits dest!: canonical_options_canonical)

lemma environment_canonical: "all_canonical (Some S3) (environment_options environ loc m)"
  unfolding environment_options_def
  by (auto intro!: foldl_invariant [where P = "all_canonical (Some S3)"] simp: env_step_def Let_def
      dict_set_canonical canonical_key_idem split: prod.splits if_splits)
    (auto simp: all_canonical_def)

section \<open>Where a value comes from\<close>

lemma dict_set_lookup: "map_of (dict_set k v m) j = (if j = k then Some v else map_of m j)"
  by (simp add: map_of_dict_set)

lemma canonical_from_step:
  "canonical_from cl out ((k, w) # m) = Inr r \<longleftrightarrow>
     map_of out (canonical_key k cl) \<in> {None, Some w} \<and> canonical_from cl (dict_set (canonical_key k cl) w out) m = Inr r"
  by (auto simp: Let_def split: option.splits)

lemma canonical_from_values:
  "canonical_from cl out m = Inr r \<Longrightarrow> map_of r n = Some v \<Longrightarrow>
     map_of out n = Some v \<or> (\<exists>k. (k, v) \<in> set m \<and> canonical_key k cl = n)"
proof (induction m arbitrary: out)
  case (Cons kw m)
  obtain k w where kw: "kw = (k, w)" by force
  have "map_of (dict_set (canonical_key k cl) w out) n = Some v \<or> (\<exists>k. (k, v) \<in> set m \<and> canonical_key k cl = n)"
    by (rule Cons.IH) (use Cons.prems kw in \<open>simp_all only: canonical_from_step\<close>)
  then show ?case using kw by (auto simp: dict_set_lookup split: if_splits)
qed simp

lemma canonical_from_keeps: "canonical_from cl out m = Inr r \<Longrightarrow> map_of out n = Some v \<Longrightarrow> map_of r n = Some v"
proof (induction m arbitrary: out)
  case (Cons kw m)
  obtain k w where kw: "kw = (k, w)" by force
  have s: "map_of out (canonical_key k cl) \<in> {None, Some w}" "canonical_from cl (dict_set (canonical_key k cl) w out) m = Inr r"
    using Cons.prems(1) kw by (simp_all only: canonical_from_step)
  then have "map_of (dict_set (canonical_key k cl) w out) n = Some v"
    using Cons.prems(2) by (auto simp: dict_set_lookup)
  then show ?case using Cons.IH s(2) by blast
qed simp

lemma canonical_from_has:
  "canonical_from cl out m = Inr r \<Longrightarrow> (k, v) \<in> set m \<Longrightarrow> map_of r (canonical_key k cl) = Some v"
proof (induction m arbitrary: out)
  case (Cons kw m)
  obtain j w where kw: "kw = (j, w)" by force
  have s: "canonical_from cl (dict_set (canonical_key j cl) w out) m = Inr r"
    using Cons.prems(1) kw by (simp only: canonical_from_step)
  show ?case
  proof (cases "(k, v) \<in> set m")
    case True
    then show ?thesis using Cons.IH s by blast
  next
    case False
    then have "k = j" "v = w" using Cons.prems(2) kw by auto
    then show ?thesis using canonical_from_keeps [OF s] by (simp add: dict_set_lookup)
  qed
qed simp

lemma merged_lookup:
  "distinct (map fst user) \<Longrightarrow> map_of (merged_options cl given user) k =
     (case map_of user k of
        None \<Rightarrow> map_of given k
      | Some v \<Rightarrow> if gives_way cl given k v then map_of given k else Some v)"
proof -
  have "distinct (map fst user) \<Longrightarrow>
      map_of (foldl (\<lambda>m (k, v). if gives_way cl given k v then m else dict_set k v m) m user) k =
        (case map_of user k of
           None \<Rightarrow> map_of m k
         | Some v \<Rightarrow> if gives_way cl given k v then map_of m k else Some v)" for m
  proof (induction user arbitrary: m)
    case (Cons kv user)
    obtain j w where kv: "kv = (j, w)" by force
    have "map_of user j = None" using Cons.prems kv by (auto simp: map_of_eq_None_iff)
    then show ?case
      using Cons kv by (cases "k = j") (auto simp: dict_set_lookup split: option.splits)
  qed simp
  then show "distinct (map fst user) \<Longrightarrow> map_of (merged_options cl given user) k =
      (case map_of user k of
         None \<Rightarrow> map_of given k
       | Some v \<Rightarrow> if gives_way cl given k v then map_of given k else Some v)"
    by (simp add: merged_options_def)
qed

lemma merge_lookup:
  assumes "merge_options base vended loc = Inr m" "canonical_options base loc = Inr user"
    and "canonical_options vended loc = Inr given"
  shows "map_of m k =
    (case map_of user k of
       None \<Rightarrow> map_of given k
     | Some v \<Rightarrow> if given \<noteq> [] \<and> gives_way (cloud_of loc) given k v then map_of given k else Some v)"
proof -
  have "distinct (map fst user)" using canonical_options_canonical [OF assms(2)] by (simp add: all_canonical_def)
  then show ?thesis
    using assms by (auto simp: merge_options_def merged_lookup split: option.splits if_splits)
qed

lemma vends_credential_iff: "vends_credential cl m \<longleftrightarrow> (\<exists>k v. map_of m k = Some v \<and> k \<in> credential_keys cl)"
proof
  assume "vends_credential cl m"
  then obtain k v where "(k, v) \<in> set m" "k \<in> credential_keys cl" by (auto simp: vends_credential_def list_ex_iff)
  then show "\<exists>k v. map_of m k = Some v \<and> k \<in> credential_keys cl"
    by (metis weak_map_of_SomeI)
next
  assume "\<exists>k v. map_of m k = Some v \<and> k \<in> credential_keys cl"
  then show "vends_credential cl m" by (force simp: vends_credential_def list_ex_iff dest: map_of_SomeD)
qed

lemma environment_adds:
  assumes "map_of (environment_options environ loc m) k = Some v"
  shows "map_of m k = None" "vends_credential (Some S3) m \<Longrightarrow> k \<notin> credential_keys (Some S3)" "cloud_of loc = Some S3"
proof -
  let ?P = "\<lambda>out :: options. \<forall>k v. map_of out k = Some v \<longrightarrow>
      map_of m k = None \<and> (vends_credential (Some S3) m \<longrightarrow> k \<notin> credential_keys (Some S3))"
  have "?P (foldl (env_step m) [] environ)"
  proof (rule foldl_invariant)
    fix out x assume "?P out"
    then show "?P (env_step m out x)"
      by (cases x) (auto simp: env_step_def Let_def dict_set_lookup split: if_splits)
  qed simp
  then show "map_of m k = None" "vends_credential (Some S3) m \<Longrightarrow> k \<notin> credential_keys (Some S3)" "cloud_of loc = Some S3"
    using assms by (auto simp: environment_options_def split: if_splits)
qed

lemma dict_update_lookup: "map_of (dict_update m e) k = (case map_of (rev e) k of None \<Rightarrow> map_of m k | Some v \<Rightarrow> Some v)"
proof (induction e rule: rev_induct)
  case (snoc kv e)
  then show ?case by (cases kv) (simp add: dict_update_def dict_set_lookup)
qed (simp add: dict_update_def)

lemma map_of_rev_in: "map_of (rev e) k = Some v \<Longrightarrow> (k, v) \<in> set e"
  by (auto dest: map_of_SomeD)

lemma pin_lookup:
  "map_of (pin_s3_endpoint m loc vended) k = Some v \<Longrightarrow>
     map_of m k = Some v \<or> (k = ''aws_endpoint'' \<and> cloud_of loc = Some S3
        \<and> v = regional_endpoint (the (map_of m ''aws_region'')) (starts_with (py_lower (the (map_of m ''aws_region''))) ''cn-''))"
  by (auto simp: pin_s3_endpoint_def Let_def dict_set_lookup split: if_splits)

text \<open>A setting an engine gets: a merged one, one of the environment's, or the pinned endpoint.\<close>

lemma engine_option_source:
  assumes "engine_options environ base vended loc = Inr m" "map_of m k = Some v"
  obtains (merged) r where "merge_options base vended loc = Inr r" "map_of r k = Some v"
  | (environment) r where "merge_options base vended loc = Inr r"
      "(k, v) \<in> set (environment_options environ loc r)"
      "list_ex (\<lambda>(k, v). py_lower k \<in> credential_keys (Some S3)) vended \<Longrightarrow>
         k \<notin> {''aws_endpoint'', ''aws_virtual_hosted_style_request''}"
  | (pinned) region china where "k = ''aws_endpoint''" "v = regional_endpoint region china" "cloud_of loc = Some S3"
proof -
  obtain r e' where r: "merge_options base vended loc = Inr r"
    and e': "e' = (if list_ex (\<lambda>(k, v). py_lower k \<in> credential_keys (Some S3)) vended
              then dict_without {''aws_endpoint'', ''aws_virtual_hosted_style_request''} (environment_options environ loc r)
              else environment_options environ loc r)"
    and m: "m = pin_s3_endpoint (dict_update r e') loc (vended \<noteq> [])"
    using assms(1) by (auto simp: engine_options_def bind_result_Inr_iff Let_def)
  from pin_lookup [OF assms(2) [unfolded m]] show thesis
  proof (elim disjE conjE)
    assume d: "map_of (dict_update r e') k = Some v"
    show thesis
    proof (cases "map_of (rev e') k")
      case None
      then show thesis using d r merged by (simp add: dict_update_lookup)
    next
      case (Some w)
      then have "(k, v) \<in> set e'" using d map_of_rev_in by (simp add: dict_update_lookup)
      then show thesis using environment [OF r] e' by (auto simp: dict_without_def split: if_splits)
    qed
  qed (rule pinned)
qed

lemma environment_entry:
  "(k, v) \<in> set (environment_options environ loc m) \<Longrightarrow> map_of (environment_options environ loc m) k = Some v"
  using environment_canonical [of environ loc m] by (simp add: all_canonical_def)

section \<open>Properties\<close>

text \<open>C30: once the catalog vends a credential, every credential setting an engine is given is one the
  catalog vended: no key, secret or token of the caller or the environment is paired with it.\<close>

theorem vended_credentials_alone:
  assumes "engine_options environ base vended loc = Inr m"
    and "(k0, v0) \<in> set vended" "canonical_key k0 (cloud_of loc) \<in> credential_keys (cloud_of loc)"
    and "k \<in> credential_keys (cloud_of loc)" "map_of m k = Some v"
  shows "\<exists>k'. (k', v) \<in> set vended \<and> canonical_key k' (cloud_of loc) = k"
proof -
  let ?cl = "cloud_of loc"
  have main: "\<exists>k'. (k', v) \<in> set vended \<and> canonical_key k' ?cl = k"
    if r: "merge_options base vended loc = Inr r" and look: "map_of r k = Some v" for r
  proof -
    obtain user given where c: "canonical_options base loc = Inr user" "canonical_options vended loc = Inr given"
      using r by (auto simp: merge_options_def bind_result_Inr_iff)
    have g0: "map_of given (canonical_key k0 ?cl) = Some v0"
      using canonical_from_has [OF c(2) [unfolded canonical_options_def] assms(2)] .
    then have "vends_credential ?cl given" using assms(3) vends_credential_iff by blast
    then have "map_of given k = Some v"
      using merge_lookup [OF r c, of k] look assms(4) g0
      by (auto simp: gives_way_def split: option.splits)
    then show ?thesis using canonical_from_values [OF c(2) [unfolded canonical_options_def]] by auto
  qed
  from assms(1,5) show ?thesis
  proof (cases rule: engine_option_source)
    case (merged r)
    then show ?thesis by (rule main)
  next
    case (environment r)
    obtain user given where c: "canonical_options base loc = Inr user" "canonical_options vended loc = Inr given"
      using environment(1) by (auto simp: merge_options_def bind_result_Inr_iff)
    have g0: "map_of given (canonical_key k0 ?cl) = Some v0"
      using canonical_from_has [OF c(2) [unfolded canonical_options_def] assms(2)] .
    then have "vends_credential ?cl given" using assms(3) vends_credential_iff by blast
    then have "\<exists>w. map_of r (canonical_key k0 ?cl) = Some w"
      using merge_lookup [OF environment(1) c, of "canonical_key k0 ?cl"] g0 by (auto split: option.splits)
    then have "vends_credential ?cl r" using assms(3) vends_credential_iff by blast
    then show ?thesis
      using environment_adds [OF environment_entry [OF environment(2)]] assms(4) by auto
  next
    case (pinned region china)
    then show ?thesis using assms(4) by (simp add: credential_keys_def)
  qed
qed

text \<open>An engine is never given one setting under two of its spellings.\<close>

theorem settings_spelled_once:
  assumes "engine_options environ base vended loc = Inr m"
  shows "distinct (map fst m)
    \<and> (\<forall>k\<in>fst ` set m. \<forall>j\<in>fst ` set m. canonical_key k (cloud_of loc) = canonical_key j (cloud_of loc) \<longrightarrow> k = j)"
proof -
  let ?cl = "cloud_of loc"
  have update: "all_canonical cl m \<Longrightarrow> \<forall>k \<in> fst ` set e. canonical cl k \<Longrightarrow> all_canonical cl (dict_update m e)" for cl m e
    unfolding dict_update_def
    by (rule foldl_invariant) (auto intro!: dict_set_canonical split: prod.splits)
  obtain r e' where r: "merge_options base vended loc = Inr r"
    and e': "set e' \<subseteq> set (environment_options environ loc r)"
    and m: "m = pin_s3_endpoint (dict_update r e') loc (vended \<noteq> [])"
    using assms
  proof -
    obtain r where r: "merge_options base vended loc = Inr r"
      using assms by (auto simp: engine_options_def bind_result_Inr_iff)
    let ?e = "environment_options environ loc r"
    let ?e' = "if list_ex (\<lambda>(k, v). py_lower k \<in> credential_keys (Some S3)) vended
      then dict_without {''aws_endpoint'', ''aws_virtual_hosted_style_request''} ?e else ?e"
    have "m = pin_s3_endpoint (dict_update r ?e') loc (vended \<noteq> [])"
      using assms r by (simp add: engine_options_def Let_def)
    moreover have "set ?e' \<subseteq> set ?e" by (simp add: dict_without_def)
    ultimately show thesis using that r by blast
  qed
  have "\<forall>k \<in> fst ` set e'. canonical ?cl k"
  proof (cases "?cl = Some S3")
    case True
    then show ?thesis using e' environment_canonical [of environ loc r] by (auto simp: all_canonical_def)
  next
    case False
    then show ?thesis using e' by (simp add: environment_options_def)
  qed
  then have "all_canonical ?cl (dict_update r e')" using merge_canonical [OF r] update by blast
  moreover have "?cl = Some S3 \<Longrightarrow> canonical ?cl ''aws_endpoint''"
  proof -
    have "''aws_endpoint'' \<in> fst ` set (aliases_of S3)" by (simp add: aliases_of_def s3_aliases_def)
    then have "alias_of S3 ''aws_endpoint'' = Some ''aws_endpoint''" "lower_name ''aws_endpoint''"
      using own_name_entry alias_of_table alias_of_settled by blast+
    then show "?cl = Some S3 \<Longrightarrow> canonical ?cl ''aws_endpoint''"
      by (simp add: canonical_def canonical_key_def lower_name_def)
  qed
  ultimately have "all_canonical ?cl m"
    unfolding m pin_s3_endpoint_def by (auto simp: Let_def dict_set_canonical)
  then show ?thesis by (auto simp: all_canonical_def canonical_def)
qed

text \<open>Keys the catalog vended under their canonical names are sent to an endpoint the catalog or
  the caller named, or to AWS's own for the region; never to one the process environment names.\<close>

theorem vended_keys_to_named_endpoint:
  assumes "engine_options environ base vended loc = Inr m" "cloud_of loc = Some S3"
    and "(k0, v0) \<in> set vended" "py_lower k0 \<in> credential_keys (Some S3)"
    and "map_of m ''aws_endpoint'' = Some v"
  shows "(\<exists>k. (k, v) \<in> set (vended @ base) \<and> canonical_key k (Some S3) = ''aws_endpoint'')
    \<or> (\<exists>region china. v = regional_endpoint region china)"
  using assms(1,5)
proof (cases rule: engine_option_source)
  case (merged r)
  obtain user given where c: "canonical_options base loc = Inr user" "canonical_options vended loc = Inr given"
    using merged(1) by (auto simp: merge_options_def bind_result_Inr_iff)
  then have "map_of user ''aws_endpoint'' = Some v \<or> map_of given ''aws_endpoint'' = Some v"
    using merge_lookup [OF merged(1) c] merged(2) by (auto split: option.splits if_splits)
  then show ?thesis
    using c canonical_from_values assms(2) unfolding canonical_options_def by fastforce
next
  case (environment r)
  then show ?thesis using assms(3,4) by (auto simp: list_ex_iff)
next
  case (pinned region china)
  then show ?thesis by blast
qed

text \<open>The precedence of a merge: the caller's setting stands unless it is a credential and the
  catalog vends one, belongs to an S3 endpoint the catalog vends, or is a region in another
  partition than the vended keys'; otherwise the catalog's stands.\<close>

theorem merge_precedence:
  assumes "merge_options base vended loc = Inr m"
    and "canonical_options base loc = Inr user" "canonical_options vended loc = Inr given"
  shows "map_of m k =
    (case map_of user k of
       None \<Rightarrow> map_of given k
     | Some v \<Rightarrow> if given \<noteq> [] \<and> gives_way (cloud_of loc) given k v then map_of given k else Some v)"
  by (rule merge_lookup [OF assms])

section \<open>Witnesses\<close>

definition sample_loc :: "string option" where
  "sample_loc = Some ''s3://b/t''"

definition sample_vended :: options where
  "sample_vended = [(''aws_access_key_id'', ''AK''), (''aws_secret_access_key'', ''SK'')]"

definition sample_base :: options where
  "sample_base = [(''token'', ''mine''), (''region'', ''eu-west-1'')]"

definition sample_environ :: options where
  "sample_environ = [(''AWS_ENDPOINT_URL'', ''http://other'')]"

definition sample_result :: options where
  "sample_result = [(''aws_access_key_id'', ''AK''), (''aws_secret_access_key'', ''SK''), (''aws_region'', ''eu-west-1''),
     (''aws_endpoint'', ''https://s3.eu-west-1.amazonaws.com'')]"

lemma sample_engine_options: "engine_options sample_environ sample_base sample_vended sample_loc = Inr sample_result"
  by code_simp

lemma sample_cloud: "cloud_of sample_loc = Some S3"
  by code_simp

lemma sample_key_names:
  "canonical_key ''aws_access_key_id'' (Some S3) = ''aws_access_key_id''"
  "py_lower ''aws_access_key_id'' = ''aws_access_key_id''"
  by code_simp+

theorem vended_credentials_alone_witness:
  "map_of sample_result ''aws_secret_access_key'' = Some ''SK''
   \<and> (\<exists>k'. (k', ''SK'') \<in> set sample_vended \<and> canonical_key k' (Some S3) = ''aws_secret_access_key'')"
  using vended_credentials_alone [OF sample_engine_options, of "''aws_access_key_id''" "''AK''"
      "''aws_secret_access_key''" "''SK''"]
  by (simp add: sample_cloud sample_key_names sample_vended_def sample_result_def credential_keys_def)

theorem settings_spelled_once_witness: "distinct (map fst sample_result)"
  using settings_spelled_once [OF sample_engine_options] by blast

theorem vended_keys_to_named_endpoint_witness:
  "map_of sample_result ''aws_endpoint'' = Some ''https://s3.eu-west-1.amazonaws.com''
   \<and> ((\<exists>k. (k, ''https://s3.eu-west-1.amazonaws.com'') \<in> set (sample_vended @ sample_base)
          \<and> canonical_key k (Some S3) = ''aws_endpoint'')
      \<or> (\<exists>region china. ''https://s3.eu-west-1.amazonaws.com'' = regional_endpoint region china))"
proof -
  have m: "map_of sample_result ''aws_endpoint'' = Some ''https://s3.eu-west-1.amazonaws.com''"
    by (simp add: sample_result_def)
  have k: "(''aws_access_key_id'', ''AK'') \<in> set sample_vended" by (simp add: sample_vended_def)
  show ?thesis
    using vended_keys_to_named_endpoint [OF sample_engine_options sample_cloud k _ m] m
    by (simp add: sample_key_names credential_keys_def)
qed

theorem merge_precedence_witness:
  "map_of [(''aws_access_key_id'', ''AK''), (''aws_secret_access_key'', ''SK''), (''aws_region'', ''eu-west-1'')]
     ''aws_region'' = Some ''eu-west-1''"
proof -
  have c: "merge_options sample_base sample_vended sample_loc =
      Inr [(''aws_access_key_id'', ''AK''), (''aws_secret_access_key'', ''SK''), (''aws_region'', ''eu-west-1'')]"
    "canonical_options sample_base sample_loc = Inr [(''aws_session_token'', ''mine''), (''aws_region'', ''eu-west-1'')]"
    "canonical_options sample_vended sample_loc = Inr sample_vended"
    by code_simp+
  have "\<not> gives_way (cloud_of sample_loc) sample_vended ''aws_region'' ''eu-west-1''" by code_simp
  then show ?thesis using merge_precedence [OF c, of "''aws_region''"] by simp
qed

end
