(* ===== verification/Credentials.thy ===== *)
theory Credentials
  imports Py_Data
begin

text \<open>
  \<open>credentials/base.py\<close> and \<open>credentials/broker.py\<close>: a vended credential, its rendering and its
  shipped form, the provider of one held credential, and the broker.  A time is a number of
  seconds (\<open>rat\<close>); the clock is an argument.  A provider is what the broker asks of one.
\<close>

section \<open>Credentials\<close>

datatype cred_cloud = AWS | AZURE | GCP | R2 | LOCAL

datatype cred_operation = READ | READ_WRITE

definition cloud_value :: "cred_cloud \<Rightarrow> string" where
  "cloud_value c =
     (case c of AWS \<Rightarrow> ''aws'' | AZURE \<Rightarrow> ''azure'' | GCP \<Rightarrow> ''gcp'' | R2 \<Rightarrow> ''r2'' | LOCAL \<Rightarrow> ''local'')"

definition operation_value :: "cred_operation \<Rightarrow> string" where
  "operation_value p = (case p of READ \<Rightarrow> ''READ'' | READ_WRITE \<Rightarrow> ''READ_WRITE'')"

text \<open>\<open>Cloud(s)\<close> and \<open>Operation(s)\<close>: \<open>None\<close> is a \<open>ValueError\<close>.\<close>

definition cloud_of_value :: "string \<Rightarrow> cred_cloud option" where
  "cloud_of_value s = find (\<lambda>c. cloud_value c = s) [AWS, AZURE, GCP, R2, LOCAL]"

definition operation_of_value :: "string \<Rightarrow> cred_operation option" where
  "operation_of_value s = find (\<lambda>p. operation_value p = s) [READ, READ_WRITE]"

record credentials =
  cr_cloud :: cred_cloud
  cr_url :: string
  cr_expires :: "rat option"
  cr_secrets :: "(string \<times> string) list"
  cr_scope :: "string option"
  cr_table :: "string option"
  cr_operation :: "cred_operation option"

definition default_margin :: rat where
  "default_margin = 300"

definition expires_within :: "rat \<Rightarrow> rat \<Rightarrow> credentials \<Rightarrow> bool" where
  "expires_within now seconds c = (case cr_expires c of None \<Rightarrow> False | Some e \<Rightarrow> e \<le> now + seconds)"

definition is_expired :: "rat \<Rightarrow> credentials \<Rightarrow> bool" where
  "is_expired now c = expires_within now 0 c"

text \<open>\<open>a or b\<close> on an optional text.\<close>

definition text_or :: "string option \<Rightarrow> string \<Rightarrow> string" where
  "text_or a b = (case a of None \<Rightarrow> b | Some s \<Rightarrow> if s = [] then b else s)"

definition registry_key :: "credentials \<Rightarrow> string \<times> string" where
  "registry_key c = (text_or (cr_table c) [], text_or (cr_scope c) (cr_url c))"

definition has_azure_endpoint :: "(string \<times> string) list \<Rightarrow> bool" where
  "has_azure_endpoint opts =
     list_ex (\<lambda>(k, v).
        (py_lower k \<in> {''azure_endpoint'', ''azure_storage_endpoint'', ''endpoint''} \<and> py_strip v \<noteq> [])
        \<or> (py_lower k \<in> {''azure_storage_use_emulator'', ''use_emulator''}
           \<and> py_lower (py_strip v) \<in> {''1'', ''true'', ''yes'', ''on''})) opts"

datatype cred_error =
    NoAzureEndpoint | ReadOnlyCredential | ExpiredCredential
  | NotBrokerable | ServesNoTable string | BadOperation string | BadCloud string | VendFailed string

definition as_storage_options :: "credentials \<Rightarrow> cred_error + (string \<times> string) list" where
  "as_storage_options c =
     (if cr_cloud c = AZURE \<and> \<not> has_azure_endpoint (cr_secrets c) then Inl NoAzureEndpoint
      else Inr (cr_secrets c))"

definition redacted :: "credentials \<Rightarrow> (string \<times> string) list" where
  "redacted c = map (\<lambda>(k, v). (k, ''***'')) (cr_secrets c)"

text \<open>The fields as plain data, for a carrier that ships a credential on purpose.\<close>

record state_dict =
  st_cloud :: string
  st_url :: string
  st_expires :: "rat option"
  st_secrets :: "(string \<times> string) list"
  st_scope :: "string option"
  st_table :: "string option"
  st_operation :: "string option"

definition credential_state :: "credentials \<Rightarrow> state_dict" where
  "credential_state c =
     \<lparr>st_cloud = cloud_value (cr_cloud c), st_url = cr_url c, st_expires = cr_expires c,
      st_secrets = cr_secrets c, st_scope = cr_scope c, st_table = cr_table c,
      st_operation = map_option operation_value (cr_operation c)\<rparr>"

definition from_state :: "state_dict \<Rightarrow> cred_error + credentials" where
  "from_state s =
     (case cloud_of_value (st_cloud s) of
        None \<Rightarrow> Inl (BadCloud (st_cloud s))
      | Some c \<Rightarrow>
          bind_result
            (case st_operation s of
               None \<Rightarrow> Inr None
             | Some t \<Rightarrow> (case operation_of_value t of None \<Rightarrow> Inl (BadOperation t) | Some p \<Rightarrow> Inr (Some p)))
            (\<lambda>p. Inr \<lparr>cr_cloud = c, cr_url = st_url s, cr_expires = st_expires s, cr_secrets = st_secrets s,
                       cr_scope = st_scope s, cr_table = st_table s, cr_operation = p\<rparr>))"

section \<open>The provider of one held credential\<close>

text \<open>The operation is asked for by its text, an enum member being its value.\<close>

definition static_credentials :: "rat \<Rightarrow> string \<Rightarrow> credentials \<Rightarrow> cred_error + credentials" where
  "static_credentials now wanted c =
     (if cr_operation c = Some READ \<and> py_upper wanted = operation_value READ_WRITE then Inl ReadOnlyCredential
      else if is_expired now c then Inl ExpiredCredential
      else Inr c)"

section \<open>The broker\<close>

text \<open>A provider: its table id and what it vends for an operation; \<open>'p\<close> names it.\<close>

record 'p provider =
  pv_name :: 'p
  pv_table :: "string option"
  pv_vend :: "cred_operation \<Rightarrow> cred_error + credentials"

type_synonym 'p broker = "(string \<times> 'p provider) list"

definition broker_add :: "'p provider option \<Rightarrow> 'p broker \<Rightarrow> cred_error + (string \<times> 'p broker)" where
  "broker_add p b =
     (case p of
        None \<Rightarrow> Inl NotBrokerable
      | Some pv \<Rightarrow>
          (case pv_table pv of
             None \<Rightarrow> Inl NotBrokerable
           | Some k \<Rightarrow> if k = [] then Inl NotBrokerable else Inr (k, dict_set k pv b)))"

definition broker_vend :: "'p broker \<Rightarrow> string \<Rightarrow> string \<Rightarrow> cred_error + state_dict" where
  "broker_vend b table_id wanted =
     (case map_of b table_id of
        None \<Rightarrow> Inl (ServesNoTable table_id)
      | Some pv \<Rightarrow>
          (case operation_of_value (py_upper wanted) of
             None \<Rightarrow> Inl (BadOperation wanted)
           | Some p \<Rightarrow> bind_result (pv_vend pv p) (\<lambda>c. Inr (credential_state c))))"

text \<open>A broker as its clients build it, from nothing by additions.\<close>

inductive broker_built :: "'p broker \<Rightarrow> bool" where
  bb_new: "broker_built []"
| bb_add: "broker_built b \<Longrightarrow> broker_add p b = Inr (k, b') \<Longrightarrow> broker_built b'"

section \<open>Lemmas\<close>

lemma cloud_value_back [simp]: "cloud_of_value (cloud_value c) = Some c"
  by (cases c) (simp_all add: cloud_of_value_def cloud_value_def)

lemma operation_value_back [simp]: "operation_of_value (operation_value p) = Some p"
  by (cases p) (simp_all add: operation_of_value_def operation_value_def)

lemma shipped_back: "from_state (credential_state c) = Inr c"
  by (cases "cr_operation c") (simp_all add: from_state_def credential_state_def)

lemma broker_add_Inr:
  "broker_add p b = Inr (k, b') \<longleftrightarrow>
     (\<exists>pv. p = Some pv \<and> pv_table pv = Some k \<and> k \<noteq> [] \<and> b' = dict_set k pv b)"
  by (auto simp: broker_add_def split: option.splits if_splits)

lemma broker_built_own: "broker_built b \<Longrightarrow> map_of b k = Some pv \<Longrightarrow> pv_table pv = Some k"
  by (induction arbitrary: k pv rule: broker_built.induct)
    (auto simp: broker_add_Inr map_of_dict_set split: if_splits)

section \<open>Properties\<close>

text \<open>The provider of a held credential never hands out a dead one, nor a read-only one for a
  write; and it refuses only for those two reasons.\<close>

lemma static_credentials_exact:
  "static_credentials now wanted c = Inr c' \<longleftrightarrow>
     c' = c \<and> (\<forall>e. cr_expires c = Some e \<longrightarrow> now < e)
     \<and> (py_upper wanted = ''READ_WRITE'' \<longrightarrow> cr_operation c \<noteq> Some READ)"
  by (auto simp: static_credentials_def is_expired_def expires_within_def operation_value_def
      split: option.splits)

text \<open>C37: what a broker vends for a table is what a provider of that very table vends for the
  operation asked, and the shipped form reads back as that credential.\<close>

theorem broker_vends_own_table:
  assumes "broker_built b" "broker_vend b table_id wanted = Inr s"
  shows "\<exists>pv p c. (table_id, pv) \<in> set b \<and> pv_table pv = Some table_id
    \<and> operation_of_value (py_upper wanted) = Some p \<and> pv_vend pv p = Inr c \<and> from_state s = Inr c"
proof -
  obtain pv p c where v: "map_of b table_id = Some pv" "operation_of_value (py_upper wanted) = Some p"
      "pv_vend pv p = Inr c" "s = credential_state c"
    using assms(2) by (auto simp: broker_vend_def bind_result_Inr_iff split: option.splits)
  moreover have "pv_table pv = Some table_id" by (rule broker_built_own [OF assms(1) v(1)])
  ultimately show ?thesis using shipped_back map_of_SomeD by metis
qed

theorem broker_vends_own_table_witness:
  "\<exists>(b :: nat broker) s. broker_vend b ''t'' ''read'' = Inr s
     \<and> (\<exists>c. from_state s = Inr c \<and> cr_table c = Some ''t'')"
proof -
  define c where "c = \<lparr>cr_cloud = AWS, cr_url = [], cr_expires = None, cr_secrets = [], cr_scope = None,
    cr_table = Some ''t'', cr_operation = Some READ\<rparr>"
  define pv :: "nat provider" where "pv = \<lparr>pv_name = 0, pv_table = Some ''t'', pv_vend = \<lambda>_. Inr c\<rparr>"
  have b: "broker_built [(''t'', pv)]"
    by (rule bb_add [OF bb_new, of "Some pv" "''t''"]) (simp add: broker_add_Inr pv_def)
  have o: "operation_of_value (py_upper ''read'') = Some READ" by code_simp
  have v: "broker_vend [(''t'', pv)] ''t'' ''read'' = Inr (credential_state c)"
    by (simp add: broker_vend_def o) (simp add: pv_def)
  have "\<exists>c'. from_state (credential_state c) = Inr c' \<and> cr_table c' = Some ''t''"
    using broker_vends_own_table [OF b v] by (auto simp: pv_def c_def)
  then show ?thesis using v by blast
qed

end
