(* ===== verification/Cred_Cache.thy ===== *)
theory Cred_Cache
  imports Credentials
begin

text \<open>
  The cache of \<open>credentials/databricks.py\<close> (\<open>DatabricksCredentialProvider.credentials\<close>) under
  concurrent callers.  A caller reads the cache under the lock, then takes the operation's
  vend lock (or leaves with what it has), looks again, asks the workspace without the lock,
  and stores the answer.  Each of these is one step; the clock is read once per step.
\<close>

section \<open>The provider's state\<close>

text \<open>A cached credential with the identity of its object (\<open>is\<close> compares those).\<close>

type_synonym held = "nat \<times> credentials"

record vend_state =
  vs_cache :: "cred_operation \<Rightarrow> held option"
  vs_vended_at :: "cred_operation \<Rightarrow> rat option"
  vs_retry :: "cred_operation \<Rightarrow> rat option"
  vs_skewed :: "cred_operation set"

definition unknown_expiry_max_age :: rat where "unknown_expiry_max_age = 900"
definition clock_skew_grace :: rat where "clock_skew_grace = 60"
definition retry_backoff :: rat where "retry_backoff = 30"

definition fresh_state :: vend_state where
  "fresh_state = \<lparr>vs_cache = \<lambda>_. None, vs_vended_at = \<lambda>_. None, vs_retry = \<lambda>_. None, vs_skewed = {}\<rparr>"

definition margin_for :: "rat \<Rightarrow> vend_state \<Rightarrow> cred_operation \<Rightarrow> credentials \<Rightarrow> rat" where
  "margin_for margin s p c =
     (case (cr_expires c, vs_vended_at s p) of
        (Some e, Some v) \<Rightarrow> min margin (max 0 (e - v) / 2)
      | _ \<Rightarrow> margin)"

definition is_fresh :: "rat \<Rightarrow> vend_state \<Rightarrow> cred_operation \<Rightarrow> credentials \<Rightarrow> rat \<Rightarrow> bool" where
  "is_fresh margin s p c now =
     (case cr_expires c of
        None \<Rightarrow> (case vs_vended_at s p of None \<Rightarrow> True | Some v \<Rightarrow> now - v < unknown_expiry_max_age)
      | Some e \<Rightarrow>
          (case vs_vended_at s p of
             Some v \<Rightarrow> if p \<in> vs_skewed s then now - v < clock_skew_grace
                       else \<not> expires_within now (margin_for margin s p c) c
           | None \<Rightarrow> \<not> expires_within now (margin_for margin s p c) c))"

definition retry_time :: "vend_state \<Rightarrow> cred_operation \<Rightarrow> rat" where
  "retry_time s p = (case vs_retry s p of None \<Rightarrow> 0 | Some r \<Rightarrow> r)"

definition store_vended :: "cred_operation \<Rightarrow> held \<Rightarrow> rat \<Rightarrow> vend_state \<Rightarrow> vend_state" where
  "store_vended p h now s =
     s\<lparr>vs_cache := (vs_cache s)(p := Some h), vs_vended_at := (vs_vended_at s)(p := Some now),
       vs_retry := (vs_retry s)(p := None),
       vs_skewed := (case cr_expires (snd h) of
          Some e \<Rightarrow> if e \<le> now then insert p (vs_skewed s) else vs_skewed s - {p}
        | None \<Rightarrow> vs_skewed s - {p})\<rparr>"

definition back_off :: "cred_operation \<Rightarrow> credentials \<Rightarrow> rat \<Rightarrow> vend_state \<Rightarrow> vend_state" where
  "back_off p c now s =
     (let remaining = (case cr_expires c of None \<Rightarrow> now | Some e \<Rightarrow> if e = 0 then now else e) - now in
      s\<lparr>vs_retry := (vs_retry s)(p := Some (now + min retry_backoff (max 1 (remaining / 4))))\<rparr>)"

definition invalidate :: "vend_state \<Rightarrow> vend_state" where
  "invalidate s = fresh_state"

section \<open>Callers\<close>

text \<open>
  Where a caller is.  \<open>Decided\<close>: it read the cache at that time and must refresh it, its
  credential being still usable or not; \<open>Holding\<close> and \<open>Asking\<close>: it has the vend lock.
\<close>

datatype caller =
    Idle
  | Decided cred_operation "held option" bool rat
  | Holding cred_operation "held option"
  | Asking cred_operation "held option"
  | Answered cred_operation credentials rat
  | Refused cred_operation

text \<open>The first look, under the lock.\<close>

definition first_look :: "rat \<Rightarrow> vend_state \<Rightarrow> cred_operation \<Rightarrow> rat \<Rightarrow> caller" where
  "first_look margin s p now =
     (case vs_cache s p of
        None \<Rightarrow> Decided p None False now
      | Some h \<Rightarrow>
          if is_fresh margin s p (snd h) now then Answered p (snd h) now
          else let usable = \<not> is_expired now (snd h) in
               if usable \<and> now < retry_time s p then Answered p (snd h) now
               else Decided p (Some h) usable now)"

text \<open>The second look, holding the vend lock.\<close>

definition second_look :: "rat \<Rightarrow> vend_state \<Rightarrow> cred_operation \<Rightarrow> held option \<Rightarrow> rat \<Rightarrow> caller" where
  "second_look margin s p cached now =
     (case vs_cache s p of
        None \<Rightarrow> Asking p cached
      | Some h \<Rightarrow>
          if (case cached of None \<Rightarrow> True | Some h' \<Rightarrow> fst h \<noteq> fst h') \<and> is_fresh margin s p (snd h) now
          then Answered p (snd h) now else Asking p cached)"

definition leaves_lock :: "caller \<Rightarrow> bool" where
  "leaves_lock c = (case c of Asking p h \<Rightarrow> False | _ \<Rightarrow> True)"

text \<open>
  The whole: the provider, the vend lock of each operation, the callers by number, and two
  things the code does not keep: the objects made so far and the log of vends.
\<close>

record system =
  sys_state :: vend_state
  sys_lock :: "cred_operation \<Rightarrow> nat option"
  sys_callers :: "nat \<Rightarrow> caller"
  sys_objects :: nat
  sys_log :: "(cred_operation \<times> credentials \<times> rat) list"

definition new_system :: system where
  "new_system = \<lparr>sys_state = fresh_state, sys_lock = \<lambda>_. None, sys_callers = \<lambda>_. Idle, sys_objects = 0, sys_log = []\<rparr>"

definition at_caller :: "nat \<Rightarrow> caller \<Rightarrow> system \<Rightarrow> system" where
  "at_caller i c y = y\<lparr>sys_callers := (sys_callers y)(i := c)\<rparr>"

definition with_lock :: "cred_operation \<Rightarrow> nat option \<Rightarrow> system \<Rightarrow> system" where
  "with_lock p h y = y\<lparr>sys_lock := (sys_lock y)(p := h)\<rparr>"

definition vended :: "nat \<Rightarrow> cred_operation \<Rightarrow> credentials \<Rightarrow> rat \<Rightarrow> system \<Rightarrow> system" where
  "vended i p c now y =
     with_lock p None (at_caller i (Answered p c now)
       (y\<lparr>sys_state := store_vended p (sys_objects y, c) now (sys_state y),
          sys_objects := Suc (sys_objects y), sys_log := (p, c, now) # sys_log y\<rparr>))"

text \<open>A vend that failed: the cached credential still serves unless it has expired.\<close>

definition vend_failed :: "nat \<Rightarrow> cred_operation \<Rightarrow> held option \<Rightarrow> rat \<Rightarrow> system \<Rightarrow> system" where
  "vend_failed i p cached now y =
     with_lock p None
       (case cached of
          Some h \<Rightarrow>
            if \<not> is_expired now (snd h)
            then at_caller i (Answered p (snd h) now) (y\<lparr>sys_state := back_off p (snd h) now (sys_state y)\<rparr>)
            else at_caller i (Refused p) y
        | None \<Rightarrow> at_caller i (Refused p) y)"

definition second_step :: "rat \<Rightarrow> nat \<Rightarrow> cred_operation \<Rightarrow> held option \<Rightarrow> rat \<Rightarrow> system \<Rightarrow> system" where
  "second_step margin i p cached now y =
     (let c = second_look margin (sys_state y) p cached now in
      (if leaves_lock c then with_lock p None else id) (at_caller i c y))"

inductive cred_step :: "rat \<Rightarrow> system \<Rightarrow> system \<Rightarrow> bool" for margin where
  look: "sys_callers y i \<in> {Idle} \<union> range Refused \<union> {Answered q c t |q c t. True} \<Longrightarrow>
    cred_step margin y (at_caller i (first_look margin (sys_state y) p now) y)"
| busy: "sys_callers y i = Decided p (Some h) True now \<Longrightarrow> sys_lock y p \<noteq> None \<Longrightarrow>
    cred_step margin y (at_caller i (Answered p (snd h) now) y)"
| acquire: "sys_callers y i = Decided p cached usable now \<Longrightarrow> sys_lock y p = None \<Longrightarrow>
    cred_step margin y (with_lock p (Some i) (at_caller i (Holding p cached) y))"
| again: "sys_callers y i = Holding p cached \<Longrightarrow> cred_step margin y (second_step margin i p cached now y)"
| got: "sys_callers y i = Asking p cached \<Longrightarrow> cred_step margin y (vended i p c now y)"
| failed: "sys_callers y i = Asking p cached \<Longrightarrow> cred_step margin y (vend_failed i p cached now y)"
| dropped: "cred_step margin y (y\<lparr>sys_state := invalidate (sys_state y)\<rparr>)"

inductive_cases cred_stepE: "cred_step margin y y'"

inductive cred_reached :: "rat \<Rightarrow> system \<Rightarrow> bool" for margin where
  new: "cred_reached margin new_system"
| step: "cred_reached margin y \<Longrightarrow> cred_step margin y y' \<Longrightarrow> cred_reached margin y'"

section \<open>One vend in flight\<close>

definition holds_lock :: "caller \<Rightarrow> cred_operation option" where
  "holds_lock c = (case c of Holding p h \<Rightarrow> Some p | Asking p h \<Rightarrow> Some p | _ \<Rightarrow> None)"

definition locks_ok :: "system \<Rightarrow> bool" where
  "locks_ok y \<longleftrightarrow> (\<forall>i p. sys_lock y p = Some i \<longleftrightarrow> holds_lock (sys_callers y i) = Some p)"

lemma holds_lock_simps [simp]:
  "holds_lock Idle = None" "holds_lock (Decided p h u t) = None" "holds_lock (Holding p h) = Some p"
  "holds_lock (Asking p h) = Some p" "holds_lock (Answered p c t) = None" "holds_lock (Refused p) = None"
  by (simp_all add: holds_lock_def)

lemma first_look_free [simp]: "holds_lock (first_look margin s p now) = None"
  by (simp add: first_look_def Let_def split: option.splits)

lemma second_look_lock:
  "holds_lock (second_look margin s p h now) = (if leaves_lock (second_look margin s p h now) then None else Some p)"
  by (simp add: second_look_def leaves_lock_def split: option.splits)

lemmas system_ops = at_caller_def with_lock_def vended_def vend_failed_def second_step_def

lemma locks_ok_frame:
  assumes "locks_ok y" "sys_lock y' = sys_lock y" "sys_callers y' = (sys_callers y)(i := c)"
    and "holds_lock (sys_callers y i) = None" "holds_lock c = None"
  shows "locks_ok y'"
  using assms by (auto simp: locks_ok_def)

lemma locks_ok_release:
  assumes "locks_ok y" "sys_lock y' = (sys_lock y)(p := None)" "sys_callers y' = (sys_callers y)(i := c)"
    and "holds_lock (sys_callers y i) = Some p" "holds_lock c = None"
  shows "locks_ok y'"
  unfolding locks_ok_def
proof (intro allI)
  have l: "sys_lock y q = Some j \<longleftrightarrow> holds_lock (sys_callers y j) = Some q" for q j
    using assms(1) by (simp add: locks_ok_def)
  fix j q
  show "sys_lock y' q = Some j \<longleftrightarrow> holds_lock (sys_callers y' j) = Some q"
    using l [of q j] l [of p j] l [of p i] l [of q i] assms(2-)
    by (cases "j = i"; cases "q = p") simp_all
qed

lemma locks_ok_take:
  assumes "locks_ok y" "sys_lock y' = (sys_lock y)(p := Some i)" "sys_callers y' = (sys_callers y)(i := c)"
    and "holds_lock (sys_callers y i) = None" "holds_lock c = Some p" "sys_lock y p = None"
  shows "locks_ok y'"
  unfolding locks_ok_def
proof (intro allI)
  have l: "sys_lock y q = Some j \<longleftrightarrow> holds_lock (sys_callers y j) = Some q" for q j
    using assms(1) by (simp add: locks_ok_def)
  fix j q
  show "sys_lock y' q = Some j \<longleftrightarrow> holds_lock (sys_callers y' j) = Some q"
    using l [of q j] l [of p j] l [of p i] l [of q i] assms(2-)
    by (cases "j = i"; cases "q = p") simp_all
qed

lemma cred_step_locks:
  assumes "cred_step margin y y'" "locks_ok y"
  shows "locks_ok y'"
  using assms(1)
proof cases
  case (look i p now)
  then have "holds_lock (sys_callers y i) = None" by auto
  then show ?thesis
    using look by (intro locks_ok_frame [OF assms(2), of _ i "first_look margin (sys_state y) p now"]) (auto simp: system_ops)
next
  case (busy i p h now)
  then show ?thesis by (intro locks_ok_frame [OF assms(2), of _ i "Answered p (snd h) now"]) (auto simp: system_ops)
next
  case (acquire i p cached usable now)
  then show ?thesis by (intro locks_ok_take [OF assms(2), of _ p i "Holding p cached"]) (auto simp: system_ops)
next
  case (again i p cached now)
  let ?c = "second_look margin (sys_state y) p cached now"
  show ?thesis
  proof (cases "leaves_lock ?c")
    case True
    then show ?thesis using again second_look_lock [of margin "sys_state y" p cached now]
      by (intro locks_ok_release [OF assms(2), of _ p i ?c]) (auto simp: system_ops Let_def)
  next
    case False
    then have "holds_lock ?c = Some p" by (simp add: second_look_lock)
    then show ?thesis using assms(2) again False
      by (auto simp: locks_ok_def system_ops Let_def)
  qed
next
  case (got i p cached c now)
  then show ?thesis by (intro locks_ok_release [OF assms(2), of _ p i "Answered p c now"]) (auto simp: system_ops)
next
  case (failed i p cached now)
  then show ?thesis
    using assms(2)
    by (cases cached)
      (auto simp: system_ops split: if_splits intro!: locks_ok_release [OF assms(2), of _ p i])
next
  case dropped
  then show ?thesis using assms(2) by (simp add: locks_ok_def)
qed

lemma cred_reached_locks: "cred_reached margin y \<Longrightarrow> locks_ok y"
  by (induction rule: cred_reached.induct) (auto simp: locks_ok_def new_system_def dest: cred_step_locks)

section \<open>What is served is alive\<close>

definition alive_at :: "rat \<Rightarrow> rat \<Rightarrow> credentials \<Rightarrow> bool" where
  "alive_at vend_time now c \<longleftrightarrow> \<not> is_expired now c \<or> now - vend_time < clock_skew_grace"

definition logged :: "(cred_operation \<times> credentials \<times> rat) list \<Rightarrow> cred_operation \<Rightarrow> held option \<Rightarrow> bool" where
  "logged xs p ch \<longleftrightarrow> (\<forall>h. ch = Some h \<longrightarrow> (\<exists>v. (p, snd h, v) \<in> set xs))"

fun caller_ok :: "(cred_operation \<times> credentials \<times> rat) list \<Rightarrow> caller \<Rightarrow> bool" where
  "caller_ok xs (Decided p ch usable t) \<longleftrightarrow>
     logged xs p ch \<and> (usable \<longrightarrow> (\<forall>h. ch = Some h \<longrightarrow> \<not> is_expired t (snd h)))"
| "caller_ok xs (Holding p ch) \<longleftrightarrow> logged xs p ch"
| "caller_ok xs (Asking p ch) \<longleftrightarrow> logged xs p ch"
| "caller_ok xs (Answered p c t) \<longleftrightarrow> (\<exists>v. (p, c, v) \<in> set xs \<and> alive_at v t c)"
| "caller_ok xs _ \<longleftrightarrow> True"

definition cache_logged :: "(cred_operation \<times> credentials \<times> rat) list \<Rightarrow> vend_state \<Rightarrow> bool" where
  "cache_logged xs s \<longleftrightarrow>
     (\<forall>p h. vs_cache s p = Some h \<longrightarrow>
        (\<exists>v. vs_vended_at s p = Some v \<and> (p, snd h, v) \<in> set xs))"

definition served_ok :: "system \<Rightarrow> bool" where
  "served_ok y \<longleftrightarrow>
     cache_logged (sys_log y) (sys_state y) \<and> (\<forall>i. caller_ok (sys_log y) (sys_callers y i))"

lemma margin_for_nonneg: "0 \<le> margin \<Longrightarrow> 0 \<le> margin_for margin s p c"
  by (auto simp: margin_for_def split: option.splits)

lemma fresh_alive:
  assumes "is_fresh margin s p c now" "vs_vended_at s p = Some v" "0 \<le> margin"
  shows "alive_at v now c"
proof (cases "cr_expires c")
  case None
  then show ?thesis by (simp add: alive_at_def is_expired_def expires_within_def)
next
  case (Some e)
  then show ?thesis
    using assms margin_for_nonneg [OF assms(3), of s p c]
    by (auto simp: alive_at_def is_fresh_def is_expired_def expires_within_def split: if_splits)
qed

lemma caller_ok_mono: "caller_ok xs c \<Longrightarrow> set xs \<subseteq> set ys \<Longrightarrow> caller_ok ys c"
  by (cases c) (auto simp: logged_def, blast+)

lemma cache_logged_entry:
  assumes "cache_logged xs s" "vs_cache s p = Some h"
  obtains v where "vs_vended_at s p = Some v" "(p, snd h, v) \<in> set xs"
  using assms unfolding cache_logged_def by blast

lemma first_look_ok:
  assumes "cache_logged xs s" "0 \<le> margin"
  shows "caller_ok xs (first_look margin s p now)"
proof (cases "vs_cache s p")
  case None
  then show ?thesis by (simp add: first_look_def logged_def)
next
  case (Some h)
  obtain v where v: "vs_vended_at s p = Some v" "(p, snd h, v) \<in> set xs"
    by (rule cache_logged_entry [OF assms(1) Some])
  have "is_fresh margin s p (snd h) now \<Longrightarrow> alive_at v now (snd h)"
    using fresh_alive v(1) assms(2) by blast
  then show ?thesis using Some v by (auto simp: first_look_def logged_def Let_def alive_at_def)
qed

lemma second_look_ok:
  assumes "cache_logged xs s" "0 \<le> margin" "logged xs p ch"
  shows "caller_ok xs (second_look margin s p ch now)"
proof (cases "vs_cache s p")
  case None
  then show ?thesis using assms(3) by (simp add: second_look_def)
next
  case (Some h)
  obtain v where v: "vs_vended_at s p = Some v" "(p, snd h, v) \<in> set xs"
    by (rule cache_logged_entry [OF assms(1) Some])
  have "is_fresh margin s p (snd h) now \<Longrightarrow> alive_at v now (snd h)"
    using fresh_alive v(1) assms(2) by blast
  then show ?thesis using Some v assms(3) by (auto simp: second_look_def)
qed

lemma served_ok_caller:
  assumes "served_ok y" "caller_ok (sys_log y) c"
  shows "served_ok (at_caller i c y)"
  using assms by (simp add: served_ok_def at_caller_def)

lemma served_ok_lock: "served_ok (with_lock p h y) = served_ok y"
  by (simp add: served_ok_def with_lock_def)

lemma served_ok_retry:
  assumes "served_ok y"
  shows "served_ok (y\<lparr>sys_state := back_off p c now (sys_state y)\<rparr>)"
  using assms by (simp add: served_ok_def cache_logged_def back_off_def Let_def)

lemma served_ok_vended:
  assumes "served_ok y"
  shows "served_ok (vended i p c now y)"
proof -
  have "cache_logged ((p, c, now) # sys_log y) (store_vended p (sys_objects y, c) now (sys_state y))"
    using assms by (auto simp: served_ok_def cache_logged_def store_vended_def)
  moreover have "caller_ok ((p, c, now) # sys_log y) (sys_callers y j)" for j
    using assms by (auto simp: served_ok_def intro: caller_ok_mono)
  ultimately show ?thesis
    by (auto simp: served_ok_def vended_def with_lock_def at_caller_def alive_at_def clock_skew_grace_def)
qed

lemma cred_step_served:
  assumes "cred_step margin y y'" "served_ok y" "0 \<le> margin"
  shows "served_ok y'"
proof -
  have c: "caller_ok (sys_log y) (sys_callers y i)" for i
    using assms(2) by (simp add: served_ok_def)
  have l: "cache_logged (sys_log y) (sys_state y)"
    using assms(2) by (simp add: served_ok_def)
  from assms(1) show ?thesis
  proof cases
    case (look i p now)
    then show ?thesis using served_ok_caller [OF assms(2) first_look_ok [OF l assms(3)]] by simp
  next
    case (busy i p h now)
    then have "caller_ok (sys_log y) (Answered p (snd h) now)"
      using c [of i] by (auto simp: logged_def alive_at_def)
    then show ?thesis using busy served_ok_caller [OF assms(2)] by simp
  next
    case (acquire i p cached usable now)
    then have "caller_ok (sys_log y) (Holding p cached)" using c [of i] by simp
    then show ?thesis using acquire served_ok_caller [OF assms(2)] by (simp add: served_ok_lock)
  next
    case (again i p cached now)
    then have "logged (sys_log y) p cached" using c [of i] by simp
    then show ?thesis
      using again served_ok_caller [OF assms(2) second_look_ok [OF l assms(3)]]
      by (simp add: second_step_def Let_def served_ok_lock)
  next
    case (got i p cached c now)
    then show ?thesis using served_ok_vended [OF assms(2)] by simp
  next
    case (failed i p cached now)
    show ?thesis
    proof (cases "\<exists>h. cached = Some h \<and> \<not> is_expired now (snd h)")
      case True
      then obtain h where h: "cached = Some h" "\<not> is_expired now (snd h)" by blast
      then have "caller_ok (sys_log y) (Answered p (snd h) now)"
        using c [of i] failed by (auto simp: logged_def alive_at_def)
      then have "served_ok (at_caller i (Answered p (snd h) now) (y\<lparr>sys_state := back_off p (snd h) now (sys_state y)\<rparr>))"
        by (intro served_ok_caller served_ok_retry assms(2)) simp
      then show ?thesis using failed h by (simp add: vend_failed_def served_ok_lock)
    next
      case False
      then have "y' = with_lock p None (at_caller i (Refused p) y)"
        using failed by (auto simp: vend_failed_def split: option.splits)
      then show ?thesis using served_ok_caller [OF assms(2)] by (simp add: served_ok_lock)
    qed
  next
    case dropped
    then show ?thesis
      using assms(2) by (simp add: served_ok_def cache_logged_def invalidate_def fresh_state_def)
  qed
qed

lemma cred_reached_served: "cred_reached margin y \<Longrightarrow> 0 \<le> margin \<Longrightarrow> served_ok y"
  by (induction rule: cred_reached.induct)
    (auto simp: served_ok_def cache_logged_def new_system_def fresh_state_def dest: cred_step_served)

section \<open>Properties\<close>

text \<open>C31: however callers interleave, at most one of them is asking the workspace for the credential of
  one operation at any moment.  Reading, and reading and writing, have a lock each, so one caller
  may be asking for each of the two.\<close>

theorem one_vend_in_flight:
  assumes "cred_reached margin y"
    and "sys_callers y i = Asking p a" "sys_callers y j = Asking p b"
  shows "i = j"
proof -
  have "sys_lock y p = Some i" "sys_lock y p = Some j"
    using cred_reached_locks [OF assms(1)] assms(2,3) by (simp_all add: locks_ok_def)
  then show ?thesis by simp
qed

text \<open>C32: the credential a caller is answered was vended for the operation it asked for, and when
  it was checked it had not expired, or was vended less than a minute before (a credential
  that arrives expired by a clock running ahead).\<close>

theorem served_credential_alive:
  assumes "cred_reached margin y" "0 \<le> margin" "sys_callers y i = Answered p c t"
  shows "\<exists>v. (p, c, v) \<in> set (sys_log y) \<and> (\<not> is_expired t c \<or> t - v < 60)"
proof -
  have "caller_ok (sys_log y) (Answered p c t)"
    using cred_reached_served [OF assms(1,2)] assms(3) by (metis served_ok_def)
  then show ?thesis by (auto simp: alive_at_def clock_skew_grace_def)
qed

section \<open>Witnesses\<close>

definition sample_credentials :: credentials where
  "sample_credentials = \<lparr>cr_cloud = AWS, cr_url = ''s3://b/t'', cr_expires = Some 3600, cr_secrets = [],
     cr_scope = None, cr_table = Some ''id'', cr_operation = Some READ\<rparr>"

definition asking_system :: system where
  "asking_system = at_caller 0 (Asking READ None) (with_lock READ (Some 0) (at_caller 0 (Holding READ None)
     (at_caller 0 (Decided READ None False 0) new_system)))"

lemma asking_reached: "cred_reached 300 asking_system"
proof -
  have f: "first_look 300 fresh_state READ 0 = Decided READ None False 0"
    by (simp add: first_look_def fresh_state_def)
  let ?a = "at_caller 0 (Decided READ None False 0) new_system"
  let ?b = "with_lock READ (Some 0) (at_caller 0 (Holding READ None) ?a)"
  have "cred_step 300 new_system (at_caller 0 (first_look 300 (sys_state new_system) READ 0) new_system)"
    by (rule cred_step.look) (simp add: new_system_def)
  then have "cred_step 300 new_system ?a" by (simp add: new_system_def f)
  then have a: "cred_reached 300 ?a" by (rule cred_reached.step [OF cred_reached.new])
  have b: "cred_reached 300 ?b"
    by (rule cred_reached.step [OF a], rule cred_step.acquire [where usable = False and now = 0]) (simp_all add: at_caller_def new_system_def)
  have "cred_step 300 ?b (second_step 300 0 READ None 0 ?b)"
    by (rule cred_step.again) (simp add: at_caller_def with_lock_def)
  moreover have "second_step 300 0 READ None 0 ?b = asking_system"
    by (simp add: second_step_def second_look_def at_caller_def with_lock_def new_system_def fresh_state_def
        asking_system_def leaves_lock_def)
  ultimately show ?thesis by (metis cred_reached.step [OF b])
qed

theorem one_vend_in_flight_witness:
  "cred_reached 300 asking_system \<and> sys_callers asking_system 0 = Asking READ None
     \<and> {i. \<exists>b. sys_callers asking_system i = Asking READ b} = {0}"
proof -
  have h: "sys_callers asking_system 0 = Asking READ None" by (simp add: asking_system_def at_caller_def)
  show ?thesis using one_vend_in_flight [OF asking_reached h] h asking_reached by auto
qed

theorem served_credential_alive_witness:
  "\<exists>y v. cred_reached 300 y \<and> sys_callers y 0 = Answered READ sample_credentials 10
     \<and> (READ, sample_credentials, v) \<in> set (sys_log y)"
proof -
  let ?y = "vended 0 READ sample_credentials 10 asking_system"
  have "cred_step 300 asking_system ?y"
    by (rule cred_step.got) (simp add: asking_system_def at_caller_def)
  then have r: "cred_reached 300 ?y" by (rule cred_reached.step [OF asking_reached])
  have a: "sys_callers ?y 0 = Answered READ sample_credentials 10"
    by (simp add: vended_def with_lock_def at_caller_def)
  show ?thesis using served_credential_alive [OF r _ a] r a by force
qed

end
