(* ===== verification/Cred_Refresh.thy ===== *)
theory Cred_Refresh
  imports Credentials
begin

text \<open>
  \<open>credentials/refresh.py\<close>: the slots a process publishes and the thread that keeps them fresh.
  An entry is an object the table of slots and the thread's list of due entries share, so
  entries live in a heap.  The native extension is its published slots; a provider is a
  number, and what it vends is a relation given as an argument.
\<close>

section \<open>Slots and entries\<close>

text \<open>The name of a provider's slot: its identity, else its address, with operation and process.\<close>

definition slot_identity :: "string option \<Rightarrow> nat \<Rightarrow> cred_operation \<Rightarrow> nat \<Rightarrow> string" where
  "slot_identity identity address p pid =
     (case identity of
        Some s \<Rightarrow> if s = [] then ''object-'' @ nat_text 16 address else s
      | None \<Rightarrow> ''object-'' @ nat_text 16 address)
     @ [colon] @ operation_value p @ [colon] @ nat_text 10 pid"

type_synonym slot_text = "(string \<times> string) list"

record entry =
  en_provider :: nat
  en_operation :: cred_operation
  en_expires :: "rat option"
  en_published :: rat
  en_used :: rat
  en_due :: "rat option"
  en_options :: slot_text

text \<open>The thread: at rest, working through the due entries, asking a provider, or dropping a
  slot: out of the table first, then out of the extension.\<close>

type_synonym work = "(string \<times> nat) list"

datatype worker =
    Resting
  | Working work
  | Vending string nat rat work
  | Dropping string work
  | Removing string work

record refresher =
  rf_entries :: "(string \<times> nat) list"
  rf_heap :: "nat \<Rightarrow> entry option"
  rf_next :: nat
  rf_native :: "string \<Rightarrow> (slot_text \<times> rat option) option"
  rf_pid :: nat
  rf_worker :: worker
  rf_os_pid :: nat
  rf_live :: "nat set"
  rf_gone :: "nat set"
  rf_dropped :: "string set"

definition refresh_ahead :: rat where "refresh_ahead = 300"
definition idle_seconds :: rat where "idle_seconds = 12 * 3600"
definition retry_seconds :: rat where "retry_seconds = 30"

text \<open>Two option dicts are equal as dicts.\<close>

definition same_options :: "slot_text \<Rightarrow> slot_text \<Rightarrow> bool" where
  "same_options a b \<longleftrightarrow> set a = set b"

definition due_at :: "rat option \<Rightarrow> rat \<Rightarrow> rat \<Rightarrow> rat option" where
  "due_at expires published now =
     (case expires of
        None \<Rightarrow> None
      | Some e \<Rightarrow>
          let ahead = min refresh_ahead (max 0 (e - published) / 2) in
          Some (max (now + 1) (e - ahead)))"

definition retry_at :: "rat option \<Rightarrow> rat \<Rightarrow> rat option" where
  "retry_at expires now =
     (let left = (case expires of None \<Rightarrow> now | Some e \<Rightarrow> if e = 0 then now else e) - now in
      Some (now + min retry_seconds (max 1 (left / 4))))"

definition set_entry :: "nat \<Rightarrow> entry \<Rightarrow> refresher \<Rightarrow> refresher" where
  "set_entry i e s = s\<lparr>rf_heap := (rf_heap s)(i := Some e)\<rparr>"

definition publish :: "string \<Rightarrow> nat \<Rightarrow> entry \<Rightarrow> rat option \<Rightarrow> slot_text \<Rightarrow> rat \<Rightarrow> refresher \<Rightarrow> refresher" where
  "publish slot i e expires opts now s =
     set_entry i (e\<lparr>en_options := opts, en_expires := expires, en_published := now,
                   en_due := due_at expires now now\<rparr>)
       (s\<lparr>rf_native := (rf_native s)(slot := Some (opts, expires))\<rparr>)"

definition new_entry :: "nat \<Rightarrow> cred_operation \<Rightarrow> rat \<Rightarrow> entry" where
  "new_entry provider p now =
     \<lparr>en_provider = provider, en_operation = p, en_expires = None, en_published = now, en_used = now,
      en_due = Some now, en_options = []\<rparr>"

text \<open>After a fork the child's table is the parent's: it is cleared before its first use.\<close>

definition after_fork :: "refresher \<Rightarrow> refresher" where
  "after_fork s = (if rf_pid s \<noteq> rf_os_pid s then s\<lparr>rf_entries := [], rf_pid := rf_os_pid s\<rparr> else s)"

definition find_entry :: "string \<Rightarrow> refresher \<Rightarrow> (nat \<times> entry) option" where
  "find_entry slot s =
     Option.bind (map_of (rf_entries s) slot) (\<lambda>i. map_option (\<lambda>e. (i, e)) (rf_heap s i))"

definition track_in :: "string \<Rightarrow> nat \<Rightarrow> cred_operation \<Rightarrow> rat option \<Rightarrow> slot_text \<Rightarrow> rat \<Rightarrow> refresher \<Rightarrow> refresher" where
  "track_in slot provider p expires opts now s =
     (let found = (case find_entry slot s of
           None \<Rightarrow> None | Some (i, e) \<Rightarrow> if en_provider e \<in> rf_live s then Some (i, e) else None);
          (i, e, s1) = (case found of
             Some (i, e) \<Rightarrow> (i, e, s)
           | None \<Rightarrow> (rf_next s, new_entry provider p now,
               s\<lparr>rf_entries := dict_set slot (rf_next s) (rf_entries s), rf_next := Suc (rf_next s)\<rparr>));
          e1 = e\<lparr>en_used := now\<rparr>
      in if same_options opts (en_options e1) then set_entry i e1 s1
         else publish slot i e1 expires opts now s1)"

definition track ::
  "(nat \<Rightarrow> string option) \<Rightarrow> (nat \<Rightarrow> nat) \<Rightarrow> nat \<Rightarrow> cred_operation \<Rightarrow> rat option \<Rightarrow> slot_text \<Rightarrow> rat \<Rightarrow> refresher
     \<Rightarrow> refresher \<times> string" where
  "track identity address provider p expires opts now s =
     (let slot = slot_identity (identity provider) (address provider) p (rf_os_pid s) in
      (track_in slot provider p expires opts now (after_fork s), slot))"

section \<open>The thread\<close>

definition is_due :: "rat \<Rightarrow> refresher \<Rightarrow> nat \<Rightarrow> bool" where
  "is_due now s i =
     (case rf_heap s i of None \<Rightarrow> False
      | Some e \<Rightarrow> (case en_due e of None \<Rightarrow> False | Some d \<Rightarrow> d \<le> now))"

definition due_entries :: "rat \<Rightarrow> refresher \<Rightarrow> work" where
  "due_entries now s = filter (\<lambda>(slot, i). is_due now s i) (rf_entries s)"

definition turn :: "worker \<Rightarrow> refresher \<Rightarrow> refresher" where
  "turn w s = s\<lparr>rf_worker := w\<rparr>"

definition continue :: "work \<Rightarrow> worker" where
  "continue rest = (if rest = [] then Resting else Working rest)"

text \<open>What is done with one due entry: dropped when its provider is gone or nobody asked for it
  in a long time, else its provider is asked.\<close>

definition examine :: "string \<Rightarrow> nat \<Rightarrow> entry \<Rightarrow> rat \<Rightarrow> work \<Rightarrow> refresher \<Rightarrow> worker" where
  "examine slot i e now rest s =
     (if en_provider e \<notin> rf_live s \<or> idle_seconds < now - en_used e then Dropping slot rest
      else Vending slot i now rest)"

definition vend_retried :: "nat \<Rightarrow> entry \<Rightarrow> rat \<Rightarrow> refresher \<Rightarrow> refresher" where
  "vend_retried i e now s = set_entry i (e\<lparr>en_due := retry_at (en_expires e) now\<rparr>) s"

definition vend_answered :: "string \<Rightarrow> nat \<Rightarrow> entry \<Rightarrow> rat option \<Rightarrow> slot_text \<Rightarrow> rat \<Rightarrow> refresher \<Rightarrow> refresher" where
  "vend_answered slot i e expires opts now s =
     (if same_options opts (en_options e) then vend_retried i e now s
      else publish slot i e expires opts now s)"

definition pop_slot :: "string \<Rightarrow> refresher \<Rightarrow> refresher" where
  "pop_slot slot s =
     s\<lparr>rf_entries := filter (\<lambda>(k, i). k \<noteq> slot) (rf_entries s), rf_dropped := insert slot (rf_dropped s)\<rparr>"

definition remove_slot :: "string \<Rightarrow> refresher \<Rightarrow> refresher" where
  "remove_slot slot s = s\<lparr>rf_native := (rf_native s)(slot := None)\<rparr>"

text \<open>\<open>slot_options\<close>: the options name a slot when the credential expires and the extension has slots.\<close>

definition slot_key :: string where
  "slot_key = ''deltaswamp_credential_slot''"

definition slot_options ::
  "(nat \<Rightarrow> string option) \<Rightarrow> (nat \<Rightarrow> nat) \<Rightarrow> bool \<Rightarrow> nat \<Rightarrow> cred_operation \<Rightarrow> rat option \<Rightarrow> slot_text \<Rightarrow> rat
     \<Rightarrow> refresher \<Rightarrow> refresher \<times> slot_text" where
  "slot_options identity address available provider p expires opts now s =
     (if expires = None \<or> \<not> available then (s, opts)
      else let (s', slot) = track identity address provider p expires opts now s in
           (s', dict_set slot_key slot opts))"

section \<open>Runs\<close>

text \<open>
  \<open>vends q p e o\<close>: provider \<open>q\<close> may answer for operation \<open>p\<close> with a credential that expires
  at \<open>e\<close> and renders as \<open>o\<close>.  Callers track, providers come and go, the process forks, and the
  thread takes its steps, in any order.
\<close>

definition busy_with :: "refresher \<Rightarrow> nat \<Rightarrow> bool" where
  "busy_with s q = (case rf_worker s of
     Vending slot i now rest \<Rightarrow> (case rf_heap s i of Some e \<Rightarrow> en_provider e = q | None \<Rightarrow> False) | _ \<Rightarrow> False)"

inductive refresh_step ::
  "(nat \<Rightarrow> string option) \<Rightarrow> (nat \<Rightarrow> nat) \<Rightarrow> (nat \<Rightarrow> cred_operation \<Rightarrow> rat option \<Rightarrow> slot_text \<Rightarrow> bool)
     \<Rightarrow> refresher \<Rightarrow> refresher \<Rightarrow> bool" for identity address vends where
  born: "q \<notin> rf_gone s \<Longrightarrow> refresh_step identity address vends s (s\<lparr>rf_live := insert q (rf_live s)\<rparr>)"
| collected: "q \<in> rf_live s \<Longrightarrow> \<not> busy_with s q \<Longrightarrow>
    refresh_step identity address vends s (s\<lparr>rf_live := rf_live s - {q}, rf_gone := insert q (rf_gone s)\<rparr>)"
| forked: "refresh_step identity address vends s (turn Resting (s\<lparr>rf_os_pid := pid\<rparr>))"
| tracked: "q \<in> rf_live s \<Longrightarrow> vends q p expires opts \<Longrightarrow>
    refresh_step identity address vends s (fst (track identity address q p expires opts now s))"
| woke: "rf_worker s = Resting \<Longrightarrow> rf_pid s = rf_os_pid s \<Longrightarrow>
    refresh_step identity address vends s (turn (continue (due_entries now s)) s)"
| examined: "rf_worker s = Working ((slot, i) # rest) \<Longrightarrow> rf_heap s i = Some e \<Longrightarrow>
    refresh_step identity address vends s (turn (examine slot i e now rest s) s)"
| vend_raised: "rf_worker s = Vending slot i now rest \<Longrightarrow> rf_heap s i = Some e \<Longrightarrow>
    refresh_step identity address vends s (turn (continue rest) (vend_retried i e now s))"
| vend_returned: "rf_worker s = Vending slot i now rest \<Longrightarrow> rf_heap s i = Some e \<Longrightarrow>
    vends (en_provider e) (en_operation e) expires opts \<Longrightarrow>
    refresh_step identity address vends s (turn (continue rest) (vend_answered slot i e expires opts now s))"
| popped: "rf_worker s = Dropping slot rest \<Longrightarrow>
    refresh_step identity address vends s (turn (Removing slot rest) (pop_slot slot s))"
| removed: "rf_worker s = Removing slot rest \<Longrightarrow>
    refresh_step identity address vends s (turn (continue rest) (remove_slot slot s))"

inductive_cases refresh_stepE: "refresh_step identity address vends s s'"

definition new_refresher :: "nat \<Rightarrow> refresher" where
  "new_refresher pid =
     \<lparr>rf_entries = [], rf_heap = \<lambda>_. None, rf_next = 0, rf_native = \<lambda>_. None, rf_pid = pid,
      rf_worker = Resting, rf_os_pid = pid, rf_live = {}, rf_gone = {}, rf_dropped = {}\<rparr>"

inductive refresh_reached ::
  "(nat \<Rightarrow> string option) \<Rightarrow> (nat \<Rightarrow> nat) \<Rightarrow> (nat \<Rightarrow> cred_operation \<Rightarrow> rat option \<Rightarrow> slot_text \<Rightarrow> bool)
     \<Rightarrow> refresher \<Rightarrow> bool" for identity address vends where
  init: "refresh_reached identity address vends (new_refresher pid)"
| next_step: "refresh_reached identity address vends s \<Longrightarrow> refresh_step identity address vends s s' \<Longrightarrow>
    refresh_reached identity address vends s'"

section \<open>The invariant\<close>

definition slot_of :: "(nat \<Rightarrow> string option) \<Rightarrow> (nat \<Rightarrow> nat) \<Rightarrow> nat \<Rightarrow> entry \<Rightarrow> string" where
  "slot_of identity address pid e =
     slot_identity (identity (en_provider e)) (address (en_provider e)) (en_operation e) pid"

definition pending :: "worker \<Rightarrow> work" where
  "pending w =
     (case w of Resting \<Rightarrow> [] | Working rest \<Rightarrow> rest | Vending slot i now rest \<Rightarrow> (slot, i) # rest
      | Dropping slot rest \<Rightarrow> rest | Removing slot rest \<Rightarrow> rest)"

definition heap_ok :: "refresher \<Rightarrow> bool" where
  "heap_ok s \<longleftrightarrow> rf_live s \<inter> rf_gone s = {}
     \<and> (\<forall>i e. rf_heap s i = Some e \<longrightarrow> i < rf_next s \<and> en_provider e \<in> rf_live s \<union> rf_gone s)"

definition entry_at :: "(nat \<Rightarrow> string option) \<Rightarrow> (nat \<Rightarrow> nat) \<Rightarrow> refresher \<Rightarrow> string \<Rightarrow> nat \<Rightarrow> bool" where
  "entry_at identity address s slot i \<longleftrightarrow>
     (\<exists>e. rf_heap s i = Some e \<and> slot = slot_of identity address (rf_pid s) e)"

definition table_ok :: "(nat \<Rightarrow> string option) \<Rightarrow> (nat \<Rightarrow> nat) \<Rightarrow> refresher \<Rightarrow> bool" where
  "table_ok identity address s \<longleftrightarrow>
     distinct (map fst (rf_entries s)) \<and> (\<forall>(slot, i) \<in> set (rf_entries s). entry_at identity address s slot i)"

text \<open>A due entry is still in the table, or its slot was dropped, or its provider is gone.\<close>

definition due_ok :: "(nat \<Rightarrow> string option) \<Rightarrow> (nat \<Rightarrow> nat) \<Rightarrow> refresher \<Rightarrow> string \<Rightarrow> nat \<Rightarrow> bool" where
  "due_ok identity address s slot i \<longleftrightarrow>
     (\<exists>e. rf_heap s i = Some e \<and> slot = slot_of identity address (rf_pid s) e
        \<and> ((slot, i) \<in> set (rf_entries s) \<or> slot \<in> rf_dropped s \<or> en_provider e \<in> rf_gone s))"

definition worker_ok :: "refresher \<Rightarrow> bool" where
  "worker_ok s \<longleftrightarrow>
     (rf_worker s \<noteq> Resting \<longrightarrow> rf_pid s = rf_os_pid s)
     \<and> (case rf_worker s of
          Vending slot i now rest \<Rightarrow> (\<exists>e. rf_heap s i = Some e \<and> en_provider e \<in> rf_live s)
        | Removing slot rest \<Rightarrow> slot \<in> rf_dropped s
        | _ \<Rightarrow> True)"

definition native_ok ::
  "(nat \<Rightarrow> string option) \<Rightarrow> (nat \<Rightarrow> nat) \<Rightarrow> (nat \<Rightarrow> cred_operation \<Rightarrow> rat option \<Rightarrow> slot_text \<Rightarrow> bool)
     \<Rightarrow> refresher \<Rightarrow> bool" where
  "native_ok identity address vends s \<longleftrightarrow>
     (\<forall>slot opts expires. rf_native s slot = Some (opts, expires) \<longrightarrow>
        (\<exists>q p pid. slot = slot_identity (identity q) (address q) p pid \<and> vends q p expires opts))"

text \<open>The extension serves what the table says, for a slot never dropped.\<close>

definition served :: "refresher \<Rightarrow> bool" where
  "served s \<longleftrightarrow>
     (\<forall>(slot, i) \<in> set (rf_entries s). \<forall>e. rf_heap s i = Some e \<longrightarrow> slot \<notin> rf_dropped s \<longrightarrow>
        en_options e \<noteq> [] \<longrightarrow> rf_native s slot = Some (en_options e, en_expires e))"

definition refresh_ok ::
  "(nat \<Rightarrow> string option) \<Rightarrow> (nat \<Rightarrow> nat) \<Rightarrow> (nat \<Rightarrow> cred_operation \<Rightarrow> rat option \<Rightarrow> slot_text \<Rightarrow> bool)
     \<Rightarrow> refresher \<Rightarrow> bool" where
  "refresh_ok identity address vends s \<longleftrightarrow>
     heap_ok s \<and> table_ok identity address s \<and> (\<forall>(slot, i) \<in> set (pending (rf_worker s)). due_ok identity address s slot i)
     \<and> worker_ok s \<and> native_ok identity address vends s \<and> served s"

lemma pending_simps [simp]:
  "pending Resting = []" "pending (Working w) = w" "pending (Vending slot i now w) = (slot, i) # w"
  "pending (Dropping slot w) = w" "pending (Removing slot w) = w" "pending (continue w) = w"
  by (simp_all add: pending_def continue_def)

lemma table_entry:
  assumes "table_ok identity address s" "(slot, i) \<in> set (rf_entries s)"
  obtains e where "rf_heap s i = Some e" "slot = slot_of identity address (rf_pid s) e"
  using assms by (auto simp: table_ok_def entry_at_def)

lemma table_slot_index:
  "table_ok identity address s \<Longrightarrow> (a, i) \<in> set (rf_entries s) \<Longrightarrow> (a, j) \<in> set (rf_entries s) \<Longrightarrow> i = j"
  by (auto simp: table_ok_def dest: eq_key_imp_eq_value)

text \<open>Updating an entry in place: only what concerns its slot changes.\<close>

definition same_owner :: "entry \<Rightarrow> entry \<Rightarrow> bool" where
  "same_owner a b \<longleftrightarrow> en_provider a = en_provider b \<and> en_operation a = en_operation b"

lemma same_owner_slot: "same_owner a b \<Longrightarrow> slot_of identity address pid a = slot_of identity address pid b"
  by (simp add: same_owner_def slot_of_def)

lemma set_entry_shape:
  assumes "rf_heap s i = Some e" "same_owner e' e"
  shows "heap_ok (set_entry i e' s) = heap_ok s" "table_ok identity address (set_entry i e' s) = table_ok identity address s"
    and "due_ok identity address (set_entry i e' s) = due_ok identity address s"
    and "worker_ok (set_entry i e' s) = worker_ok s"
proof -
  have prov: "en_provider e' = en_provider e" using assms(2) by (simp add: same_owner_def)
  have at: "entry_at identity address (set_entry i e' s) = entry_at identity address s"
    using assms same_owner_slot [OF assms(2)]
    by (intro ext) (auto simp: entry_at_def set_entry_def)
  show "heap_ok (set_entry i e' s) = heap_ok s"
    using assms(1) prov by (auto simp: heap_ok_def set_entry_def)
  show "table_ok identity address (set_entry i e' s) = table_ok identity address s"
    by (simp add: table_ok_def at) (simp add: set_entry_def)
  show "due_ok identity address (set_entry i e' s) = due_ok identity address s"
    using assms same_owner_slot [OF assms(2)] prov by (intro ext) (auto simp: due_ok_def set_entry_def)
  show "worker_ok (set_entry i e' s) = worker_ok s"
    using assms(1) prov by (auto simp: worker_ok_def set_entry_def split: worker.splits)
qed

lemma native_shape:
  "heap_ok (s\<lparr>rf_native := n\<rparr>) = heap_ok s" "table_ok identity address (s\<lparr>rf_native := n\<rparr>) = table_ok identity address s"
  "due_ok identity address (s\<lparr>rf_native := n\<rparr>) = due_ok identity address s"
  "worker_ok (s\<lparr>rf_native := n\<rparr>) = worker_ok s"
  by (auto simp: heap_ok_def table_ok_def entry_at_def due_ok_def worker_ok_def fun_eq_iff split: worker.splits)

lemma touch_ok:
  assumes "refresh_ok identity address vends s" "rf_heap s i = Some e" "same_owner e' e"
    and "en_options e' = en_options e" "en_expires e' = en_expires e"
  shows "refresh_ok identity address vends (set_entry i e' s)"
proof -
  have "served (set_entry i e' s)"
    using assms by (fastforce simp: refresh_ok_def served_def set_entry_def)
  moreover have "native_ok identity address vends (set_entry i e' s)"
    using assms(1) by (simp add: refresh_ok_def native_ok_def set_entry_def)
  moreover have "rf_worker (set_entry i e' s) = rf_worker s" by (simp add: set_entry_def)
  ultimately show ?thesis
    using assms(1) by (simp add: refresh_ok_def set_entry_shape [OF assms(2,3)])
qed

lemma publish_ok:
  assumes ok: "refresh_ok identity address vends s" and e: "rf_heap s i = Some e0" "same_owner e e0"
    and inn: "(slot, i) \<in> set (rf_entries s) \<or> slot \<in> rf_dropped s"
    and slot: "slot = slot_of identity address (rf_pid s) e0"
    and v: "slot = slot_identity (identity q) (address q) p pid" "vends q p expires opts"
  shows "refresh_ok identity address vends (publish slot i e expires opts now s)"
proof -
  let ?e = "e\<lparr>en_options := opts, en_expires := expires, en_published := now, en_due := due_at expires now now\<rparr>"
  let ?n = "s\<lparr>rf_native := (rf_native s)(slot := Some (opts, expires))\<rparr>"
  have own: "same_owner ?e e0" using e(2) by (simp add: same_owner_def)
  have h: "rf_heap ?n i = Some e0" using e(1) by simp
  have t: "table_ok identity address s" using ok by (simp add: refresh_ok_def)
  have "served (set_entry i ?e ?n)"
    unfolding served_def
  proof (safe)
    fix k j d
    assume a: "(k, j) \<in> set (rf_entries (set_entry i ?e ?n))" "rf_heap (set_entry i ?e ?n) j = Some d"
      "k \<notin> rf_dropped (set_entry i ?e ?n)" "en_options d \<noteq> []"
    then have k: "(k, j) \<in> set (rf_entries s)" "k \<notin> rf_dropped s" by (simp_all add: set_entry_def)
    show "rf_native (set_entry i ?e ?n) k = Some (en_options d, en_expires d)"
    proof (cases "j = i")
      case True
      then have "k = slot" using k(1) t slot e(1) by (auto simp: table_ok_def entry_at_def)
      then show ?thesis using a(2) True by (auto simp: set_entry_def)
    next
      case False
      then have "k \<noteq> slot" using inn k table_slot_index [OF t] by blast
      then show ?thesis
        using a False k ok by (fastforce simp: set_entry_def refresh_ok_def served_def)
    qed
  qed
  moreover have "native_ok identity address vends (set_entry i ?e ?n)"
    using ok v by (auto simp: refresh_ok_def native_ok_def set_entry_def)
  moreover have "rf_worker (set_entry i ?e ?n) = rf_worker s" by (simp add: set_entry_def)
  ultimately show ?thesis
    using ok by (simp add: publish_def refresh_ok_def set_entry_shape [OF h own] native_shape)
qed

section \<open>Every step keeps it\<close>

lemma refresh_okD:
  assumes "refresh_ok identity address vends s"
  shows "heap_ok s" "table_ok identity address s" "worker_ok s" "native_ok identity address vends s" "served s"
    and "\<And>slot i. (slot, i) \<in> set (pending (rf_worker s)) \<Longrightarrow> due_ok identity address s slot i"
  using assms by (auto simp: refresh_ok_def)

text \<open>Turning to other work, all of it due.\<close>

lemma turn_ok:
  assumes "refresh_ok identity address vends s" "rf_pid s = rf_os_pid s \<or> w = Resting"
    and "\<And>slot i. (slot, i) \<in> set (pending w) \<Longrightarrow> due_ok identity address s slot i"
    and "\<And>slot i now rest. w = Vending slot i now rest \<Longrightarrow> \<exists>e. rf_heap s i = Some e \<and> en_provider e \<in> rf_live s"
    and "\<And>slot rest. w = Removing slot rest \<Longrightarrow> slot \<in> rf_dropped s"
  shows "refresh_ok identity address vends (turn w s)"
proof -
  note d = refresh_okD [OF assms(1)]
  have "worker_ok (turn w s)"
    using assms(2,4,5) d(3) by (auto simp: worker_ok_def turn_def split: worker.splits)
  moreover have "due_ok identity address (turn w s) = due_ok identity address s"
    by (intro ext) (simp add: due_ok_def turn_def)
  moreover have "heap_ok (turn w s)" "table_ok identity address (turn w s)" "native_ok identity address vends (turn w s)"
    "served (turn w s)"
    using d by (simp_all add: heap_ok_def table_ok_def entry_at_def native_ok_def served_def turn_def)
  moreover have "rf_worker (turn w s) = w" by (simp add: turn_def)
  ultimately show ?thesis using assms(3) by (auto simp: refresh_ok_def)
qed

lemma continue_ok:
  assumes "refresh_ok identity address vends s" "rf_worker s \<noteq> Resting"
    and "set rest \<subseteq> set (pending (rf_worker s))"
  shows "refresh_ok identity address vends (turn (continue rest) s)"
proof (rule turn_ok [OF assms(1)])
  show "rf_pid s = rf_os_pid s \<or> continue rest = Resting"
    using refresh_okD(3) [OF assms(1)] assms(2) by (simp add: worker_ok_def)
  show "\<And>slot i. (slot, i) \<in> set (pending (continue rest)) \<Longrightarrow> due_ok identity address s slot i"
    using refresh_okD(6) [OF assms(1)] assms(3) by auto
qed (simp_all add: continue_def split: if_splits)

lemma live_ok:
  assumes "refresh_ok identity address vends s"
  shows "q \<notin> rf_gone s \<Longrightarrow> refresh_ok identity address vends (s\<lparr>rf_live := insert q (rf_live s)\<rparr>)"
  using assms
  by (auto simp: refresh_ok_def heap_ok_def table_ok_def entry_at_def due_ok_def worker_ok_def native_ok_def served_def
      split: worker.splits)

lemma gone_ok:
  assumes ok: "refresh_ok identity address vends s" and q: "q \<in> rf_live s" "\<not> busy_with s q"
  shows "refresh_ok identity address vends (s\<lparr>rf_live := rf_live s - {q}, rf_gone := insert q (rf_gone s)\<rparr>)"
    (is "refresh_ok _ _ _ ?s")
proof -
  note d = refresh_okD [OF ok]
  have "due_ok identity address s slot i \<Longrightarrow> due_ok identity address ?s slot i" for slot i
    by (auto simp: due_ok_def)
  moreover have "worker_ok ?s"
    using d(3) q(2) by (auto simp: worker_ok_def busy_with_def split: worker.splits)
  moreover have "heap_ok ?s" "table_ok identity address ?s" "native_ok identity address vends ?s" "served ?s"
    using d q by (auto simp: heap_ok_def table_ok_def entry_at_def native_ok_def served_def)
  ultimately show ?thesis using d(6) by (auto simp: refresh_ok_def)
qed

lemma fork_ok:
  assumes "refresh_ok identity address vends s"
  shows "refresh_ok identity address vends (turn Resting (s\<lparr>rf_os_pid := pid\<rparr>))"
  using assms
  by (auto simp: refresh_ok_def heap_ok_def table_ok_def entry_at_def worker_ok_def native_ok_def served_def turn_def)

lemma pop_ok:
  assumes ok: "refresh_ok identity address vends s" and w: "rf_worker s = Dropping slot rest"
  shows "refresh_ok identity address vends (turn (Removing slot rest) (pop_slot slot s))"
proof -
  note d = refresh_okD [OF ok]
  let ?s = "pop_slot slot s"
  have due: "due_ok identity address s k i \<Longrightarrow> due_ok identity address ?s k i" for k i
    by (auto simp: due_ok_def pop_slot_def)
  have "refresh_ok identity address vends ?s"
  proof -
    have "table_ok identity address ?s"
      using d(2) by (auto simp: table_ok_def entry_at_def pop_slot_def distinct_map_filter)
    moreover have "heap_ok ?s" "native_ok identity address vends ?s" "served ?s" "worker_ok ?s"
      using d w by (auto simp: heap_ok_def native_ok_def served_def worker_ok_def pop_slot_def)
    moreover have "rf_worker ?s = rf_worker s" by (simp add: pop_slot_def)
    ultimately show ?thesis using d(6) due by (auto simp: refresh_ok_def)
  qed
  then show ?thesis
  proof (rule turn_ok)
    show "rf_pid ?s = rf_os_pid ?s \<or> Removing slot rest = Resting"
      using d(3) w by (simp add: worker_ok_def pop_slot_def)
    show "\<And>k i. (k, i) \<in> set (pending (Removing slot rest)) \<Longrightarrow> due_ok identity address ?s k i"
      using d(6) due w by simp
  qed (simp_all add: pop_slot_def)
qed

lemma remove_ok:
  assumes ok: "refresh_ok identity address vends s" and w: "rf_worker s = Removing slot rest"
  shows "refresh_ok identity address vends (remove_slot slot s)"
proof -
  note d = refresh_okD [OF ok]
  have "slot \<in> rf_dropped s" using d(3) w by (simp add: worker_ok_def)
  then have "served (remove_slot slot s)" using d(5) by (auto simp: served_def remove_slot_def)
  moreover have "native_ok identity address vends (remove_slot slot s)"
    using d(4) by (simp add: native_ok_def remove_slot_def)
  moreover have "rf_worker (remove_slot slot s) = rf_worker s" by (simp add: remove_slot_def)
  ultimately show ?thesis
    using ok unfolding refresh_ok_def by (simp add: native_shape) (simp add: remove_slot_def native_shape)
qed

lemma after_fork_ok:
  assumes "refresh_ok identity address vends s"
  shows "refresh_ok identity address vends (after_fork s)" "rf_pid (after_fork s) = rf_os_pid s"
    "rf_live (after_fork s) = rf_live s" "rf_os_pid (after_fork s) = rf_os_pid s"
proof -
  note d = refresh_okD [OF assms]
  show "refresh_ok identity address vends (after_fork s)"
  proof (cases "rf_pid s = rf_os_pid s")
    case True
    then show ?thesis using assms by (simp add: after_fork_def)
  next
    case False
    then have "rf_worker s = Resting" using d(3) by (auto simp: worker_ok_def)
    then show ?thesis
      using d False
      by (auto simp: after_fork_def refresh_ok_def heap_ok_def table_ok_def native_ok_def served_def worker_ok_def)
  qed
qed (simp_all add: after_fork_def)

text \<open>The entry a call of \<open>track\<close> makes when it finds none that is live.\<close>

lemma insert_ok:
  assumes ok: "refresh_ok identity address vends s" and q: "q \<in> rf_live s"
    and slot: "slot = slot_of identity address (rf_pid s) (new_entry q p now)"
    and old: "\<And>i e. find_entry slot s = Some (i, e) \<Longrightarrow> en_provider e \<notin> rf_live s"
  shows "refresh_ok identity address vends
    (set_entry (rf_next s) (new_entry q p now)
      (s\<lparr>rf_entries := dict_set slot (rf_next s) (rf_entries s), rf_next := Suc (rf_next s)\<rparr>))" (is "refresh_ok _ _ _ ?s")
proof -
  note d = refresh_okD [OF ok]
  have fresh: "rf_heap s (rf_next s) = None"
    using d(1) by (cases "rf_heap s (rf_next s)") (auto simp: heap_ok_def)
  have mem: "(k, j) \<in> set (rf_entries ?s) \<longleftrightarrow> (k = slot \<and> j = rf_next s) \<or> (k \<noteq> slot \<and> (k, j) \<in> set (rf_entries s))" for k j
  proof -
    have dist: "distinct (map fst (rf_entries s))" using d(2) by (simp add: table_ok_def)
    show ?thesis
      using map_of_eq_Some_iff [OF dict_set_distinct [OF dist], of slot "rf_next s" k j] map_of_eq_Some_iff [OF dist, of k j]
      by (auto simp: set_entry_def map_of_dict_set split: if_splits)
  qed
  have heap: "rf_heap ?s j = (if j = rf_next s then Some (new_entry q p now) else rf_heap s j)" for j
    by (simp add: set_entry_def)
  have idx: "(k, j) \<in> set (rf_entries s) \<Longrightarrow> j \<noteq> rf_next s" for k j
    using d(2) fresh by (auto simp: table_ok_def entry_at_def)
  have "table_ok identity address ?s"
  proof -
    have "distinct (map fst (rf_entries ?s))"
      using d(2) by (simp add: table_ok_def set_entry_def dict_set_distinct)
    moreover have "entry_at identity address ?s k j" if "(k, j) \<in> set (rf_entries ?s)" for k j
    proof (cases "j = rf_next s")
      case True
      then have "k = slot" using that idx unfolding mem by auto
      then show ?thesis using True slot by (simp add: entry_at_def heap) (simp add: set_entry_def)
    next
      case False
      then have "entry_at identity address s k j" using that d(2) unfolding mem by (auto simp: table_ok_def)
      then show ?thesis using False by (simp add: entry_at_def heap) (simp add: set_entry_def)
    qed
    ultimately show ?thesis by (auto simp: table_ok_def)
  qed
  moreover have "heap_ok ?s"
    using d(1) q unfolding heap_ok_def heap
    by (auto simp: set_entry_def new_entry_def intro: less_SucI split: if_splits)
  moreover have "due_ok identity address ?s k j" if "due_ok identity address s k j" for k j
  proof -
    obtain e where e: "rf_heap s j = Some e" "k = slot_of identity address (rf_pid s) e"
        "(k, j) \<in> set (rf_entries s) \<or> k \<in> rf_dropped s \<or> en_provider e \<in> rf_gone s"
      using \<open>due_ok identity address s k j\<close> unfolding due_ok_def by blast
    have "en_provider e \<in> rf_gone s" if "(k, j) \<in> set (rf_entries s)" "k = slot"
    proof -
      have "map_of (rf_entries s) slot = Some j" using that d(2) by (simp add: table_ok_def)
      then have "find_entry slot s = Some (j, e)" using e(1) by (simp add: find_entry_def)
      then show ?thesis using old d(1) e(1) by (auto simp: heap_ok_def)
    qed
    then show ?thesis
      using e fresh by (auto simp: due_ok_def heap mem) (auto simp: set_entry_def)
  qed
  moreover have "worker_ok ?s"
    using d(3) fresh by (auto simp: worker_ok_def set_entry_def split: worker.splits)
  moreover have "native_ok identity address vends ?s" using d(4) by (simp add: native_ok_def set_entry_def)
  moreover have "served ?s"
  proof -
    have "rf_native ?s k = Some (en_options e, en_expires e)"
      if "(k, j) \<in> set (rf_entries ?s)" "rf_heap ?s j = Some e" "k \<notin> rf_dropped ?s" "en_options e \<noteq> []" for k j e
      using that d(5) idx unfolding mem heap
      by (auto simp: served_def set_entry_def new_entry_def split: if_splits)
    then show ?thesis unfolding served_def by blast
  qed
  moreover have "rf_worker ?s = rf_worker s" by (simp add: set_entry_def)
  ultimately show ?thesis using d(6) by (auto simp: refresh_ok_def)
qed

lemma find_entry_Some:
  assumes "table_ok identity address s" "find_entry slot s = Some (i, e)"
  shows "(slot, i) \<in> set (rf_entries s)" "rf_heap s i = Some e" "slot = slot_of identity address (rf_pid s) e"
proof -
  have m: "map_of (rf_entries s) slot = Some i" "rf_heap s i = Some e"
    using assms(2) by (auto simp: find_entry_def bind_eq_Some_conv)
  then show "(slot, i) \<in> set (rf_entries s)" "rf_heap s i = Some e" by (auto dest: map_of_SomeD)
  then show "slot = slot_of identity address (rf_pid s) e"
    using table_entry [OF assms(1)] m(2) by (metis option.inject)
qed

text \<open>An entry found live, or just made, is stamped and published in place.\<close>

lemma stamp_ok:
  assumes ok: "refresh_ok identity address vends s" and e: "rf_heap s i = Some e" "(slot, i) \<in> set (rf_entries s)"
    and slot: "slot = slot_of identity address (rf_pid s) e"
    and v: "slot = slot_identity (identity q) (address q) p pid" "vends q p expires opts"
  shows "refresh_ok identity address vends
    (if same_options opts (en_options e) then set_entry i (e\<lparr>en_used := now\<rparr>) s
     else publish slot i (e\<lparr>en_used := now\<rparr>) expires opts now s)"
  using touch_ok [OF ok e(1), of "e\<lparr>en_used := now\<rparr>"]
    publish_ok [OF ok e(1) _ _ slot v, of "e\<lparr>en_used := now\<rparr>"] e(2)
  by (simp add: same_owner_def)

lemma set_entry_twice: "set_entry i a (set_entry i b s) = set_entry i a s"
  by (simp add: set_entry_def)

lemma publish_over: "publish slot i e x opts now (set_entry i b s) = publish slot i e x opts now s"
  by (simp add: publish_def set_entry_def)

lemma track_ok:
  assumes ok: "refresh_ok identity address vends s" and q: "q \<in> rf_live s" and v: "vends q p expires opts"
  shows "refresh_ok identity address vends (fst (track identity address q p expires opts now s))"
proof -
  let ?s = "after_fork s"
  define slot where "slot = slot_identity (identity q) (address q) p (rf_os_pid s)"
  note f = after_fork_ok [OF ok]
  have t: "table_ok identity address ?s" using refresh_okD(2) [OF f(1)] .
  have "refresh_ok identity address vends (track_in slot q p expires opts now ?s)"
  proof (cases "\<exists>i e. find_entry slot ?s = Some (i, e) \<and> en_provider e \<in> rf_live ?s")
    case True
    then obtain i e where e: "find_entry slot ?s = Some (i, e)" "en_provider e \<in> rf_live ?s" by blast
    note fe = find_entry_Some [OF t e(1)]
    show ?thesis
      using stamp_ok [OF f(1) fe(2,1,3) slot_def v, of now] e
      by (simp add: track_in_def Let_def)
  next
    case False
    let ?e = "new_entry q p now" and ?i = "rf_next ?s"
    let ?t = "?s\<lparr>rf_entries := dict_set slot ?i (rf_entries ?s), rf_next := Suc ?i\<rparr>"
    have so: "slot = slot_of identity address (rf_pid ?s) ?e"
      using f(2) by (simp add: slot_def slot_of_def new_entry_def)
    have n: "refresh_ok identity address vends (set_entry ?i ?e ?t)"
      by (rule insert_ok [OF f(1) _ so]) (use q f(3) False in auto)
    have m: "rf_heap (set_entry ?i ?e ?t) ?i = Some ?e" "(slot, ?i) \<in> set (rf_entries (set_entry ?i ?e ?t))"
      "slot = slot_of identity address (rf_pid (set_entry ?i ?e ?t)) ?e"
      using so by (auto simp: set_entry_def dest!: map_of_SomeD intro!: map_of_SomeD simp: map_of_dict_set)
    have "track_in slot q p expires opts now ?s =
        (if same_options opts (en_options ?e) then set_entry ?i (?e\<lparr>en_used := now\<rparr>) ?t
         else publish slot ?i (?e\<lparr>en_used := now\<rparr>) expires opts now ?t)"
      using False by (auto simp: track_in_def Let_def split: option.splits)
    then show ?thesis
      using stamp_ok [OF n m slot_def v, of now] unfolding set_entry_twice publish_over by simp
  qed
  then show ?thesis by (simp add: track_def Let_def slot_def)
qed

lemma woke_ok:
  assumes ok: "refresh_ok identity address vends s" and w: "rf_pid s = rf_os_pid s"
  shows "refresh_ok identity address vends (turn (continue (due_entries now s)) s)"
proof (rule turn_ok [OF ok])
  fix slot i
  assume "(slot, i) \<in> set (pending (continue (due_entries now s)))"
  then have m: "(slot, i) \<in> set (rf_entries s)" by (auto simp: due_entries_def)
  then show "due_ok identity address s slot i"
    using table_entry [OF refresh_okD(2) [OF ok] m] by (auto simp: due_ok_def)
qed (use w in \<open>auto simp: continue_def split: if_splits\<close>)

lemma examined_ok:
  assumes ok: "refresh_ok identity address vends s" and w: "rf_worker s = Working ((slot, i) # rest)" "rf_heap s i = Some e"
  shows "refresh_ok identity address vends (turn (examine slot i e now rest s) s)"
proof (rule turn_ok [OF ok])
  show "rf_pid s = rf_os_pid s \<or> examine slot i e now rest s = Resting"
    using refresh_okD(3) [OF ok] w(1) by (simp add: worker_ok_def)
  show "\<And>k j. (k, j) \<in> set (pending (examine slot i e now rest s)) \<Longrightarrow> due_ok identity address s k j"
    using refresh_okD(6) [OF ok] w(1) by (auto simp: examine_def split: if_splits)
qed (use w in \<open>auto simp: examine_def split: if_splits\<close>)

lemma failed_ok:
  assumes "refresh_ok identity address vends s" "rf_heap s i = Some e"
  shows "refresh_ok identity address vends (vend_retried i e now s)"
  unfolding vend_retried_def by (rule touch_ok [OF assms]) (simp_all add: same_owner_def)

lemma answered_ok:
  assumes ok: "refresh_ok identity address vends s"
    and w: "rf_worker s = Vending slot i now rest" "rf_heap s i = Some e"
    and v: "vends (en_provider e) (en_operation e) expires opts"
  shows "refresh_ok identity address vends (vend_answered slot i e expires opts now s)"
proof -
  have "due_ok identity address s slot i" using refresh_okD(6) [OF ok] w(1) by simp
  then have due: "slot = slot_of identity address (rf_pid s) e"
      "(slot, i) \<in> set (rf_entries s) \<or> slot \<in> rf_dropped s \<or> en_provider e \<in> rf_gone s"
    using w(2) by (auto simp: due_ok_def)
  have "en_provider e \<notin> rf_gone s"
    using refresh_okD(1,3) [OF ok] w by (auto simp: worker_ok_def heap_ok_def)
  then show ?thesis
    using publish_ok [OF ok w(2) _ _ due(1) due(1) [unfolded slot_of_def] v, of e] due(2) failed_ok [OF ok w(2)]
    by (simp add: vend_answered_def same_owner_def)
qed

lemma worker_after:
  "rf_worker (vend_retried i e now s) = rf_worker s" "rf_worker (vend_answered slot i e x opts now s) = rf_worker s"
  "rf_worker (remove_slot slot s) = rf_worker s"
  by (simp_all add: vend_retried_def vend_answered_def publish_def set_entry_def remove_slot_def)

lemma refresh_step_ok:
  assumes "refresh_step identity address vends s s'" "refresh_ok identity address vends s"
  shows "refresh_ok identity address vends s'"
  using assms(1)
proof cases
  case (born q)
  then show ?thesis using live_ok [OF assms(2)] by simp
next
  case (collected q)
  then show ?thesis using gone_ok [OF assms(2)] by simp
next
  case (forked pid)
  then show ?thesis using fork_ok [OF assms(2)] by simp
next
  case (tracked q p expires opts now)
  then show ?thesis using track_ok [OF assms(2)] by simp
next
  case (woke now)
  then show ?thesis using woke_ok [OF assms(2)] by simp
next
  case (examined slot i rest e now)
  then show ?thesis using examined_ok [OF assms(2)] by simp
next
  case (vend_raised slot i now rest e)
  then show ?thesis
    using continue_ok [OF failed_ok [OF assms(2)], of i e now rest] by (simp add: worker_after subset_insertI)
next
  case (vend_returned slot i now rest e expires opts)
  then show ?thesis
    using continue_ok [OF answered_ok [OF assms(2)], of slot i now rest e expires opts rest]
    by (simp add: worker_after subset_insertI)
next
  case (popped slot rest)
  then show ?thesis using pop_ok [OF assms(2)] by simp
next
  case (removed slot rest)
  then show ?thesis
    using continue_ok [OF remove_ok [OF assms(2)], of slot rest rest] by (simp add: worker_after)
qed

lemma refresh_reached_ok: "refresh_reached identity address vends s \<Longrightarrow> refresh_ok identity address vends s"
proof (induction rule: refresh_reached.induct)
  case (init pid)
  then show ?case
    by (simp add: refresh_ok_def new_refresher_def heap_ok_def table_ok_def worker_ok_def native_ok_def served_def)
next
  case (next_step s s')
  then show ?case using refresh_step_ok by blast
qed

section \<open>Names of slots\<close>

lemma last_mark:
  assumes "u @ x # a = v @ x # b" "x \<notin> set a" "x \<notin> set b"
  shows "u = v \<and> a = b"
proof -
  have t: "takeWhile (\<lambda>c. c \<noteq> x) (rev (w @ x # d)) = rev d" if "x \<notin> set d" for w d
  proof -
    have "takeWhile (\<lambda>c. c \<noteq> x) (rev d @ x # rev w) = rev d @ takeWhile (\<lambda>c. c \<noteq> x) (x # rev w)"
      by (rule takeWhile_append2) (use that in auto)
    then show ?thesis by simp
  qed
  have "rev a = rev b" using t [OF assms(2), of u] t [OF assms(3), of v] assms(1) by simp
  then show ?thesis using assms(1) by simp
qed

lemma digits_no_colon: "colon \<notin> set (nat_text 10 n)"
  using nat_text_digits [of n] by (auto simp: list_all_iff ascii_digit_def)

lemma operation_no_colon: "colon \<notin> set (operation_value p)"
  by (cases p) (simp_all add: operation_value_def)

lemma operation_value_inj: "operation_value p = operation_value q \<Longrightarrow> p = q"
  by (metis operation_value_back option.inject)

definition named :: "string option \<Rightarrow> bool" where
  "named k \<longleftrightarrow> k \<noteq> None \<and> k \<noteq> Some []"

lemma slot_identity_inj:
  assumes "slot_identity k a p m = slot_identity j b q n" "named k" "named j"
  shows "k = j \<and> p = q \<and> m = n"
proof -
  obtain s t where st: "k = Some s" "j = Some t" "s \<noteq> []" "t \<noteq> []"
    using assms(2,3) by (auto simp: named_def)
  have "(s @ colon # operation_value p) @ colon # nat_text 10 m = (t @ colon # operation_value q) @ colon # nat_text 10 n"
    using assms(1) st by (simp add: slot_identity_def)
  note first = last_mark [OF this digits_no_colon digits_no_colon]
  have e: "s @ colon # operation_value p = t @ colon # operation_value q" "nat_text 10 m = nat_text 10 n"
    using first by simp_all
  note second = last_mark [OF e(1) operation_no_colon operation_no_colon]
  have "s = t" "operation_value p = operation_value q"
    using second by simp_all
  then show ?thesis using st e(2) nat_text_inj operation_value_inj by blast
qed

section \<open>Properties\<close>

text \<open>C33: a slot never holds a credential of another provider's or another operation's: whatever the
  callers, the thread, forks and dying providers do, in any order, what is published under an
  identity's slot was vended by a provider of that identity, for that operation.\<close>

theorem slot_isolation:
  assumes "refresh_reached identity address vends s" "\<forall>q. named (identity q)" "named (Some k)"
    and "rf_native s (slot_identity (Some k) a p pid) = Some (opts, expires)"
  shows "\<exists>q. identity q = Some k \<and> vends q p expires opts"
proof -
  have "native_ok identity address vends s" using refresh_okD(4) [OF refresh_reached_ok [OF assms(1)]] .
  then obtain q p' pid' where q: "slot_identity (Some k) a p pid = slot_identity (identity q) (address q) p' pid'"
      "vends q p' expires opts"
    using assms(4) unfolding native_ok_def by blast
  then show ?thesis using slot_identity_inj [OF q(1) assms(3)] assms(2) by auto
qed

text \<open>C34: while a tracked slot has never been dropped, the extension serves exactly the options and
  expiry its entry was last given.\<close>

theorem tracked_slot_served:
  assumes "refresh_reached identity address vends s"
    and "(slot, i) \<in> set (rf_entries s)" "rf_heap s i = Some e"
    and "slot \<notin> rf_dropped s" "en_options e \<noteq> []"
  shows "rf_native s slot = Some (en_options e, en_expires e)"
  using refresh_okD(5) [OF refresh_reached_ok [OF assms(1)]] assms(2-) by (fastforce simp: served_def)

text \<open>C35: a published credential is due for its refresh, and a failed refresh for its retry, at least a
  second later.  While two seconds of its life are left both are due before it expires: the
  refresh at most five minutes ahead of the expiry, the retry at most half a minute from now.
  With less life left, or none, both are due in one second.\<close>

theorem refresh_before_expiry:
  "(\<exists>d. due_at (Some e) now now = Some d \<and> now + 1 \<le> d
      \<and> (if now + 2 \<le> e then d < e \<and> e - d \<le> 300 else d = now + 1))
   \<and> (\<exists>d. retry_at (Some e) now = Some d \<and> now + 1 \<le> d \<and> d \<le> now + 30
      \<and> (if now + 2 \<le> e then d < e else d = now + 1))"
proof (intro conjI)
  define h where "h = (e - now) / 2"
  have h: "e = now + 2 * h" by (simp add: h_def field_simps)
  show "\<exists>d. due_at (Some e) now now = Some d \<and> now + 1 \<le> d
      \<and> (if now + 2 \<le> e then d < e \<and> e - d \<le> 300 else d = now + 1)"
    by (simp add: due_at_def refresh_ahead_def Let_def h min_def max_def)
  define left where "left = (if e = 0 then now else e) - now"
  define w where "w = min 30 (max 1 (left / 4))"
  have w: "1 \<le> w" "w \<le> 30" by (auto simp: w_def)
  have "w < e - now" if "now + 2 \<le> e"
  proof -
    have "max 1 (left / 4) < e - now" using that by (auto simp: left_def)
    then show ?thesis unfolding w_def by linarith
  qed
  moreover have "w = 1" if "\<not> now + 2 \<le> e" using that by (auto simp: w_def left_def)
  moreover have "retry_at (Some e) now = Some (now + w)"
    by (simp add: retry_at_def retry_seconds_def Let_def w_def left_def)
  ultimately show "\<exists>d. retry_at (Some e) now = Some d \<and> now + 1 \<le> d \<and> d \<le> now + 30
      \<and> (if now + 2 \<le> e then d < e else d = now + 1)"
    using w by auto
qed

section \<open>Witnesses\<close>

definition sample_identity :: "nat \<Rightarrow> string option" where
  "sample_identity q = Some ''dbx''"

definition sample_vends :: "nat \<Rightarrow> cred_operation \<Rightarrow> rat option \<Rightarrow> slot_text \<Rightarrow> bool" where
  "sample_vends q p e o1 \<longleftrightarrow> e = Some 400 \<and> o1 = [(''k'', ''v'')]"

definition sample_slot :: string where
  "sample_slot = slot_identity (Some ''dbx'') 0 READ 7"

definition sample_track :: "nat \<Rightarrow> rat \<Rightarrow> refresher \<Rightarrow> refresher" where
  "sample_track q now s = fst (track sample_identity (\<lambda>_. 0) q READ (Some 400) [(''k'', ''v'')] now s)"

definition alive :: "nat \<Rightarrow> refresher \<Rightarrow> refresher" where
  "alive q s = s\<lparr>rf_live := insert q (rf_live s)\<rparr>"

definition after_first_track :: refresher where
  "after_first_track = sample_track 0 0 (alive 0 (new_refresher 7))"

abbreviation sample_reached :: "refresher \<Rightarrow> bool" where
  "sample_reached \<equiv> refresh_reached sample_identity (\<lambda>_. 0) sample_vends"

lemma reached_alive: "sample_reached s \<Longrightarrow> q \<notin> rf_gone s \<Longrightarrow> sample_reached (alive q s)"
  unfolding alive_def by (rule refresh_reached.next_step [OF _ refresh_step.born])

lemma reached_track: "sample_reached s \<Longrightarrow> q \<in> rf_live s \<Longrightarrow> sample_reached (sample_track q now s)"
  unfolding sample_track_def
  by (rule refresh_reached.next_step [OF _ refresh_step.tracked]) (simp_all add: sample_vends_def)

lemma first_track_reached: "sample_reached after_first_track"
  unfolding after_first_track_def
  by (intro reached_track reached_alive refresh_reached.init) (simp_all add: new_refresher_def alive_def)

lemma sample_track_new:
  assumes "rf_pid s = rf_os_pid s" "rf_os_pid s = 7" "map_of (rf_entries s) sample_slot = None"
  shows "sample_track q now s =
    publish sample_slot (rf_next s) (new_entry q READ now) (Some 400) [(''k'', ''v'')] now
      (s\<lparr>rf_entries := dict_set sample_slot (rf_next s) (rf_entries s), rf_next := Suc (rf_next s)\<rparr>)"
proof -
  have i: "slot_identity (sample_identity q) 0 READ 7 = sample_slot" by (simp add: sample_slot_def sample_identity_def)
  have f: "find_entry sample_slot s = None" using assms(3) by (simp add: find_entry_def)
  show ?thesis
    using assms by (simp add: sample_track_def track_def track_in_def after_fork_def i f Let_def same_options_def new_entry_def)
qed

lemma first_track_facts:
  "rf_entries after_first_track = [(sample_slot, 0)]"
  "rf_native after_first_track sample_slot = Some ([(''k'', ''v'')], Some 400)"
  "rf_dropped after_first_track = {}" "rf_gone after_first_track = {}" "rf_live after_first_track = {0}"
  "rf_worker after_first_track = Resting" "rf_pid after_first_track = 7" "rf_os_pid after_first_track = 7"
  "rf_next after_first_track = 1"
  "rf_heap after_first_track 0 = Some \<lparr>en_provider = 0, en_operation = READ, en_expires = Some 400, en_published = 0,
     en_used = 0, en_due = Some 200, en_options = [(''k'', ''v'')]\<rparr>"
  by (simp_all add: after_first_track_def sample_track_new alive_def new_refresher_def publish_def set_entry_def
      new_entry_def due_at_def refresh_ahead_def)

theorem slot_isolation_witness:
  "rf_native after_first_track sample_slot = Some ([(''k'', ''v'')], Some 400)
   \<and> (\<exists>q. sample_identity q = Some ''dbx'' \<and> sample_vends q READ (Some 400) [(''k'', ''v'')])"
  using slot_isolation [OF first_track_reached _ _ first_track_facts(2) [unfolded sample_slot_def]] first_track_facts(2)
  by (simp add: named_def sample_identity_def)

theorem tracked_slot_served_witness:
  "rf_entries after_first_track = [(sample_slot, 0)]
   \<and> rf_native after_first_track sample_slot = Some ([(''k'', ''v'')], Some 400)"
  using tracked_slot_served [OF first_track_reached _ first_track_facts(10), of sample_slot] first_track_facts
  by simp

theorem refresh_before_expiry_witness:
  "\<exists>d. due_at (Some 400) 0 0 = Some d \<and> d < (400::rat)"
  using refresh_before_expiry [of 400 0] by auto

section \<open>A late removal\<close>

text \<open>
  The thread takes a slot out of the table under the lock and out of the extension after it.
  A caller that tracks the slot in between publishes it, and the removal then takes the
  fresh credential away: the table holds an entry for a live provider, nothing is served,
  and tracking the same credential again publishes nothing.
\<close>

definition died :: refresher where
  "died = after_first_track\<lparr>rf_live := {}, rf_gone := {0}\<rparr>"

definition popping :: refresher where
  "popping = turn (Removing sample_slot []) (pop_slot sample_slot (turn (Dropping sample_slot [])
     (turn (Working [(sample_slot, 0)]) died)))"

definition retracked :: refresher where
  "retracked = sample_track 1 200 (alive 1 popping)"

definition unpublished :: refresher where
  "unpublished = turn Resting (remove_slot sample_slot retracked)"

lemma died_reached: "sample_reached died"
proof -
  have "refresh_step sample_identity (\<lambda>_. 0) sample_vends after_first_track
      (after_first_track\<lparr>rf_live := rf_live after_first_track - {0}, rf_gone := insert 0 (rf_gone after_first_track)\<rparr>)"
    by (rule refresh_step.collected) (simp_all add: first_track_facts busy_with_def)
  then show ?thesis
    using refresh_reached.next_step [OF first_track_reached] by (simp add: died_def first_track_facts)
qed

lemma popping_reached: "sample_reached popping"
proof -
  let ?e = "\<lparr>en_provider = 0, en_operation = READ, en_expires = Some 400, en_published = 0,
     en_used = 0, en_due = Some 200, en_options = [(''k'', ''v'')]\<rparr>"
  let ?w = "turn (Working [(sample_slot, 0)]) died"
  have "due_entries 200 died = [(sample_slot, 0)]"
    by (simp add: due_entries_def is_due_def died_def first_track_facts)
  moreover have "refresh_step sample_identity (\<lambda>_. 0) sample_vends died (turn (continue (due_entries 200 died)) died)"
    by (rule refresh_step.woke) (simp_all add: died_def first_track_facts)
  ultimately have w: "sample_reached ?w"
    using refresh_reached.next_step [OF died_reached] by (simp add: continue_def)
  have "refresh_step sample_identity (\<lambda>_. 0) sample_vends ?w (turn (examine sample_slot 0 ?e 200 [] ?w) ?w)"
    by (rule refresh_step.examined) (simp_all add: turn_def died_def first_track_facts)
  moreover have "examine sample_slot 0 ?e 200 [] ?w = Dropping sample_slot []"
    by (simp add: examine_def turn_def died_def)
  ultimately have d: "sample_reached (turn (Dropping sample_slot []) ?w)"
    using refresh_reached.next_step [OF w] by simp
  show ?thesis
    unfolding popping_def
    by (rule refresh_reached.next_step [OF d refresh_step.popped]) (simp add: turn_def)
qed

lemma retracked_facts:
  "rf_entries retracked = [(sample_slot, 1)]" "rf_worker retracked = Removing sample_slot []"
  "rf_live retracked = {1}"
  "\<exists>e. rf_heap retracked 1 = Some e \<and> en_provider e = 1 \<and> en_options e = [(''k'', ''v'')]"
  by (simp_all add: retracked_def sample_track_new alive_def popping_def turn_def pop_slot_def died_def first_track_facts
      publish_def set_entry_def new_entry_def)

lemma late_removal_unpublishes:
  "sample_reached unpublished" "rf_entries unpublished = [(sample_slot, 1)]" "rf_live unpublished = {1}"
  "rf_native unpublished sample_slot = None"
  "rf_native (sample_track 1 201 unpublished) sample_slot = None"
proof -
  have "sample_reached retracked"
    unfolding retracked_def
    by (intro reached_track reached_alive popping_reached) (simp_all add: popping_def turn_def pop_slot_def died_def alive_def)
  then show "sample_reached unpublished"
    unfolding unpublished_def
    using refresh_reached.next_step [OF _ refresh_step.removed [where rest = "[]"]] retracked_facts(2)
    by (auto simp: continue_def)
  show e: "rf_entries unpublished = [(sample_slot, 1)]" and l: "rf_live unpublished = {1}"
    using retracked_facts by (simp_all add: unpublished_def turn_def remove_slot_def)
  show n: "rf_native unpublished sample_slot = None"
    by (simp add: unpublished_def turn_def remove_slot_def)
  obtain d where d: "rf_heap unpublished 1 = Some d" "en_provider d = 1" "en_options d = [(''k'', ''v'')]"
    using retracked_facts(4) by (auto simp: unpublished_def turn_def remove_slot_def)
  have p: "rf_pid unpublished = 7" "rf_os_pid unpublished = 7"
    by (simp_all add: unpublished_def turn_def remove_slot_def retracked_def sample_track_new alive_def popping_def
        pop_slot_def died_def first_track_facts publish_def set_entry_def)
  have i: "slot_identity (sample_identity q) 0 READ 7 = sample_slot" for q by (simp add: sample_slot_def sample_identity_def)
  show "rf_native (sample_track 1 201 unpublished) sample_slot = None"
    using e l n d p
    by (simp add: sample_track_def track_def track_in_def after_fork_def i find_entry_def Let_def same_options_def set_entry_def)
qed

end
