(* ===== verification/Spec2Isabelle.thy ===== *)
theory Spec2Isabelle
  imports Meta_Claims Meta_Commit Sql_Statements Identity_Runs Pred_Roundtrip Pred_Kernel Router_Advice Calendar_Values Storage_Options Cred_Cache Cred_Refresh
begin

text \<open>
  deltaswamp reads and writes Delta tables through several engines: the compiled delta kernel,
  delta-rs, a SQL warehouse, and engines for Iceberg tables and Delta Sharing.  A call of the
  user names a table (\<open>identity.py\<close>); a catalog resolves the name to a table's metadata
  (\<open>catalog/base.py\<close>) and vends credentials for its storage (\<open>credentials/\<close>); the router
  (\<open>router.py\<close>) asks the engines, by the conformance matrix (\<open>capability.py\<close>) and by rules of
  its own, which of them may serve the operation; the engine scans or writes, with the files a
  predicate cannot match skipped (\<open>predicate.py\<close>), with storage options merged from caller,
  catalog and environment (\<open>_storage.py\<close>), and never through a writer that would shift old dates
  (\<open>engine/calendar.py\<close>).  A change of a table's schema, properties or layout is computed from its
  newest state and committed where no one else has (\<open>engine/metadata.py\<close>, \<open>engine/kernel.py\<close>), or
  sent as SQL to a warehouse (\<open>engine/sql.py\<close>).  These decisions are what is modelled; the
  paths are under \<open>src/python/deltaswamp\<close>.

  Theories, bottom up:
  \<^item> \<open>Py_Prelude\<close>: Python's text operations, results (\<open>error + 'a\<close>) and the interfaces
    \<open>name_codec\<close> (quoting and splitting names), \<open>memo_cache\<close> and \<open>bounded_cache\<close>.
    \<open>Py_Numbers\<close>: decimal literals, doubles as an interval of rationals, printing of integers.
    \<open>Py_Datetime\<close>: dates, timestamps and \<open>fromisoformat\<close>.  \<open>Py_Data\<close>: dicts in insertion order,
    JSON values.
  \<^item> \<open>Identity\<close>: \<open>identity.py\<close>.  A reference that parses is well formed, printing a name and
    parsing it gives it back (through an interpretation of \<open>name_codec\<close>), parsing always returns.
  \<^item> \<open>Pred_Syntax\<close>, \<open>Pred_Parse\<close>: the lexer and the recursive descent parser, its token cursor a
    list.  Recursion is by fuel \<open>parse_fuel\<close>, computed from the number of tokens;
    \<open>parse_never_out_of_fuel\<close> shows it is enough for every input.  \<open>Pred_Roundtrip\<close>: a
    predicate printed as text parses to itself.
  \<^item> \<open>Pred_Skip\<close>: the predicate handed to the kernel to skip files.  \<open>Pred_Semantics\<close> gives SQL's
    three-valued value of a predicate and what statistics say of a file; \<open>Pred_Skip_Sound\<close>,
    \<open>Pred_Align\<close> and \<open>Pred_Kernel\<close> show that no row the predicate selects is in a skipped file, so
    that a skipping scan refines a full one.
  \<^item> \<open>Capability\<close>: the operations, engines and table features, and the matrix between them.
    \<open>Catalog\<close>: \<open>ResolvedTable\<close> as a record and its properties, the commit tail.
  \<^item> \<open>Router_Rules\<close>: which table no engine, or no direct engine, may touch.  \<open>Router_Features\<close>:
    what a metadata change turns on, as a closure, and whom it strands.  \<open>Router\<close>: the class.
    \<open>Router_Props\<close>, \<open>Router_Advice\<close>: its promises, and what following its advice does.
  \<^item> \<open>Calendar\<close>: which files of a snapshot may hold dates a legacy rebase moves, and the bounded
    cache (64 entries) of these verdicts.  \<open>Calendar_Safe\<close>: no such file is missed, also under
    concurrent callers (\<open>call_step\<close>), through the interpretation \<open>verdicts\<close> of \<open>bounded_cache\<close>.
    \<open>Calendar_Values\<close>: the rows being written and the values being assigned.
  \<^item> \<open>Storage_Options\<close>: one spelling of each setting and the precedence of the three layers.
  \<^item> \<open>Credentials\<close>: a credential as a record, and the broker.  \<open>Cred_Cache\<close>: the vending cache;
    its callers are a step relation \<open>cred_step\<close>, one step per critical section.  \<open>Cred_Refresh\<close>:
    the slots and the thread that refreshes them, \<open>refresh_step\<close>, with an invariant over every
    reachable state.

  \<^item> \<open>engine/metadata.py\<close>.  \<open>Meta_Protocol\<close>: protocol upgrades.  \<open>Meta_Schema\<close>: a schema as a tree, the
    path to a column, ids and physical names.  \<open>Meta_Types\<close>: the check of types and names, features
    of types, widening.  \<open>Meta_Ops\<close>: columns added, dropped, renamed, widened, commented.
    \<open>Meta_Properties\<close>: properties, features, clustering, and the actions of a commit.
    \<open>Meta_Columns\<close>, \<open>Meta_Safe\<close>, \<open>Meta_Steps\<close>: what every operation keeps of a table, an invariant
    \<open>table_ok\<close>, a relation \<open>descends\<close> of a table to a later one, and, where no field carries a name of
    another table (\<open>own_names\<close>), clustering keys that lead to columns (\<open>keys_ok\<close>).  \<open>Meta_Reached\<close> takes
    the operations together as one step relation (\<open>changes\<close>, with no condition on what is added but
    that drawn UUIDs are new) and proves the invariant over every table \<open>reached\<close>, and of the keys over
    every table \<open>own_reached\<close>; \<open>Meta_Claims\<close> reads off what a user relies on.  \<open>Meta_Create\<close>: version
    zero of a table.  \<open>Meta_Commit\<close>: the optimistic commit loop (\<open>KernelEngine._commit_metadata\<close>),
    several writers and data commits interleaved; each writer gives up after \<open>pg_attempts\<close> lost races.
    The store may fail: a failed read ends a writer's commit, and so does a failed put, whose write may
    land then or later (the step \<open>late\<close>).  The store reports a conflict only where the version is there.
  \<^item> \<open>Meta_Sql_Types\<close>: a type spelled in SQL, read by recursion on shorter text.  \<open>Arrow_Types\<close>: an
    Arrow type as a Delta type and as SQL, and that the two agree for plain types.  \<open>Sql_Text\<close>: names, literals,
    properties and types as text of a statement, against \<open>read_sql\<close>, the lexical structure of the
    warehouse's SQL.  \<open>Sql_Statements\<close>: the statements of \<open>engine/sql.py\<close> that change or maintain a table,
    and that a warehouse reads the names and values of a call back from them, complete and in place.
  \<^item> \<open>Identity_Values\<close>, \<open>Identity_Runs\<close>: identity columns (\<open>engine/values.py\<close>), the blocks of values a
    commit reserves and the slots tasks draw from, as interleaved steps.

  What is not under \<open>src/\<close> is an argument: the file system and user database (\<open>host\<close>), JSON
  reading (\<open>loads\<close>), the footer check of a native snapshot, what an engine supports, the vending
  of a credential, the process environment, and the clock, which steps pass as a time.

  Not modelled: the engines themselves, which call compiled bindings, PyArrow, DuckDB or a SQL
  service, with the statements of \<open>engine/sql.py\<close> that read or write rows; the merging of a
  written schema into a table's (\<open>merge_schema\<close>); generated columns, invariants and constraints,
  which evaluate SQL in DuckDB; intervals; the Arrow row filter of a predicate; the clients of catalog services; the user-facing objects, which hold one of each
  and forward; explanatory texts of refusals, of which the model keeps the branch that builds
  them.
\<close>

end
